(* ===== verification/Rust_Prelude.thy ===== *)
theory Rust_Prelude
  imports Main "HOL-Library.Product_Lexorder" "HOL-Library.Code_Target_Nat"
begin

section \<open>Shared vocabulary of the development\<close>

text \<open>
  What every component of the model shares: \<open>Result\<close> values and the question-mark operator,
  loops that stop at the first error, the integer limits and checked arithmetic of Rust, and access
  to slices and vectors. The facts proved here are declared into \<open>simp\<close> or into the collections
  below, so that the component theories use them by name. The standard library's binary search is in
  Rust_Std, its ordered maps are in Rust_BTree and its UTF-8 strings in Rust_Str.
\<close>

named_theorems result_simps \<open>how results compose, for goals of the form ``returns Ok''\<close>
named_theorems checked_simps \<open>unfolding of the checked integer operations\<close>

subsection \<open>Results\<close>

type_synonym ('e, 'a) result = "'e + 'a"

abbreviation Err :: "'e \<Rightarrow> ('e, 'a) result" where
  "Err \<equiv> Inl"

abbreviation Ok :: "'a \<Rightarrow> ('e, 'a) result" where
  "Ok \<equiv> Inr"

definition and_then :: "('e, 'a) result \<Rightarrow> ('a \<Rightarrow> ('e, 'b) result) \<Rightarrow> ('e, 'b) result" where
  "and_then r f = (case r of Inl e \<Rightarrow> Inl e | Inr a \<Rightarrow> f a)"

lemma and_then_Err [simp]: "and_then (Err e) f = Err e"
  by (simp add: and_then_def)

lemma and_then_Ok [simp]: "and_then (Ok a) f = f a"
  by (simp add: and_then_def)

lemma and_then_eq_Ok [result_simps]:
  "and_then r f = Ok b \<longleftrightarrow> (\<exists>a. r = Ok a \<and> f a = Ok b)"
  by (cases r) auto

lemma and_then_eq_Err [result_simps]:
  "and_then r f = Err e \<longleftrightarrow> r = Err e \<or> (\<exists>a. r = Ok a \<and> f a = Err e)"
  by (cases r) auto

lemma and_then_assoc [simp]:
  "and_then (and_then r f) g = and_then r (\<lambda>x. and_then (f x) g)"
  by (cases r) auto

lemma and_then_cong [fundef_cong]:
  assumes "r = r'" and "\<And>a. r' = Ok a \<Longrightarrow> f a = f' a"
  shows "and_then r f = and_then r' f'"
  using assms by (cases r') auto

definition map_err :: "('e \<Rightarrow> 'd) \<Rightarrow> ('e, 'a) result \<Rightarrow> ('d, 'a) result" where
  "map_err g r = (case r of Inl e \<Rightarrow> Inl (g e) | Inr a \<Rightarrow> Inr a)"

lemma map_err_simps [simp]:
  "map_err g (Err e) = Err (g e)"
  "map_err g (Ok a) = Ok a"
  by (simp_all add: map_err_def)

lemma map_err_eq_Ok [result_simps]: "map_err g r = Ok a \<longleftrightarrow> r = Ok a"
  by (cases r) auto

definition ok_or :: "'e \<Rightarrow> 'a option \<Rightarrow> ('e, 'a) result" where
  "ok_or e x = (case x of None \<Rightarrow> Inl e | Some a \<Rightarrow> Inr a)"

lemma ok_or_simps [simp]:
  "ok_or e None = Err e"
  "ok_or e (Some a) = Ok a"
  by (simp_all add: ok_or_def)

lemma ok_or_eq [result_simps]:
  "ok_or e x = Ok a \<longleftrightarrow> x = Some a"
  "ok_or e x = Err d \<longleftrightarrow> x = None \<and> d = e"
  by (cases x; auto)+

definition ensure :: "bool \<Rightarrow> 'e \<Rightarrow> ('e, unit) result" where
  "ensure b e = (if b then Ok () else Err e)"

lemma ensure_simps [simp]:
  "ensure True e = Ok ()"
  "ensure False e = Err e"
  by (simp_all add: ensure_def)

lemma ensure_eq [result_simps]:
  "ensure b e = Ok u \<longleftrightarrow> b"
  "ensure b e = Err d \<longleftrightarrow> \<not> b \<and> d = e"
  by (auto simp: ensure_def)

subsection \<open>Loops that stop at the first error\<close>

fun fold_result :: "('s \<Rightarrow> 'a \<Rightarrow> ('e, 's) result) \<Rightarrow> 's \<Rightarrow> 'a list \<Rightarrow> ('e, 's) result" where
  "fold_result f s [] = Ok s"
| "fold_result f s (x # xs) = and_then (f s x) (\<lambda>t. fold_result f t xs)"

fun for_each :: "('a \<Rightarrow> ('e, unit) result) \<Rightarrow> 'a list \<Rightarrow> ('e, unit) result" where
  "for_each f [] = Ok ()"
| "for_each f (x # xs) = and_then (f x) (\<lambda>_. for_each f xs)"

lemma for_each_cong [fundef_cong]:
  assumes "xs = ys" and "\<And>x. x \<in> set ys \<Longrightarrow> f x = g x"
  shows "for_each f xs = for_each g ys"
  using assms(2) unfolding assms(1) by (induction ys) (auto intro: and_then_cong)

lemma for_each_eq_Ok [result_simps]:
  "for_each f xs = Ok u \<longleftrightarrow> (\<forall>x\<in>set xs. f x = Ok ())"
  by (induction xs) (auto simp: result_simps)

lemma for_each_eq_Err:
  "for_each f xs = Err e \<longleftrightarrow>
     (\<exists>ys x zs. xs = ys @ x # zs \<and> (\<forall>y\<in>set ys. f y = Ok ()) \<and> f x = Err e)"
proof (induction xs)
  case Nil
  then show ?case by simp
next
  case (Cons a xs)
  show ?case
  proof (cases "f a")
    case (Inl d)
    have "f a = Err e" if "a # xs = ys @ x # zs" "\<forall>y\<in>set ys. f y = Ok ()" "f x = Err e" for ys x zs
      using that Inl by (cases ys) auto
    with Inl show ?thesis
      by (auto intro: exI [of _ "[]"])
  next
    case (Inr u)
    have "(\<exists>ys x zs. a # xs = ys @ x # zs \<and> (\<forall>y\<in>set ys. f y = Ok ()) \<and> f x = Err e) \<longleftrightarrow>
      (\<exists>ys x zs. xs = ys @ x # zs \<and> (\<forall>y\<in>set ys. f y = Ok ()) \<and> f x = Err e)" (is "?l \<longleftrightarrow> ?r")
    proof
      assume ?l
      then obtain ys x zs where *: "a # xs = ys @ x # zs" "\<forall>y\<in>set ys. f y = Ok ()" "f x = Err e"
        by blast
      with Inr show ?r by (cases ys) auto
    next
      assume ?r
      then obtain ys x zs where "xs = ys @ x # zs" "\<forall>y\<in>set ys. f y = Ok ()" "f x = Err e"
        by blast
      with Inr show ?l by (intro exI [of _ "a # ys"]) auto
    qed
    with Cons Inr show ?thesis by simp
  qed
qed

lemma for_each_Err_elem: "for_each f xs = Err e \<Longrightarrow> \<exists>x\<in>set xs. f x = Err e"
  by (auto simp: for_each_eq_Err)

text \<open>A sequence of statements \<open>check?;\<close> stops at the first check that fails.\<close>

fun all_checks :: "('e, unit) result list \<Rightarrow> ('e, unit) result" where
  "all_checks [] = Ok ()"
| "all_checks (c # cs) = and_then c (\<lambda>_. all_checks cs)"

lemma all_checks_eq_Ok [result_simps]: "all_checks cs = Ok u \<longleftrightarrow> (\<forall>c\<in>set cs. c = Ok ())"
  by (induction cs) (auto simp: result_simps)

lemma all_checks_Err_elem: "all_checks cs = Err e \<Longrightarrow> Err e \<in> set cs"
  by (induction cs) (auto simp: result_simps)

text \<open>A loop that only ever appends \<open>g x\<close> to its accumulator collects the mapped list.\<close>

lemma fold_result_push:
  assumes "\<And>x acc. x \<in> set xs \<Longrightarrow> f acc x = Ok (acc @ g x)"
  shows "fold_result f acc xs = Ok (acc @ concat (map g xs))"
  using assms by (induction xs arbitrary: acc) auto

lemma fold_result_push_Ok:
  assumes "fold_result f acc xs = Ok ys" and "\<And>acc x t. f acc x = Ok t \<Longrightarrow> t = acc @ [g x]"
  shows "ys = acc @ map g xs"
  using assms(1) by (induction xs arbitrary: acc) (fastforce simp: result_simps dest!: assms(2))+

lemma fold_result_Err:
  assumes "fold_result f acc xs = Err e" and "\<And>acc x e. f acc x = Err e \<Longrightarrow> P e"
  shows "P e"
  using assms(1) by (induction xs arbitrary: acc) (auto simp: result_simps dest: assms(2))

lemma fold_result_Ok_invariant:
  assumes "fold_result f s xs = Ok t" and "P s"
    and "\<And>s x t. x \<in> set xs \<Longrightarrow> P s \<Longrightarrow> f s x = Ok t \<Longrightarrow> P t"
  shows "P t"
  using assms by (induction xs arbitrary: s) (auto simp: result_simps)

subsection \<open>Integer limits and checked arithmetic\<close>

definition u32_max :: nat where
  "u32_max = 4294967295"

definition u64_max :: nat where
  "u64_max = 18446744073709551615"

text \<open>The supported hosts are 64-bit, so \<open>usize\<close> has the range of \<open>u64\<close>.\<close>

definition usize_max :: nat where
  "usize_max = 18446744073709551615"

lemma usize_max_eq_u64_max: "usize_max = u64_max"
  by (simp add: usize_max_def u64_max_def)

definition checked_add :: "nat \<Rightarrow> nat \<Rightarrow> nat \<Rightarrow> nat option" where
  "checked_add bound a b = (if a + b \<le> bound then Some (a + b) else None)"

definition checked_mul :: "nat \<Rightarrow> nat \<Rightarrow> nat \<Rightarrow> nat option" where
  "checked_mul bound a b = (if a * b \<le> bound then Some (a * b) else None)"

definition checked_sub :: "nat \<Rightarrow> nat \<Rightarrow> nat option" where
  "checked_sub a b = (if b \<le> a then Some (a - b) else None)"

definition saturating_add :: "nat \<Rightarrow> nat \<Rightarrow> nat \<Rightarrow> nat" where
  "saturating_add bound a b = min bound (a + b)"

definition try_from :: "nat \<Rightarrow> nat \<Rightarrow> nat option" where
  "try_from bound a = (if a \<le> bound then Some a else None)"

lemma checked_eq_Some [checked_simps]:
  "checked_add bound a b = Some c \<longleftrightarrow> c = a + b \<and> a + b \<le> bound"
  "checked_mul bound a b = Some c \<longleftrightarrow> c = a * b \<and> a * b \<le> bound"
  "checked_sub a b = Some c \<longleftrightarrow> c = a - b \<and> b \<le> a"
  "try_from bound a = Some c \<longleftrightarrow> c = a \<and> a \<le> bound"
  by (auto simp: checked_add_def checked_mul_def checked_sub_def try_from_def)

lemma checked_eq_None [checked_simps]:
  "checked_add bound a b = None \<longleftrightarrow> bound < a + b"
  "checked_mul bound a b = None \<longleftrightarrow> bound < a * b"
  "checked_sub a b = None \<longleftrightarrow> a < b"
  "try_from bound a = None \<longleftrightarrow> bound < a"
  by (auto simp: checked_add_def checked_mul_def checked_sub_def try_from_def)

subsection \<open>Slices\<close>

definition slice_get :: "'a list \<Rightarrow> nat \<Rightarrow> 'a option" where
  "slice_get xs i = (if i < length xs then Some (xs ! i) else None)"

lemma slice_get_eq [result_simps]:
  "slice_get xs i = Some x \<longleftrightarrow> i < length xs \<and> xs ! i = x"
  "slice_get xs i = None \<longleftrightarrow> length xs \<le> i"
  by (auto simp: slice_get_def)

end
