(* ===== verification/Array_Shape.thy ===== *)
theory Array_Shape
  imports Rust_Prelude
begin

section \<open>Canonical shapes and column-major offsets (openmat-array/src/shape.rs)\<close>

text \<open>
  The shape of a dense array: canonical dimensions, column-major strides and the element count,
  all in checked 64-bit arithmetic. The constructor pads a shape to rank two and drops trailing
  singletons, the subscript functions translate between one-based subscripts, one-based linear
  indices and zero-based offsets.
\<close>

subsection \<open>Errors (openmat-array/src/error.rs)\<close>

datatype ArrayError =
    SizeOverflow nat nat nat
  | OffsetOverflow
  | HostLengthOverflow nat
  | DataLengthMismatch nat nat
  | NoSubscripts
  | IndexOutOfBounds nat nat nat
  | LinearIndexOutOfBounds nat nat
  | ZeroRangeStep
  | RangeLengthOverflow

subsection \<open>Construction\<close>

record Shape =
  dimensions :: "nat list"
  strides :: "nat list"
  numel :: nat

definition pad_dimensions :: "nat list \<Rightarrow> nat list" where
  "pad_dimensions ds =
     (if length ds = 0 then ds @ [1, 1] else if length ds = 1 then ds @ [1] else ds)"

function drop_trailing_singletons :: "nat list \<Rightarrow> nat list" where
  "drop_trailing_singletons ds =
     (if 2 < length ds \<and> last ds = 1 then drop_trailing_singletons (butlast ds) else ds)"
  by pat_completeness auto
termination
  by (relation "measure length") auto

declare drop_trailing_singletons.simps [simp del]

fun stride_loop :: "nat \<Rightarrow> nat \<Rightarrow> nat list \<Rightarrow> nat list \<Rightarrow> (ArrayError, nat list \<times> nat) result" where
  "stride_loop dimension cumulative acc [] = Ok (acc, cumulative)"
| "stride_loop dimension cumulative acc (e # rest) =
     (case checked_mul u64_max cumulative e of
        None \<Rightarrow> Err (SizeOverflow dimension cumulative e)
      | Some next \<Rightarrow> stride_loop (Suc dimension) next (acc @ [cumulative]) rest)"

definition shape_new :: "nat list \<Rightarrow> (ArrayError, Shape) result" where
  "shape_new ds =
     (let dims = drop_trailing_singletons (pad_dimensions ds) in
      and_then (stride_loop 0 1 [] dims) (\<lambda>(strs, n).
        Ok \<lparr>dimensions = dims, strides = strs, numel = n\<rparr>))"

definition ndims :: "Shape \<Rightarrow> nat" where
  "ndims s = length (dimensions s)"

definition shape_is_empty :: "Shape \<Rightarrow> bool" where
  "shape_is_empty s \<longleftrightarrow> numel s = 0"

definition shape_extent :: "Shape \<Rightarrow> nat \<Rightarrow> nat" where
  "shape_extent s d = (case slice_get (dimensions s) d of None \<Rightarrow> 1 | Some n \<Rightarrow> n)"

definition shape_stride :: "Shape \<Rightarrow> nat \<Rightarrow> nat" where
  "shape_stride s d = (case slice_get (strides s) d of None \<Rightarrow> numel s | Some n \<Rightarrow> n)"

subsection \<open>Subscripts\<close>

fun collapse_loop :: "nat \<Rightarrow> nat \<Rightarrow> nat list \<Rightarrow> (ArrayError, nat) result" where
  "collapse_loop dimension collapsed [] = Ok collapsed"
| "collapse_loop dimension collapsed (e # rest) =
     (case checked_mul u64_max collapsed e of
        None \<Rightarrow> Err (SizeOverflow dimension collapsed e)
      | Some next \<Rightarrow> collapse_loop (Suc dimension) next rest)"

definition effective_dimensions :: "Shape \<Rightarrow> nat \<Rightarrow> (ArrayError, nat list) result" where
  "effective_dimensions s count =
     (if count = 0 then Err NoSubscripts
      else if count = 1 then Ok [numel s]
      else if count < ndims s then
        and_then (collapse_loop (count - 1) 1 (drop (count - 1) (dimensions s))) (\<lambda>collapsed.
          Ok (take (count - 1) (dimensions s) @ [collapsed]))
      else Ok (dimensions s @ replicate (count - ndims s) 1))"

definition linear_offset :: "Shape \<Rightarrow> nat \<Rightarrow> (ArrayError, nat) result" where
  "linear_offset s index =
     (if index = 0 \<or> numel s < index then Err (LinearIndexOutOfBounds index (numel s))
      else Ok (index - 1))"

fun offset_loop :: "nat \<Rightarrow> nat \<Rightarrow> nat \<Rightarrow> (nat \<times> nat) list \<Rightarrow> (ArrayError, nat) result" where
  "offset_loop dimension str off [] = Ok off"
| "offset_loop dimension str off ((index, e) # rest) =
     (if index = 0 \<or> e < index then Err (IndexOutOfBounds dimension index e)
      else
        and_then (ok_or OffsetOverflow (checked_mul u64_max (index - 1) str)) (\<lambda>contribution.
        and_then (ok_or OffsetOverflow (checked_add u64_max off contribution)) (\<lambda>off'.
        and_then (ok_or OffsetOverflow (checked_mul u64_max str e)) (\<lambda>str'.
          offset_loop (Suc dimension) str' off' rest))))"

definition offset_for_subscripts :: "Shape \<Rightarrow> nat list \<Rightarrow> (ArrayError, nat) result" where
  "offset_for_subscripts s subs =
     (if length subs = 1 then linear_offset s (subs ! 0)
      else and_then (effective_dimensions s (length subs)) (\<lambda>dims.
        offset_loop 0 1 0 (zip subs dims)))"

definition linear_index_for_subscripts :: "Shape \<Rightarrow> nat list \<Rightarrow> (ArrayError, nat) result" where
  "linear_index_for_subscripts s subs =
     and_then (offset_for_subscripts s subs) (\<lambda>off.
       ok_or OffsetOverflow (checked_add u64_max off 1))"

fun subscript_loop :: "nat \<Rightarrow> nat list \<Rightarrow> nat list" where
  "subscript_loop off [] = []"
| "subscript_loop off (e # rest) = (off mod e + 1) # subscript_loop (off div e) rest"

definition subscripts_for_linear_index :: "Shape \<Rightarrow> nat \<Rightarrow> nat \<Rightarrow> (ArrayError, nat list) result" where
  "subscripts_for_linear_index s index count =
     and_then (linear_offset s index) (\<lambda>off.
     and_then (effective_dimensions s count) (\<lambda>dims.
       Ok (subscript_loop off dims)))"

subsection \<open>Canonical form\<close>

text \<open>The prefix products of a dimension list are its column-major strides.\<close>

definition prefix_product :: "nat list \<Rightarrow> nat \<Rightarrow> nat" where
  "prefix_product ds i = prod_list (take i ds)"

lemma prefix_product_0 [simp]: "prefix_product ds 0 = 1"
  by (simp add: prefix_product_def)

lemma prefix_product_Cons_Suc [simp]:
  "prefix_product (d # ds) (Suc i) = d * prefix_product ds i"
  by (simp add: prefix_product_def)

lemma prefix_product_all [simp]: "length ds \<le> i \<Longrightarrow> prefix_product ds i = prod_list ds"
  by (simp add: prefix_product_def)

lemma prefix_product_Suc:
  "i < length ds \<Longrightarrow> prefix_product ds (Suc i) = prefix_product ds i * ds ! i"
  by (simp add: prefix_product_def take_Suc_conv_app_nth)

definition wf_shape :: "Shape \<Rightarrow> bool" where
  "wf_shape s \<longleftrightarrow>
     2 \<le> length (dimensions s) \<and>
     (2 < length (dimensions s) \<longrightarrow> last (dimensions s) \<noteq> 1) \<and>
     strides s = map (prefix_product (dimensions s)) [0..<length (dimensions s)] \<and>
     numel s = prod_list (dimensions s) \<and>
     (\<forall>i\<le>length (dimensions s). prefix_product (dimensions s) i \<le> u64_max)"

lemma drop_trailing_singletons_append:
  "\<exists>k. ds = drop_trailing_singletons ds @ replicate k 1"
proof (induction ds rule: drop_trailing_singletons.induct)
  case (1 ds)
  show ?case
  proof (cases "2 < length ds \<and> last ds = 1")
    case True
    then have ne: "ds \<noteq> []" by auto
    from 1 True obtain k where "butlast ds = drop_trailing_singletons (butlast ds) @ replicate k 1"
      by blast
    then have "butlast ds @ [last ds] =
        drop_trailing_singletons (butlast ds) @ replicate (Suc k) 1"
      using True by (metis append.assoc replicate_append_same replicate_Suc)
    with ne True show ?thesis
      by (metis append_butlast_last_id drop_trailing_singletons.simps)
  next
    case False
    then have "drop_trailing_singletons ds = ds"
      by (subst drop_trailing_singletons.simps) auto
    then show ?thesis by (intro exI [of _ 0]) simp
  qed
qed

lemma drop_trailing_singletons_canonical:
  assumes "2 \<le> length ds"
  shows "2 \<le> length (drop_trailing_singletons ds) \<and>
    (2 < length (drop_trailing_singletons ds) \<longrightarrow> last (drop_trailing_singletons ds) \<noteq> 1)"
  using assms
proof (induction ds rule: drop_trailing_singletons.induct)
  case (1 ds)
  show ?case
  proof (cases "2 < length ds \<and> last ds = 1")
    case True
    then have "2 \<le> length (butlast ds)" by auto
    with 1 True show ?thesis by (subst (1 2 3) drop_trailing_singletons.simps) simp
  next
    case False
    then have "drop_trailing_singletons ds = ds"
      by (subst drop_trailing_singletons.simps) auto
    with 1 False show ?thesis by auto
  qed
qed

lemma pad_dimensions_append: "\<exists>k. pad_dimensions ds = ds @ replicate k 1"
proof (cases ds)
  case Nil
  then show ?thesis
    by (simp add: pad_dimensions_def) (metis One_nat_def numeral_2_eq_2 replicate_0 replicate_Suc)
next
  case (Cons a list)
  show ?thesis
  proof (cases list)
    case Nil
    with Cons show ?thesis
      by (simp add: pad_dimensions_def) (metis replicate_0 replicate_Suc)
  next
    case (Cons b rest)
    with \<open>ds = a # list\<close> show ?thesis by (simp add: pad_dimensions_def)
  qed
qed

lemma length_pad_dimensions [simp]: "2 \<le> length (pad_dimensions ds)"
  by (cases ds) (auto simp: pad_dimensions_def Suc_le_eq)

lemma prefix_product_append_ones:
  "prefix_product (ds @ replicate k 1) i = prefix_product ds i"
  "prefix_product (ds @ replicate k (Suc 0)) i = prefix_product ds i"
  by (simp_all add: prefix_product_def)

text \<open>Canonicalisation changes no prefix product: it only adds and removes trailing ones.\<close>

definition canonical_dimensions :: "nat list \<Rightarrow> nat list" where
  "canonical_dimensions ds = drop_trailing_singletons (pad_dimensions ds)"

lemma canonical_prefix_product:
  "prefix_product (canonical_dimensions ds) i = prefix_product ds i"
proof -
  obtain k where k: "pad_dimensions ds = canonical_dimensions ds @ replicate k 1"
    unfolding canonical_dimensions_def using drop_trailing_singletons_append by blast
  obtain j where j: "pad_dimensions ds = ds @ replicate j 1"
    using pad_dimensions_append by blast
  have "prefix_product (canonical_dimensions ds) i = prefix_product (pad_dimensions ds) i"
    unfolding k by (simp only: prefix_product_append_ones)
  also have "\<dots> = prefix_product ds i"
    unfolding j by (simp only: prefix_product_append_ones)
  finally show ?thesis .
qed

lemma canonical_prod_list: "prod_list (canonical_dimensions ds) = prod_list ds"
  using canonical_prefix_product [of ds "length ds + length (canonical_dimensions ds)"] by simp

lemma canonical_dimensions_wf:
  "2 \<le> length (canonical_dimensions ds) \<and>
   (2 < length (canonical_dimensions ds) \<longrightarrow> last (canonical_dimensions ds) \<noteq> 1)"
  unfolding canonical_dimensions_def by (rule drop_trailing_singletons_canonical) simp

text \<open>
  The stride loop succeeds exactly when no prefix product overflows; otherwise it stops at the
  first dimension whose product does.
\<close>

lemma stride_loop_Ok:
  assumes "\<forall>i\<le>length ds. c * prefix_product ds i \<le> u64_max"
  shows "stride_loop d c acc ds =
    Ok (acc @ map (\<lambda>i. c * prefix_product ds i) [0..<length ds], c * prod_list ds)"
  using assms
proof (induction ds arbitrary: d c acc)
  case Nil
  then show ?case by simp
next
  case (Cons e ds)
  have "c * e \<le> u64_max"
    using Cons.prems [rule_format, of 1] by (simp add: prefix_product_def)
  moreover have "\<forall>i\<le>length ds. (c * e) * prefix_product ds i \<le> u64_max"
  proof (intro allI impI)
    fix i assume "i \<le> length ds"
    then show "(c * e) * prefix_product ds i \<le> u64_max"
      using Cons.prems [rule_format, of "Suc i"] by (simp add: mult.assoc)
  qed
  moreover have "map (\<lambda>i. c * prefix_product (e # ds) i) [0..<length (e # ds)] =
      c # map (\<lambda>i. (c * e) * prefix_product ds i) [0..<length ds]"
    by (simp add: map_upt_Suc mult.assoc del: upt_Suc)
  ultimately show ?case
    using Cons.IH [of "c * e"] by (simp add: checked_mul_def mult.assoc)
qed

lemma stride_loop_Err:
  "stride_loop d c acc ds = Err e \<longleftrightarrow>
     (\<exists>k<length ds. (\<forall>i. 0 < i \<and> i \<le> k \<longrightarrow> c * prefix_product ds i \<le> u64_max) \<and>
        u64_max < c * prefix_product ds (Suc k) \<and>
        e = SizeOverflow (d + k) (c * prefix_product ds k) (ds ! k))"
proof (induction ds arbitrary: d c acc)
  case Nil
  then show ?case by simp
next
  case (Cons a ds)
  show ?case
  proof (cases "c * a \<le> u64_max")
    case False
    have none: "(\<forall>i. 0 < i \<and> i \<le> Suc k \<longrightarrow> c * prefix_product (a # ds) i \<le> u64_max) = False" for k
      using False by (auto simp: prefix_product_def intro: exI [of _ 1])
    from False show ?thesis
      by (simp add: checked_mul_def Ex_less_Suc2 none) (auto simp: not_le)
  next
    case True
    have split: "(\<forall>i. 0 < i \<and> i \<le> Suc k \<longrightarrow> c * prefix_product (a # ds) i \<le> u64_max) \<longleftrightarrow>
        (\<forall>i. 0 < i \<and> i \<le> k \<longrightarrow> c * a * prefix_product ds i \<le> u64_max)" for k
    proof
      assume l: "\<forall>i. 0 < i \<and> i \<le> Suc k \<longrightarrow> c * prefix_product (a # ds) i \<le> u64_max"
      show "\<forall>i. 0 < i \<and> i \<le> k \<longrightarrow> c * a * prefix_product ds i \<le> u64_max"
        using l [rule_format, of "Suc _"] by (auto simp: mult.assoc)
    next
      assume r: "\<forall>i. 0 < i \<and> i \<le> k \<longrightarrow> c * a * prefix_product ds i \<le> u64_max"
      show "\<forall>i. 0 < i \<and> i \<le> Suc k \<longrightarrow> c * prefix_product (a # ds) i \<le> u64_max"
      proof (intro allI impI)
        fix i assume "0 < i \<and> i \<le> Suc k"
        then show "c * prefix_product (a # ds) i \<le> u64_max"
          using r True by (cases i; cases "i = 1") (auto simp: mult.assoc)
      qed
    qed
    from True show ?thesis
      by (simp add: Cons.IH checked_mul_def Ex_less_Suc2 split mult.assoc del: split_paired_Ex)
  qed
qed

lemma shape_new_eq:
  "shape_new ds = and_then (stride_loop 0 1 [] (canonical_dimensions ds)) (\<lambda>(strs, n).
     Ok \<lparr>dimensions = canonical_dimensions ds, strides = strs, numel = n\<rparr>)"
  by (simp add: shape_new_def canonical_dimensions_def Let_def)

lemma stride_loop_canonical_Ok:
  assumes "\<forall>i\<le>length ds. prefix_product ds i \<le> u64_max"
  shows "stride_loop 0 1 [] (canonical_dimensions ds) =
    Ok (map (prefix_product (canonical_dimensions ds)) [0..<length (canonical_dimensions ds)],
        prod_list ds)"
proof -
  have "prefix_product ds i \<le> u64_max" for i
    using assms by (cases "i \<le> length ds") auto
  then have "\<forall>i\<le>length (canonical_dimensions ds).
      1 * prefix_product (canonical_dimensions ds) i \<le> u64_max"
    by (simp add: canonical_prefix_product)
  from stride_loop_Ok [OF this, of 0 "[]"] show ?thesis
    by (simp add: canonical_prod_list fun_eq_iff)
qed

lemma shape_new_Ok_iff:
  "shape_new ds = Ok s \<longleftrightarrow>
     (\<forall>i\<le>length ds. prefix_product ds i \<le> u64_max) \<and>
     s = \<lparr>dimensions = canonical_dimensions ds,
          strides = map (prefix_product (canonical_dimensions ds)) [0..<length (canonical_dimensions ds)],
          numel = prod_list ds\<rparr>"
proof (cases "\<forall>i\<le>length ds. prefix_product ds i \<le> u64_max")
  case True
  then show ?thesis
    unfolding shape_new_eq stride_loop_canonical_Ok [OF True] by auto
next
  case False
  then obtain i where i: "u64_max < prefix_product ds i" by (auto simp: not_le)
  let ?P = "\<lambda>j. u64_max < prefix_product (canonical_dimensions ds) j"
  define k where "k = (LEAST j. ?P j)"
  have Pk: "?P k" unfolding k_def by (rule LeastI [of ?P i]) (simp add: i canonical_prefix_product)
  have least: "\<not> ?P j" if "j < k" for j using that unfolding k_def by (rule not_less_Least)
  have k0: "k \<noteq> 0" using Pk by (auto simp: u64_max_def intro: ccontr)
  have kl: "k \<le> length (canonical_dimensions ds)"
  proof (rule ccontr)
    assume "\<not> k \<le> length (canonical_dimensions ds)"
    then have "\<not> ?P (length (canonical_dimensions ds))" by (intro least) simp
    with Pk \<open>\<not> k \<le> _\<close> show False by simp
  qed
  from k0 obtain m where m: "k = Suc m" by (cases k) auto
  have "\<exists>e. stride_loop 0 1 [] (canonical_dimensions ds) = Err e"
    unfolding stride_loop_Err using kl Pk least m by (auto simp: not_less intro!: exI [of _ m])
  with False show ?thesis by (auto simp: shape_new_eq)
qed

lemma shape_new_wf: "shape_new ds = Ok s \<Longrightarrow> wf_shape s"
proof -
  assume "shape_new ds = Ok s"
  then have bound: "\<forall>i\<le>length ds. prefix_product ds i \<le> u64_max"
    and s: "dimensions s = canonical_dimensions ds" "numel s = prod_list ds"
      "strides s = map (prefix_product (canonical_dimensions ds)) [0..<length (canonical_dimensions ds)]"
    by (auto simp: shape_new_Ok_iff)
  have "prefix_product ds i \<le> u64_max" for i
    using bound by (cases "i \<le> length ds") auto
  then show ?thesis
    using canonical_dimensions_wf [of ds]
    by (simp add: wf_shape_def s canonical_prod_list canonical_prefix_product)
qed

subsection \<open>Offsets as mixed-radix numbers\<close>

text \<open>
  The specification of column-major addressing: a tuple of one-based subscripts is the number
  with digits \<open>i - 1\<close> in the mixed radix of the extents, least significant digit first.
\<close>

fun radix_offset :: "nat list \<Rightarrow> nat list \<Rightarrow> nat" where
  "radix_offset (i # is) (e # es) = (i - 1) + e * radix_offset is es"
| "radix_offset _ _ = 0"

definition subscripts_in :: "nat list \<Rightarrow> nat list \<Rightarrow> bool" where
  "subscripts_in is es \<longleftrightarrow> list_all2 (\<lambda>i e. 1 \<le> i \<and> i \<le> e) is es"

lemma subscripts_in_simps [simp]:
  "subscripts_in [] [] = True"
  "subscripts_in [] (e # es) = False"
  "subscripts_in (i # is) [] = False"
  "subscripts_in (i # is) (e # es) \<longleftrightarrow> 1 \<le> i \<and> i \<le> e \<and> subscripts_in is es"
  by (simp_all add: subscripts_in_def)

lemma subscripts_in_length: "subscripts_in is es \<Longrightarrow> length is = length es"
  by (auto simp: subscripts_in_def dest: list_all2_lengthD)

lemma radix_offset_less: "subscripts_in is es \<Longrightarrow> radix_offset is es < prod_list es"
proof (induction "is" es rule: radix_offset.induct)
  case (1 i "is" e es)
  then have "radix_offset is es + 1 \<le> prod_list es" and ie: "1 \<le> i" "i \<le> e" by auto
  then have "e * (radix_offset is es + 1) \<le> e * prod_list es" by (intro mult_le_mono2)
  with ie show ?case by (simp add: algebra_simps)
qed (auto simp: subscripts_in_def list_all2_Cons2 list_all2_Cons1)

lemma subscripts_in_prod_pos: "subscripts_in is es \<Longrightarrow> 0 < prod_list es"
  using radix_offset_less by fastforce

lemma subscript_loop_length [simp]: "length (subscript_loop off es) = length es"
  by (induction es arbitrary: off) auto

lemma subscript_loop_in:
  "0 < prod_list es \<Longrightarrow> subscripts_in (subscript_loop off es) es"
  by (induction es arbitrary: off) (auto simp: Suc_le_eq)

lemma radix_offset_subscript_loop:
  "off < prod_list es \<Longrightarrow> radix_offset (subscript_loop off es) es = off"
proof (induction es arbitrary: off)
  case Nil
  then show ?case by simp
next
  case (Cons e es)
  then have "0 < e" by (auto intro: ccontr)
  with Cons.prems have "off div e < prod_list es"
    by (simp add: less_mult_imp_div_less mult.commute)
  then show ?case by (simp add: Cons.IH)
qed

lemma subscript_loop_radix_offset:
  "subscripts_in is es \<Longrightarrow> subscript_loop (radix_offset is es) es = is"
proof (induction "is" es rule: radix_offset.induct)
  case (1 i "is" e es)
  then obtain j where "i = Suc j" "j < e" by (cases i) auto
  with 1 show ?case by simp
qed (auto simp: subscripts_in_def list_all2_Cons2 list_all2_Cons1)

text \<open>Adding one digit keeps the partial offset below the next stride.\<close>

lemma radix_digit_step:
  assumes "off < str" and "1 \<le> i" and "i \<le> (e :: nat)"
  shows "off + (i - 1) * str < str * e"
proof -
  from assms(2) obtain j where j: "i = Suc j" by (cases i) auto
  have "off + j * str < Suc j * str" using assms(1) by simp
  also have "\<dots> \<le> e * str" using assms(3) j by (intro mult_le_mono1) simp
  finally show ?thesis using j by (simp add: mult.commute)
qed

lemma offset_loop_step:
  assumes "off < str" and "1 \<le> i" and "i \<le> e" and "str * e \<le> u64_max"
  shows "offset_loop d str off ((i, e) # xs) =
    offset_loop (Suc d) (str * e) (off + (i - 1) * str) xs"
proof -
  have "off + (i - 1) * str < str * e" using assms(1-3) by (rule radix_digit_step)
  with assms(4) have "off + (i - 1) * str \<le> u64_max" and "(i - 1) * str \<le> u64_max" by linarith+
  with assms show ?thesis by (simp add: checked_add_def checked_mul_def)
qed

text \<open>
  The checked loop of \<open>offset_for_subscripts\<close> computes exactly that number. The bound on the
  prefix products is what a well-formed shape guarantees; it makes the three checked operations
  succeed for every subscript the bounds test lets through.
\<close>

lemma offset_loop_valid:
  assumes "subscripts_in is es" and "str * prod_list es \<le> u64_max" and "off < str"
  shows "offset_loop d str off (zip is es) = Ok (off + str * radix_offset is es)"
  using assms
proof (induction "is" es arbitrary: d str off rule: radix_offset.induct)
  case (1 i "is" e es)
  then have i: "1 \<le> i" "i \<le> e" and rest: "subscripts_in is es" by auto
  from rest have p: "1 \<le> prod_list es" using subscripts_in_prod_pos by (simp add: Suc_le_eq)
  have "str * e * 1 \<le> str * e * prod_list es" using p by (rule mult_le_mono2)
  also have "\<dots> \<le> u64_max" using "1.prems"(2) by (simp add: mult.assoc)
  finally have se: "str * e \<le> u64_max" by simp
  have "off + (i - 1) * str < str * e"
    using "1.prems"(3) i by (rule radix_digit_step)
  then have "offset_loop (Suc d) (str * e) (off + (i - 1) * str) (zip is es) =
      Ok (off + (i - 1) * str + str * e * radix_offset is es)"
    using "1.prems" rest by (intro "1.IH") (auto simp: mult.assoc)
  moreover have "off + (i - 1) * str + str * e * radix_offset is es =
      off + str * radix_offset (i # is) (e # es)"
    by (simp add: distrib_left mult.assoc mult.commute [of "i - 1"])
  ultimately show ?case
    using offset_loop_step [OF "1.prems"(3) i se] by simp
qed auto

lemma offset_loop_invalid:
  assumes "length is = length es" and "\<not> subscripts_in is es"
    and "\<forall>n\<le>length es. str * prefix_product es n \<le> u64_max" and "off < str"
  shows "\<exists>k<length es. offset_loop d str off (zip is es) =
      Err (IndexOutOfBounds (d + k) (is ! k) (es ! k)) \<and> \<not> (1 \<le> is ! k \<and> is ! k \<le> es ! k)"
  using assms
proof (induction "is" es arbitrary: d str off rule: radix_offset.induct)
  case (1 i "is" e es)
  show ?case
  proof (cases "1 \<le> i \<and> i \<le> e")
    case False
    then show ?thesis by (intro exI [of _ 0]) (auto simp: not_le Suc_le_eq)
  next
    case True
    then have i: "1 \<le> i" "i \<le> e" by auto
    have bound: "str * e * prefix_product es n \<le> u64_max" if "n \<le> length es" for n
      using "1.prems"(3) [rule_format, of "Suc n"] that by (simp add: mult.assoc)
    from bound [of 0] have se: "str * e \<le> u64_max" by simp
    have sum: "off + (i - 1) * str < str * e"
      using "1.prems"(4) i by (rule radix_digit_step)
    have "\<exists>k<length es. offset_loop (Suc d) (str * e) (off + (i - 1) * str) (zip is es) =
        Err (IndexOutOfBounds (Suc d + k) (is ! k) (es ! k)) \<and>
        \<not> (1 \<le> is ! k \<and> is ! k \<le> es ! k)"
      using "1.prems" True bound sum by (intro "1.IH") auto
    then obtain k where k: "k < length es" "\<not> (1 \<le> is ! k \<and> is ! k \<le> es ! k)"
      "offset_loop (Suc d) (str * e) (off + (i - 1) * str) (zip is es) =
        Err (IndexOutOfBounds (Suc d + k) (is ! k) (es ! k))" by blast
    then have "offset_loop d str off (zip (i # is) (e # es)) =
        Err (IndexOutOfBounds (Suc d + k) (is ! k) (es ! k))"
      using offset_loop_step [OF "1.prems"(4) i se] by simp
    with k show ?thesis by (intro exI [of _ "Suc k"]) auto
  qed
qed auto

lemma collapse_loop_Ok: "collapse_loop d c ds = Ok n \<Longrightarrow> n = c * prod_list ds"
proof (induction ds arbitrary: d c)
  case (Cons a ds)
  then have "collapse_loop (Suc d) (c * a) ds = Ok n"
    by (auto simp: checked_simps split: option.splits)
  then have "n = c * a * prod_list ds" by (rule Cons.IH)
  then show ?case by (simp add: mult.assoc)
qed simp

lemma collapse_loop_Err: "collapse_loop d c ds = Err x \<Longrightarrow> \<exists>k p e. x = SizeOverflow k p e"
  by (induction ds arbitrary: d c) (auto split: option.splits)

lemma prod_list_take_drop: "prod_list (take m ds) * prod_list (drop m ds) = prod_list (ds :: nat list)"
  by (metis append_take_drop_id prod_list.append)

lemma prefix_product_take_append:
  "prefix_product (take m ds @ [prod_list (drop m ds)]) n =
     (if n \<le> m then prefix_product ds n else prod_list ds)"
proof (cases "n \<le> m")
  case True
  then show ?thesis
    by (cases "n \<le> length ds") (auto simp: prefix_product_def min_def)
next
  case False
  then have "take n (take m ds @ [prod_list (drop m ds)]) = take m ds @ [prod_list (drop m ds)]"
    by auto
  with False show ?thesis by (simp add: prefix_product_def prod_list_take_drop)
qed

text \<open>
  However many subscripts an indexing expression has, the dimensions it sees multiply to the
  element count, and their prefix products stay representable.
\<close>

lemma effective_dimensions_facts:
  assumes wf: "wf_shape s" and eff: "effective_dimensions s n = Ok es"
  shows "length es = n" and "prod_list es = numel s"
    and "\<forall>k\<le>length es. prefix_product es k \<le> u64_max"
proof -
  from wf have num: "numel s = prod_list (dimensions s)" by (simp add: wf_shape_def)
  have all: "prefix_product (dimensions s) k \<le> u64_max" for k
    using wf by (cases "k \<le> length (dimensions s)") (auto simp: wf_shape_def)
  have tot: "prod_list (dimensions s) \<le> u64_max"
    using all [of "length (dimensions s)"] by simp
  from eff consider (one) "n = 1" "es = [numel s]"
    | (few) "1 < n" "n < ndims s"
        "es = take (n - 1) (dimensions s) @ [prod_list (drop (n - 1) (dimensions s))]"
    | (many) "1 < n" "ndims s \<le> n" "es = dimensions s @ replicate (n - ndims s) 1"
    by (auto simp: effective_dimensions_def result_simps dest!: collapse_loop_Ok split: if_splits)
  then have "length es = n \<and> prod_list es = numel s \<and> (\<forall>k. prefix_product es k \<le> u64_max)"
  proof cases
    case one
    then show ?thesis
      using tot num by (auto simp: prefix_product_def u64_max_def take_Cons split: nat.splits)
  next
    case few
    then show ?thesis
      using num all tot
      by (auto simp: ndims_def prefix_product_take_append prod_list_take_drop)
  next
    case many
    then show ?thesis
      using num all by (auto simp: ndims_def prefix_product_append_ones)
  qed
  then show "length es = n" and "prod_list es = numel s"
    and "\<forall>k\<le>length es. prefix_product es k \<le> u64_max" by auto
qed

lemma effective_dimensions_Err:
  "effective_dimensions s n = Err x \<Longrightarrow> (n = 0 \<and> x = NoSubscripts) \<or> (\<exists>k p e. x = SizeOverflow k p e)"
  by (auto simp: effective_dimensions_def result_simps dest: collapse_loop_Err split: if_splits)

lemma effective_dimensions_one: "effective_dimensions s 1 = Ok [numel s]"
  by (simp add: effective_dimensions_def)

lemma offset_for_subscripts_Ok_iff:
  assumes wf: "wf_shape s"
  shows "offset_for_subscripts s is = Ok off \<longleftrightarrow>
    (\<exists>es. effective_dimensions s (length is) = Ok es \<and> subscripts_in is es \<and>
          off = radix_offset is es)"
proof (cases "length is = 1")
  case True
  then obtain i where "is = [i]" by (cases "is") auto
  then show ?thesis
    by (auto simp: offset_for_subscripts_def linear_offset_def effective_dimensions_def)
next
  case False
  show ?thesis
  proof (cases "effective_dimensions s (length is)")
    case (Inl e)
    with False show ?thesis by (simp add: offset_for_subscripts_def)
  next
    case (Inr es)
    note facts = effective_dimensions_facts [OF wf Inr]
    show ?thesis
    proof (cases "subscripts_in is es")
      case True
      have "offset_loop 0 1 0 (zip is es) = Ok (0 + 1 * radix_offset is es)"
        using True facts by (intro offset_loop_valid) (auto dest: spec [of _ "length es"])
      with True False Inr show ?thesis by (auto simp: offset_for_subscripts_def)
    next
      case invalid: False
      obtain x where "offset_loop 0 1 0 (zip is es) = Err x"
        using offset_loop_invalid [OF facts(1) [symmetric] invalid, of 1 0 0] facts(3) by auto
      with invalid False Inr show ?thesis by (auto simp: offset_for_subscripts_def)
    qed
  qed
qed

lemma offset_for_subscripts_less:
  assumes "wf_shape s" and "offset_for_subscripts s is = Ok off"
  shows "off < numel s"
  using assms effective_dimensions_facts(2) radix_offset_less
  by (fastforce simp: offset_for_subscripts_Ok_iff)

lemma linear_offset_Ok_iff:
  "linear_offset s i = Ok off \<longleftrightarrow> 1 \<le> i \<and> i \<le> numel s \<and> off = i - 1"
  by (auto simp: linear_offset_def)

lemma wf_shape_numel_bound: "wf_shape s \<Longrightarrow> numel s \<le> u64_max"
  unfolding wf_shape_def by (metis le_refl prefix_product_all)

subsection \<open>Properties\<close>

text \<open>
  constructing a shape succeeds only with a canonical one: rank at least two, no trailing
  singleton beyond the second dimension, strides equal to the prefix products, an element count
  equal to the product of the requested dimensions and every prefix product within 64 bits; and
  the dimensions are the requested ones up to trailing ones.
\<close>

theorem shape_new_canonical:
  assumes "shape_new ds = Ok s"
  shows "wf_shape s \<and> numel s = prod_list ds \<and>
    (\<exists>j k. ds @ replicate j 1 = dimensions s @ replicate k 1)"
proof -
  from assms have dims: "dimensions s = canonical_dimensions ds" and num: "numel s = prod_list ds"
    by (auto simp: shape_new_Ok_iff)
  obtain j where "pad_dimensions ds = ds @ replicate j 1" using pad_dimensions_append by blast
  moreover obtain k where "pad_dimensions ds = canonical_dimensions ds @ replicate k 1"
    unfolding canonical_dimensions_def using drop_trailing_singletons_append by blast
  ultimately have "ds @ replicate j 1 = dimensions s @ replicate k 1" using dims by simp
  with shape_new_wf [OF assms] num show ?thesis by blast
qed

theorem shape_new_canonical_witness:
  "\<exists>s. shape_new [2, 3, 1, 1] = Ok s \<and> wf_shape s \<and> numel s = prod_list [2, 3, 1, 1] \<and>
     (\<exists>j k. [2, 3, 1, 1] @ replicate j 1 = dimensions s @ replicate k 1)"
proof -
  have "shape_new [2, 3, 1, 1] = Ok \<lparr>dimensions = [2, 3], strides = [1, 2], numel = 6\<rparr>"
    by code_simp
  from this shape_new_canonical [OF this] show ?thesis by blast
qed

text \<open>A concrete array shape for the witnesses below: two by three by four.\<close>

definition shape_234 :: Shape where
  "shape_234 = \<lparr>dimensions = [2, 3, 4], strides = [1, 2, 6], numel = 24\<rparr>"

lemma shape_234_wf: "wf_shape shape_234"
  by (rule shape_new_wf [of "[2, 3, 4]"]) code_simp

lemma one_le_u64_max [simp]: "1 \<le> u64_max"
  by (simp add: u64_max_def)

text \<open>A dimension whose product overflows is a requested one, in the same position.\<close>

lemma canonical_overflow_position:
  assumes "prefix_product ds k \<le> u64_max" and "u64_max < prefix_product ds (Suc k)"
  shows "k < length ds \<and> k < length (canonical_dimensions ds) \<and> canonical_dimensions ds ! k = ds ! k"
proof -
  obtain j where j: "pad_dimensions ds = ds @ replicate j 1" using pad_dimensions_append by blast
  obtain m where m: "pad_dimensions ds = canonical_dimensions ds @ replicate m 1"
    unfolding canonical_dimensions_def using drop_trailing_singletons_append by blast
  have grow: "k < length xs" if "prefix_product xs k < prefix_product xs (Suc k)" for xs
    using that by (cases "k < length xs") auto
  from assms have "prefix_product ds k < prefix_product ds (Suc k)" by simp
  moreover from this have "prefix_product (canonical_dimensions ds) k <
      prefix_product (canonical_dimensions ds) (Suc k)"
    by (simp only: canonical_prefix_product)
  ultimately have k: "k < length ds" "k < length (canonical_dimensions ds)" using grow by auto
  then have "(ds @ replicate j 1) ! k = (canonical_dimensions ds @ replicate m 1) ! k"
    using j m by simp
  with k show ?thesis by (simp add: nth_append)
qed

text \<open>
  A shape is refused exactly when some prefix product of the requested dimensions does not
  fit 64 bits, and the error names the first dimension where that happens, the product before it
  and its extent.
\<close>

theorem shape_new_overflow:
  "shape_new ds = Err e \<longleftrightarrow>
     (\<exists>k<length ds. (\<forall>i\<le>k. prefix_product ds i \<le> u64_max) \<and>
        u64_max < prefix_product ds (Suc k) \<and>
        e = SizeOverflow k (prefix_product ds k) (ds ! k))"
proof -
  let ?cs = "canonical_dimensions ds"
  have "shape_new ds = Err e \<longleftrightarrow> stride_loop 0 1 [] ?cs = Err e"
    unfolding shape_new_eq and_then_eq_Err by auto
  also have "\<dots> \<longleftrightarrow>
      (\<exists>k<length ?cs. (\<forall>i. 0 < i \<and> i \<le> k \<longrightarrow> 1 * prefix_product ?cs i \<le> u64_max) \<and>
        u64_max < 1 * prefix_product ?cs (Suc k) \<and>
        e = SizeOverflow (0 + k) (1 * prefix_product ?cs k) (?cs ! k))"
    by (rule stride_loop_Err)
  also have "\<dots> \<longleftrightarrow> (\<exists>k<length ?cs. (\<forall>i\<le>k. prefix_product ds i \<le> u64_max) \<and>
        u64_max < prefix_product ds (Suc k) \<and>
        e = SizeOverflow k (prefix_product ds k) (?cs ! k))"
    by (simp add: canonical_prefix_product) (metis le_0_eq less_nat_zero_code not_gr0
      one_le_u64_max prefix_product_0)
  also have "\<dots> \<longleftrightarrow> (\<exists>k<length ds. (\<forall>i\<le>k. prefix_product ds i \<le> u64_max) \<and>
        u64_max < prefix_product ds (Suc k) \<and>
        e = SizeOverflow k (prefix_product ds k) (ds ! k))"
    using canonical_overflow_position [of ds] by (metis le_refl)
  finally show ?thesis .
qed

theorem shape_new_overflow_witness:
  "shape_new [2, 9223372036854775808, 5] = Err (SizeOverflow 1 2 9223372036854775808)"
proof -
  let ?ds = "[2, 9223372036854775808, 5] :: nat list"
  have "\<forall>i\<le>1. prefix_product ?ds i \<le> u64_max"
    by (simp add: prefix_product_def u64_max_def le_Suc_eq)
  moreover have "u64_max < prefix_product ?ds (Suc 1)" by (simp add: prefix_product_def u64_max_def)
  moreover have "SizeOverflow 1 2 9223372036854775808 = SizeOverflow 1 (prefix_product ?ds 1) (?ds ! 1)"
    by (simp add: prefix_product_def)
  moreover have "1 < length ?ds" by simp
  ultimately show ?thesis unfolding shape_new_overflow by blast
qed

text \<open>
  on a well-formed shape, \<open>offset_for_subscripts\<close> returns an offset exactly when the
  subscripts lie in the effective dimensions, and the offset is their mixed-radix value, which
  lies below the element count.
\<close>

theorem offset_for_subscripts_correct:
  assumes "wf_shape s"
  shows "(offset_for_subscripts s is = Ok off \<longleftrightarrow>
      (\<exists>es. effective_dimensions s (length is) = Ok es \<and> subscripts_in is es \<and>
            off = radix_offset is es)) \<and>
    (offset_for_subscripts s is = Ok off \<longrightarrow> off < numel s)"
  using offset_for_subscripts_Ok_iff [OF assms] offset_for_subscripts_less [OF assms] by blast

theorem offset_for_subscripts_correct_witness:
  "wf_shape shape_234 \<and> offset_for_subscripts shape_234 [2, 11] = Ok 21 \<and> (21 :: nat) < numel shape_234"
proof -
  have "offset_for_subscripts shape_234 [2, 11] = Ok 21" by code_simp
  with offset_for_subscripts_correct [OF shape_234_wf, of "[2, 11]" 21] shape_234_wf
  show ?thesis by blast
qed

text \<open>
  C18: translating subscripts to a linear index and back are inverse to each other, for every
  number of subscripts: a linear index has exactly one tuple of \<open>n\<close> subscripts.
\<close>

theorem subscripts_linear_index_roundtrip:
  assumes wf: "wf_shape s" and n: "length is = n"
  shows "linear_index_for_subscripts s is = Ok i \<longleftrightarrow> subscripts_for_linear_index s i n = Ok is"
proof (cases "effective_dimensions s n")
  case (Inl e)
  then show ?thesis
    using offset_for_subscripts_Ok_iff [OF wf] n
    by (auto simp: linear_index_for_subscripts_def subscripts_for_linear_index_def result_simps)
next
  case (Inr es)
  note facts = effective_dimensions_facts [OF wf Inr]
  have bound: "numel s \<le> u64_max" using wf by (rule wf_shape_numel_bound)
  have "linear_index_for_subscripts s is = Ok i \<longleftrightarrow>
      subscripts_in is es \<and> i = radix_offset is es + 1"
    using n Inr bound offset_for_subscripts_Ok_iff [OF wf, of "is"] radix_offset_less [of "is" es] facts
    by (auto simp: linear_index_for_subscripts_def result_simps checked_simps)
  also have "\<dots> \<longleftrightarrow> 1 \<le> i \<and> i \<le> numel s \<and> is = subscript_loop (i - 1) es"
    using facts radix_offset_less [of "is" es] subscript_loop_radix_offset [of "is" es]
      subscript_loop_in [of es "i - 1"] radix_offset_subscript_loop [of "i - 1" es]
    by (auto simp: Suc_le_eq)
  also have "\<dots> \<longleftrightarrow> subscripts_for_linear_index s i n = Ok is"
    using Inr by (auto simp: subscripts_for_linear_index_def result_simps linear_offset_Ok_iff)
  finally show ?thesis .
qed

theorem subscripts_linear_index_roundtrip_witness:
  "linear_index_for_subscripts shape_234 [2, 1, 4] = Ok 20 \<and>
   subscripts_for_linear_index shape_234 20 3 = Ok [2, 1, 4]"
proof -
  have "linear_index_for_subscripts shape_234 [2, 1, 4] = Ok 20" by code_simp
  moreover have "length [2, 1, 4 :: nat] = 3" by simp
  ultimately show ?thesis
    using subscripts_linear_index_roundtrip [OF shape_234_wf, of "[2, 1, 4]" 3 20] by simp
qed

text \<open>
  on a well-formed shape the checked offset arithmetic never overflows: a failing subscript
  translation reports missing subscripts, a collapsed extent that does not fit, or the first
  subscript outside its extent, never \<open>OffsetOverflow\<close>.
\<close>

theorem linear_index_for_subscripts_errors:
  assumes wf: "wf_shape s" and err: "linear_index_for_subscripts s is = Err e"
  shows "(is = [] \<and> e = NoSubscripts) \<or>
    (\<exists>k p x. e = SizeOverflow k p x \<and> length is < ndims s) \<or>
    (\<exists>i. is = [i] \<and> e = LinearIndexOutOfBounds i (numel s) \<and> (i = 0 \<or> numel s < i)) \<or>
    (\<exists>k es. effective_dimensions s (length is) = Ok es \<and> k < length is \<and>
       e = IndexOutOfBounds k (is ! k) (es ! k) \<and> (is ! k = 0 \<or> es ! k < is ! k))"
proof (cases "offset_for_subscripts s is")
  case (Inr off)
  then have "off < numel s" using wf by (rule offset_for_subscripts_less [rotated])
  with wf_shape_numel_bound [OF wf] Inr err show ?thesis
    by (auto simp: linear_index_for_subscripts_def result_simps checked_simps)
next
  case (Inl x)
  with err have x: "x = e" by (simp add: linear_index_for_subscripts_def)
  show ?thesis
  proof (cases "length is = 1")
    case True
    then obtain i where "is = [i]" by (cases "is") auto
    with Inl x show ?thesis
      by (auto simp: offset_for_subscripts_def linear_offset_def split: if_splits)
  next
    case False
    show ?thesis
    proof (cases "effective_dimensions s (length is)")
      case eff: (Inl y)
      with Inl x False have "y = e" by (simp add: offset_for_subscripts_def)
      with effective_dimensions_Err [OF eff] eff show ?thesis
        by (auto simp: effective_dimensions_def split: if_splits)
    next
      case eff: (Inr es)
      note facts = effective_dimensions_facts [OF wf eff]
      have loop: "offset_loop 0 1 0 (zip is es) = Err e"
        using Inl x False eff by (simp add: offset_for_subscripts_def)
      have "\<not> subscripts_in is es"
        using loop offset_for_subscripts_Ok_iff [OF wf, of "is"] eff Inl by auto
      from offset_loop_invalid [OF facts(1) [symmetric] this, of 1 0 0] facts(3) loop facts(1) eff
      show ?thesis by (auto simp: not_le Suc_le_eq)
    qed
  qed
qed

theorem linear_index_for_subscripts_errors_witness:
  "\<exists>k es. linear_index_for_subscripts shape_234 [2, 4, 1] = Err (IndexOutOfBounds k ([2, 4, 1] ! k) (es ! k)) \<and>
     effective_dimensions shape_234 3 = Ok es \<and> k < 3"
proof -
  have *: "linear_index_for_subscripts shape_234 [2, 4, 1] = Err (IndexOutOfBounds 1 4 3)"
    by code_simp
  from linear_index_for_subscripts_errors [OF shape_234_wf *] show ?thesis
    unfolding * by (auto simp: numeral_3_eq_3)
qed

end
