(* ===== verification/Array_Index.thy ===== *)
theory Array_Index
  imports Array_Shape
begin

section \<open>Index ranges and selections (openmat-array/src/index.rs)\<close>

text \<open>
  One-based, inclusive index ranges with a signed step, and their resolution against the extent
  of a dimension. Starts, stops and lengths are 64-bit unsigned, the step is a 64-bit signed
  integer, positions are computed in 128-bit signed arithmetic and converted back.
\<close>

definition i64_min :: int where
  "i64_min = - 9223372036854775808"

definition i64_max :: int where
  "i64_max = 9223372036854775807"

record IndexRange =
  range_start :: nat
  range_step :: int
  range_stop :: nat

definition index_range_new :: "nat \<Rightarrow> int \<Rightarrow> nat \<Rightarrow> (ArrayError, IndexRange) result" where
  "index_range_new first increment final =
     (if increment = 0 then Err ZeroRangeStep
      else Ok \<lparr>range_start = first, range_step = increment, range_stop = final\<rparr>)"

text \<open>\<open>i64::unsigned_abs\<close> is exact for every value, the minimum included.\<close>

definition unsigned_abs :: "int \<Rightarrow> nat" where
  "unsigned_abs i = nat \<bar>i\<bar>"

definition checked_div :: "nat \<Rightarrow> nat \<Rightarrow> nat option" where
  "checked_div a b = (if b = 0 then None else Some (a div b))"

definition index_range_len :: "IndexRange \<Rightarrow> (ArrayError, nat) result" where
  "index_range_len r =
     (let count = (\<lambda>distance.
        ok_or RangeLengthOverflow
          (Option.bind (checked_div distance (unsigned_abs (range_step r))) (\<lambda>steps.
             checked_add u64_max steps 1)))
      in if 0 < range_step r then
           (if range_stop r < range_start r then Ok 0 else count (range_stop r - range_start r))
         else
           (if range_start r < range_stop r then Ok 0 else count (range_start r - range_stop r)))"

definition index_range_is_empty :: "IndexRange \<Rightarrow> (ArrayError, bool) result" where
  "index_range_is_empty r = and_then (index_range_len r) (\<lambda>len. Ok (len = 0))"

datatype IndexSelection = Colon | Scalar nat | Range IndexRange

record ResolvedIndex =
  resolved_first :: nat
  resolved_step :: int
  resolved_len :: nat

definition validate_endpoint :: "nat \<Rightarrow> nat \<Rightarrow> (ArrayError, unit) result" where
  "validate_endpoint index ext =
     (if index = 0 \<or> ext < index then Err (IndexOutOfBounds 0 index ext) else Ok ())"

definition range_value :: "nat \<Rightarrow> int \<Rightarrow> nat \<Rightarrow> nat option" where
  "range_value f st position =
     (let value = int f + st * int position in
      if 0 \<le> value \<and> value \<le> int u64_max then Some (nat value) else None)"

definition resolve :: "IndexSelection \<Rightarrow> nat \<Rightarrow> (ArrayError, ResolvedIndex) result" where
  "resolve sel ext =
     (case sel of
        Colon \<Rightarrow> Ok \<lparr>resolved_first = 1, resolved_step = 1, resolved_len = ext\<rparr>
      | Scalar index \<Rightarrow>
          and_then (validate_endpoint index ext) (\<lambda>_.
            Ok \<lparr>resolved_first = index, resolved_step = 1, resolved_len = 1\<rparr>)
      | Range r \<Rightarrow>
          and_then (index_range_len r) (\<lambda>n.
            if n = 0 then Ok \<lparr>resolved_first = range_start r, resolved_step = range_step r, resolved_len = n\<rparr>
            else
              and_then (ok_or OffsetOverflow (range_value (range_start r) (range_step r) (n - 1))) (\<lambda>final.
              and_then (validate_endpoint (range_start r) ext) (\<lambda>_.
              and_then (validate_endpoint final ext) (\<lambda>_.
                Ok \<lparr>resolved_first = range_start r, resolved_step = range_step r, resolved_len = n\<rparr>)))))"

definition resolved_is_empty :: "ResolvedIndex \<Rightarrow> bool" where
  "resolved_is_empty r \<longleftrightarrow> resolved_len r = 0"

definition resolved_get :: "ResolvedIndex \<Rightarrow> nat \<Rightarrow> nat option" where
  "resolved_get r position =
     (if resolved_len r \<le> position then None else range_value (resolved_first r) (resolved_step r) position)"

text \<open>The iterator: a cursor that yields the index at its position and moves on.\<close>

record ResolvedIndices =
  resolved :: ResolvedIndex
  cursor :: nat

definition resolved_iter :: "ResolvedIndex \<Rightarrow> ResolvedIndices" where
  "resolved_iter r = \<lparr>resolved = r, cursor = 0\<rparr>"

definition resolved_next :: "ResolvedIndices \<Rightarrow> nat option \<times> ResolvedIndices" where
  "resolved_next it =
     (case resolved_get (resolved it) (cursor it) of
        None \<Rightarrow> (None, it)
      | Some value \<Rightarrow> (Some value, it\<lparr>cursor := cursor it + 1\<rparr>))"

text \<open>Draining the iterator, as a \<open>for\<close> loop or \<open>collect\<close> does: until it yields nothing.\<close>

fun resolved_collect :: "nat \<Rightarrow> ResolvedIndices \<Rightarrow> nat list option" where
  "resolved_collect 0 it = None"
| "resolved_collect (Suc fuel) it =
     (case resolved_next it of
        (None, _) \<Rightarrow> Some []
      | (Some value, it') \<Rightarrow> map_option (\<lambda>vs. value # vs) (resolved_collect fuel it'))"

subsection \<open>What a range denotes\<close>

text \<open>
  The specification: the indices of \<open>start:step:stop\<close> are the terms of the arithmetic
  progression from \<open>start\<close> by \<open>step\<close> that have not passed \<open>stop\<close>.
\<close>

definition range_term :: "IndexRange \<Rightarrow> nat \<Rightarrow> int" where
  "range_term r k = int (range_start r) + range_step r * int k"

definition range_in :: "IndexRange \<Rightarrow> nat \<Rightarrow> bool" where
  "range_in r k \<longleftrightarrow>
     (if 0 < range_step r then range_term r k \<le> int (range_stop r) else int (range_stop r) \<le> range_term r k)"

definition wf_range :: "IndexRange \<Rightarrow> bool" where
  "wf_range r \<longleftrightarrow> range_step r \<noteq> 0 \<and> range_start r \<le> u64_max \<and> range_stop r \<le> u64_max \<and>
     i64_min \<le> range_step r \<and> range_step r \<le> i64_max"

lemma div_count:
  assumes "0 < (b :: nat)"
  shows "k < a div b + 1 \<longleftrightarrow> b * k \<le> a"
  using assms by (metis Suc_eq_plus1 less_Suc_eq_le less_eq_div_iff_mult_less_eq mult.commute)

lemma range_in_count:
  assumes "range_step r \<noteq> 0" and "index_range_len r = Ok n"
  shows "k < n \<longleftrightarrow> range_in r k"
proof (cases "0 < range_step r")
  case True
  define b where "b = nat (range_step r)"
  have b: "range_step r = int b" "0 < b" using True by (auto simp: b_def)
  show ?thesis
  proof (cases "range_stop r < range_start r")
    case up: True
    have "int (range_stop r) < int (range_start r) + int b * int k" using up
      by (metis add.right_neutral add_mono_thms_linordered_field(3) of_nat_0_le_iff of_nat_less_iff
        of_nat_mult)
    with True up assms(2) b show ?thesis
      by (auto simp: index_range_len_def range_in_def range_term_def)
  next
    case False
    with assms(2) True b have n: "n = (range_stop r - range_start r) div b + 1"
      by (auto simp: index_range_len_def checked_div_def unsigned_abs_def result_simps checked_simps
        Option.bind_eq_Some_conv split: if_splits)
    have "k < n \<longleftrightarrow> b * k \<le> range_stop r - range_start r" unfolding n using b(2) by (rule div_count)
    also have "\<dots> \<longleftrightarrow> range_start r + b * k \<le> range_stop r" using False by auto
    also have "\<dots> \<longleftrightarrow> range_in r k" using True b
      by (simp add: range_in_def range_term_def flip: of_nat_mult of_nat_add)
    finally show ?thesis .
  qed
next
  case neg: False
  define b where "b = nat (- range_step r)"
  have b: "range_step r = - int b" "0 < b" using neg assms(1) by (auto simp: b_def)
  show ?thesis
  proof (cases "range_start r < range_stop r")
    case up: True
    have "0 \<le> int b * int k" by simp
    with up have "\<not> int (range_stop r) \<le> int (range_start r) - int b * int k" by linarith
    with neg up assms(2) b show ?thesis
      by (auto simp: index_range_len_def range_in_def range_term_def)
  next
    case False
    with assms(2) neg b have n: "n = (range_start r - range_stop r) div b + 1"
      by (auto simp: index_range_len_def checked_div_def unsigned_abs_def result_simps checked_simps
        Option.bind_eq_Some_conv split: if_splits)
    have "k < n \<longleftrightarrow> b * k \<le> range_start r - range_stop r" unfolding n using b(2) by (rule div_count)
    also have "\<dots> \<longleftrightarrow> range_stop r + b * k \<le> range_start r" using False by auto
    also have "\<dots> \<longleftrightarrow> int (range_stop r) + int b * int k \<le> int (range_start r)"
      by (simp flip: of_nat_mult of_nat_add)
    also have "\<dots> \<longleftrightarrow> range_in r k" using neg b
      by (auto simp: range_in_def range_term_def algebra_simps)
    finally show ?thesis .
  qed
qed

lemma range_in_0:
  "range_in r 0 \<longleftrightarrow> (if 0 < range_step r then range_start r \<le> range_stop r else range_stop r \<le> range_start r)"
  by (simp add: range_in_def range_term_def)

lemma index_range_len_Err_iff:
  assumes "wf_range r"
  shows "index_range_len r = Err e \<longleftrightarrow>
    e = RangeLengthOverflow \<and> \<bar>range_step r\<bar> = 1 \<and> range_in r 0 \<and>
    (if 0 < range_step r then range_start r = 0 \<and> range_stop r = u64_max
     else range_start r = u64_max \<and> range_stop r = 0)"
proof -
  have key: "u64_max < d div b + 1 \<longleftrightarrow> b = 1 \<and> d = u64_max" if "0 < b" "d \<le> u64_max" for d b :: nat
  proof (cases "b = 1")
    case False
    with that have "d div b \<le> d div 2" by (intro div_le_mono2) auto
    with that False show ?thesis by (auto simp: u64_max_def)
  qed (use that in auto)
  have abs: "0 < unsigned_abs (range_step r)" "unsigned_abs (range_step r) = 1 \<longleftrightarrow> \<bar>range_step r\<bar> = 1"
    using assms by (auto simp: unsigned_abs_def wf_range_def)
  show ?thesis
    using assms abs key [OF abs(1), of "range_stop r - range_start r"]
      key [OF abs(1), of "range_start r - range_stop r"]
    by (auto simp: index_range_len_def range_in_0 checked_div_def result_simps checked_simps wf_range_def
      Let_def Option.bind_eq_None_conv u64_max_def split: if_splits)
qed

text \<open>Every term of a range lies between its endpoints, so within 64 bits.\<close>

lemma range_in_bounds:
  assumes "range_in r k"
  shows "min (range_start r) (range_stop r) \<le> nat (range_term r k) \<and>
    nat (range_term r k) \<le> max (range_start r) (range_stop r) \<and> 0 \<le> range_term r k"
proof (cases "0 < range_step r")
  case True
  then have "int (range_start r) \<le> range_term r k" by (simp add: range_term_def)
  moreover have "range_term r k \<le> int (range_stop r)" using assms True by (simp add: range_in_def)
  ultimately show ?thesis by linarith
next
  case False
  then have "range_step r * int k \<le> 0" by (simp add: mult_nonpos_nonneg)
  then have "range_term r k \<le> int (range_start r)" by (simp add: range_term_def)
  moreover have "int (range_stop r) \<le> range_term r k" using assms False by (simp add: range_in_def)
  ultimately show ?thesis by linarith
qed

lemma range_value_in:
  assumes "wf_range r" and "range_in r k"
  shows "range_value (range_start r) (range_step r) k = Some (nat (range_term r k))"
  using range_in_bounds [OF assms(2)] assms(1)
  by (auto simp: range_value_def range_term_def wf_range_def Let_def max_def split: if_splits)

text \<open>A middle term lies between the first and the last one.\<close>

lemma range_term_between:
  assumes "k \<le> m"
  shows "min (range_term r 0) (range_term r m) \<le> range_term r k \<and>
    range_term r k \<le> max (range_term r 0) (range_term r m)"
proof (cases "0 \<le> range_step r")
  case True
  then have "0 \<le> range_step r * int k" "range_step r * int k \<le> range_step r * int m"
    using assms by (auto intro: mult_left_mono)
  then show ?thesis by (auto simp: range_term_def)
next
  case False
  then have "range_step r * int k \<le> 0" "range_step r * int m \<le> range_step r * int k"
    using assms by (auto intro: mult_left_mono_neg mult_nonpos_nonneg)
  then show ?thesis by (auto simp: range_term_def)
qed

definition range_within :: "IndexRange \<Rightarrow> nat \<Rightarrow> bool" where
  "range_within r ext \<longleftrightarrow> (\<forall>k. range_in r k \<longrightarrow> 1 \<le> range_term r k \<and> range_term r k \<le> int ext)"

lemma resolve_Range_Ok_iff:
  assumes wf: "wf_range r" and ext: "ext \<le> u64_max"
  shows "resolve (Range r) ext = Ok ri \<longleftrightarrow>
    (\<exists>n. index_range_len r = Ok n \<and> range_within r ext \<and>
       ri = \<lparr>resolved_first = range_start r, resolved_step = range_step r, resolved_len = n\<rparr>)"
proof (cases "index_range_len r")
  case (Inl e)
  then show ?thesis by (simp add: resolve_def)
next
  case (Inr n)
  have nz: "range_step r \<noteq> 0" using wf by (simp add: wf_range_def)
  note count = range_in_count [OF nz Inr]
  show ?thesis
  proof (cases "n = 0")
    case True
    with count have "range_within r ext" by (auto simp: range_within_def)
    with True Inr show ?thesis by (auto simp: resolve_def)
  next
    case False
    then have last: "range_in r (n - 1)" and zero: "range_in r 0"
      using count [of 0] count [of "n - 1"] by simp_all
    have start0: "range_term r 0 = int (range_start r)" by (simp add: range_term_def)
    have val: "range_value (range_start r) (range_step r) (n - 1) = Some (nat (range_term r (n - 1)))"
      using wf last by (rule range_value_in)
    have "range_within r ext \<longleftrightarrow>
        1 \<le> range_start r \<and> range_start r \<le> ext \<and>
        1 \<le> nat (range_term r (n - 1)) \<and> nat (range_term r (n - 1)) \<le> ext" (is "_ \<longleftrightarrow> ?ends")
    proof
      assume "range_within r ext"
      then have "\<And>k. range_in r k \<Longrightarrow> 1 \<le> range_term r k \<and> range_term r k \<le> int ext"
        by (simp add: range_within_def)
      from this [OF zero] this [OF last] show ?ends
        unfolding start0 by linarith
    next
      assume ends: ?ends
      show "range_within r ext"
        unfolding range_within_def
      proof (intro allI impI)
        fix k assume "range_in r k"
        then have "k \<le> n - 1" using count [of k] by simp
        from range_term_between [OF this, of r] ends
        show "1 \<le> range_term r k \<and> range_term r k \<le> int ext"
          unfolding start0 by linarith
      qed
    qed
    with False Inr val show ?thesis
      by (auto simp: resolve_def validate_endpoint_def result_simps not_less Suc_le_eq
        split: if_splits)
  qed
qed

text \<open>Draining an iterator whose positions all have a value takes one step per value.\<close>

lemma resolved_collect_eq:
  assumes "\<forall>p<resolved_len r. resolved_get r p = Some (f p)" and "resolved_len r - p < fuel"
  shows "resolved_collect fuel \<lparr>resolved = r, cursor = p\<rparr> = Some (map f [p..<resolved_len r])"
  using assms(2)
proof (induction fuel arbitrary: p)
  case 0
  then show ?case by simp
next
  case (Suc fuel)
  show ?case
  proof (cases "p < resolved_len r")
    case True
    with Suc.prems have "resolved_collect fuel \<lparr>resolved = r, cursor = Suc p\<rparr> =
        Some (map f [Suc p..<resolved_len r])" by (intro Suc.IH) simp
    with True assms(1) show ?thesis by (simp add: resolved_next_def upt_conv_Cons)
  next
    case False
    then show ?thesis by (simp add: resolved_next_def resolved_get_def)
  qed
qed

subsection \<open>Properties\<close>

text \<open>
  the length of a well-formed range is the number of terms that have not passed its stop, and
  it is refused exactly for the two unit-step ranges over all 64-bit values, whose length is the
  one number a 64-bit unsigned integer cannot hold.
\<close>

theorem index_range_len_counts:
  assumes "wf_range r"
  shows "(case index_range_len r of
      Inr n \<Rightarrow> \<forall>k. k < n \<longleftrightarrow> range_in r k
    | Inl e \<Rightarrow> e = RangeLengthOverflow \<and>
        ((range_step r = 1 \<and> range_start r = 0 \<and> range_stop r = u64_max) \<or>
         (range_step r = -1 \<and> range_start r = u64_max \<and> range_stop r = 0)))"
proof (cases "index_range_len r")
  case (Inl e)
  with index_range_len_Err_iff [OF assms, of e] show ?thesis by (auto split: if_splits)
next
  case (Inr n)
  from assms have "range_step r \<noteq> 0" by (simp add: wf_range_def)
  from range_in_count [OF this Inr] Inr show ?thesis by simp
qed

theorem index_range_len_counts_witness:
  "wf_range \<lparr>range_start = 9, range_step = - 3, range_stop = 2\<rparr> \<and>
   index_range_len \<lparr>range_start = 9, range_step = - 3, range_stop = 2\<rparr> = Ok 3 \<and>
   range_in \<lparr>range_start = 9, range_step = - 3, range_stop = 2\<rparr> 2 \<and>
   \<not> range_in \<lparr>range_start = 9, range_step = - 3, range_stop = 2\<rparr> 3"
proof -
  let ?r = "\<lparr>range_start = 9, range_step = - 3, range_stop = 2\<rparr>"
  have wf: "wf_range ?r" by code_simp
  have len: "index_range_len ?r = Ok 3" by code_simp
  from index_range_len_counts [OF wf] len have all: "\<forall>k. k < 3 \<longleftrightarrow> range_in ?r k" by simp
  from all [rule_format, of 2] all [rule_format, of 3] wf len show ?thesis by simp
qed

text \<open>
  resolving a range against an extent succeeds exactly when every index the range denotes lies
  in \<open>1..extent\<close> (an empty range always does), whatever its endpoints are.
\<close>

theorem resolve_range_iff_within:
  assumes wf: "wf_range r" and ext: "ext \<le> u64_max"
  shows "(\<exists>ri. resolve (Range r) ext = Ok ri) \<longleftrightarrow>
    (\<forall>k. range_in r k \<longrightarrow> 1 \<le> range_term r k \<and> range_term r k \<le> int ext)"
proof (cases "index_range_len r")
  case (Inr n)
  then show ?thesis
    using resolve_Range_Ok_iff [OF wf ext] by (auto simp: range_within_def)
next
  case (Inl e)
  then have zero: "range_in r 0" and "\<exists>k. range_in r k \<and> range_term r k < 1"
    using index_range_len_Err_iff [OF wf, of e]
    by (auto simp: range_in_def range_term_def u64_max_def split: if_splits)
  with Inl show ?thesis by (fastforce simp: resolve_def)
qed

theorem resolve_range_iff_within_witness:
  "(18446744073709551615 :: nat) \<le> u64_max \<and>
   (\<exists>ri. resolve (Range \<lparr>range_start = 1, range_step = 3, range_stop = 9\<rparr>) 18446744073709551615 = Ok ri)"
proof -
  let ?r = "\<lparr>range_start = 1, range_step = 3, range_stop = 9\<rparr>"
  have wf: "wf_range ?r" by code_simp
  have ext: "(18446744073709551615 :: nat) \<le> u64_max" by (simp add: u64_max_def)
  have "\<forall>k. range_in ?r k \<longrightarrow> 1 \<le> range_term ?r k \<and> range_term ?r k \<le> int 18446744073709551615"
    by (auto simp: range_in_def range_term_def)
  with resolve_range_iff_within [OF wf ext] ext show ?thesis by blast
qed

text \<open>The index sequence a selection denotes over a dimension of the given extent.\<close>

definition selection_denotes :: "IndexSelection \<Rightarrow> nat \<Rightarrow> nat list \<Rightarrow> bool" where
  "selection_denotes sel ext is \<longleftrightarrow>
     (case sel of
        Colon \<Rightarrow> is = [1..<Suc ext]
      | Scalar i \<Rightarrow> is = [i]
      | Range r \<Rightarrow> \<forall>k. (k < length is \<longleftrightarrow> range_in r k) \<and> (range_in r k \<longrightarrow> int (is ! k) = range_term r k))"

definition wf_selection :: "IndexSelection \<Rightarrow> bool" where
  "wf_selection sel \<longleftrightarrow> (case sel of Range r \<Rightarrow> wf_range r | _ \<Rightarrow> True)"

lemma resolved_get_unit_step:
  "f + n \<le> Suc u64_max \<Longrightarrow> p < n \<Longrightarrow>
   resolved_get \<lparr>resolved_first = f, resolved_step = 1, resolved_len = n\<rparr> p = Some (f + p)"
  by (auto simp: resolved_get_def range_value_def Let_def nat_add_distrib)

lemma resolve_denotes:
  assumes wf: "wf_selection sel" and ext: "ext \<le> u64_max" and res: "resolve sel ext = Ok ri"
  shows "\<exists>f. (\<forall>p<resolved_len ri. resolved_get ri p = Some (f p) \<and> 1 \<le> f p \<and> f p \<le> ext) \<and>
    selection_denotes sel ext (map f [0..<resolved_len ri])"
proof (cases sel)
  case Colon
  with res have ri: "ri = \<lparr>resolved_first = 1, resolved_step = 1, resolved_len = ext\<rparr>"
    by (simp add: resolve_def)
  with ext Colon show ?thesis
    by (intro exI [of _ Suc]) (auto simp: resolved_get_unit_step selection_denotes_def map_Suc_upt)
next
  case (Scalar i)
  with res have ri: "ri = \<lparr>resolved_first = i, resolved_step = 1, resolved_len = 1\<rparr>"
    and i: "1 \<le> i" "i \<le> ext"
    by (auto simp: resolve_def validate_endpoint_def split: if_splits)
  with ext Scalar show ?thesis
    by (intro exI [of _ "\<lambda>_. i"]) (auto simp: resolved_get_unit_step selection_denotes_def)
next
  case (Range r)
  with wf have wfr: "wf_range r" by (simp add: wf_selection_def)
  with res Range ext obtain n where len: "index_range_len r = Ok n" and within: "range_within r ext"
    and ri: "ri = \<lparr>resolved_first = range_start r, resolved_step = range_step r, resolved_len = n\<rparr>"
    using resolve_Range_Ok_iff by blast
  from wfr have nz: "range_step r \<noteq> 0" by (simp add: wf_range_def)
  note count = range_in_count [OF nz len]
  have in_k: "resolved_get ri p = Some (nat (range_term r p)) \<and> 1 \<le> range_term r p \<and>
      range_term r p \<le> int ext" if "p < n" for p
  proof -
    from that have "range_in r p" using count [of p] by simp
    with range_value_in [OF wfr this] within that show ?thesis
      by (simp add: resolved_get_def ri range_within_def)
  qed
  have "(k < length (map (\<lambda>k. nat (range_term r k)) [0..<n]) \<longleftrightarrow> range_in r k) \<and>
      (range_in r k \<longrightarrow> int (map (\<lambda>k. nat (range_term r k)) [0..<n] ! k) = range_term r k)" for k
    using count [of k] in_k [of k] by auto
  then have den: "selection_denotes sel ext (map (\<lambda>k. nat (range_term r k)) [0..<n])"
    unfolding selection_denotes_def Range IndexSelection.case by blast
  have get: "resolved_get ri p = Some (nat (range_term r p)) \<and> 1 \<le> nat (range_term r p) \<and>
      nat (range_term r p) \<le> ext" if "p < n" for p
    using in_k [OF that] by (simp add: Suc_le_eq nat_le_iff)
  have "resolved_len ri = n" by (simp add: ri)
  with get den show ?thesis
    by (intro exI [of _ "\<lambda>k. nat (range_term r k)"] conjI) simp_all
qed

text \<open>
  C21: a selection that resolves against an extent yields, when its iterator is drained, exactly
  the indices the selection denotes, in order, and every one of them lies in \<open>1..extent\<close>;
  draining stops after one step per index.
\<close>

theorem resolved_iteration_in_bounds:
  assumes "wf_selection sel" and "ext \<le> u64_max" and "resolve sel ext = Ok ri"
  shows "\<exists>is. resolved_collect (Suc (resolved_len ri)) (resolved_iter ri) = Some is \<and>
    selection_denotes sel ext is \<and> (\<forall>i\<in>set is. 1 \<le> i \<and> i \<le> ext)"
proof -
  from resolve_denotes [OF assms] obtain f
    where f: "\<forall>p<resolved_len ri. resolved_get ri p = Some (f p) \<and> 1 \<le> f p \<and> f p \<le> ext"
      and den: "selection_denotes sel ext (map f [0..<resolved_len ri])" by blast
  have "resolved_collect (Suc (resolved_len ri)) (resolved_iter ri) =
      Some (map f [0..<resolved_len ri])"
    unfolding resolved_iter_def using f by (intro resolved_collect_eq) auto
  with f den show ?thesis by auto
qed

theorem resolved_iteration_in_bounds_witness:
  "\<exists>is. resolved_collect 4 (resolved_iter
       \<lparr>resolved_first = 9, resolved_step = - 3, resolved_len = 3\<rparr>) = Some is \<and>
     selection_denotes (Range \<lparr>range_start = 9, range_step = - 3, range_stop = 2\<rparr>) 9 is"
proof -
  have "wf_selection (Range \<lparr>range_start = 9, range_step = - 3, range_stop = 2\<rparr>)" by code_simp
  moreover have "(9 :: nat) \<le> u64_max" by (simp add: u64_max_def)
  moreover have "resolve (Range \<lparr>range_start = 9, range_step = - 3, range_stop = 2\<rparr>) 9 =
      Ok \<lparr>resolved_first = 9, resolved_step = - 3, resolved_len = 3\<rparr>" by code_simp
  ultimately show ?thesis
    using resolved_iteration_in_bounds by fastforce
qed

end
