(* ===== verification/Array_Dense.thy ===== *)
theory Array_Dense
  imports Array_Shape
begin

section \<open>Dense arrays with copy-on-write storage (openmat-array/src/dense.rs)\<close>

text \<open>
  An array is a shape and a shared buffer. Buffers live on a heap of reference-counted cells, as
  \<open>Arc\<close> keeps them: cloning an array shares its cell, and the first mutable access to an array
  whose cell has other owners moves that array to a fresh copy. The theory shows that programs
  over such arrays behave as if every array owned its buffer.
\<close>

subsection \<open>Reference-counted cells\<close>

record 'a arc_heap =
  cells :: "nat \<Rightarrow> (nat \<times> 'a list) option"
  fresh :: nat

definition arc_new :: "'a list \<Rightarrow> 'a arc_heap \<Rightarrow> nat \<times> 'a arc_heap" where
  "arc_new buf h = (fresh h, h\<lparr>cells := (cells h)(fresh h \<mapsto> (1, buf)), fresh := fresh h + 1\<rparr>)"

definition arc_strong :: "'a arc_heap \<Rightarrow> nat \<Rightarrow> nat" where
  "arc_strong h a = (case cells h a of None \<Rightarrow> 0 | Some (n, _) \<Rightarrow> n)"

definition arc_buffer :: "'a arc_heap \<Rightarrow> nat \<Rightarrow> 'a list" where
  "arc_buffer h a = (case cells h a of None \<Rightarrow> [] | Some (_, buf) \<Rightarrow> buf)"

definition arc_clone :: "nat \<Rightarrow> 'a arc_heap \<Rightarrow> 'a arc_heap" where
  "arc_clone a h = h\<lparr>cells := (cells h)(a \<mapsto> (arc_strong h a + 1, arc_buffer h a))\<rparr>"

text \<open>Dropping the last owner frees the cell.\<close>

definition arc_drop :: "nat \<Rightarrow> 'a arc_heap \<Rightarrow> 'a arc_heap" where
  "arc_drop a h =
     h\<lparr>cells := (cells h)(a := if arc_strong h a \<le> 1 then None
                              else Some (arc_strong h a - 1, arc_buffer h a))\<rparr>"

definition arc_make_mut :: "nat \<Rightarrow> 'a arc_heap \<Rightarrow> nat \<times> 'a arc_heap" where
  "arc_make_mut a h =
     (if arc_strong h a = 1 then (a, h)
      else let (a', h') = arc_new (arc_buffer h a) h in (a', arc_drop a h'))"

definition arc_store :: "nat \<Rightarrow> nat \<Rightarrow> 'a \<Rightarrow> 'a arc_heap \<Rightarrow> 'a arc_heap" where
  "arc_store a off v h = h\<lparr>cells := (cells h)(a \<mapsto> (arc_strong h a, (arc_buffer h a)[off := v]))\<rparr>"

subsection \<open>Arrays\<close>

record DenseArray =
  shape :: Shape
  data :: nat

definition from_vec :: "Shape \<Rightarrow> 'a list \<Rightarrow> 'a arc_heap \<Rightarrow> (ArrayError, DenseArray \<times> 'a arc_heap) result" where
  "from_vec s buf h =
     and_then (ok_or (HostLengthOverflow (numel s)) (try_from usize_max (numel s))) (\<lambda>expected.
       if length buf \<noteq> expected then Err (DataLengthMismatch (numel s) (length buf))
       else let (a, h') = arc_new buf h in Ok (\<lparr>shape = s, data = a\<rparr>, h'))"

definition from_elem :: "Shape \<Rightarrow> 'a \<Rightarrow> 'a arc_heap \<Rightarrow> (ArrayError, DenseArray \<times> 'a arc_heap) result" where
  "from_elem s v h =
     and_then (ok_or (HostLengthOverflow (numel s)) (try_from usize_max (numel s))) (\<lambda>n.
       from_vec s (replicate n v) h)"

definition as_slice :: "'a arc_heap \<Rightarrow> DenseArray \<Rightarrow> 'a list" where
  "as_slice h x = arc_buffer h (data x)"

definition dense_eq :: "'a arc_heap \<Rightarrow> DenseArray \<Rightarrow> DenseArray \<Rightarrow> bool" where
  "dense_eq h x y \<longleftrightarrow> shape x = shape y \<and> as_slice h x = as_slice h y"

definition shares_storage_with :: "DenseArray \<Rightarrow> DenseArray \<Rightarrow> bool" where
  "shares_storage_with x y \<longleftrightarrow> data x = data y"

definition storage_strong_count :: "'a arc_heap \<Rightarrow> DenseArray \<Rightarrow> nat" where
  "storage_strong_count h x = arc_strong h (data x)"

definition get_offset :: "'a arc_heap \<Rightarrow> DenseArray \<Rightarrow> nat \<Rightarrow> (ArrayError, 'a) result" where
  "get_offset h x off =
     and_then (ok_or (HostLengthOverflow (numel (shape x))) (try_from usize_max off)) (\<lambda>off.
       ok_or OffsetOverflow (slice_get (as_slice h x) off))"

definition get_linear :: "'a arc_heap \<Rightarrow> DenseArray \<Rightarrow> nat \<Rightarrow> (ArrayError, 'a) result" where
  "get_linear h x i = and_then (linear_offset (shape x) i) (get_offset h x)"

definition get_subscripts :: "'a arc_heap \<Rightarrow> DenseArray \<Rightarrow> nat list \<Rightarrow> (ArrayError, 'a) result" where
  "get_subscripts h x is = and_then (offset_for_subscripts (shape x) is) (get_offset h x)"

text \<open>
  A mutable access returns the array and heap it leaves behind (the array may have moved to a
  fresh cell) and the place it grants, a cell and an offset into its buffer.
\<close>

type_synonym 'a mut_access = "(DenseArray \<times> 'a arc_heap) \<times> (ArrayError, nat \<times> nat) result"

definition as_mut_slice :: "DenseArray \<Rightarrow> 'a arc_heap \<Rightarrow> DenseArray \<times> 'a arc_heap" where
  "as_mut_slice x h = (let (a, h') = arc_make_mut (data x) h in (x\<lparr>data := a\<rparr>, h'))"

definition get_mut_offset :: "DenseArray \<Rightarrow> nat \<Rightarrow> 'a arc_heap \<Rightarrow> 'a mut_access" where
  "get_mut_offset x off h =
     (case try_from usize_max off of
        None \<Rightarrow> ((x, h), Err (HostLengthOverflow (numel (shape x))))
      | Some off \<Rightarrow>
          let (x', h') = as_mut_slice x h
          in ((x', h'),
              if off < length (as_slice h' x') then Ok (data x', off) else Err OffsetOverflow))"

definition get_mut_linear :: "DenseArray \<Rightarrow> nat \<Rightarrow> 'a arc_heap \<Rightarrow> 'a mut_access" where
  "get_mut_linear x i h =
     (case linear_offset (shape x) i of
        Inl e \<Rightarrow> ((x, h), Err e)
      | Inr off \<Rightarrow> get_mut_offset x off h)"

definition get_mut_subscripts :: "DenseArray \<Rightarrow> nat list \<Rightarrow> 'a arc_heap \<Rightarrow> 'a mut_access" where
  "get_mut_subscripts x is h =
     (case offset_for_subscripts (shape x) is of
        Inl e \<Rightarrow> ((x, h), Err e)
      | Inr off \<Rightarrow> get_mut_offset x off h)"

definition dense_clone :: "DenseArray \<Rightarrow> 'a arc_heap \<Rightarrow> DenseArray \<times> 'a arc_heap" where
  "dense_clone x h = (x, arc_clone (data x) h)"

definition deep_copy :: "DenseArray \<Rightarrow> 'a arc_heap \<Rightarrow> DenseArray \<times> 'a arc_heap" where
  "deep_copy x h = (let (a, h') = arc_new (as_slice h x) h in (\<lparr>shape = shape x, data = a\<rparr>, h'))"

subsection \<open>Programs over arrays\<close>

text \<open>
  A client holds a list of arrays and uses the interface one call at a time; a call whose
  arguments are rejected leaves the arrays as the call left them. Writing through a place that a
  mutable access granted stores into its cell.
\<close>

record 'a world =
  heap :: "'a arc_heap"
  arrays :: "DenseArray list"

datatype 'a action =
    Create "nat list" "'a list"
  | Fill "nat list" 'a
  | CloneOf nat
  | DeepCopyOf nat
  | SetLinear nat nat 'a
  | SetSubscripts nat "nat list" 'a
  | DropAt nat

definition push_array :: "'a world \<Rightarrow> (ArrayError, DenseArray \<times> 'a arc_heap) result \<Rightarrow> 'a world" where
  "push_array w r =
     (case r of Inl e \<Rightarrow> w | Inr (x, h) \<Rightarrow> \<lparr>heap = h, arrays = arrays w @ [x]\<rparr>)"

definition store_through :: "'a world \<Rightarrow> nat \<Rightarrow> 'a \<Rightarrow> 'a mut_access \<Rightarrow> 'a world" where
  "store_through w n v access =
     (case access of ((x, h), r) \<Rightarrow>
        \<lparr>heap = (case r of Inl e \<Rightarrow> h | Inr (a, off) \<Rightarrow> arc_store a off v h), arrays = (arrays w)[n := x]\<rparr>)"

fun perform :: "'a action \<Rightarrow> 'a world \<Rightarrow> 'a world" where
  "perform (Create ds buf) w = push_array w (and_then (shape_new ds) (\<lambda>s. from_vec s buf (heap w)))"
| "perform (Fill ds v) w = push_array w (and_then (shape_new ds) (\<lambda>s. from_elem s v (heap w)))"
| "perform (CloneOf n) w =
     (if n < length (arrays w) then push_array w (Ok (dense_clone (arrays w ! n) (heap w))) else w)"
| "perform (DeepCopyOf n) w =
     (if n < length (arrays w) then push_array w (Ok (deep_copy (arrays w ! n) (heap w))) else w)"
| "perform (SetLinear n i v) w =
     (if n < length (arrays w) then store_through w n v (get_mut_linear (arrays w ! n) i (heap w)) else w)"
| "perform (SetSubscripts n is v) w =
     (if n < length (arrays w) then store_through w n v (get_mut_subscripts (arrays w ! n) is (heap w)) else w)"
| "perform (DropAt n) w =
     (if n < length (arrays w)
      then \<lparr>heap = arc_drop (data (arrays w ! n)) (heap w),
            arrays = take n (arrays w) @ drop (Suc n) (arrays w)\<rparr>
      else w)"

subsection \<open>The specification: arrays as values\<close>

text \<open>The same programs over values: an array is a shape with its own list of elements.\<close>

definition set_element :: "nat \<Rightarrow> (ArrayError, nat) result \<Rightarrow> 'a \<Rightarrow> (Shape \<times> 'a list) list \<Rightarrow> (Shape \<times> 'a list) list" where
  "set_element n r v xs =
     (case r of Inl e \<Rightarrow> xs | Inr off \<Rightarrow> xs[n := (fst (xs ! n), (snd (xs ! n))[off := v])])"

fun perform_spec :: "'a action \<Rightarrow> (Shape \<times> 'a list) list \<Rightarrow> (Shape \<times> 'a list) list" where
  "perform_spec (Create ds buf) xs =
     (case shape_new ds of
        Inl e \<Rightarrow> xs
      | Inr s \<Rightarrow> if length buf = numel s then xs @ [(s, buf)] else xs)"
| "perform_spec (Fill ds v) xs =
     (case shape_new ds of Inl e \<Rightarrow> xs | Inr s \<Rightarrow> xs @ [(s, replicate (numel s) v)])"
| "perform_spec (CloneOf n) xs = (if n < length xs then xs @ [xs ! n] else xs)"
| "perform_spec (DeepCopyOf n) xs = (if n < length xs then xs @ [xs ! n] else xs)"
| "perform_spec (SetLinear n i v) xs =
     (if n < length xs then set_element n (linear_offset (fst (xs ! n)) i) v xs else xs)"
| "perform_spec (SetSubscripts n is v) xs =
     (if n < length xs then set_element n (offset_for_subscripts (fst (xs ! n)) is) v xs else xs)"
| "perform_spec (DropAt n) xs = take n xs @ drop (Suc n) xs"

definition world_value :: "'a world \<Rightarrow> (Shape \<times> 'a list) list" where
  "world_value w = map (\<lambda>x. (shape x, as_slice (heap w) x)) (arrays w)"

definition owners :: "DenseArray list \<Rightarrow> nat \<Rightarrow> nat" where
  "owners xs a = length (filter (\<lambda>x. data x = a) xs)"

definition wf_world :: "'a world \<Rightarrow> bool" where
  "wf_world w \<longleftrightarrow>
     (\<forall>a. arc_strong (heap w) a = owners (arrays w) a) \<and>
     (\<forall>a\<ge>fresh (heap w). cells (heap w) a = None) \<and>
     (\<forall>x\<in>set (arrays w). wf_shape (shape x) \<and> length (as_slice (heap w) x) = numel (shape x))"


subsection \<open>Heap facts\<close>

lemma world_surjective [simp]: "\<lparr>heap = heap w, arrays = arrays w\<rparr> = w"
  by (cases w) simp

lemmas arc_defs = arc_new_def arc_strong_def arc_buffer_def arc_clone_def arc_drop_def arc_store_def

lemma owners_simps [simp]:
  "owners [] a = 0"
  "owners (x # xs) a = (if data x = a then Suc (owners xs a) else owners xs a)"
  "owners (xs @ ys) a = owners xs a + owners ys a"
  by (simp_all add: owners_def)

lemma owners_split:
  assumes "n < length xs"
  shows "owners xs a = owners (take n xs) a + (if data (xs ! n) = a then 1 else 0) + owners (drop (Suc n) xs) a"
  using arg_cong [OF id_take_nth_drop [OF assms], of "\<lambda>xs. owners xs a"] by simp

lemma owners_update:
  assumes "n < length xs"
  shows "owners (xs[n := y]) a = owners (take n xs) a + (if data y = a then 1 else 0) + owners (drop (Suc n) xs) a"
  by (simp add: upd_conv_take_nth_drop [OF assms])

lemma owners_pos:
  assumes "x \<in> set xs"
  shows "0 < owners xs (data x)"
  using assms by (induction xs) auto

lemma owners_unique:
  assumes "owners xs a = 1" and "n < length xs" and "data (xs ! n) = a" and "m < length xs" and "m \<noteq> n"
  shows "data (xs ! m) \<noteq> a"
proof
  assume m: "data (xs ! m) = a"
  from assms(1-3) owners_split [OF assms(2), of a]
  have none: "owners (take n xs) a = 0" "owners (drop (Suc n) xs) a = 0" by auto
  show False
  proof (cases "m < n")
    case True
    then have "xs ! m \<in> set (take n xs)" using assms(4)
      by (metis in_set_conv_nth length_take min_less_iff_conj nth_take)
    with owners_pos [OF this] m none show False by simp
  next
    case False
    then have "xs ! m = drop (Suc n) xs ! (m - Suc n)" "m - Suc n < length (drop (Suc n) xs)"
      using assms(4,5) by auto
    then have "xs ! m \<in> set (drop (Suc n) xs)" by (metis nth_mem)
    with owners_pos [OF this] m none show False by simp
  qed
qed

lemma wf_worldI:
  assumes "\<And>a. arc_strong (heap w) a = owners (arrays w) a"
    and "\<And>a. fresh (heap w) \<le> a \<Longrightarrow> cells (heap w) a = None"
    and "\<And>x. x \<in> set (arrays w) \<Longrightarrow> wf_shape (shape x) \<and> length (as_slice (heap w) x) = numel (shape x)"
  shows "wf_world w"
  using assms by (simp add: wf_world_def)

lemma wf_worldD:
  assumes "wf_world w"
  shows "arc_strong (heap w) a = owners (arrays w) a"
    and "fresh (heap w) \<le> a \<Longrightarrow> cells (heap w) a = None"
    and "x \<in> set (arrays w) \<Longrightarrow> wf_shape (shape x)"
    and "x \<in> set (arrays w) \<Longrightarrow> length (as_slice (heap w) x) = numel (shape x)"
  using assms by (auto simp: wf_world_def)

text \<open>An owned cell is allocated, and lies below the allocation frontier.\<close>

lemma wf_world_cell:
  assumes wf: "wf_world w" and x: "x \<in> set (arrays w)"
  shows "cells (heap w) (data x) = Some (owners (arrays w) (data x), as_slice (heap w) x)"
    and "data x < fresh (heap w)"
proof -
  from owners_pos [OF x] wf_worldD(1) [OF wf, of "data x"]
  show cell: "cells (heap w) (data x) = Some (owners (arrays w) (data x), as_slice (heap w) x)"
    by (auto simp: arc_strong_def as_slice_def arc_buffer_def split: option.splits prod.splits)
  then show "data x < fresh (heap w)"
    using wf_worldD(2) [OF wf, of "data x"] by (metis leI option.distinct(1))
qed

lemma owners_fresh:
  assumes "wf_world w"
  shows "owners (arrays w) (fresh (heap w)) = 0"
  using wf_worldD(1) [OF assms, of "fresh (heap w)"] wf_worldD(2) [OF assms, of "fresh (heap w)"]
  by (simp add: arc_strong_def)

text \<open>
  Adding an array whose buffer sits in a fresh cell, or in a cell that gains an owner, keeps the
  invariant and appends its value.
\<close>

lemma push_fresh:
  assumes wf: "wf_world w" and s: "wf_shape s" "length buf = numel s" and new: "arc_new buf (heap w) = (a, h)"
  shows "wf_world \<lparr>heap = h, arrays = arrays w @ [\<lparr>shape = s, data = a\<rparr>]\<rparr>"
    and "world_value \<lparr>heap = h, arrays = arrays w @ [\<lparr>shape = s, data = a\<rparr>]\<rparr> = world_value w @ [(s, buf)]"
proof -
  have a: "a = fresh (heap w)" and frontier: "fresh h = Suc (fresh (heap w))"
    and cells: "cells h = (cells (heap w))(a \<mapsto> (1, buf))"
    using new by (auto simp: arc_new_def)
  have old: "as_slice h x = as_slice (heap w) x" if "x \<in> set (arrays w)" for x
    using wf_world_cell(2) [OF wf that] by (simp add: as_slice_def arc_buffer_def cells a)
  have new_buf: "as_slice h \<lparr>shape = s, data = a\<rparr> = buf"
    by (simp add: as_slice_def arc_buffer_def cells)
  show "wf_world \<lparr>heap = h, arrays = arrays w @ [\<lparr>shape = s, data = a\<rparr>]\<rparr>"
  proof (rule wf_worldI)
    fix b
    show "arc_strong (heap \<lparr>heap = h, arrays = arrays w @ [\<lparr>shape = s, data = a\<rparr>]\<rparr>) b =
        owners (arrays \<lparr>heap = h, arrays = arrays w @ [\<lparr>shape = s, data = a\<rparr>]\<rparr>) b"
      using wf_worldD(1) [OF wf, of b] owners_fresh [OF wf] by (auto simp: arc_strong_def cells a)
  qed (use wf_worldD(2-4) [OF wf] s old new_buf in \<open>auto simp: frontier cells a\<close>)
  show "world_value \<lparr>heap = h, arrays = arrays w @ [\<lparr>shape = s, data = a\<rparr>]\<rparr> = world_value w @ [(s, buf)]"
    using old new_buf by (simp add: world_value_def)
qed

lemma push_clone:
  assumes wf: "wf_world w" and x: "x \<in> set (arrays w)"
  shows "wf_world \<lparr>heap = arc_clone (data x) (heap w), arrays = arrays w @ [x]\<rparr>"
    and "world_value \<lparr>heap = arc_clone (data x) (heap w), arrays = arrays w @ [x]\<rparr> =
      world_value w @ [(shape x, as_slice (heap w) x)]"
proof -
  define h where "h = arc_clone (data x) (heap w)"
  have buf: "as_slice h y = as_slice (heap w) y" for y
    by (simp add: h_def arc_defs as_slice_def)
  have strong: "arc_strong h a =
      (if a = data x then Suc (arc_strong (heap w) a) else arc_strong (heap w) a)" for a
    by (simp add: h_def arc_defs)
  have cells: "cells h a = None" if "fresh h \<le> a" for a
    using that wf_world_cell(2) [OF wf x] wf_worldD(2) [OF wf, of a] by (auto simp: h_def arc_clone_def)
  show "wf_world \<lparr>heap = arc_clone (data x) (heap w), arrays = arrays w @ [x]\<rparr>"
    unfolding h_def [symmetric]
    by (rule wf_worldI) (use wf_worldD [OF wf] x cells in \<open>auto simp: buf strong\<close>)
  show "world_value \<lparr>heap = arc_clone (data x) (heap w), arrays = arrays w @ [x]\<rparr> =
      world_value w @ [(shape x, as_slice (heap w) x)]"
    unfolding h_def [symmetric] by (simp add: world_value_def buf)
qed

text \<open>
  \<open>Arc::make_mut\<close> leaves the array as the only owner of its cell and changes no array's value.
\<close>

lemma make_mut_detaches:
  assumes wf: "wf_world w" and n: "n < length (arrays w)" and x: "arrays w ! n = x"
    and mut: "as_mut_slice x (heap w) = (x', h)"
  shows "wf_world \<lparr>heap = h, arrays = (arrays w)[n := x']\<rparr>"
    and "world_value \<lparr>heap = h, arrays = (arrays w)[n := x']\<rparr> = world_value w"
    and "arc_strong h (data x') = 1" and "shape x' = shape x" and "as_slice h x' = as_slice (heap w) x"
proof -
  let ?w = "\<lparr>heap = h, arrays = (arrays w)[n := x']\<rparr>"
  have in_x: "x \<in> set (arrays w)" using n x by auto
  note cell = wf_world_cell [OF wf in_x]
  have "wf_world ?w \<and> world_value ?w = world_value w \<and> arc_strong h (data x') = 1 \<and>
      shape x' = shape x \<and> as_slice h x' = as_slice (heap w) x"
  proof (cases "arc_strong (heap w) (data x) = 1")
    case True
    with mut have "x' = x" "h = heap w" by (auto simp: as_mut_slice_def arc_make_mut_def)
    with wf n True show ?thesis by (simp add: x [symmetric])
  next
    case False
    with mut have x': "x' = x\<lparr>data := fresh (heap w)\<rparr>"
      and frontier: "fresh h = Suc (fresh (heap w))"
      and cells: "cells h = (cells (heap w))(fresh (heap w) \<mapsto> (1, as_slice (heap w) x),
        data x := if arc_strong (heap w) (data x) \<le> 1 then None
                  else Some (arc_strong (heap w) (data x) - 1, as_slice (heap w) x))"
      using cell(2) by (auto simp: as_mut_slice_def arc_make_mut_def arc_defs as_slice_def Let_def)
    have many: "1 < owners (arrays w) (data x)"
      using False owners_pos [OF in_x] wf_worldD(1) [OF wf, of "data x"] by simp
    have old: "as_slice h y = as_slice (heap w) y" if "y \<in> set (arrays w)" for y
      using wf_world_cell [OF wf that] many wf_worldD(1) [OF wf, of "data x"]
      by (auto simp: as_slice_def arc_buffer_def cells)
    have new: "as_slice h x' = as_slice (heap w) x" "shape x' = shape x"
      using cell by (simp_all add: as_slice_def arc_buffer_def cells x')
    have "wf_world ?w"
    proof (rule wf_worldI)
      fix a
      show "arc_strong (heap ?w) a = owners (arrays ?w) a"
        using wf_worldD(1) [OF wf, of a] wf_worldD(1) [OF wf, of "data x"] owners_fresh [OF wf] many cell
          owners_split [OF n, of a] owners_update [OF n, of x' a]
        by (auto simp: arc_strong_def cells x' x)
    next
      fix a assume "fresh (heap ?w) \<le> a"
      then show "cells (heap ?w) a = None"
        using cell(2) wf_worldD(2) [OF wf, of a] by (auto simp: cells frontier)
    next
      fix y assume "y \<in> set (arrays ?w)"
      then have "y = x' \<or> y \<in> set (arrays w)" by (auto dest!: set_update_subset_insert [THEN subsetD])
      then show "wf_shape (shape y) \<and> length (as_slice (heap ?w) y) = numel (shape y)"
        using wf_worldD(3,4) [OF wf] in_x old new by auto
    qed
    moreover have "world_value ?w = world_value w"
      using n x new old
      by (intro nth_equalityI) (auto simp: world_value_def nth_list_update)
    moreover have "arc_strong h (data x') = 1"
      using cell(2) by (simp add: arc_strong_def cells x')
    ultimately show ?thesis using new by simp
  qed
  then show "wf_world ?w" and "world_value ?w = world_value w"
    and "arc_strong h (data x') = 1" and "shape x' = shape x" and "as_slice h x' = as_slice (heap w) x"
    by blast+
qed

text \<open>A store through a place whose cell has one owner changes that owner's value only.\<close>

lemma store_sole_owner:
  assumes wf: "wf_world w" and n: "n < length (arrays w)" and sole: "arc_strong (heap w) (data (arrays w ! n)) = 1"
  shows "wf_world \<lparr>heap = arc_store (data (arrays w ! n)) off v (heap w), arrays = arrays w\<rparr>"
    and "world_value \<lparr>heap = arc_store (data (arrays w ! n)) off v (heap w), arrays = arrays w\<rparr> =
      (world_value w)[n := (shape (arrays w ! n), (as_slice (heap w) (arrays w ! n))[off := v])]"
proof -
  define h where "h = arc_store (data (arrays w ! n)) off v (heap w)"
  have in_x: "arrays w ! n \<in> set (arrays w)" using n by simp
  note cell = wf_world_cell [OF wf in_x]
  have strong: "arc_strong h a = arc_strong (heap w) a" for a by (simp add: h_def arc_defs)
  have frontier: "fresh h = fresh (heap w)" by (simp add: h_def arc_store_def)
  have cells: "cells h a = None" if "fresh h \<le> a" for a
    using that cell(2) wf_worldD(2) [OF wf, of a] by (auto simp: h_def arc_store_def)
  have len: "length (as_slice h y) = length (as_slice (heap w) y)" for y
    by (simp add: h_def as_slice_def arc_defs)
  have self: "as_slice h (arrays w ! n) = (as_slice (heap w) (arrays w ! n))[off := v]"
    by (simp add: h_def as_slice_def arc_defs)
  have other: "as_slice h (arrays w ! m) = as_slice (heap w) (arrays w ! m)"
    if "m < length (arrays w)" "m \<noteq> n" for m
    using owners_unique [of "arrays w" "data (arrays w ! n)" n m] sole wf_worldD(1) [OF wf] n that
    by (simp add: h_def as_slice_def arc_defs)
  show "wf_world \<lparr>heap = arc_store (data (arrays w ! n)) off v (heap w), arrays = arrays w\<rparr>"
    unfolding h_def [symmetric]
    by (rule wf_worldI) (use wf_worldD [OF wf] cells in \<open>auto simp: strong len\<close>)
  show "world_value \<lparr>heap = arc_store (data (arrays w ! n)) off v (heap w), arrays = arrays w\<rparr> =
      (world_value w)[n := (shape (arrays w ! n), (as_slice (heap w) (arrays w ! n))[off := v])]"
    unfolding h_def [symmetric]
  proof (intro nth_equalityI)
    fix i assume "i < length (world_value \<lparr>heap = h, arrays = arrays w\<rparr>)"
    with self other n show "world_value \<lparr>heap = h, arrays = arrays w\<rparr> ! i = (world_value w)
        [n := (shape (arrays w ! n), (as_slice (heap w) (arrays w ! n))[off := v])] ! i"
      by (cases "i = n") (simp_all add: world_value_def)
  qed (simp add: world_value_def)
qed

lemma drop_owner:
  assumes wf: "wf_world w" and n: "n < length (arrays w)"
  shows "wf_world \<lparr>heap = arc_drop (data (arrays w ! n)) (heap w), arrays = take n (arrays w) @ drop (Suc n) (arrays w)\<rparr>"
    and "world_value \<lparr>heap = arc_drop (data (arrays w ! n)) (heap w), arrays = take n (arrays w) @ drop (Suc n) (arrays w)\<rparr> =
      take n (world_value w) @ drop (Suc n) (world_value w)"
proof -
  define h where "h = arc_drop (data (arrays w ! n)) (heap w)"
  define rest where "rest = take n (arrays w) @ drop (Suc n) (arrays w)"
  have in_x: "arrays w ! n \<in> set (arrays w)" using n by simp
  note cell = wf_world_cell [OF wf in_x]
  have sub: "y \<in> set rest \<Longrightarrow> y \<in> set (arrays w)" for y
    by (auto simp: rest_def dest: in_set_takeD in_set_dropD)
  have own: "owners (arrays w) a = owners rest a + (if data (arrays w ! n) = a then 1 else 0)" for a
    using owners_split [OF n, of a] by (simp add: rest_def)
  have strong: "arc_strong h a = owners rest a" for a
    using wf_worldD(1) [OF wf, of a] wf_worldD(1) [OF wf, of "data (arrays w ! n)"] own [of a] own [of "data (arrays w ! n)"]
    by (auto simp: h_def arc_drop_def arc_strong_def split: if_splits)
  have cells: "cells h a = None" if "fresh h \<le> a" for a
    using that wf_worldD(2) [OF wf, of a] cell(2) by (auto simp: h_def arc_drop_def)
  have keep: "as_slice h y = as_slice (heap w) y" if "y \<in> set rest" for y
    using owners_pos [OF that] own [of "data y"] wf_worldD(1) [OF wf, of "data y"]
    by (auto simp: h_def as_slice_def arc_drop_def arc_buffer_def)
  show "wf_world \<lparr>heap = arc_drop (data (arrays w ! n)) (heap w), arrays = take n (arrays w) @ drop (Suc n) (arrays w)\<rparr>"
    unfolding h_def [symmetric] rest_def [symmetric]
    by (rule wf_worldI) (use wf_worldD(3,4) [OF wf] cells sub in \<open>auto simp: strong keep\<close>)
  have "map (\<lambda>x. (shape x, as_slice h x)) rest = map (\<lambda>x. (shape x, as_slice (heap w) x)) rest"
    using keep by simp
  then show "world_value \<lparr>heap = arc_drop (data (arrays w ! n)) (heap w), arrays = take n (arrays w) @ drop (Suc n) (arrays w)\<rparr> =
      take n (world_value w) @ drop (Suc n) (world_value w)"
    unfolding h_def [symmetric] rest_def [symmetric]
    by (simp add: world_value_def) (simp add: rest_def take_map drop_map)
qed


subsection \<open>Element access\<close>

text \<open>
  Linear and multidimensional access differ only in how they compute an offset. What both rely on
  is that a granted offset lies below the element count.
\<close>

locale element_offset =
  fixes offset :: "Shape \<Rightarrow> 'i \<Rightarrow> (ArrayError, nat) result"
  assumes offset_less: "wf_shape s \<Longrightarrow> offset s i = Ok off \<Longrightarrow> off < numel s"
begin

lemma read_back:
  assumes "wf_world w" and "x \<in> set (arrays w)"
  shows "and_then (offset (shape x) i) (get_offset (heap w) x) =
    and_then (offset (shape x) i) (\<lambda>off. Ok (as_slice (heap w) x ! off))"
proof (cases "offset (shape x) i")
  case (Inr off)
  have "off < numel (shape x)" "numel (shape x) \<le> usize_max"
    using offset_less [OF wf_worldD(3) [OF assms] Inr] wf_shape_numel_bound [OF wf_worldD(3) [OF assms]]
    by (simp_all add: usize_max_eq_u64_max)
  then show ?thesis
    using Inr wf_worldD(4) [OF assms] by (simp add: get_offset_def try_from_def slice_get_def)
qed simp

lemma store_refines:
  assumes wf: "wf_world w" and n: "n < length (arrays w)" and x: "arrays w ! n = x"
    and access_def: "access = (case offset (shape x) i of Inl e \<Rightarrow> ((x, heap w), Err e)
      | Inr off \<Rightarrow> get_mut_offset x off (heap w))"
  shows "wf_world (store_through w n v access)"
    and "world_value (store_through w n v access) = set_element n (offset (shape x) i) v (world_value w)"
proof -
  have in_x: "x \<in> set (arrays w)" using n x by auto
  have "wf_world (store_through w n v access) \<and>
      world_value (store_through w n v access) = set_element n (offset (shape x) i) v (world_value w)"
  proof (cases "offset (shape x) i")
    case (Inl e)
    with wf show ?thesis by (simp add: access_def store_through_def set_element_def x [symmetric])
  next
    case (Inr off)
    obtain x' h where mut: "as_mut_slice x (heap w) = (x', h)" by force
    note det = make_mut_detaches [OF wf n x mut]
    have "off < numel (shape x)" "off \<le> usize_max"
      using offset_less [OF wf_worldD(3) [OF wf in_x] Inr] wf_shape_numel_bound [OF wf_worldD(3) [OF wf in_x]]
      by (simp_all add: usize_max_eq_u64_max)
    with det(5) wf_worldD(4) [OF wf in_x] have "access = ((x', h), Ok (data x', off))"
      using Inr mut by (simp add: access_def get_mut_offset_def try_from_def)
    then have st: "store_through w n v access =
        \<lparr>heap = arc_store (data x') off v h, arrays = (arrays w)[n := x']\<rparr>"
      by (simp add: store_through_def)
    let ?w = "\<lparr>heap = h, arrays = (arrays w)[n := x']\<rparr>"
    have "n < length (arrays ?w)" "arc_strong (heap ?w) (data (arrays ?w ! n)) = 1"
      using n det(3) by simp_all
    note sto = store_sole_owner [OF det(1) this, of off v]
    have "world_value w ! n = (shape x, as_slice (heap w) x)"
      using n x by (simp add: world_value_def)
    with sto det n Inr show ?thesis by (simp add: st set_element_def)
  qed
  then show "wf_world (store_through w n v access)"
    and "world_value (store_through w n v access) = set_element n (offset (shape x) i) v (world_value w)"
    by blast+
qed

end

interpretation linear: element_offset linear_offset
  by unfold_locales (auto simp: linear_offset_Ok_iff)

interpretation subscripted: element_offset offset_for_subscripts
  by unfold_locales (rule offset_for_subscripts_less)

subsection \<open>Refinement\<close>

lemma from_vec_eq:
  assumes "wf_shape s"
  shows "from_vec s buf h = (if length buf = numel s
    then Ok (\<lparr>shape = s, data = fst (arc_new buf h)\<rparr>, snd (arc_new buf h))
    else Err (DataLengthMismatch (numel s) (length buf)))"
  using wf_shape_numel_bound [OF assms]
  by (simp add: from_vec_def try_from_def usize_max_eq_u64_max Let_def split_beta)

lemma from_elem_eq:
  assumes "wf_shape s"
  shows "from_elem s v h = from_vec s (replicate (numel s) v) h"
  using wf_shape_numel_bound [OF assms] by (simp add: from_elem_def try_from_def usize_max_eq_u64_max)

lemma push_from_vec:
  assumes "wf_world w" and "wf_shape s"
  shows "wf_world (push_array w (from_vec s buf (heap w)))"
    and "world_value (push_array w (from_vec s buf (heap w))) =
      (if length buf = numel s then world_value w @ [(s, buf)] else world_value w)"
  using push_fresh [OF assms, of buf "fst (arc_new buf (heap w))" "snd (arc_new buf (heap w))"] assms
  by (simp_all add: push_array_def from_vec_eq)

lemma perform_refines:
  assumes wf: "wf_world w"
  shows "wf_world (perform act w) \<and> world_value (perform act w) = perform_spec act (world_value w)"
proof -
  have len: "length (world_value w) = length (arrays w)" by (simp add: world_value_def)
  have val: "world_value w ! n = (shape (arrays w ! n), as_slice (heap w) (arrays w ! n))"
    if "n < length (arrays w)" for n using that by (simp add: world_value_def)
  show ?thesis
  proof (cases act)
    case (Create ds buf)
    then show ?thesis using wf push_from_vec [OF wf, of _ buf]
      by (cases "shape_new ds") (auto simp: push_array_def dest: shape_new_wf)
  next
    case (Fill ds v)
    then show ?thesis using wf push_from_vec [OF wf] shape_new_wf [of ds]
      by (cases "shape_new ds") (auto simp: push_array_def [of w "Inl _"] from_elem_eq)
  next
    case (CloneOf n)
    then show ?thesis using wf push_clone [OF wf, of "arrays w ! n"] len val
      by (auto simp: push_array_def dense_clone_def)
  next
    case (DeepCopyOf n)
    then show ?thesis
      using wf push_fresh [OF wf, of "shape (arrays w ! n)" "as_slice (heap w) (arrays w ! n)"]
        wf_worldD(3,4) [OF wf, of "arrays w ! n"] len val
      by (auto simp: push_array_def deep_copy_def split_beta)
  next
    case (SetLinear n i v)
    then show ?thesis using wf linear.store_refines [OF wf _ refl refl] len val
      by (auto simp: get_mut_linear_def)
  next
    case (SetSubscripts n "is" v)
    then show ?thesis using wf subscripted.store_refines [OF wf _ refl refl] len val
      by (auto simp: get_mut_subscripts_def)
  next
    case (DropAt n)
    then show ?thesis using wf drop_owner [OF wf] len by auto
  qed
qed

definition empty_world :: "'a world" where
  "empty_world = \<lparr>heap = \<lparr>cells = \<lambda>_. None, fresh = 0\<rparr>, arrays = []\<rparr>"

lemma empty_world_wf [simp]: "wf_world empty_world" "world_value empty_world = []"
  by (auto simp: empty_world_def wf_world_def world_value_def arc_strong_def)

lemma perform_all_refines:
  assumes "wf_world w"
  shows "wf_world (fold perform acts w) \<and> world_value (fold perform acts w) = fold perform_spec acts (world_value w)"
  using assms by (induction acts arbitrary: w) (auto simp: perform_refines)

subsection \<open>Properties\<close>

text \<open>
  C7: copy-on-write is invisible. Any sequence of constructions, clones, deep copies, element
  stores and drops, started from nothing, leaves every array with exactly the shape and elements it
  has when each array owns its elements outright: a store through one clone never shows in another.
  Throughout, the strong count of every buffer is the number of arrays that share it.
\<close>

theorem copy_on_write_refines_values:
  "world_value (fold perform acts empty_world) = fold perform_spec acts [] \<and>
   (\<forall>a. arc_strong (heap (fold perform acts empty_world)) a = owners (arrays (fold perform acts empty_world)) a)"
  using perform_all_refines [OF empty_world_wf(1), of acts] by (simp add: wf_worldD(1))

text \<open>
  reading an element of an array of a well-formed state, by linear index or by subscripts, gives
  the buffer element at the computed offset or the indexing error, and never the internal
  \<open>OffsetOverflow\<close> or host-length failures of the buffer access itself.
\<close>

theorem dense_reads_denote:
  assumes "wf_world w" and "n < length (arrays w)"
  shows "get_linear (heap w) (arrays w ! n) i =
      (if 1 \<le> i \<and> i \<le> numel (shape (arrays w ! n)) then Ok (as_slice (heap w) (arrays w ! n) ! (i - 1))
       else Err (LinearIndexOutOfBounds i (numel (shape (arrays w ! n))))) \<and>
    get_subscripts (heap w) (arrays w ! n) is =
      and_then (offset_for_subscripts (shape (arrays w ! n)) is) (\<lambda>off. Ok (as_slice (heap w) (arrays w ! n) ! off))"
  using linear.read_back [OF assms(1), of "arrays w ! n" i] subscripted.read_back [OF assms(1), of "arrays w ! n" "is"] assms(2)
  by (auto simp: get_linear_def get_subscripts_def linear_offset_def)

text \<open>A small program: a two by two array, a clone of it, and a store into the clone.\<close>

definition clone_and_store :: "nat action list" where
  "clone_and_store = [Create [2, 2] [10, 20, 30, 40], CloneOf 0, SetSubscripts 1 [2, 1] 99]"

theorem dense_reads_denote_witness:
  "wf_world (fold perform clone_and_store empty_world) \<and>
   get_linear (heap (fold perform clone_and_store empty_world))
     (arrays (fold perform clone_and_store empty_world) ! 1) 2 = Ok 99 \<and>
   get_linear (heap (fold perform clone_and_store empty_world))
     (arrays (fold perform clone_and_store empty_world) ! 0) 2 = Ok 20"
proof -
  let ?w = "fold perform clone_and_store empty_world"
  have wf: "wf_world ?w" by (rule perform_all_refines [OF empty_world_wf(1), THEN conjunct1])
  have len: "length (arrays ?w) = 2" by code_simp
  have n: "numel (shape (arrays ?w ! 1)) = 4" "numel (shape (arrays ?w ! 0)) = 4" by code_simp+
  have elems: "as_slice (heap ?w) (arrays ?w ! 1) ! 1 = 99" "as_slice (heap ?w) (arrays ?w ! 0) ! 1 = 20"
    by code_simp+
  have "get_linear (heap ?w) (arrays ?w ! k) 2 = Ok (as_slice (heap ?w) (arrays ?w ! k) ! 1)" if "k < 2" for k
    using dense_reads_denote [OF wf, of k 2] that len n by (auto simp: less_2_cases_iff)
  from this [of 1] this [of 0] wf elems show ?thesis by simp
qed

end
