(* ===== verification/Rust_Std.thy ===== *)
theory Rust_Std
  imports Rust_Prelude
begin

section \<open>Searching slices as the standard library does\<close>

text \<open>
  The comparison results of \<open>std::cmp::Ordering\<close>, and the bisection loop behind
  \<open>slice::binary_search\<close>, \<open>binary_search_by\<close> and \<open>partition_point\<close>, with what it returns on a
  slice that is ordered for the probe.
\<close>

datatype Ordering = Less | Equal | Greater

instantiation Ordering :: linorder
begin

fun ordering_rank :: "Ordering \<Rightarrow> nat" where
  "ordering_rank Less = 0"
| "ordering_rank Equal = 1"
| "ordering_rank Greater = 2"

definition less_eq_Ordering :: "Ordering \<Rightarrow> Ordering \<Rightarrow> bool" where
  "less_eq_Ordering a b \<longleftrightarrow> ordering_rank a \<le> ordering_rank b"

definition less_Ordering :: "Ordering \<Rightarrow> Ordering \<Rightarrow> bool" where
  "less_Ordering a b \<longleftrightarrow> ordering_rank a < ordering_rank b"

instance
proof
  fix a b c :: Ordering
  show "a < b \<longleftrightarrow> a \<le> b \<and> \<not> b \<le> a" by (auto simp: less_Ordering_def less_eq_Ordering_def)
  show "a \<le> a" by (simp add: less_eq_Ordering_def)
  show "a \<le> c" if "a \<le> b" "b \<le> c" using that by (simp add: less_eq_Ordering_def)
  show "a = b" if "a \<le> b" "b \<le> a"
    using that by (cases a; cases b) (simp_all add: less_eq_Ordering_def)
  show "a \<le> b \<or> b \<le> a" by (auto simp: less_eq_Ordering_def)
qed

end

lemma Ordering_le_simps [simp]:
  "a \<le> Less \<longleftrightarrow> a = Less"
  "Greater \<le> a \<longleftrightarrow> a = Greater"
  by (cases a; simp add: less_eq_Ordering_def)+

definition cmp :: "'a :: linorder \<Rightarrow> 'a \<Rightarrow> Ordering" where
  "cmp a b = (if a < b then Less else if a = b then Equal else Greater)"

lemma cmp_mono: "a \<le> b \<Longrightarrow> cmp a c \<le> cmp b c"
  by (auto simp: cmp_def less_eq_Ordering_def)

lemma cmp_eq [simp]:
  "cmp a b = Equal \<longleftrightarrow> a = b"
  "cmp a b = Less \<longleftrightarrow> a < b"
  "cmp a b = Greater \<longleftrightarrow> b < a"
  by (auto simp: cmp_def)

function bisect :: "('a \<Rightarrow> Ordering) \<Rightarrow> 'a list \<Rightarrow> nat \<Rightarrow> nat \<Rightarrow> nat" where
  "bisect f xs base width =
     (if 1 < width then
        let half = width div 2; mid = base + half
        in bisect f xs (if f (xs ! mid) = Greater then base else mid) (width - half)
      else base)"
  by pat_completeness auto
termination
  by (relation "measure (\<lambda>(_, _, _, width). width)") auto

declare bisect.simps [simp del]

definition binary_search_by :: "('a \<Rightarrow> Ordering) \<Rightarrow> 'a list \<Rightarrow> (nat, nat) result" where
  "binary_search_by f xs =
     (if length xs = 0 then Err 0
      else let base = bisect f xs 0 (length xs); c = f (xs ! base)
           in if c = Equal then Ok base else Err (base + (if c = Less then 1 else 0)))"

definition binary_search :: "'a :: linorder list \<Rightarrow> 'a \<Rightarrow> (nat, nat) result" where
  "binary_search xs x = binary_search_by (\<lambda>y. cmp y x) xs"

definition partition_point :: "('a \<Rightarrow> bool) \<Rightarrow> 'a list \<Rightarrow> nat" where
  "partition_point p xs =
     (case binary_search_by (\<lambda>x. if p x then Less else Greater) xs of Inr i \<Rightarrow> i | Inl i \<Rightarrow> i)"

subsection \<open>What the bisection finds\<close>

definition ordered_for :: "('a \<Rightarrow> Ordering) \<Rightarrow> 'a list \<Rightarrow> bool" where
  "ordered_for f xs \<longleftrightarrow> (\<forall>i j. i \<le> j \<longrightarrow> j < length xs \<longrightarrow> f (xs ! i) \<le> f (xs ! j))"

lemma ordered_forD: "ordered_for f xs \<Longrightarrow> i \<le> j \<Longrightarrow> j < length xs \<Longrightarrow> f (xs ! i) \<le> f (xs ! j)"
  by (simp add: ordered_for_def)

lemma bisect_bracket:
  assumes "ordered_for f xs" and "0 < width" and "base + width \<le> length xs"
    and "base = 0 \<or> f (xs ! base) \<noteq> Greater"
    and "\<forall>j. base + width \<le> j \<longrightarrow> j < length xs \<longrightarrow> f (xs ! j) = Greater"
  shows "bisect f xs base width < length xs \<and>
    (bisect f xs base width = 0 \<or> f (xs ! bisect f xs base width) \<noteq> Greater) \<and>
    (\<forall>j. bisect f xs base width < j \<longrightarrow> j < length xs \<longrightarrow> f (xs ! j) = Greater)"
  using assms
proof (induction f xs base width rule: bisect.induct)
  case (1 f xs base width)
  show ?case
  proof (cases "1 < width")
    case False
    with "1.prems" have "width = 1" by simp
    with "1.prems" False show ?thesis by (subst (1 2 3 4) bisect.simps) auto
  next
    case True
    define half where "half = width div 2"
    define mid where "mid = base + half"
    have mid: "mid < base + width" "base < mid" "base + (width - half) \<le> length xs" "mid + (width - half) = base + width"
      using True "1.prems" by (auto simp: mid_def half_def)
    have step: "bisect f xs base width = bisect f xs (if f (xs ! mid) = Greater then base else mid) (width - half)"
      using True by (subst bisect.simps) (simp add: Let_def mid_def half_def)
    show ?thesis
    proof (cases "f (xs ! mid) = Greater")
      case greater: True
      have "f (xs ! j) = Greater" if "base + (width - half) \<le> j" "j < length xs" for j
      proof -
        have "mid \<le> j" using that(1) by (auto simp: mid_def half_def)
        from ordered_forD [OF "1.prems"(1) this that(2)] greater show ?thesis by simp
      qed
      moreover have "0 < width - half" using True by (simp add: half_def)
      ultimately show ?thesis
        using "1.IH" [OF True half_def mid_def, unfolded if_P [OF greater]] "1.prems"(1,4) mid(3)
        unfolding step if_P [OF greater] by blast
    next
      case False
      have "0 < width - half" using True by (simp add: half_def)
      then show ?thesis
        using "1.IH" [OF True half_def mid_def, unfolded if_not_P [OF False]] "1.prems"(1,3,5) mid(4) False
        unfolding step if_not_P [OF False] by (metis (no_types))
    qed
  qed
qed

lemma binary_search_by_Ok:
  assumes "ordered_for f xs" and "binary_search_by f xs = Ok i"
  shows "i < length xs \<and> f (xs ! i) = Equal"
  using assms bisect_bracket [OF assms(1), of "length xs" 0]
  by (auto simp: binary_search_by_def Let_def split: if_splits)

lemma binary_search_by_Err:
  assumes ord: "ordered_for f xs" and err: "binary_search_by f xs = Err i"
  shows "i \<le> length xs" and "j < i \<Longrightarrow> f (xs ! j) = Less"
    and "i \<le> j \<Longrightarrow> j < length xs \<Longrightarrow> f (xs ! j) = Greater"
proof -
  have "i \<le> length xs \<and> (\<forall>j<i. f (xs ! j) = Less) \<and> (\<forall>j. i \<le> j \<longrightarrow> j < length xs \<longrightarrow> f (xs ! j) = Greater)"
  proof (cases "xs = []")
    case True
    with err show ?thesis by (simp add: binary_search_by_def)
  next
    case False
    define b where "b = bisect f xs 0 (length xs)"
    have b: "b < length xs" "b = 0 \<or> f (xs ! b) \<noteq> Greater"
      "\<And>j. b < j \<Longrightarrow> j < length xs \<Longrightarrow> f (xs ! j) = Greater"
      using bisect_bracket [OF ord, of "length xs" 0] False by (auto simp: b_def)
    have below: "f (xs ! j) \<le> f (xs ! b)" if "j \<le> b" for j
      using ordered_forD [OF ord that b(1)] .
    have ne: "f (xs ! b) \<noteq> Equal" and i: "i = b + (if f (xs ! b) = Less then 1 else 0)"
      using err False by (auto simp: binary_search_by_def b_def Let_def split: if_splits)
    show ?thesis
    proof (cases "f (xs ! b)")
      case Less
      with i b below show ?thesis by (auto simp: less_Suc_eq_le)
    next
      case Greater
      with b(2) i have "b = 0" "i = 0" by auto
      with b Greater show ?thesis by (metis bot_nat_0.extremum le_neq_implies_less not_less_zero)
    qed (use ne in simp)
  qed
  then show "i \<le> length xs" and "j < i \<Longrightarrow> f (xs ! j) = Less"
    and "i \<le> j \<Longrightarrow> j < length xs \<Longrightarrow> f (xs ! j) = Greater" by auto
qed

lemma ordered_for_cmp: "sorted xs \<Longrightarrow> ordered_for (\<lambda>y. cmp y x) xs"
  by (auto simp: ordered_for_def intro: cmp_mono sorted_nth_mono)

text \<open>On a sorted slice, binary search finds an element exactly when it is there.\<close>

lemma binary_search_sorted:
  assumes "sorted xs"
  shows "(case binary_search xs x of
      Inr i \<Rightarrow> i < length xs \<and> xs ! i = x
    | Inl i \<Rightarrow> x \<notin> set xs \<and> i \<le> length xs \<and> (\<forall>j<i. xs ! j < x) \<and> (\<forall>j. i \<le> j \<longrightarrow> j < length xs \<longrightarrow> x < xs ! j))"
proof (cases "binary_search xs x")
  case (Inr i)
  with binary_search_by_Ok [OF ordered_for_cmp [OF assms]] show ?thesis
    by (simp add: binary_search_def)
next
  case (Inl i)
  note err = binary_search_by_Err [OF ordered_for_cmp [OF assms] Inl [unfolded binary_search_def]]
  have "xs ! j \<noteq> x" if "j < length xs" for j
    using err(2) [of j] err(3) [of j] that by (cases "j < i") auto
  then have "x \<notin> set xs" by (auto simp: in_set_conv_nth)
  with err Inl show ?thesis by auto
qed

lemma binary_search_distinct:
  assumes "sorted_wrt (<) xs" and "i < length xs"
  shows "binary_search xs (xs ! i) = Ok i"
proof (cases "binary_search xs (xs ! i)")
  case (Inl k)
  with binary_search_sorted [OF strict_sorted_imp_sorted [OF assms(1)], of "xs ! i"] assms(2)
  show ?thesis by simp
next
  case (Inr k)
  then have "k < length xs" "xs ! k = xs ! i"
    using binary_search_sorted [OF strict_sorted_imp_sorted [OF assms(1)], of "xs ! i"] by simp_all
  with assms have "k = i" by (metis nth_eq_iff_index_eq strict_sorted_iff)
  with Inr show ?thesis by simp
qed

lemma binary_search_absent:
  assumes "sorted xs" and "x \<notin> set xs"
  shows "\<exists>i. binary_search xs x = Err i"
  using binary_search_sorted [OF assms(1), of x] assms(2)
  by (cases "binary_search xs x") auto

text \<open>\<open>partition_point\<close> splits a slice whose true elements come first.\<close>

lemma partition_point_split:
  assumes "\<And>i j. i \<le> j \<Longrightarrow> j < length xs \<Longrightarrow> p (xs ! j) \<Longrightarrow> p (xs ! i)"
  shows "partition_point p xs \<le> length xs"
    and "j < partition_point p xs \<Longrightarrow> p (xs ! j)"
    and "partition_point p xs \<le> j \<Longrightarrow> j < length xs \<Longrightarrow> \<not> p (xs ! j)"
proof -
  let ?f = "\<lambda>x. if p x then Less else Greater"
  have ord: "ordered_for ?f xs"
    unfolding ordered_for_def
  proof (intro allI impI)
    fix i j assume "i \<le> j" "j < length xs"
    with assms [of i j] show "?f (xs ! i) \<le> ?f (xs ! j)" by (auto simp: less_eq_Ordering_def)
  qed
  obtain i where i: "binary_search_by ?f xs = Err i"
    using binary_search_by_Ok [OF ord] by (cases "binary_search_by ?f xs") (auto split: if_splits)
  then have "partition_point p xs = i" by (simp add: partition_point_def)
  with binary_search_by_Err [OF ord i]
  show "partition_point p xs \<le> length xs"
    and "j < partition_point p xs \<Longrightarrow> p (xs ! j)"
    and "partition_point p xs \<le> j \<Longrightarrow> j < length xs \<Longrightarrow> \<not> p (xs ! j)"
    by (auto split: if_splits) (metis Ordering.distinct(3))+
qed

lemma partition_point_eqI:
  assumes "n \<le> length xs" and "\<And>i. i < length xs \<Longrightarrow> p (xs ! i) \<longleftrightarrow> i < n"
  shows "partition_point p xs = n"
proof -
  have first: "p (xs ! i)" if "i \<le> j" "j < length xs" "p (xs ! j)" for i j
    using that assms(2) [of i] assms(2) [of j] by simp
  let ?k = "partition_point p xs"
  have bound: "?k \<le> length xs" by (rule partition_point_split(1)) (rule first)
  have below: "p (xs ! n)" if "n < ?k" using that by (rule partition_point_split(2) [rotated]) (rule first)
  have above: "\<not> p (xs ! ?k)" if "?k < length xs"
    by (rule partition_point_split(3) [OF _ le_refl that]) (rule first)
  have "\<not> ?k < n" using above assms(1) assms(2) [of ?k] by auto
  moreover have "\<not> n < ?k" using below bound assms(2) [of n] by auto
  ultimately show ?thesis by simp
qed

end
