(* ===== verification/Sparse_Csc.thy ===== *)
theory Sparse_Csc
  imports Array_Shape Rust_Std
begin

section \<open>Compressed sparse columns (openmat-sparse/src/matrix.rs)\<close>

text \<open>
  Sparse matrices in compressed-sparse-column form: normalisation of coordinate entries,
  validation of caller-supplied parts, lookup, iteration and transposition. Allocation and
  cooperative cancellation are observations of the environment: each allocation request may be
  refused, and each poll of the cancellation flag may find it set, whatever the earlier ones found.
\<close>

subsection \<open>Errors (openmat-sparse/src/error.rs)\<close>

datatype SparseInvariant =
    ColumnOffsetLength
  | FirstColumnOffset
  | ColumnOffsets
  | FinalColumnOffset
  | StorageLength
  | RowOutOfBounds
  | RowOrder
  | ExplicitZero
  | ReserveTooSmall

datatype SparseError =
    ShapeOverflow nat nat
  | SparseHostLengthOverflow nat
  | Allocation string nat
  | CoordinateOutOfBounds nat nat nat nat
  | SparseLinearIndexOutOfBounds nat nat
  | SubscriptOutOfBounds nat nat nat
  | SparseOffsetOverflow
  | InvalidCsc SparseInvariant
  | UnsupportedDenseType
  | ShapeMismatch string "nat list" "nat list"
  | ElementCountMismatch nat nat
  | AssignmentSizeMismatch nat nat
  | UnsupportedConcatenationDimension nat
  | Cancelled

subsection \<open>The environment\<close>

text \<open>
  \<open>reservable storage n\<close> tells whether reserving \<open>n\<close> elements for the named storage succeeds, and
  \<open>flag site progress\<close> what a load of the cancellation flag sees at a polling site. A missing flag
  is never seen set.
\<close>

record sparse_env =
  cancellation :: "(string \<Rightarrow> nat \<Rightarrow> bool) option"
  reservable :: "string \<Rightarrow> nat \<Rightarrow> bool"

definition cancellation_interval :: nat where
  "cancellation_interval = 1024"

definition check_cancelled :: "sparse_env \<Rightarrow> string \<Rightarrow> nat \<Rightarrow> (SparseError, unit) result" where
  "check_cancelled env site progress =
     (if progress mod cancellation_interval = 0 \<and>
         (case cancellation env of None \<Rightarrow> False | Some flag \<Rightarrow> flag site progress)
      then Err Cancelled else Ok ())"

definition reserved_vec :: "sparse_env \<Rightarrow> string \<Rightarrow> nat \<Rightarrow> (SparseError, 'a list) result" where
  "reserved_vec env storage n = (if reservable env storage n then Ok [] else Err (Allocation storage n))"

definition reserve_more :: "sparse_env \<Rightarrow> string \<Rightarrow> nat \<Rightarrow> nat \<Rightarrow> (SparseError, unit) result" where
  "reserve_more env storage current n =
     (if current < n \<and> \<not> reservable env storage n then Err (Allocation storage n) else Ok ())"

definition checked_usize :: "nat \<Rightarrow> (SparseError, nat) result" where
  "checked_usize n = ok_or (SparseHostLengthOverflow n) (try_from usize_max n)"

definition checked_u64 :: "nat \<Rightarrow> (SparseError, nat) result" where
  "checked_u64 n = ok_or (SparseHostLengthOverflow u64_max) (try_from u64_max n)"

definition sparse_shape :: "nat \<Rightarrow> nat \<Rightarrow> (SparseError, Shape) result" where
  "sparse_shape rows columns = map_err (\<lambda>_. ShapeOverflow rows columns) (shape_new [rows, columns])"

subsection \<open>Data\<close>

record 't CooEntry =
  coo_row :: nat
  coo_column :: nat
  coo_value :: 't

text \<open>The scalar behaviour normalisation needs, as a dictionary of the trait's methods.\<close>

record 't CscElement =
  combine :: "'t \<Rightarrow> 't \<Rightarrow> 't"
  is_explicit_zero :: "'t \<Rightarrow> bool"

definition csc_element_logical :: "bool CscElement" where
  "csc_element_logical = \<lparr>combine = (\<lambda>a b. a \<or> b), is_explicit_zero = (\<lambda>a. \<not> a)\<rparr>"

record 't CscStorage =
  col_offsets :: "nat list"
  row_indices :: "nat list"
  csc_values :: "'t list"
  reserved_nnz :: nat

record 't CscMatrix =
  csc_shape :: Shape
  storage :: "'t CscStorage"

definition csc_rows :: "'t CscMatrix \<Rightarrow> nat" where
  "csc_rows m = shape_extent (csc_shape m) 0"

definition csc_columns :: "'t CscMatrix \<Rightarrow> nat" where
  "csc_columns m = shape_extent (csc_shape m) 1"

definition csc_numel :: "'t CscMatrix \<Rightarrow> nat" where
  "csc_numel m = numel (csc_shape m)"

definition nnz :: "'t CscMatrix \<Rightarrow> nat" where
  "nnz m = length (csc_values (storage m))"

definition nzmax :: "'t CscMatrix \<Rightarrow> nat" where
  "nzmax m = max (reserved_nnz (storage m)) 1"

definition payload_bytes :: "nat \<Rightarrow> 't CscMatrix \<Rightarrow> nat option" where
  "payload_bytes value_bytes m =
     Option.bind (try_from u64_max (length (col_offsets (storage m)))) (\<lambda>offsets.
     Option.bind (try_from u64_max (nzmax m)) (\<lambda>reserved.
     Option.bind (checked_mul u64_max offsets 8) (\<lambda>offset_bytes.
     Option.bind (checked_add u64_max 8 value_bytes) (\<lambda>entry_bytes.
     Option.bind (checked_mul u64_max reserved entry_bytes) (\<lambda>stored_bytes.
       checked_add u64_max offset_bytes stored_bytes)))))"

subsection \<open>Lookup\<close>

definition stored_entry :: "'t CscMatrix \<Rightarrow> nat \<Rightarrow> (nat \<times> nat \<times> 't) option" where
  "stored_entry m position =
     Option.bind (slice_get (row_indices (storage m)) position) (\<lambda>row.
     Option.bind (try_from u64_max position) (\<lambda>offset.
     Option.bind (checked_sub (partition_point (\<lambda>column_offset. column_offset \<le> offset)
                                 (col_offsets (storage m))) 1) (\<lambda>column.
     Option.bind (try_from u64_max column) (\<lambda>column.
     Option.bind (slice_get (csc_values (storage m)) position) (\<lambda>value.
       Some (row, column, value))))))"

text \<open>\<open>slice::get(start..end)\<close>: nothing when the bounds are out of order or past the end.\<close>

definition slice_range :: "'a list \<Rightarrow> nat \<Rightarrow> nat \<Rightarrow> 'a list option" where
  "slice_range xs i j = (if i \<le> j \<and> j \<le> length xs then Some (take (j - i) (drop i xs)) else None)"

definition get_zero_based :: "'t CscMatrix \<Rightarrow> nat \<Rightarrow> nat \<Rightarrow> 't option" where
  "get_zero_based m row column =
     (if csc_rows m \<le> row \<or> csc_columns m \<le> column then None
      else
        Option.bind (try_from usize_max column) (\<lambda>column.
        Option.bind (Option.bind (slice_get (col_offsets (storage m)) column) (try_from usize_max)) (\<lambda>first.
        Option.bind (Option.bind (slice_get (col_offsets (storage m)) (column + 1)) (try_from usize_max)) (\<lambda>final.
        Option.bind (slice_range (row_indices (storage m)) first final) (\<lambda>slice.
        Option.bind (case binary_search slice row of Inl _ \<Rightarrow> None | Inr i \<Rightarrow> Some i) (\<lambda>relative.
          slice_get (csc_values (storage m)) (first + relative)))))))"

definition get_linear_one_based :: "'t CscMatrix \<Rightarrow> nat \<Rightarrow> (SparseError, 't option) result" where
  "get_linear_one_based m index =
     (if index = 0 \<or> csc_numel m < index then Err (SparseLinearIndexOutOfBounds index (csc_numel m))
      else Ok (get_zero_based m ((index - 1) mod csc_rows m) ((index - 1) div csc_rows m)))"

definition get_subscripts_one_based :: "'t CscMatrix \<Rightarrow> nat \<Rightarrow> nat \<Rightarrow> (SparseError, 't option) result" where
  "get_subscripts_one_based m row column =
     and_then (for_each (\<lambda>(dimension, index, extent).
         if index = 0 \<or> extent < index then Err (SubscriptOutOfBounds dimension index extent) else Ok ())
       (enumerate 0 [(row, csc_rows m), (column, csc_columns m)])) (\<lambda>_.
     Ok (get_zero_based m (row - 1) (column - 1)))"

subsection \<open>The entry iterator\<close>

record CscEntries =
  entries_offset :: nat
  entries_column :: nat

function skip_columns :: "nat list \<Rightarrow> nat \<Rightarrow> nat \<Rightarrow> nat" where
  "skip_columns offsets offset column =
     (if column + 1 < length offsets \<and> offsets ! (column + 1) \<le> offset
      then skip_columns offsets offset (column + 1) else column)"
  by pat_completeness auto
termination
  by (relation "measure (\<lambda>(offsets, _, column). length offsets - column)") auto

declare skip_columns.simps [simp del]

definition entries_next :: "'t CscMatrix \<Rightarrow> CscEntries \<Rightarrow> ((nat \<times> nat \<times> 't) \<times> CscEntries) option" where
  "entries_next m it =
     (if nnz m \<le> entries_offset it then None
      else
        let column = skip_columns (col_offsets (storage m)) (entries_offset it) (entries_column it) in
        Option.bind (slice_get (row_indices (storage m)) (entries_offset it)) (\<lambda>row.
        Option.bind (slice_get (csc_values (storage m)) (entries_offset it)) (\<lambda>value.
          Some ((row, column, value),
                \<lparr>entries_offset = entries_offset it + 1, entries_column = column\<rparr>))))"

text \<open>Draining the iterator, as every \<open>for\<close> loop over it does.\<close>

lemma entries_next_advances:
  "entries_next m it = Some (x, it') \<Longrightarrow>
   entries_offset it' = Suc (entries_offset it) \<and> entries_offset it < nnz m"
  by (auto simp: entries_next_def Let_def Option.bind_eq_Some_conv split: if_splits)

function entries_from :: "'t CscMatrix \<Rightarrow> CscEntries \<Rightarrow> (nat \<times> nat \<times> 't) list" where
  "entries_from m it =
     (case entries_next m it of None \<Rightarrow> [] | Some (x, it') \<Rightarrow> x # entries_from m it')"
  by pat_completeness auto
termination
  by (relation "measure (\<lambda>(m, it). nnz m - entries_offset it)")
     (auto dest!: entries_next_advances)

declare entries_from.simps [simp del]

definition entries :: "'t CscMatrix \<Rightarrow> (nat \<times> nat \<times> 't) list" where
  "entries m = entries_from m \<lparr>entries_offset = 0, entries_column = 0\<rparr>"

subsection \<open>Construction\<close>

definition offset_count :: "nat \<Rightarrow> (SparseError, nat) result" where
  "offset_count columns =
     and_then (checked_usize columns) (\<lambda>n.
       ok_or (SparseHostLengthOverflow columns) (checked_add usize_max n 1))"

definition try_empty :: "sparse_env \<Rightarrow> nat \<Rightarrow> nat \<Rightarrow> nat \<Rightarrow> (SparseError, 't CscMatrix) result" where
  "try_empty env rows columns reserve =
     and_then (sparse_shape rows columns) (\<lambda>s.
     and_then (check_cancelled env ''empty'' 0) (\<lambda>_.
     and_then (offset_count columns) (\<lambda>n.
     and_then (reserved_vec env ''column offsets'' n) (\<lambda>offsets.
     and_then (fold_result (\<lambda>offsets index.
         and_then (check_cancelled env ''empty offsets'' index) (\<lambda>_. Ok (offsets @ [0]))) offsets [0..<n]) (\<lambda>offsets.
     and_then (reserved_vec env ''row indices'' reserve) (\<lambda>rs.
     and_then (reserved_vec env ''values'' reserve) (\<lambda>vs.
       Ok \<lparr>csc_shape = s,
           storage = \<lparr>col_offsets = offsets, row_indices = rs, csc_values = vs, reserved_nnz = reserve\<rparr>\<rparr>)))))))"

definition check_coordinates :: "sparse_env \<Rightarrow> nat \<Rightarrow> nat \<Rightarrow> 't CooEntry list \<Rightarrow> (SparseError, unit) result" where
  "check_coordinates env rows columns es =
     for_each (\<lambda>(index, e).
       and_then (check_cancelled env ''coordinates'' index) (\<lambda>_.
         if rows \<le> coo_row e \<or> columns \<le> coo_column e
         then Err (CoordinateOutOfBounds (coo_row e) (coo_column e) rows columns) else Ok ()))
       (enumerate 0 es)"

definition coo_key :: "'t CooEntry \<times> nat \<Rightarrow> nat \<times> nat \<times> nat" where
  "coo_key = (\<lambda>(e, index). (coo_column e, coo_row e, index))"

definition order_entries :: "sparse_env \<Rightarrow> 't CooEntry list \<Rightarrow> (SparseError, ('t CooEntry \<times> nat) list) result" where
  "order_entries env es =
     and_then (reserved_vec env ''COO ordering'' (length es)) (\<lambda>ordered.
     and_then (fold_result (\<lambda>ordered (index, e).
         and_then (check_cancelled env ''ordering'' index) (\<lambda>_. Ok (ordered @ [(e, index)])))
       ordered (enumerate 0 es)) (\<lambda>ordered.
     let sorted_entries = sort_key coo_key ordered in
     and_then (check_cancelled env ''sorted'' (length sorted_entries)) (\<lambda>_. Ok sorted_entries)))"

text \<open>
  The combining loop works on the entries not yet consumed, \<open>input\<close> being the position of the first
  of them. The inner loop takes the entries at one coordinate.
\<close>

fun combine_run :: "'t CscElement \<Rightarrow> sparse_env \<Rightarrow> nat \<times> nat \<Rightarrow> 't \<Rightarrow> nat \<Rightarrow> ('t CooEntry \<times> nat) list \<Rightarrow>
    (SparseError, 't \<times> nat \<times> ('t CooEntry \<times> nat) list) result" where
  "combine_run el env coordinate value input [] = Ok (value, input, [])"
| "combine_run el env coordinate value input ((e, i) # rest) =
     and_then (check_cancelled env ''combine'' input) (\<lambda>_.
       if (coo_column e, coo_row e) \<noteq> coordinate then Ok (value, input, (e, i) # rest)
       else combine_run el env coordinate (combine el value (coo_value e)) (input + 1) rest)"

function push_offsets :: "nat \<Rightarrow> nat \<Rightarrow> nat \<Rightarrow> nat list \<Rightarrow> (SparseError, nat list) result" where
  "push_offsets target count output_column offsets =
     (if output_column < target then
        and_then (checked_u64 count) (\<lambda>c. push_offsets target count (output_column + 1) (offsets @ [c]))
      else Ok offsets)"
  by pat_completeness auto
termination
  by (relation "measure (\<lambda>(target, _, output_column, _). target - output_column)") auto

declare push_offsets.simps [simp del]

lemma combine_run_shrinks:
  "combine_run el env coordinate u input rest = Ok (v, input', rest') \<Longrightarrow> length rest' \<le> length rest"
  by (induction rest arbitrary: u input) (fastforce simp: result_simps split: if_splits)+

function combine_loop :: "'t CscElement \<Rightarrow> sparse_env \<Rightarrow> nat \<Rightarrow> ('t CooEntry \<times> nat) list \<Rightarrow>
    nat list \<Rightarrow> nat list \<Rightarrow> 't list \<Rightarrow> nat \<Rightarrow> (SparseError, nat list \<times> nat list \<times> 't list \<times> nat) result" where
  "combine_loop el env input [] offsets rs vs output_column = Ok (offsets, rs, vs, output_column)"
| "combine_loop el env input ((e, i) # rest) offsets rs vs output_column =
     and_then (check_cancelled env ''entry'' input) (\<lambda>_.
     and_then (combine_run el env (coo_column e, coo_row e) (coo_value e) (input + 1) rest) (\<lambda>(value, input', rest').
     and_then (push_offsets (coo_column e) (length vs) output_column offsets) (\<lambda>offsets'.
       if is_explicit_zero el value
       then combine_loop el env input' rest' offsets' rs vs (max output_column (coo_column e))
       else combine_loop el env input' rest' offsets' (rs @ [coo_row e]) (vs @ [value])
              (max output_column (coo_column e)))))"
  by pat_completeness auto
termination
  by (relation "measure (\<lambda>(_, _, _, xs, _). length xs)") (auto dest!: combine_run_shrinks)

function finish_offsets :: "sparse_env \<Rightarrow> nat \<Rightarrow> nat \<Rightarrow> nat \<Rightarrow> nat list \<Rightarrow> (SparseError, nat list) result" where
  "finish_offsets env columns count output_column offsets =
     (if output_column < columns then
        and_then (check_cancelled env ''final offsets'' (length offsets)) (\<lambda>_.
        and_then (checked_u64 count) (\<lambda>c.
          finish_offsets env columns count (output_column + 1) (offsets @ [c])))
      else Ok offsets)"
  by pat_completeness auto
termination
  by (relation "measure (\<lambda>(_, columns, _, output_column, _). columns - output_column)") auto

declare finish_offsets.simps [simp del]

definition try_from_coo :: "'t CscElement \<Rightarrow> sparse_env \<Rightarrow> nat \<Rightarrow> nat \<Rightarrow> 't CooEntry list \<Rightarrow> nat \<Rightarrow>
    (SparseError, 't CscMatrix) result" where
  "try_from_coo el env rows columns es reserve =
     and_then (sparse_shape rows columns) (\<lambda>s.
     and_then (check_cancelled env ''coo'' 0) (\<lambda>_.
     and_then (check_coordinates env rows columns es) (\<lambda>_.
     and_then (order_entries env es) (\<lambda>ordered.
     let working_capacity = max reserve (length ordered) in
     and_then (reserved_vec env ''row indices'' working_capacity) (\<lambda>rs.
     and_then (reserved_vec env ''values'' working_capacity) (\<lambda>vs.
     and_then (offset_count columns) (\<lambda>n.
     and_then (reserved_vec env ''column offsets'' n) (\<lambda>offsets.
     and_then (combine_loop el env 0 ordered (offsets @ [0]) rs vs 0) (\<lambda>(offsets, rs, vs, output_column).
     and_then (finish_offsets env columns (length vs) output_column offsets) (\<lambda>offsets.
       Ok \<lparr>csc_shape = s,
           storage = \<lparr>col_offsets = offsets, row_indices = rs, csc_values = vs,
                      reserved_nnz = max reserve (length vs)\<rparr>\<rparr>))))))))))"

subsection \<open>Validation of caller-supplied parts\<close>

fun check_column :: "'t CscElement \<Rightarrow> sparse_env \<Rightarrow> nat \<Rightarrow> nat list \<Rightarrow> 't list \<Rightarrow> nat option \<Rightarrow> nat list \<Rightarrow>
    (SparseError, unit) result" where
  "check_column el env rows rs vs previous [] = Ok ()"
| "check_column el env rows rs vs previous (offset # rest) =
     and_then (check_cancelled env ''part offset'' offset) (\<lambda>_.
       let row = rs ! offset in
       if rows \<le> row then Err (InvalidCsc RowOutOfBounds)
       else if (case previous of None \<Rightarrow> False | Some p \<Rightarrow> row \<le> p) then Err (InvalidCsc RowOrder)
       else if is_explicit_zero el (vs ! offset) then Err (InvalidCsc ExplicitZero)
       else check_column el env rows rs vs (Some row) rest)"

definition check_columns :: "'t CscElement \<Rightarrow> sparse_env \<Rightarrow> nat \<Rightarrow> nat \<Rightarrow> nat list \<Rightarrow> nat list \<Rightarrow> 't list \<Rightarrow>
    (SparseError, unit) result" where
  "check_columns el env rows columns offsets rs vs =
     for_each (\<lambda>column.
       and_then (check_cancelled env ''part column'' column) (\<lambda>_.
       and_then (checked_usize (offsets ! column)) (\<lambda>first.
       and_then (checked_usize (offsets ! (column + 1))) (\<lambda>final.
         if final < first \<or> length vs < final then Err (InvalidCsc ColumnOffsets)
         else check_column el env rows rs vs None [first..<final]))))
       [0..<columns]"

text \<open>The capacities are those of the vectors the caller hands over.\<close>

definition try_from_canonical_parts :: "'t CscElement \<Rightarrow> sparse_env \<Rightarrow> nat \<Rightarrow> nat \<Rightarrow> nat list \<Rightarrow> nat list \<Rightarrow> 't list \<Rightarrow>
    nat \<Rightarrow> nat \<Rightarrow> nat \<Rightarrow> (SparseError, 't CscMatrix) result" where
  "try_from_canonical_parts el env rows columns offsets rs vs reserve row_capacity value_capacity =
     and_then (sparse_shape rows columns) (\<lambda>s.
     and_then (check_cancelled env ''parts'' 0) (\<lambda>_.
     and_then (checked_usize columns) (\<lambda>columns.
     and_then (ok_or (InvalidCsc ColumnOffsetLength) (checked_add usize_max columns 1)) (\<lambda>n.
     and_then (ensure (length offsets = n) (InvalidCsc ColumnOffsetLength)) (\<lambda>_.
     and_then (ensure (length rs = length vs) (InvalidCsc StorageLength)) (\<lambda>_.
     and_then (ensure (length vs \<le> reserve) (InvalidCsc ReserveTooSmall)) (\<lambda>_.
     and_then (ensure (slice_get offsets 0 = Some 0) (InvalidCsc FirstColumnOffset)) (\<lambda>_.
     and_then (checked_u64 (length vs)) (\<lambda>count.
     and_then (ensure (offsets \<noteq> [] \<and> last offsets = count) (InvalidCsc FinalColumnOffset)) (\<lambda>_.
     and_then (check_columns el env rows columns offsets rs vs) (\<lambda>_.
     and_then (reserve_more env ''row indices'' row_capacity reserve) (\<lambda>_.
     and_then (reserve_more env ''values'' value_capacity reserve) (\<lambda>_.
       Ok \<lparr>csc_shape = s,
           storage = \<lparr>col_offsets = offsets, row_indices = rs, csc_values = vs, reserved_nnz = reserve\<rparr>\<rparr>)))))))))))))"

subsection \<open>Transposition\<close>

definition try_transpose :: "'u CscElement \<Rightarrow> sparse_env \<Rightarrow> ('t \<Rightarrow> 'u) \<Rightarrow> 't CscMatrix \<Rightarrow>
    (SparseError, 'u CscMatrix) result" where
  "try_transpose el env transform m =
     and_then (reserved_vec env ''transpose COO'' (nnz m)) (\<lambda>es.
     and_then (fold_result (\<lambda>es (position, row, column, value).
         and_then (check_cancelled env ''transpose'' position) (\<lambda>_.
           Ok (es @ [\<lparr>coo_row = column, coo_column = row, coo_value = transform value\<rparr>])))
       es (enumerate 0 (entries m))) (\<lambda>es.
     try_from_coo el env (csc_columns m) (csc_rows m) es (reserved_nnz (storage m))))"


subsection \<open>What a matrix holds\<close>

text \<open>
  Canonical storage lists its entries by column and then by row, each coordinate once. We relate the
  three arrays to the list of keyed entries they spell out, the key being column before row.
\<close>

type_synonym 't triples = "((nat \<times> nat) \<times> 't) list"

definition column_count :: "'t triples \<Rightarrow> nat \<Rightarrow> nat" where
  "column_count ts c = length (filter (\<lambda>t. fst (fst t) < c) ts)"

definition spells :: "'t CscElement \<Rightarrow> nat \<Rightarrow> nat \<Rightarrow> 't CscStorage \<Rightarrow> 't triples \<Rightarrow> bool" where
  "spells el rows columns st ts \<longleftrightarrow>
     col_offsets st = map (column_count ts) [0..<Suc columns] \<and>
     row_indices st = map (snd \<circ> fst) ts \<and> csc_values st = map snd ts \<and>
     sorted_wrt (<) (map fst ts) \<and>
     (\<forall>t\<in>set ts. fst (fst t) < columns \<and> snd (fst t) < rows \<and> \<not> is_explicit_zero el (snd t))"

definition wf_storage :: "'t CscElement \<Rightarrow> nat \<Rightarrow> nat \<Rightarrow> 't CscStorage \<Rightarrow> bool" where
  "wf_storage el rows columns st \<longleftrightarrow>
     length (col_offsets st) = columns + 1 \<and> length (row_indices st) = length (csc_values st) \<and>
     col_offsets st ! 0 = 0 \<and> col_offsets st ! columns = length (csc_values st) \<and>
     (\<forall>c<columns. col_offsets st ! c \<le> col_offsets st ! (c + 1)) \<and>
     (\<forall>c<columns. sorted_wrt (<) (map ((!) (row_indices st)) [col_offsets st ! c..<col_offsets st ! (c + 1)])) \<and>
     (\<forall>r\<in>set (row_indices st). r < rows) \<and> (\<forall>v\<in>set (csc_values st). \<not> is_explicit_zero el v)"

definition wf_csc :: "'t CscElement \<Rightarrow> 't CscMatrix \<Rightarrow> bool" where
  "wf_csc el m \<longleftrightarrow>
     sparse_shape (csc_rows m) (csc_columns m) = Ok (csc_shape m) \<and> csc_columns m < usize_max \<and>
     wf_storage el (csc_rows m) (csc_columns m) (storage m) \<and> nnz m \<le> reserved_nnz (storage m) \<and>
     reserved_nnz (storage m) \<le> usize_max"

subsubsection \<open>Counting a prefix\<close>

lemma length_filter_prefix:
  assumes "\<And>i j. i \<le> j \<Longrightarrow> j < length xs \<Longrightarrow> P (xs ! j) \<Longrightarrow> P (xs ! i)" and "p < length xs"
  shows "p < length (filter P xs) \<longleftrightarrow> P (xs ! p)"
  using assms
proof (induction xs arbitrary: p)
  case Nil
  then show ?case by simp
next
  case (Cons x xs)
  have step: "P (xs ! i)" if "i \<le> j" "j < length xs" "P (xs ! j)" for i j
    using Cons.prems(1) [of "Suc i" "Suc j"] that by simp
  show ?case
  proof (cases "P x")
    case True
    with Cons.prems(2) Cons.IH [OF step] show ?thesis by (cases p) auto
  next
    case False
    have "\<not> P (xs ! j)" if "j < length xs" for j
      using Cons.prems(1) [of 0 "Suc j"] that False by auto
    then have "filter P xs = []" by (auto simp: filter_empty_conv in_set_conv_nth)
    moreover have "\<not> P ((x # xs) ! p)" using Cons.prems False by (metis le0 nth_Cons_0)
    ultimately show ?thesis using False by simp
  qed
qed

lemma column_count_append [simp]: "column_count (ts @ us) c = column_count ts c + column_count us c"
  by (simp add: column_count_def)

lemma column_count_le: "column_count ts c \<le> length ts"
  by (simp add: column_count_def)

lemma column_count_all: "\<forall>t\<in>set ts. fst (fst t) < c \<Longrightarrow> column_count ts c = length ts"
  by (simp add: column_count_def filter_True)

lemma column_count_none: "\<forall>t\<in>set ts. c \<le> fst (fst t) \<Longrightarrow> column_count ts c = 0"
  by (auto simp: column_count_def filter_empty_conv leD)

lemma column_count_mono: "c \<le> d \<Longrightarrow> column_count ts c \<le> column_count ts d"
  unfolding column_count_def by (induction ts) auto

lemma sorted_keys_columns:
  fixes ts :: "'t triples"
  assumes "sorted_wrt (<) (map fst ts)" and "i \<le> j" and "j < length ts"
  shows "fst (fst (ts ! i)) \<le> fst (fst (ts ! j))"
proof (cases "i = j")
  case False
  with assms have "fst (ts ! i) < fst (ts ! j)"
    using sorted_wrt_nth_less [OF assms(1), of i j] by simp
  then show ?thesis by (auto simp: less_prod_def)
qed simp

text \<open>In key order, position \<open>p\<close> lies before the start of column \<open>c\<close> exactly when its column is below \<open>c\<close>.\<close>

lemma column_count_less_iff:
  assumes "sorted_wrt (<) (map fst ts)" and "p < length ts"
  shows "p < column_count ts c \<longleftrightarrow> fst (fst (ts ! p)) < c"
  unfolding column_count_def
  by (rule length_filter_prefix) (use assms sorted_keys_columns [OF assms(1)] in \<open>auto intro: le_less_trans\<close>)

lemma spells_nth:
  assumes "spells el rows columns st ts"
  shows "length (row_indices st) = length ts" and "length (csc_values st) = length ts"
    and "length (col_offsets st) = Suc columns"
    and "c \<le> columns \<Longrightarrow> col_offsets st ! c = column_count ts c"
    and "p < length ts \<Longrightarrow> row_indices st ! p = snd (fst (ts ! p))"
    and "p < length ts \<Longrightarrow> csc_values st ! p = snd (ts ! p)"
    and "p < length ts \<Longrightarrow> fst (fst (ts ! p)) < columns"
    and "sorted_wrt (<) (map fst ts)"
  using assms by (auto simp: spells_def nth_append dest: nth_mem simp del: upt_Suc)

lemma spells_distinct: "spells el rows columns st ts \<Longrightarrow> distinct (map fst ts)"
  by (simp add: spells_def strict_sorted_iff)

lemma map_of_nth_key:
  assumes "distinct (map fst ts)" and "p < length ts"
  shows "map_of ts (fst (ts ! p)) = Some (snd (ts ! p))"
  using assms by (simp add: map_of_eq_Some_iff)


subsubsection \<open>Lookup by coordinate\<close>

lemma spells_slice_nth:
  assumes "spells el rows columns st ts" and "c < columns" and "i < column_count ts (Suc c) - column_count ts c"
  shows "take (column_count ts (Suc c) - column_count ts c) (drop (column_count ts c) (row_indices st)) ! i =
      snd (fst (ts ! (column_count ts c + i)))"
    and "fst (fst (ts ! (column_count ts c + i))) = c"
proof -
  note sp = spells_nth [OF assms(1)]
  have p: "column_count ts c + i < length ts" "column_count ts c + i < column_count ts (Suc c)"
    using assms(3) column_count_le [of ts "Suc c"] by auto
  show "take (column_count ts (Suc c) - column_count ts c) (drop (column_count ts c) (row_indices st)) ! i =
      snd (fst (ts ! (column_count ts c + i)))"
    using sp(1,5) p assms(3) by simp
  show "fst (fst (ts ! (column_count ts c + i))) = c"
    using column_count_less_iff [OF sp(8) p(1), of c] column_count_less_iff [OF sp(8) p(1), of "Suc c"] p(2)
    by simp
qed

lemma spells_slice_sorted:
  assumes "spells el rows columns st ts" and "c < columns"
  shows "sorted_wrt (<) (take (column_count ts (Suc c) - column_count ts c) (drop (column_count ts c) (row_indices st)))"
    (is "sorted_wrt _ ?slice")
proof -
  note sp = spells_nth [OF assms(1)]
  have len: "length ?slice = column_count ts (Suc c) - column_count ts c"
    using sp(1) column_count_le [of ts "Suc c"] by simp
  show ?thesis
    unfolding sorted_wrt_iff_nth_less
  proof (intro allI impI)
    fix i j assume ij: "i < j" "j < length ?slice"
    have "fst (ts ! (column_count ts c + i)) < fst (ts ! (column_count ts c + j))"
      using sorted_wrt_nth_less [OF sp(8), of "column_count ts c + i" "column_count ts c + j"] ij
        column_count_le [of ts "Suc c"] sp(1) len by simp
    then show "?slice ! i < ?slice ! j"
      using spells_slice_nth [OF assms, of i] spells_slice_nth [OF assms, of j] ij len
      by (auto simp: less_prod_def)
  qed
qed

lemma spells_position:
  assumes "spells el rows columns st ts" and "p < length ts" and "fst (ts ! p) = (c, r)"
  shows "column_count ts c \<le> p" and "p < column_count ts (Suc c)" and "c < columns"
  using column_count_less_iff [OF spells_nth(8) [OF assms(1)] assms(2)] assms spells_nth(7) [OF assms(1,2)]
  by (auto simp: not_less [symmetric])

lemma get_zero_based_spells:
  assumes sp: "spells el (csc_rows m) (csc_columns m) (storage m) ts" and small: "csc_columns m < usize_max"
    and few: "length ts \<le> usize_max" and r: "r < csc_rows m" and c: "c < csc_columns m"
  shows "get_zero_based m r c = map_of ts (c, r)"
proof -
  note nths = spells_nth [OF sp]
  define slice where "slice = take (column_count ts (Suc c) - column_count ts c)
    (drop (column_count ts c) (row_indices (storage m)))"
  have ord: "column_count ts c \<le> column_count ts (Suc c)" "column_count ts (Suc c) \<le> length ts"
    by (simp_all add: column_count_mono column_count_le)
  have len: "length slice = column_count ts (Suc c) - column_count ts c"
    using nths(1) ord by (simp add: slice_def)
  have get: "get_zero_based m r c = Option.bind
      (case binary_search slice r of Inl _ \<Rightarrow> None | Inr i \<Rightarrow> Some i) (\<lambda>i. slice_get (csc_values (storage m)) (column_count ts c + i))"
    using r c small few ord nths
    by (simp add: get_zero_based_def try_from_def slice_get_def slice_range_def slice_def)
  show ?thesis
  proof (cases "binary_search slice r")
    case (Inr i)
    then have i: "i < length slice" "slice ! i = r"
      using binary_search_sorted [OF strict_sorted_imp_sorted [OF spells_slice_sorted [OF sp c]], of r]
      by (simp_all add: slice_def)
    with spells_slice_nth [OF sp c, of i] len have "fst (ts ! (column_count ts c + i)) = (c, r)"
      by (auto simp: slice_def prod_eq_iff)
    moreover have "column_count ts c + i < length ts" using i len ord by simp
    ultimately have "map_of ts (c, r) = Some (snd (ts ! (column_count ts c + i)))"
      using map_of_nth_key [OF spells_distinct [OF sp]] by metis
    with Inr get nths i len ord show ?thesis by (simp add: slice_get_def)
  next
    case (Inl k)
    have "map_of ts (c, r) = None"
    proof (rule ccontr)
      assume "map_of ts (c, r) \<noteq> None"
      then obtain p where p: "p < length ts" "fst (ts ! p) = (c, r)"
        by (metis fst_conv in_set_conv_nth map_of_SomeD not_None_eq)
      note pos = spells_position [OF sp this]
      from pos have "slice ! (p - column_count ts c) = r" "p - column_count ts c < length slice"
        using spells_slice_nth(1) [OF sp c, of "p - column_count ts c"] p len by (simp_all add: slice_def)
      then have "r \<in> set slice" by (metis nth_mem)
      with binary_search_sorted [OF strict_sorted_imp_sorted [OF spells_slice_sorted [OF sp c]], of r] Inl
      show False by (simp add: slice_def)
    qed
    with Inl get show ?thesis by simp
  qed
qed

subsubsection \<open>Iteration\<close>

lemma skip_columns_spells:
  assumes sp: "spells el rows columns st ts" and p: "p < length ts"
  shows "col \<le> fst (fst (ts ! p)) \<Longrightarrow> skip_columns (col_offsets st) p col = fst (fst (ts ! p))"
proof (induction "fst (fst (ts ! p)) - col" arbitrary: col)
  case 0
  then have eq: "col = fst (fst (ts ! p))" by simp
  have "p < col_offsets st ! (col + 1)"
    using column_count_less_iff [OF spells_nth(8) [OF sp] p, of "col + 1"] spells_nth(4) [OF sp, of "col + 1"]
      spells_nth(7) [OF sp p] eq by simp
  then show ?case using eq by (subst skip_columns.simps) simp
next
  case (Suc k)
  then have less: "col < fst (fst (ts ! p))" by simp
  then have "col_offsets st ! (col + 1) \<le> p" "col + 1 < length (col_offsets st)"
    using column_count_less_iff [OF spells_nth(8) [OF sp] p, of "col + 1"] spells_nth(4) [OF sp, of "col + 1"]
      spells_nth(7) [OF sp p] spells_nth(3) [OF sp] by simp_all
  then show ?case using Suc less by (subst skip_columns.simps) simp
qed

definition triple_entry :: "(nat \<times> nat) \<times> 't \<Rightarrow> nat \<times> nat \<times> 't" where
  "triple_entry t = (snd (fst t), fst (fst t), snd t)"

lemma entries_from_spells:
  assumes sp: "spells el rows columns (storage m) ts"
  shows "(p < length ts \<Longrightarrow> col \<le> fst (fst (ts ! p))) \<Longrightarrow>
    entries_from m \<lparr>entries_offset = p, entries_column = col\<rparr> = map triple_entry (drop p ts)"
proof (induction "length ts - p" arbitrary: p col)
  case 0
  then show ?case
    using spells_nth(2) [OF sp] by (subst entries_from.simps) (simp add: entries_next_def nnz_def)
next
  case (Suc k)
  then have p: "p < length ts" by simp
  note skip = skip_columns_spells [OF sp p Suc.prems [OF p]]
  have next_col: "fst (fst (ts ! p)) \<le> fst (fst (ts ! Suc p))" if "Suc p < length ts"
    using sorted_keys_columns [OF spells_nth(8) [OF sp], of p "Suc p"] that by simp
  have "entries_next m \<lparr>entries_offset = p, entries_column = col\<rparr> =
      Some (triple_entry (ts ! p), \<lparr>entries_offset = Suc p, entries_column = fst (fst (ts ! p))\<rparr>)"
    using spells_nth [OF sp] p skip
    by (simp add: entries_next_def nnz_def slice_get_def triple_entry_def Let_def)
  then have "entries_from m \<lparr>entries_offset = p, entries_column = col\<rparr> = triple_entry (ts ! p) #
      entries_from m \<lparr>entries_offset = Suc p, entries_column = fst (fst (ts ! p))\<rparr>"
    by (subst entries_from.simps) simp
  also have "\<dots> = triple_entry (ts ! p) # map triple_entry (drop (Suc p) ts)"
    using Suc.hyps(1) [of "Suc p"] Suc.hyps(2) next_col by simp
  also have "\<dots> = map triple_entry (drop p ts)"
    using p by (simp add: Cons_nth_drop_Suc [symmetric])
  finally show ?case .
qed

lemma entries_spells:
  "spells el rows columns (storage m) ts \<Longrightarrow> entries m = map triple_entry ts"
  unfolding entries_def using entries_from_spells [of el rows columns m ts 0 0] by simp

lemma stored_entry_spells:
  assumes sp: "spells el rows columns (storage m) ts" and few: "length ts \<le> usize_max" and small: "columns < usize_max"
  shows "stored_entry m p = (if p < length ts then Some (triple_entry (ts ! p)) else None)"
proof (cases "p < length ts")
  case False
  with spells_nth(1) [OF sp] show ?thesis by (simp add: stored_entry_def slice_get_def)
next
  case True
  note nths = spells_nth [OF sp]
  have "partition_point (\<lambda>off. off \<le> p) (col_offsets (storage m)) = Suc (fst (fst (ts ! p)))"
  proof (rule partition_point_eqI)
    show "Suc (fst (fst (ts ! p))) \<le> length (col_offsets (storage m))"
      using nths(3) nths(7) [OF True] by simp
    fix i assume "i < length (col_offsets (storage m))"
    then show "col_offsets (storage m) ! i \<le> p \<longleftrightarrow> i < Suc (fst (fst (ts ! p)))"
      using nths(3,4) column_count_less_iff [OF nths(8) True, of i] by auto
  qed
  moreover have "fst (fst (ts ! p)) \<le> u64_max"
    using nths(7) [OF True] small by (simp add: usize_max_eq_u64_max)
  ultimately show ?thesis
    using True nths few
    by (simp add: stored_entry_def slice_get_def try_from_def checked_sub_def triple_entry_def usize_max_eq_u64_max)
qed


subsection \<open>Normalisation of coordinate entries\<close>

text \<open>
  What the combining loop computes: the entries in key order, those at one coordinate folded into
  one value by \<open>combine\<close>, and explicit zeros dropped.
\<close>

abbreviation coo_coord :: "'t CooEntry \<times> nat \<Rightarrow> nat \<times> nat" where
  "coo_coord x \<equiv> (coo_column (fst x), coo_row (fst x))"

function grouped :: "'t CscElement \<Rightarrow> ('t CooEntry \<times> nat) list \<Rightarrow> 't triples" where
  "grouped el [] = []"
| "grouped el (x # rest) =
     (coo_coord x, foldl (combine el) (coo_value (fst x))
        (map (coo_value \<circ> fst) (takeWhile (\<lambda>y. coo_coord y = coo_coord x) rest))) #
     grouped el (dropWhile (\<lambda>y. coo_coord y = coo_coord x) rest)"
  by pat_completeness auto
termination
  by (relation "measure (length \<circ> snd)") (auto simp: less_Suc_eq_le length_dropWhile_le)

definition stored_triples :: "'t CscElement \<Rightarrow> ('t CooEntry \<times> nat) list \<Rightarrow> 't triples" where
  "stored_triples el xs = filter (\<lambda>t. \<not> is_explicit_zero el (snd t)) (grouped el xs)"

lemma combine_run_Ok:
  "combine_run el env k u input rest = Ok (v, input', rest') \<Longrightarrow>
   v = foldl (combine el) u (map (coo_value \<circ> fst) (takeWhile (\<lambda>y. coo_coord y = k) rest)) \<and>
   rest' = dropWhile (\<lambda>y. coo_coord y = k) rest"
  by (induction rest arbitrary: u input) (fastforce simp: result_simps split: if_splits)+

lemma push_offsets_Ok:
  "push_offsets target n col offs = Ok offs' \<Longrightarrow> offs' = offs @ replicate (target - col) n"
proof (induction target n col offs rule: push_offsets.induct)
  case (1 target n col offs)
  show ?case
  proof (cases "col < target")
    case True
    with "1.prems" obtain k where k: "checked_u64 n = Ok k" "push_offsets target n (col + 1) (offs @ [k]) = Ok offs'"
      by (subst (asm) push_offsets.simps) (auto simp: result_simps)
    then have "k = n" by (simp add: checked_u64_def result_simps checked_simps)
    with "1.IH" True k "1.prems" show ?thesis
      by (subst (asm) (2) push_offsets.simps) (auto simp: result_simps Suc_diff_Suc [symmetric])
  next
    case False
    with "1.prems" show ?thesis by (subst (asm) push_offsets.simps) simp
  qed
qed

lemma finish_offsets_Ok:
  "finish_offsets env target n col offs = Ok offs' \<Longrightarrow> offs' = offs @ replicate (target - col) n"
proof (induction env target n col offs rule: finish_offsets.induct)
  case (1 env target n col offs)
  show ?case
  proof (cases "col < target")
    case True
    with "1.prems" obtain k where k: "checked_u64 n = Ok k" "finish_offsets env target n (col + 1) (offs @ [k]) = Ok offs'"
      by (subst (asm) finish_offsets.simps) (auto simp: result_simps)
    then have "k = n" by (simp add: checked_u64_def result_simps checked_simps)
    with "1.IH" True k "1.prems" show ?thesis
      by (subst (asm) (2) finish_offsets.simps) (auto simp: result_simps Suc_diff_Suc [symmetric])
  next
    case False
    with "1.prems" show ?thesis by (subst (asm) finish_offsets.simps) simp
  qed
qed

text \<open>The state of the combining loop: offsets up to the current column, for the entries stored so far.\<close>

definition loop_state :: "'t triples \<Rightarrow> nat \<Rightarrow> nat list \<Rightarrow> nat list \<Rightarrow> 't list \<Rightarrow> bool" where
  "loop_state ts col offs rs vs \<longleftrightarrow>
     offs = map (column_count ts) [0..<Suc col] \<and> rs = map (snd \<circ> fst) ts \<and> vs = map snd ts \<and>
     (\<forall>t\<in>set ts. fst (fst t) \<le> col)"

lemma map_column_count_extend:
  assumes "\<forall>t\<in>set ts. fst (fst t) \<le> col" and "col \<le> d"
  shows "map (column_count ts) [0..<Suc col] @ replicate (d - col) (length ts) = map (column_count ts) [0..<Suc d]"
proof -
  have "[0..<Suc d] = [0..<Suc col] @ [Suc col..<Suc d]"
    using assms(2) by (metis Suc_le_mono le_add_diff_inverse upt_add_eq_append zero_le)
  moreover have "map (column_count ts) [Suc col..<Suc d] = replicate (d - col) (length ts)"
    using assms(1) by (intro replicate_eqI) (auto intro!: column_count_all simp: less_Suc_eq_le)
  ultimately show ?thesis by simp
qed

lemma loop_state_extend:
  assumes "loop_state ts col offs rs vs" and "col \<le> d"
  shows "loop_state ts d (offs @ replicate (d - col) (length vs)) rs vs"
  using assms map_column_count_extend [of ts col d] by (auto simp: loop_state_def)

lemma loop_state_push:
  assumes "loop_state ts col offs rs vs"
  shows "loop_state (ts @ [((col, r), v)]) col offs (rs @ [r]) (vs @ [v])"
proof -
  have "column_count (ts @ [((col, r), v)]) c = column_count ts c" if "c \<le> col" for c
    using that by (simp add: column_count_def)
  with assms show ?thesis by (auto simp: loop_state_def simp del: upt_Suc column_count_append)
qed

lemma sorted_dropWhile_map: "sorted (map f xs) \<Longrightarrow> sorted (map f (dropWhile P xs))"
  by (metis map_append sorted_append takeWhile_dropWhile_id)

lemma combine_loop_Ok:
  "combine_loop el env input xs offs rs vs col = Ok (offs', rs', vs', col') \<Longrightarrow>
   loop_state ts col offs rs vs \<Longrightarrow> sorted (map (coo_column \<circ> fst) xs) \<Longrightarrow>
   (\<forall>x\<in>set xs. col \<le> coo_column (fst x) \<and> coo_column (fst x) \<le> bound) \<Longrightarrow> col \<le> bound \<Longrightarrow>
   loop_state (ts @ stored_triples el xs) col' offs' rs' vs' \<and> col' \<le> bound"
proof (induction el env input xs offs rs vs col arbitrary: ts rule: combine_loop.induct)
  case (1 el env input offs rs vs col)
  then show ?case by (simp add: stored_triples_def)
next
  case (2 el env input e i rest offs rs vs col)
  let ?c = "coo_column e" and ?r = "coo_row e"
  have col: "col \<le> ?c" "?c \<le> bound" using "2.prems" by simp_all
  then have max: "max col ?c = ?c" by simp
  obtain u where poll: "check_cancelled env ''entry'' input = Ok u"
    using "2.prems"(1) by (auto simp: result_simps)
  with "2.prems"(1) obtain v input' rest' offs1
    where run: "combine_run el env (?c, ?r) (coo_value e) (input + 1) rest = Ok (v, input', rest')"
      and push: "push_offsets ?c (length vs) col offs = Ok offs1"
      and loop: "(if is_explicit_zero el v then combine_loop el env input' rest' offs1 rs vs ?c
        else combine_loop el env input' rest' offs1 (rs @ [?r]) (vs @ [v]) ?c) = Ok (offs', rs', vs', col')"
    by (auto simp: result_simps max cong: if_cong)
  note v = combine_run_Ok [OF run] and offs1 = push_offsets_Ok [OF push]
  have st: "loop_state ts ?c offs1 rs vs"
    unfolding offs1 using "2.prems"(2) col(1) by (rule loop_state_extend)
  have rest: "sorted (map (coo_column \<circ> fst) rest')"
      "\<forall>x\<in>set rest'. ?c \<le> coo_column (fst x) \<and> coo_column (fst x) \<le> bound"
    using "2.prems"(3,4) v sorted_dropWhile_map [of "coo_column \<circ> fst" rest]
    by (auto dest: set_dropWhileD simp: comp_def)
  have ts: "stored_triples el ((e, i) # rest) =
      (if is_explicit_zero el v then [] else [((?c, ?r), v)]) @ stored_triples el rest'"
    using v by (simp add: stored_triples_def)
  show ?case
  proof (cases "is_explicit_zero el v")
    case True
    with "2.IH"(1) [unfolded max, OF poll run refl refl push True _ st rest col(2)] loop show ?thesis
      by (simp add: max ts)
  next
    case False
    with "2.IH"(2) [unfolded max, OF poll run refl refl push False _ loop_state_push [OF st] rest col(2)] loop show ?thesis
      by (simp add: max ts)
  qed
qed


subsubsection \<open>Grouping in key order\<close>

lemma sorted_dropWhile_greater:
  fixes f :: "'a \<Rightarrow> 'k :: linorder"
  assumes "sorted (map f xs)" and "\<forall>x\<in>set xs. k \<le> f x"
  shows "\<forall>x\<in>set (dropWhile (\<lambda>x. f x = k) xs). k < f x"
  using assms by (induction xs) (auto simp: order.order_iff_strict)

lemma sorted_takeWhile_filter:
  fixes f :: "'a \<Rightarrow> 'k :: linorder"
  assumes "sorted (map f xs)" and "\<forall>x\<in>set xs. k \<le> f x"
  shows "takeWhile (\<lambda>x. f x = k) xs = filter (\<lambda>x. f x = k) xs"
    and "j \<noteq> k \<Longrightarrow> filter (\<lambda>x. f x = j) (dropWhile (\<lambda>x. f x = k) xs) = filter (\<lambda>x. f x = j) xs"
proof -
  show "takeWhile (\<lambda>x. f x = k) xs = filter (\<lambda>x. f x = k) xs"
  proof -
    have "filter (\<lambda>x. f x = k) (dropWhile (\<lambda>x. f x = k) xs) = []"
      using sorted_dropWhile_greater [OF assms] by (auto simp: filter_empty_conv)
    then show ?thesis
      by (metis append_Nil2 filter_append filter_True set_takeWhileD takeWhile_dropWhile_id)
  qed
  show "filter (\<lambda>x. f x = j) (dropWhile (\<lambda>x. f x = k) xs) = filter (\<lambda>x. f x = j) xs" if "j \<noteq> k"
  proof -
    have "filter (\<lambda>x. f x = j) (takeWhile (\<lambda>x. f x = k) xs) = []"
      using that by (auto simp: filter_empty_conv dest: set_takeWhileD)
    then show ?thesis
      by (metis append_Nil filter_append takeWhile_dropWhile_id)
  qed
qed

text \<open>The value of a coordinate: its entries folded in order, unless there is none.\<close>

definition fold_values :: "'t CscElement \<Rightarrow> 't list \<Rightarrow> 't option" where
  "fold_values el vs = (case vs of [] \<Rightarrow> None | v # vs \<Rightarrow> Some (foldl (combine el) v vs))"

lemma grouped_keys_subset: "t \<in> set (grouped el xs) \<Longrightarrow> \<exists>x\<in>set xs. fst t = coo_coord x"
  by (induction el xs rule: grouped.induct) (auto dest!: set_dropWhileD)

lemma length_grouped: "length (grouped el xs) \<le> length xs"
proof (induction el xs rule: grouped.induct)
  case (2 el x rest)
  then show ?case
    using length_dropWhile_le [of "\<lambda>y. coo_coord y = coo_coord x" rest] by simp
qed simp

lemma grouped_strict:
  "sorted (map coo_coord xs) \<Longrightarrow> sorted_wrt (<) (map fst (grouped el xs))"
proof (induction el xs rule: grouped.induct)
  case (2 el x rest)
  let ?rest = "dropWhile (\<lambda>y. coo_coord y = coo_coord x) rest"
  have sorted_rest: "sorted (map coo_coord rest)" "\<forall>y\<in>set rest. coo_coord x \<le> coo_coord y"
    using "2.prems" by auto
  have "coo_coord x < fst t" if "t \<in> set (grouped el ?rest)" for t
    using grouped_keys_subset [OF that] sorted_dropWhile_greater [OF sorted_rest] by auto
  with "2.IH" [OF sorted_dropWhile_map [OF sorted_rest(1)]] show ?case by simp
qed simp

lemma grouped_lookup:
  "sorted (map coo_coord xs) \<Longrightarrow>
   map_of (grouped el xs) k = fold_values el (map (coo_value \<circ> fst) (filter (\<lambda>x. coo_coord x = k) xs))"
proof (induction el xs rule: grouped.induct)
  case (1 el)
  then show ?case by (simp add: fold_values_def)
next
  case (2 el x rest)
  have sorted_rest: "sorted (map coo_coord rest)" "\<forall>y\<in>set rest. coo_coord x \<le> coo_coord y"
    using "2.prems" by auto
  note run = sorted_takeWhile_filter [OF sorted_rest]
  show ?case
  proof (cases "k = coo_coord x")
    case True
    then show ?thesis unfolding grouped.simps True run(1) by (simp add: fold_values_def comp_def del: prod.inject)
  next
    case False
    with "2.IH" [OF sorted_dropWhile_map [OF sorted_rest(1)]] run(2) [OF False]
    show ?thesis unfolding grouped.simps by (auto simp del: prod.inject)
  qed
qed

lemma map_of_filter_values:
  assumes "distinct (map fst ts)"
  shows "map_of (filter (\<lambda>t. P (snd t)) ts) k = (case map_of ts k of None \<Rightarrow> None | Some v \<Rightarrow> if P v then Some v else None)"
  using assms
proof (induction ts arbitrary: k)
  case (Cons t ts)
  then have "fst t \<notin> dom (map_of ts)" by (simp add: dom_map_of_conv_image_fst)
  then have "map_of ts (fst t) = None" by blast
  moreover from this have "map_of (filter (\<lambda>t. P (snd t)) ts) (fst t) = None"
    using Cons by simp
  ultimately show ?case using Cons by (cases t) (auto split: option.splits)
qed simp

definition explicit :: "'t CscElement \<Rightarrow> 't option \<Rightarrow> 't option" where
  "explicit el x = (case x of None \<Rightarrow> None | Some v \<Rightarrow> if is_explicit_zero el v then None else Some v)"

lemma stored_triples_lookup:
  assumes "sorted (map coo_coord xs)"
  shows "map_of (stored_triples el xs) k =
    explicit el (fold_values el (map (coo_value \<circ> fst) (filter (\<lambda>x. coo_coord x = k) xs)))"
  using grouped_strict [OF assms, of el]
  by (auto simp: stored_triples_def explicit_def strict_sorted_iff grouped_lookup [OF assms]
      map_of_filter_values [where P = "\<lambda>v. \<not> is_explicit_zero el v"] split: option.splits)

lemma stored_triples_strict:
  assumes "sorted (map coo_coord xs)"
  shows "sorted_wrt (<) (map fst (stored_triples el xs))"
  unfolding stored_triples_def
  using sorted_wrt_filter [of "\<lambda>s t. fst s < fst t" "grouped el xs"] grouped_strict [OF assms, of el]
  by (simp add: sorted_wrt_map)

subsubsection \<open>Sorting keeps the input order of duplicates\<close>

lemma order_entries_Ok:
  assumes "order_entries env es = Ok xs"
  shows "xs = sort_key coo_key (zip es [0..<length es])"
proof -
  from assms obtain ordered
    where "fold_result (\<lambda>acc (index, e). and_then (check_cancelled env ''ordering'' index) (\<lambda>_. Ok (acc @ [(e, index)])))
        [] (enumerate 0 es) = Ok ordered" and xs: "xs = sort_key coo_key ordered"
    by (auto simp: order_entries_def result_simps reserved_vec_def Let_def split: if_splits)
  from this(1) have "ordered = [] @ map (\<lambda>(i, e). (e, i)) (enumerate 0 es)"
    by (rule fold_result_push_Ok) (auto simp: result_simps)
  also have "\<dots> = zip es [0..<length es]"
    by (intro nth_equalityI) (auto simp: nth_enumerate_eq)
  finally show ?thesis by (simp add: xs)
qed

lemma order_entries_sorted:
  assumes "order_entries env es = Ok xs"
  shows "sorted (map coo_coord xs)"
proof -
  have "sorted (map coo_key xs)"
    unfolding order_entries_Ok [OF assms] by simp
  then have "sorted_wrt (\<lambda>x y. coo_key x \<le> coo_key y) xs" by (simp only: sorted_map)
  then have "sorted_wrt (\<lambda>x y. coo_coord x \<le> coo_coord y) xs"
    by (rule sorted_wrt_mono_rel [rotated]) (auto simp: coo_key_def less_eq_prod_def)
  then show ?thesis by (simp only: sorted_map)
qed

lemma order_entries_at:
  assumes "order_entries env es = Ok xs"
  shows "map (coo_value \<circ> fst) (filter (\<lambda>x. coo_coord x = k) xs) =
    map coo_value (filter (\<lambda>e. (coo_column e, coo_row e) = k) es)"
proof -
  let ?zs = "zip es [0..<length es]"
  let ?at = "\<lambda>x. coo_coord x = k"
  have "sorted_wrt (\<lambda>x y. coo_key x \<le> coo_key y) (filter ?at ?zs)"
  proof -
    have "sorted_wrt (\<lambda>x y. snd x \<le> snd y) ?zs"
      by (auto simp: sorted_wrt_iff_nth_less)
    then have "sorted_wrt (\<lambda>x y. snd x \<le> snd y) (filter ?at ?zs)" by (rule sorted_wrt_filter)
    then show ?thesis
      by (rule sorted_wrt_mono_rel [rotated]) (auto simp: coo_key_def less_eq_prod_def)
  qed
  then have "sort_key coo_key (filter ?at ?zs) = filter ?at ?zs"
    by (intro sort_key_id_if_sorted) (simp add: sorted_map)
  then have "filter ?at xs = filter ?at ?zs"
    unfolding order_entries_Ok [OF assms] by (simp add: filter_sort)
  moreover have "map (coo_value \<circ> fst) (filter ?at ?zs) = map coo_value (filter (\<lambda>e. (coo_column e, coo_row e) = k) es)"
  proof -
    have "map fst (filter (P \<circ> fst) (zip es [0..<length es])) = filter P es" for P
      by (simp add: filter_map [symmetric])
    from arg_cong [OF this, of "map coo_value"] show ?thesis by (simp add: comp_def)
  qed
  ultimately show ?thesis by simp
qed


subsection \<open>Outcomes\<close>

text \<open>
  A failure of the environment: a refused allocation or an observed cancellation, possible only when
  the environment is not quiet.
\<close>

definition quiet :: "sparse_env \<Rightarrow> bool" where
  "quiet env \<longleftrightarrow> (\<forall>s n. reservable env s n) \<and>
     (case cancellation env of None \<Rightarrow> True | Some flag \<Rightarrow> \<forall>s p. \<not> flag s p)"

definition env_failure :: "sparse_env \<Rightarrow> SparseError \<Rightarrow> bool" where
  "env_failure env e \<longleftrightarrow> \<not> quiet env \<and> (e = Cancelled \<or> (\<exists>s n. e = Allocation s n))"

lemma env_failures [dest]:
  "check_cancelled env s p = Err e \<Longrightarrow> env_failure env e"
  "reserved_vec env s n = Err e \<Longrightarrow> env_failure env e"
  "reserve_more env s k n = Err e \<Longrightarrow> env_failure env e"
  by (auto simp: check_cancelled_def reserved_vec_def reserve_more_def env_failure_def quiet_def
      split: if_splits option.splits)

lemma reserved_vec_Ok [dest!]: "reserved_vec env s n = Ok xs \<Longrightarrow> xs = []"
  by (simp add: reserved_vec_def split: if_splits)

lemma sparse_shape_eq:
  "sparse_shape rows columns =
     (if rows \<le> u64_max \<and> rows * columns \<le> u64_max
      then Ok \<lparr>dimensions = [rows, columns], strides = [1, rows], numel = rows * columns\<rparr>
      else Err (ShapeOverflow rows columns))"
  by (simp add: sparse_shape_def shape_new_def pad_dimensions_def drop_trailing_singletons.simps checked_mul_def)

lemma offset_count_eq:
  "offset_count columns = (if columns < usize_max then Ok (Suc columns) else Err (SparseHostLengthOverflow columns))"
  by (auto simp: offset_count_def checked_usize_def try_from_def checked_add_def)

lemma matrix_dims:
  assumes "sparse_shape rows columns = Ok s"
  shows "csc_rows \<lparr>csc_shape = s, storage = st\<rparr> = rows" and "csc_columns \<lparr>csc_shape = s, storage = st\<rparr> = columns"
    and "csc_numel \<lparr>csc_shape = s, storage = st\<rparr> = rows * columns"
  using assms
  by (auto simp: sparse_shape_eq csc_rows_def csc_columns_def csc_numel_def shape_extent_def slice_get_def
      split: if_splits)

definition in_bounds :: "nat \<Rightarrow> nat \<Rightarrow> 't CooEntry \<Rightarrow> bool" where
  "in_bounds rows columns e \<longleftrightarrow> coo_row e < rows \<and> coo_column e < columns"

lemma check_coordinates_Ok:
  assumes "check_coordinates env rows columns es = Ok u" and "e \<in> set es"
  shows "in_bounds rows columns e"
proof -
  obtain i where "i < length es" "e = es ! i" using assms(2) by (auto simp: in_set_conv_nth)
  then have "(i, e) \<in> set (enumerate 0 es)" by (auto simp: in_set_enumerate_eq)
  with assms(1) show ?thesis
    by (fastforce simp: check_coordinates_def result_simps in_bounds_def split: if_splits)
qed

lemma check_coordinates_Err:
  assumes "check_coordinates env rows columns es = Err x"
  shows "env_failure env x \<or>
    (\<exists>e\<in>set es. \<not> in_bounds rows columns e \<and> x = CoordinateOutOfBounds (coo_row e) (coo_column e) rows columns)"
proof -
  from for_each_Err_elem [OF assms [unfolded check_coordinates_def]] obtain i e
    where "(i, e) \<in> set (enumerate 0 es)" and "and_then (check_cancelled env ''coordinates'' i) (\<lambda>_.
         if rows \<le> coo_row e \<or> columns \<le> coo_column e
         then Err (CoordinateOutOfBounds (coo_row e) (coo_column e) rows columns) else Ok ()) = Err x"
    by auto
  then show ?thesis
    by (auto simp: result_simps in_bounds_def in_set_enumerate_eq not_less split: if_splits)
qed

lemma order_entries_Err: "order_entries env es = Err e \<Longrightarrow> env_failure env e"
  by (auto simp: order_entries_def result_simps Let_def elim!: fold_result_Err)

lemma combine_run_Err: "combine_run el env k u input xs = Err e \<Longrightarrow> env_failure env e"
  by (induction xs arbitrary: u input) (auto simp: result_simps split: if_splits)

lemma push_offsets_Err: "push_offsets target n col offs = Err e \<Longrightarrow> u64_max < n"
proof (induction target n col offs rule: push_offsets.induct)
  case (1 target n col offs)
  then show ?case
    by (subst (asm) (2) push_offsets.simps)
       (auto simp: result_simps checked_u64_def checked_simps split: if_splits)
qed

lemma finish_offsets_Err: "finish_offsets env target n col offs = Err e \<Longrightarrow> u64_max < n \<or> env_failure env e"
proof (induction env target n col offs rule: finish_offsets.induct)
  case (1 env target n col offs)
  then show ?case
    by (subst (asm) (2) finish_offsets.simps)
       (auto simp: result_simps checked_u64_def checked_simps split: if_splits)
qed

lemma combine_loop_Err:
  "combine_loop el env input xs offs rs vs col = Err e \<Longrightarrow> length vs + length xs \<le> u64_max \<Longrightarrow> env_failure env e"
proof (induction el env input xs offs rs vs col rule: combine_loop.induct)
  case (2 el env input x i rest offs rs vs col)
  show ?case
  proof (cases "combine_run el env (coo_column x, coo_row x) (coo_value x) (input + 1) rest")
    case (Inl d)
    then show ?thesis using "2.prems"(1) combine_run_Err [OF Inl] by (auto simp: result_simps)
  next
    case (Inr run)
    then obtain v input' rest' where run: "combine_run el env (coo_column x, coo_row x) (coo_value x) (input + 1) rest = Ok (v, input', rest')"
      by (cases run) auto
    then have "length rest' \<le> length rest" by (rule combine_run_shrinks)
    with "2.prems"(2) have few: "length vs + length rest' \<le> u64_max" "length (vs @ [v]) + length rest' \<le> u64_max" by simp_all
    show ?thesis
    proof (cases "push_offsets (coo_column x) (length vs) col offs")
      case (Inl d)
      then show ?thesis using push_offsets_Err [OF Inl] "2.prems"(2) by simp
    next
      case push: (Inr offs1)
      show ?thesis
      proof (cases "check_cancelled env ''entry'' input")
        case (Inr u)
        from "2.IH"(1) [OF Inr run refl refl push _ _ few(1)] "2.IH"(2) [OF Inr run refl refl push _ _ few(2)]
          "2.prems"(1) Inr run push
        show ?thesis by (auto split: if_splits)
      qed (use "2.prems"(1) in auto)
    qed
  qed
qed simp

lemma combine_loop_stores_few:
  "combine_loop el env input xs offs rs vs col = Ok (offs', rs', vs', col') \<Longrightarrow> length vs' \<le> length vs + length xs"
proof (induction el env input xs offs rs vs col rule: combine_loop.induct)
  case (2 el env input x i rest offs rs vs col)
  from "2.prems" obtain u v input' rest' offs1
    where poll: "check_cancelled env ''entry'' input = Ok u"
      and run: "combine_run el env (coo_column x, coo_row x) (coo_value x) (input + 1) rest = Ok (v, input', rest')"
      and push: "push_offsets (coo_column x) (length vs) col offs = Ok offs1"
    by (auto simp: result_simps)
  have "length rest' \<le> length rest" using run by (rule combine_run_shrinks)
  with "2.IH"(1) [OF poll run refl refl push] "2.IH"(2) [OF poll run refl refl push] "2.prems" poll run push
  show ?case by (auto split: if_splits)
qed simp

lemma loop_state_finish:
  assumes "loop_state ts col offs rs vs" and "col \<le> columns"
    and "finish_offsets env columns (length vs) col offs = Ok offs'"
  shows "offs' = map (column_count ts) [0..<Suc columns]"
  using loop_state_extend [OF assms(1,2)] unfolding finish_offsets_Ok [OF assms(3)] loop_state_def by blast

text \<open>What a successful normalisation returns, in terms of the entries it stores.\<close>

lemma try_from_coo_spells:
  assumes "try_from_coo el env rows columns es reserve = Ok m"
  shows "\<exists>ts. spells el rows columns (storage m) ts \<and>
    (\<forall>k. map_of ts k = explicit el (fold_values el (map coo_value (filter (\<lambda>e. (coo_column e, coo_row e) = k) es)))) \<and>
    length ts \<le> length es \<and>
    sparse_shape rows columns = Ok (csc_shape m) \<and> columns < usize_max \<and> reserved_nnz (storage m) = max reserve (length ts)"
proof -
  from assms obtain xs offs rs vs col offs' where
    shape: "sparse_shape rows columns = Ok (csc_shape m)" and
    check: "check_coordinates env rows columns es = Ok ()" and
    order: "order_entries env es = Ok xs" and small: "columns < usize_max" and
    loop: "combine_loop el env 0 xs [0] [] [] 0 = Ok (offs, rs, vs, col)" and
    finish: "finish_offsets env columns (length vs) col offs = Ok offs'" and
    st: "storage m = \<lparr>col_offsets = offs', row_indices = rs, csc_values = vs, reserved_nnz = max reserve (length vs)\<rparr>"
    by (auto simp: try_from_coo_def result_simps offset_count_eq Let_def split: if_splits)
  note sorted_xs = order_entries_sorted [OF order]
  have set_xs: "fst ` set xs = set es"
    unfolding order_entries_Ok [OF order] set_sort by (simp add: image_set)
  have bounded: "in_bounds rows columns (fst x)" if "x \<in> set xs" for x
    using check_coordinates_Ok [OF check] set_xs that by auto
  have "sorted (map (coo_column \<circ> fst) xs)"
    using sorted_xs by (auto simp: sorted_map intro: sorted_wrt_mono_rel [rotated])
  moreover have "\<forall>x\<in>set xs. 0 \<le> coo_column (fst x) \<and> coo_column (fst x) \<le> columns"
    using bounded by (auto simp: in_bounds_def intro: less_imp_le)
  moreover have "loop_state ([] :: 'a triples) 0 [0] [] []" by (simp add: loop_state_def column_count_def)
  ultimately have final: "loop_state ([] @ stored_triples el xs) col offs rs vs" "col \<le> columns"
    using combine_loop_Ok [OF loop, of "[]" columns] by simp_all
  let ?ts = "stored_triples el xs"
  have "\<exists>x\<in>set xs. fst t = coo_coord x" if "t \<in> set ?ts" for t
    using grouped_keys_subset [of t el xs] that by (simp add: stored_triples_def)
  then have entry: "fst (fst t) < columns \<and> snd (fst t) < rows \<and> \<not> is_explicit_zero el (snd t)" if "t \<in> set ?ts" for t
    using bounded that by (fastforce simp: in_bounds_def stored_triples_def)
  have "spells el rows columns (storage m) ?ts"
    using final(1) loop_state_finish [OF final finish] stored_triples_strict [OF sorted_xs] entry
    by (auto simp: spells_def st loop_state_def simp del: upt_Suc)
  moreover have "map_of ?ts k =
      explicit el (fold_values el (map coo_value (filter (\<lambda>e. (coo_column e, coo_row e) = k) es)))" for k
    using stored_triples_lookup [OF sorted_xs, of el k] order_entries_at [OF order, of k] by simp
  moreover have "length ?ts \<le> length es"
    using le_trans [OF length_filter_le length_grouped, of "\<lambda>t. \<not> is_explicit_zero el (snd t)" el xs]
      arg_cong [OF order_entries_Ok [OF order], of length]
    by (simp add: stored_triples_def)
  moreover have "reserved_nnz (storage m) = max reserve (length ?ts)"
    using final(1) by (simp add: st loop_state_def)
  ultimately show ?thesis using shape small by blast
qed


subsection \<open>Canonical storage spells out a list of entries\<close>

lemma take_drop_nth_upt:
  assumes "j \<le> length xs"
  shows "take (j - i) (drop i xs) = map ((!) xs) [i..<j]"
  using assms by (intro nth_equalityI) auto

definition pieces :: "(nat \<Rightarrow> nat) \<Rightarrow> nat list \<Rightarrow> 't list \<Rightarrow> nat \<Rightarrow> 't triples" where
  "pieces f rs vs n = concat (map (\<lambda>c. map (\<lambda>p. ((c, rs ! p), vs ! p)) [f c..<f (Suc c)]) [0..<n])"

lemma pieces_0 [simp]: "pieces f rs vs 0 = []"
  by (simp add: pieces_def)

lemma pieces_Suc [simp]:
  "pieces f rs vs (Suc n) = pieces f rs vs n @ map (\<lambda>p. ((n, rs ! p), vs ! p)) [f n..<f (Suc n)]"
  by (simp add: pieces_def)

lemma pieces_columns: "t \<in> set (pieces f rs vs n) \<Longrightarrow> fst (fst t) < n"
  by (induction n) (auto simp: less_SucI)

text \<open>Column offsets that start at zero and never decrease cut the storage into columns.\<close>

definition rising :: "(nat \<Rightarrow> nat) \<Rightarrow> nat \<Rightarrow> bool" where
  "rising f n \<longleftrightarrow> f 0 = 0 \<and> (\<forall>c<n. f c \<le> f (Suc c))"

lemma rising_upt: "rising f n \<Longrightarrow> k < n \<Longrightarrow> [0..<f (Suc k)] = [0..<f k] @ [f k..<f (Suc k)]"
  unfolding rising_def by (metis le_add_diff_inverse upt_add_eq_append zero_le)

lemma rising_covers: "rising f n \<Longrightarrow> k \<le> n \<Longrightarrow> p < f k \<Longrightarrow> \<exists>c<k. f c \<le> p \<and> p < f (Suc c)"
proof (induction k)
  case (Suc k)
  then show ?case by (cases "p < f k") (auto simp: not_less intro: less_SucI)
qed (simp add: rising_def)

lemma pieces_spell:
  "rising f n \<Longrightarrow> k \<le> n \<Longrightarrow> map (snd \<circ> fst) (pieces f rs vs k) = map ((!) rs) [0..<f k] \<and>
    map snd (pieces f rs vs k) = map ((!) vs) [0..<f k]"
proof (induction k)
  case (Suc k)
  then show ?case using rising_upt [of f n k] by (simp add: comp_def)
qed (simp add: rising_def)

lemma pieces_count:
  "rising f n \<Longrightarrow> k \<le> n \<Longrightarrow> c \<le> k \<Longrightarrow> column_count (pieces f rs vs k) c = f c"
proof (induction k)
  case (Suc k)
  have len: "length (pieces f rs vs k) = f k"
    using pieces_spell [OF Suc.prems(1), of k rs vs] Suc.prems by (metis Suc_leD diff_zero length_map length_upt)
  show ?case
  proof (cases "c = Suc k")
    case True
    have "column_count (pieces f rs vs (Suc k)) (Suc k) = length (pieces f rs vs (Suc k))"
      by (rule column_count_all) (use pieces_columns [of _ f rs vs "Suc k"] in blast)
    with True len Suc.prems show ?thesis by (simp add: rising_def)
  next
    case False
    then have "c \<le> k" using Suc.prems by simp
    with Suc show ?thesis by (auto simp: column_count_def)
  qed
qed (simp add: rising_def column_count_def)

lemma pieces_sorted:
  assumes "\<And>c. c < n \<Longrightarrow> sorted_wrt (<) (map ((!) rs) [f c..<f (Suc c)])"
  shows "k \<le> n \<Longrightarrow> sorted_wrt (<) (map fst (pieces f rs vs k))"
proof (induction k)
  case (Suc k)
  have "sorted_wrt (<) (map (\<lambda>p. (k, rs ! p)) [f k..<f (Suc k)])"
    using assms [of k] Suc.prems by (simp add: sorted_wrt_map less_prod_def)
  moreover have "fst t < (k, rs ! p)" if "t \<in> set (pieces f rs vs k)" for t p
    using pieces_columns [OF that] by (cases t) (auto simp: less_prod_def)
  ultimately show ?case using Suc by (auto simp: sorted_wrt_append comp_def)
qed simp

lemma spells_pieces:
  assumes "wf_storage el rows columns st"
  shows "spells el rows columns st (pieces ((!) (col_offsets st)) (row_indices st) (csc_values st) columns)"
    (is "spells _ _ _ _ ?ts")
proof -
  let ?f = "(!) (col_offsets st)"
  have f: "rising ?f columns" "?f columns = length (csc_values st)"
    "length (row_indices st) = length (csc_values st)" "length (col_offsets st) = Suc columns"
    using assms by (auto simp: wf_storage_def rising_def)
  note sp = pieces_spell [OF f(1) le_refl, of "row_indices st" "csc_values st"]
  have rows: "map (snd \<circ> fst) ?ts = row_indices st" and vals: "map snd ?ts = csc_values st"
    using sp f(2,3) by (metis map_nth)+
  have offs: "col_offsets st = map (column_count ?ts) [0..<Suc columns]"
    using pieces_count [OF f(1) le_refl, of _ "row_indices st" "csc_values st"] f(4)
    by (intro nth_equalityI) (auto simp: less_Suc_eq_le simp del: upt_Suc)
  have srt: "sorted_wrt (<) (map fst ?ts)"
    using assms by (intro pieces_sorted [OF _ le_refl]) (auto simp: wf_storage_def)
  have "fst (fst t) < columns \<and> snd (fst t) < rows \<and> \<not> is_explicit_zero el (snd t)" if t: "t \<in> set ?ts" for t
  proof -
    from t have "(snd \<circ> fst) t \<in> set (map (snd \<circ> fst) ?ts)" "snd t \<in> set (map snd ?ts)"
      unfolding set_map by (rule imageI)+
    then have "snd (fst t) \<in> set (row_indices st)" "snd t \<in> set (csc_values st)"
      unfolding rows vals by simp_all
    with assms pieces_columns [OF t] show ?thesis by (simp add: wf_storage_def)
  qed
  with offs rows vals srt show ?thesis by (simp add: spells_def)
qed

lemma spells_wf:
  assumes sp: "spells el rows columns st ts"
  shows "wf_storage el rows columns st"
proof -
  note nths = spells_nth [OF sp]
  have all: "column_count ts columns = length ts"
    by (rule column_count_all) (use sp in \<open>auto simp: spells_def\<close>)
  have srt: "sorted_wrt (<) (map ((!) (row_indices st)) [col_offsets st ! c..<col_offsets st ! (c + 1)])"
    if "c < columns" for c
    using spells_slice_sorted [OF sp that] nths(1,4) that column_count_le [of ts "Suc c"]
    by (simp add: take_drop_nth_upt)
  have "\<forall>r\<in>set (row_indices st). r < rows" "\<forall>v\<in>set (csc_values st). \<not> is_explicit_zero el v"
    using sp by (auto simp: spells_def)
  with srt all nths(1-4) show ?thesis
    by (auto simp: wf_storage_def column_count_none intro!: column_count_mono)
qed

lemma wf_storage_iff: "wf_storage el rows columns st \<longleftrightarrow> (\<exists>ts. spells el rows columns st ts)"
  using spells_pieces spells_wf by blast


lemma wf_csc_spells:
  assumes "wf_csc el m"
  shows "\<exists>ts. spells el (csc_rows m) (csc_columns m) (storage m) ts \<and> length ts = nnz m"
  using assms spells_nth(2) by (fastforce simp: wf_csc_def wf_storage_iff nnz_def)

lemma wf_csc_lookup:
  assumes "wf_csc el m" and "spells el (csc_rows m) (csc_columns m) (storage m) ts"
    and "r < csc_rows m" and "c < csc_columns m"
  shows "get_zero_based m r c = map_of ts (c, r)"
proof (rule get_zero_based_spells [OF assms(2) _ _ assms(3,4)])
  show "csc_columns m < usize_max" using assms(1) by (simp add: wf_csc_def)
  show "length ts \<le> usize_max"
    using assms(1) spells_nth(2) [OF assms(2)] by (simp add: wf_csc_def nnz_def)
qed

lemma spells_keys_bounded:
  assumes "spells el rows columns st ts" and "map_of ts (c, r) = Some v"
  shows "r < rows \<and> c < columns \<and> \<not> is_explicit_zero el v"
  using assms by (auto simp: spells_def dest!: map_of_SomeD bspec)

text \<open>Entries in strict key order are determined by their lookup function.\<close>

lemma strict_sorted_map_of_inject:
  fixes ts us :: "('k :: linorder \<times> 'v) list"
  assumes "sorted_wrt (<) (map fst ts)" and "sorted_wrt (<) (map fst us)" and "map_of ts = map_of us"
  shows "ts = us"
proof -
  have keys: "map fst ts = map fst us"
    using assms by (intro sorted_distinct_set_unique) (auto simp: strict_sorted_iff dom_map_of_conv_image_fst [symmetric])
  show ?thesis
  proof (rule nth_equalityI)
    show "length ts = length us" using keys by (metis length_map)
    fix i assume i: "i < length ts"
    with keys have fst: "fst (ts ! i) = fst (us ! i)" by (metis length_map nth_map)
    have "map_of ts (fst (ts ! i)) = Some (snd (ts ! i))" "map_of us (fst (us ! i)) = Some (snd (us ! i))"
      using assms(1,2) i keys by (auto intro!: map_of_nth_key simp: strict_sorted_iff dest: map_eq_imp_length_eq)
    with fst assms(3) show "ts ! i = us ! i" by (simp add: prod_eq_iff)
  qed
qed

lemma spells_unique_storage:
  assumes "spells el rows columns st ts" and "spells el' rows columns st' ts" and "reserved_nnz st = reserved_nnz st'"
  shows "st = st'"
  using assms by (simp add: spells_def)

lemma map_of_eqI_in_bounds:
  assumes "spells el rows columns st ts" and "spells el rows columns st' us"
    and "\<And>r c. r < rows \<Longrightarrow> c < columns \<Longrightarrow> map_of ts (c, r) = map_of us (c, r)"
  shows "map_of ts = map_of us"
proof
  fix k :: "nat \<times> nat"
  obtain c r where k: "k = (c, r)" by (cases k)
  show "map_of ts k = map_of us k"
  proof (cases "r < rows \<and> c < columns")
    case False
    then have "map_of ts k = None" "map_of us k = None"
      using spells_keys_bounded [OF assms(1), of c r] spells_keys_bounded [OF assms(2), of c r] k
      by (metis not_None_eq)+
    then show ?thesis by simp
  qed (use assms(3) k in simp)
qed

subsection \<open>Building a matrix from coordinate entries\<close>

text \<open>
  Every operation that returns a sparse matrix collects coordinate entries and hands them to the
  normaliser. The interface they rely on: a successful build spells out, in canonical order, the
  combined entries of its input, and a failing one blames its arguments or the environment.
\<close>

abbreviation entry_coord :: "'t CooEntry \<Rightarrow> nat \<times> nat" where
  "entry_coord e \<equiv> (coo_column e, coo_row e)"

abbreviation entries_at :: "'t CooEntry list \<Rightarrow> nat \<times> nat \<Rightarrow> 't list" where
  "entries_at es k \<equiv> map coo_value (filter (\<lambda>e. entry_coord e = k) es)"

lemma entries_at_distinct:
  "distinct (map entry_coord es) \<Longrightarrow>
   fold_values el (entries_at es k) = map_of (map (\<lambda>e. (entry_coord e, coo_value e)) es) k"
proof (induction es)
  case (Cons e es)
  have "filter (\<lambda>x. entry_coord x = entry_coord e) es = []"
    using Cons.prems by (auto simp: filter_empty_conv image_iff)
  with Cons show ?case by (auto simp: fold_values_def)
qed (simp add: fold_values_def)

locale coo_builder =
  fixes el :: "'t CscElement"
    and build :: "sparse_env \<Rightarrow> nat \<Rightarrow> nat \<Rightarrow> 't CooEntry list \<Rightarrow> nat \<Rightarrow> (SparseError, 't CscMatrix) result"
  assumes build_Ok: "build env rows columns es reserve = Ok m \<Longrightarrow>
      \<exists>ts. spells el rows columns (storage m) ts \<and>
        (\<forall>k. map_of ts k = explicit el (fold_values el (entries_at es k))) \<and>
        length ts \<le> length es \<and> sparse_shape rows columns = Ok (csc_shape m) \<and> columns < usize_max \<and>
        reserved_nnz (storage m) = max reserve (length ts)"
    and build_Err: "build env rows columns es reserve = Err x \<Longrightarrow> length es \<le> usize_max \<Longrightarrow>
      rows \<le> u64_max \<Longrightarrow> rows * columns \<le> u64_max \<Longrightarrow> columns < usize_max \<Longrightarrow>
      (\<forall>e\<in>set es. in_bounds rows columns e) \<Longrightarrow> env_failure env x"
begin

lemma build_dims:
  assumes "build env rows columns es reserve = Ok m"
  shows "csc_rows m = rows" and "csc_columns m = columns" and "csc_numel m = rows * columns"
proof -
  from build_Ok [OF assms] have shape: "sparse_shape rows columns = Ok (csc_shape m)" by blast
  show "csc_rows m = rows" and "csc_columns m = columns" and "csc_numel m = rows * columns"
    using matrix_dims [OF shape, of "storage m"] by (cases m; simp)+
qed

lemma build_wf:
  assumes ok: "build env rows columns es reserve = Ok m"
    and len: "length es \<le> usize_max" and reserve: "reserve \<le> usize_max"
  shows "wf_csc el m"
proof -
  from build_Ok [OF ok] obtain ts where "spells el rows columns (storage m) ts" "length ts \<le> length es"
    "sparse_shape rows columns = Ok (csc_shape m)" "columns < usize_max"
    "reserved_nnz (storage m) = max reserve (length ts)" by blast
  with len reserve spells_nth(2) [of el rows columns "storage m" ts] show ?thesis
    by (auto simp: wf_csc_def build_dims [OF ok] wf_storage_iff nnz_def)
qed

lemma build_lookup:
  assumes ok: "build env rows columns es reserve = Ok m"
    and len: "length es \<le> usize_max" and "r < rows" and "c < columns"
  shows "get_zero_based m r c = explicit el (fold_values el (entries_at es (c, r)))"
proof -
  from build_Ok [OF ok] obtain ts where "spells el rows columns (storage m) ts" "length ts \<le> length es"
    "columns < usize_max" "map_of ts (c, r) = explicit el (fold_values el (entries_at es (c, r)))" by blast
  with assms show ?thesis
    using get_zero_based_spells [of el m ts r c] by (simp add: build_dims [OF ok])
qed

lemma build_lookup_distinct:
  assumes "build env rows columns es reserve = Ok m" and "length es \<le> usize_max" and "r < rows" and "c < columns"
    and "distinct (map entry_coord es)"
  shows "get_zero_based m r c = explicit el (map_of (map (\<lambda>e. (entry_coord e, coo_value e)) es) (c, r))"
  using build_lookup [OF assms(1-4)] entries_at_distinct [OF assms(5), of el "(c, r)"] by simp

end

lemma try_from_coo_Err:
  assumes "try_from_coo el env rows columns es reserve = Err x" and few: "length es \<le> usize_max"
  shows "(x = ShapeOverflow rows columns \<and> (u64_max < rows \<or> u64_max < rows * columns)) \<or>
    (\<exists>e\<in>set es. \<not> in_bounds rows columns e \<and> x = CoordinateOutOfBounds (coo_row e) (coo_column e) rows columns) \<or>
    (x = SparseHostLengthOverflow columns \<and> usize_max \<le> columns) \<or> env_failure env x"
proof -
  consider (shape) "sparse_shape rows columns = Err x" | (check) "check_coordinates env rows columns es = Err x"
    | (count) "offset_count columns = Err x" | (env) "env_failure env x"
    | (loop) xs where "order_entries env es = Ok xs" "combine_loop el env 0 xs [0] [] [] 0 = Err x"
    | (finish) offs rs vs col xs where "order_entries env es = Ok xs" "combine_loop el env 0 xs [0] [] [] 0 = Ok (offs, rs, vs, col)"
        "finish_offsets env columns (length vs) col offs = Err x"
    using assms(1) by (auto simp: try_from_coo_def result_simps Let_def dest: order_entries_Err)
  then show ?thesis
  proof cases
    case shape
    then show ?thesis by (auto simp: sparse_shape_eq split: if_splits)
  next
    case check
    from check_coordinates_Err [OF this] show ?thesis by auto
  next
    case count
    then show ?thesis by (auto simp: offset_count_eq split: if_splits)
  next
    case loop
    have "length xs = length es" using order_entries_Ok [OF loop(1)] by simp
    with combine_loop_Err [OF loop(2)] few show ?thesis by (simp add: usize_max_eq_u64_max)
  next
    case finish
    have "length xs = length es" using order_entries_Ok [OF finish(1)] by simp
    moreover have "length vs \<le> length xs" using combine_loop_stores_few [OF finish(2)] by simp
    ultimately show ?thesis
      using finish_offsets_Err [OF finish(3)] few by (auto simp: usize_max_eq_u64_max)
  qed simp
qed

interpretation csc: coo_builder el "try_from_coo el" for el
proof
  fix env rows columns es reserve m x
  show "\<exists>ts. spells el rows columns (storage m) ts \<and>
      (\<forall>k. map_of ts k = explicit el (fold_values el (entries_at es k))) \<and>
      length ts \<le> length es \<and> sparse_shape rows columns = Ok (csc_shape m) \<and> columns < usize_max \<and>
      reserved_nnz (storage m) = max reserve (length ts)"
    if "try_from_coo el env rows columns es reserve = Ok m"
    using try_from_coo_spells [OF that] .
  show "env_failure env x"
    if "try_from_coo el env rows columns es reserve = Err x" "length es \<le> usize_max"
      "rows \<le> u64_max" "rows * columns \<le> u64_max" "columns < usize_max" "\<forall>e\<in>set es. in_bounds rows columns e"
    using try_from_coo_Err [OF that(1,2)] that by auto
qed

subsection \<open>Properties\<close>

text \<open>
  C16: normalising coordinate entries returns canonical storage of the requested shape, and a lookup at
  any coordinate inside it gives the entries at that coordinate combined in their input order, or
  nothing when there is none or their combination is an explicit zero.
\<close>

theorem try_from_coo_normalises:
  assumes ok: "try_from_coo el env rows columns es reserve = Ok m"
    and "length es \<le> usize_max" and "reserve \<le> usize_max" and r: "r < rows" and c: "c < columns"
  shows "wf_csc el m \<and> csc_rows m = rows \<and> csc_columns m = columns \<and>
    get_zero_based m r c = explicit el (fold_values el
      (map coo_value (filter (\<lambda>e. coo_row e = r \<and> coo_column e = c) es)))"
  using csc.build_wf [OF ok assms(2,3)] csc.build_dims [OF ok] csc.build_lookup [OF ok assms(2) r c]
  by (simp add: conj_commute)

text \<open>
  A three by two matrix with a duplicate and a cancelling coordinate, over arithmetic modulo seven.
\<close>

definition quiet_env :: sparse_env where
  "quiet_env = \<lparr>cancellation = None, reservable = (\<lambda>_ _. True)\<rparr>"

lemma quiet_env_quiet [simp]: "quiet quiet_env"
  by (simp add: quiet_def quiet_env_def)

definition mod7_element :: "nat CscElement" where
  "mod7_element = \<lparr>combine = (\<lambda>a b. (a + b) mod 7), is_explicit_zero = (\<lambda>a. a = 0)\<rparr>"

definition sample_entries :: "nat CooEntry list" where
  "sample_entries =
     [\<lparr>coo_row = 2, coo_column = 1, coo_value = 4\<rparr>, \<lparr>coo_row = 0, coo_column = 0, coo_value = 6\<rparr>,
      \<lparr>coo_row = 2, coo_column = 1, coo_value = 5\<rparr>, \<lparr>coo_row = 1, coo_column = 0, coo_value = 3\<rparr>,
      \<lparr>coo_row = 0, coo_column = 0, coo_value = 1\<rparr>]"

definition sample_matrix :: "nat CscMatrix" where
  "sample_matrix =
     \<lparr>csc_shape = \<lparr>dimensions = [3, 2], strides = [1, 3], numel = 6\<rparr>,
      storage = \<lparr>col_offsets = [0, 1, 2], row_indices = [1, 2], csc_values = [3, 2], reserved_nnz = 4\<rparr>\<rparr>"

lemma sample_from_coo: "try_from_coo mod7_element quiet_env 3 2 sample_entries 4 = Ok sample_matrix"
  by code_simp

theorem try_from_coo_normalises_witness:
  "wf_csc mod7_element sample_matrix \<and> get_zero_based sample_matrix 2 1 = Some 2 \<and>
   get_zero_based sample_matrix 0 0 = None"
proof -
  have b: "length sample_entries \<le> usize_max" "(4 :: nat) \<le> usize_max" by code_simp+
  have at: "explicit mod7_element (fold_values mod7_element
        (map coo_value (filter (\<lambda>e. coo_row e = 2 \<and> coo_column e = 1) sample_entries))) = Some 2"
      "explicit mod7_element (fold_values mod7_element
        (map coo_value (filter (\<lambda>e. coo_row e = 0 \<and> coo_column e = 0) sample_entries))) = None"
    by code_simp+
  from try_from_coo_normalises [OF sample_from_coo b, of 2 1] try_from_coo_normalises [OF sample_from_coo b, of 0 0] at
  show ?thesis by simp
qed


text \<open>
  normalisation fails only for a shape that does not fit 64 bits, for an entry outside the shape
  (named in the error), for a column count whose offset array has no representable length, or
  because the environment refused an allocation or cancelled; in a quiet environment, every list of
  entries inside a representable shape is accepted.
\<close>

theorem try_from_coo_outcome:
  assumes "length es \<le> usize_max"
  shows "case try_from_coo el env rows columns es reserve of
      Inr m \<Rightarrow> rows * columns \<le> u64_max \<and> (\<forall>e\<in>set es. in_bounds rows columns e)
    | Inl x \<Rightarrow> (x = ShapeOverflow rows columns \<and> (u64_max < rows \<or> u64_max < rows * columns)) \<or>
        (\<exists>e\<in>set es. \<not> in_bounds rows columns e \<and> x = CoordinateOutOfBounds (coo_row e) (coo_column e) rows columns) \<or>
        (x = SparseHostLengthOverflow columns \<and> usize_max \<le> columns) \<or> env_failure env x"
proof (cases "try_from_coo el env rows columns es reserve")
  case (Inr m)
  then have "check_coordinates env rows columns es = Ok ()" "rows * columns \<le> u64_max"
    by (auto simp: try_from_coo_def result_simps sparse_shape_eq split: if_splits)
  with Inr check_coordinates_Ok show ?thesis by simp blast
next
  case (Inl x)
  from try_from_coo_Err [OF this assms] Inl show ?thesis by simp
qed

theorem try_from_coo_outcome_witness:
  "try_from_coo mod7_element quiet_env 2 2 sample_entries 0 = Err (CoordinateOutOfBounds 2 1 2 2) \<and>
   (\<exists>e\<in>set sample_entries. \<not> in_bounds 2 2 e)"
proof -
  have *: "try_from_coo mod7_element quiet_env 2 2 sample_entries 0 = Err (CoordinateOutOfBounds 2 1 2 2)"
    by code_simp
  have "length sample_entries \<le> usize_max" by code_simp
  from try_from_coo_outcome [OF this, where el = mod7_element and env = quiet_env and rows = 2 and columns = 2 and reserve = 0] * show ?thesis
    by (auto simp: env_failure_def)
qed

text \<open>
  iterating a canonical matrix yields exactly the nonzero elements, each once, by column and then
  by row, and the entry at a storage position is the one the iterator reaches there.
\<close>

theorem entries_enumerate_matrix:
  assumes wf: "wf_csc el m"
  shows "sorted_wrt (<) (map (\<lambda>(r, c, v). (c, r)) (entries m)) \<and> length (entries m) = nnz m \<and>
    (\<forall>r c v. (r, c, v) \<in> set (entries m) \<longleftrightarrow> get_zero_based m r c = Some v) \<and>
    (\<forall>p. stored_entry m p = slice_get (entries m) p)"
proof -
  from wf_csc_spells [OF wf] obtain ts where sp: "spells el (csc_rows m) (csc_columns m) (storage m) ts"
    and len: "length ts = nnz m" by blast
  note ent = entries_spells [OF sp]
  have bounds: "csc_columns m < usize_max" "length ts \<le> usize_max"
    using wf len by (auto simp: wf_csc_def)
  have "map (\<lambda>(r, c, v). (c, r)) (entries m) = map fst ts"
    by (simp add: ent triple_entry_def comp_def)
  moreover have "(r, c, v) \<in> set (entries m) \<longleftrightarrow> get_zero_based m r c = Some v" for r c v
  proof -
    have "(r, c, v) \<in> set (entries m) \<longleftrightarrow> ((c, r), v) \<in> set ts"
      by (force simp: ent triple_entry_def)
    also have "\<dots> \<longleftrightarrow> map_of ts (c, r) = Some v"
      using spells_distinct [OF sp] by simp
    also have "\<dots> \<longleftrightarrow> get_zero_based m r c = Some v"
      using wf_csc_lookup [OF wf sp, of r c] spells_keys_bounded [OF sp, of c r v]
      by (cases "r < csc_rows m \<and> c < csc_columns m") (auto simp: get_zero_based_def)
    finally show ?thesis .
  qed
  moreover have "stored_entry m p = slice_get (entries m) p" for p
    using stored_entry_spells [OF sp bounds(2,1)] by (simp add: ent slice_get_def)
  moreover have "length (entries m) = nnz m" using len by (simp add: ent)
  ultimately show ?thesis using spells_nth(8) [OF sp] by metis
qed

lemma sample_matrix_wf: "wf_csc mod7_element sample_matrix"
  by code_simp

theorem entries_enumerate_matrix_witness:
  "wf_csc mod7_element sample_matrix \<and> stored_entry sample_matrix 1 = Some (2, 1, 2) \<and>
   (2, 1, 2) \<in> set (entries sample_matrix)"
proof -
  have "get_zero_based sample_matrix 2 1 = Some 2" "slice_get (entries sample_matrix) 1 = Some (2, 1, 2)"
    by code_simp+
  with entries_enumerate_matrix [OF sample_matrix_wf] sample_matrix_wf show ?thesis by simp
qed


subsubsection \<open>Transposition\<close>

definition transposed_entries :: "('t \<Rightarrow> 'u) \<Rightarrow> (nat \<times> nat \<times> 't) list \<Rightarrow> 'u CooEntry list" where
  "transposed_entries f es = map (\<lambda>(r, c, v). \<lparr>coo_row = c, coo_column = r, coo_value = f v\<rparr>) es"

lemma try_transpose_Ok:
  assumes "try_transpose el env f m = Ok t"
  shows "try_from_coo el env (csc_columns m) (csc_rows m) (transposed_entries f (entries m)) (reserved_nnz (storage m)) = Ok t"
proof -
  from assms obtain es where
    "fold_result (\<lambda>es (position, row, column, value).
         and_then (check_cancelled env ''transpose'' position) (\<lambda>_.
           Ok (es @ [\<lparr>coo_row = column, coo_column = row, coo_value = f value\<rparr>])))
       [] (enumerate 0 (entries m)) = Ok es"
    and build: "try_from_coo el env (csc_columns m) (csc_rows m) es (reserved_nnz (storage m)) = Ok t"
    by (auto simp: try_transpose_def result_simps)
  from this(1) have "es = [] @ map (\<lambda>(_, row, column, value). \<lparr>coo_row = column, coo_column = row, coo_value = f value\<rparr>)
      (enumerate 0 (entries m))"
    by (rule fold_result_push_Ok) (auto simp: result_simps)
  also have "\<dots> = transposed_entries f (entries m)"
    by (intro nth_equalityI) (auto simp: transposed_entries_def nth_enumerate_eq split: prod.splits)
  finally show ?thesis using build by simp
qed

lemma transposed_entries_lookup:
  assumes wf: "wf_csc el m"
  shows "distinct (map entry_coord (transposed_entries f (entries m)))"
    and "length (transposed_entries f (entries m)) = nnz m"
    and "r < csc_rows m \<Longrightarrow> c < csc_columns m \<Longrightarrow>
      map_of (map (\<lambda>e. (entry_coord e, coo_value e)) (transposed_entries f (entries m))) (r, c) =
      map_option f (get_zero_based m r c)"
proof -
  from wf_csc_spells [OF wf] obtain ts where sp: "spells el (csc_rows m) (csc_columns m) (storage m) ts"
    and len: "length ts = nnz m" by blast
  have es: "transposed_entries f (entries m) =
      map (\<lambda>((c, r), v). \<lparr>coo_row = c, coo_column = r, coo_value = f v\<rparr>) ts"
    by (simp add: transposed_entries_def entries_spells [OF sp] triple_entry_def split_beta)
  have "map entry_coord (transposed_entries f (entries m)) = map prod.swap (map fst ts)"
    by (simp add: es split_beta prod_eq_iff)
  then show "distinct (map entry_coord (transposed_entries f (entries m)))"
    using spells_distinct [OF sp] by (simp only: distinct_map [of prod.swap] inj_swap simp_thms)
  show "length (transposed_entries f (entries m)) = nnz m" by (simp add: es len)
  have "map_of (map (\<lambda>e. (entry_coord e, coo_value e))
      (map (\<lambda>((c, r), v). \<lparr>coo_row = c, coo_column = r, coo_value = f v\<rparr>) ts)) (r, c) = map_option f (map_of ts (c, r))" for ts r c
    by (induction ts) auto
  then show "map_of (map (\<lambda>e. (entry_coord e, coo_value e)) (transposed_entries f (entries m))) (r, c) =
      map_option f (get_zero_based m r c)" if "r < csc_rows m" "c < csc_columns m"
    using wf_csc_lookup [OF wf sp that] by (simp only: es)
qed

lemma transpose_facts:
  assumes wf: "wf_csc el m" and ok: "try_transpose el' env f m = Ok t"
  shows "wf_csc el' t" and "csc_rows t = csc_columns m" and "csc_columns t = csc_rows m"
    and "r < csc_rows m \<Longrightarrow> c < csc_columns m \<Longrightarrow>
      get_zero_based t c r = explicit el' (map_option f (get_zero_based m r c))"
proof -
  note build = try_transpose_Ok [OF ok] and es = transposed_entries_lookup [OF wf, where f = f]
  have bounds: "nnz m \<le> usize_max" "reserved_nnz (storage m) \<le> usize_max" using wf by (auto simp: wf_csc_def)
  show "wf_csc el' t" using csc.build_wf [OF build] es(2) bounds by simp
  show "csc_rows t = csc_columns m" "csc_columns t = csc_rows m" using csc.build_dims [OF build] by simp_all
  show "get_zero_based t c r = explicit el' (map_option f (get_zero_based m r c))"
    if "r < csc_rows m" "c < csc_columns m"
    using csc.build_lookup_distinct [OF build _ that(2,1) es(1)] es(2) es(3) [OF that] bounds by simp
qed

text \<open>
  a successful transposition returns canonical storage with the extents exchanged, whose element at
  each exchanged coordinate is the transformed element of the operand, dropped when the transform
  made it an explicit zero.
\<close>

theorem try_transpose_exchanges:
  assumes "wf_csc el m" and "try_transpose el' env f m = Ok t" and "r < csc_rows m" and "c < csc_columns m"
  shows "wf_csc el' t \<and> csc_rows t = csc_columns m \<and> csc_columns t = csc_rows m \<and>
    get_zero_based t c r = explicit el' (map_option f (get_zero_based m r c))"
  using transpose_facts [OF assms(1,2)] assms(3,4) by blast

definition sample_transposed :: "nat CscMatrix" where
  "sample_transposed =
     \<lparr>csc_shape = \<lparr>dimensions = [2, 3], strides = [1, 2], numel = 6\<rparr>,
      storage = \<lparr>col_offsets = [0, 0, 1, 2], row_indices = [0, 1], csc_values = [3, 2], reserved_nnz = 4\<rparr>\<rparr>"

lemma sample_transpose: "try_transpose mod7_element quiet_env id sample_matrix = Ok sample_transposed"
  by code_simp

theorem try_transpose_exchanges_witness:
  "wf_csc mod7_element sample_transposed \<and> get_zero_based sample_transposed 1 2 = Some 2"
proof -
  have b: "2 < csc_rows sample_matrix" "1 < csc_columns sample_matrix" by code_simp+
  have "explicit mod7_element (map_option id (get_zero_based sample_matrix 2 1)) = Some 2" by code_simp
  with try_transpose_exchanges [OF sample_matrix_wf sample_transpose b] show ?thesis by simp
qed

lemma wf_csc_get_nonzero:
  assumes wf: "wf_csc el m" and "get_zero_based m r c = Some v"
  shows "\<not> is_explicit_zero el v \<and> r < csc_rows m \<and> c < csc_columns m"
proof -
  have b: "r < csc_rows m" "c < csc_columns m"
    using assms(2) by (auto simp: get_zero_based_def split: if_splits)
  from wf_csc_spells [OF wf] obtain ts where "spells el (csc_rows m) (csc_columns m) (storage m) ts" by blast
  with wf_csc_lookup [OF wf this b] spells_keys_bounded assms(2) b show ?thesis by metis
qed

text \<open>
  Canonical storage is a normal form: two canonical matrices of the same extents and reserve that
  agree at every coordinate are the same value.
\<close>

lemma canonical_storage_unique:
  assumes wf: "wf_csc el m" "wf_csc el m'" and dims: "csc_rows m' = csc_rows m" "csc_columns m' = csc_columns m"
    and reserve: "reserved_nnz (storage m') = reserved_nnz (storage m)"
    and same: "\<forall>r<csc_rows m. \<forall>c<csc_columns m. get_zero_based m' r c = get_zero_based m r c"
  shows "m' = m"
proof -
  from wf_csc_spells [OF wf(1)] wf_csc_spells [OF wf(2)] obtain ts us where
    ts: "spells el (csc_rows m) (csc_columns m) (storage m) ts" and
    us: "spells el (csc_rows m) (csc_columns m) (storage m') us" by (auto simp: dims)
  have "map_of ts (c, r) = map_of us (c, r)" if "r < csc_rows m" "c < csc_columns m" for r c
    using wf_csc_lookup [OF wf(1) ts that] wf_csc_lookup [OF wf(2), of us r c] us that same by (simp add: dims)
  from map_of_eqI_in_bounds [OF ts us this] have "ts = us"
    using strict_sorted_map_of_inject spells_nth(8) [OF ts] spells_nth(8) [OF us] by blast
  with spells_unique_storage [of el _ _ "storage m'" us el "storage m"] ts us reserve
  have "storage m' = storage m" by simp
  moreover have "csc_shape m' = csc_shape m" using wf by (simp add: wf_csc_def dims)
  ultimately show ?thesis by (cases m; cases m') simp
qed

text \<open>
  transposing a canonical matrix twice, values unchanged, gives back the very same storage,
  reserve included.
\<close>

theorem try_transpose_involution:
  assumes wf: "wf_csc el m" and t: "try_transpose el env id m = Ok t" and m': "try_transpose el env' id t = Ok m'"
  shows "m' = m"
proof -
  note one = transpose_facts [OF wf t] and two = transpose_facts [OF transpose_facts(1) [OF wf t] m']
  have keep: "reserved_nnz (storage y) = reserved_nnz (storage x)"
    if "wf_csc el x" "try_transpose el env id x = Ok y" for env x y
  proof -
    have "length (transposed_entries id (entries x)) \<le> reserved_nnz (storage x)"
      using transposed_entries_lookup(2) [OF that(1), where f = id] that(1) by (simp add: wf_csc_def)
    with csc.build_Ok [OF try_transpose_Ok [OF that(2)]] show ?thesis by auto
  qed
  have nonzero: "explicit el (get_zero_based x r c) = get_zero_based x r c" if "wf_csc el x" for x r c
    using wf_csc_get_nonzero [OF that, of r c] by (auto simp: explicit_def split: option.splits)
  show ?thesis
  proof (rule canonical_storage_unique [OF wf two(1)])
    show "csc_rows m' = csc_rows m" "csc_columns m' = csc_columns m" using one two by simp_all
    show "reserved_nnz (storage m') = reserved_nnz (storage m)"
      using keep [OF wf t] keep [OF one(1) m'] by simp
    show "\<forall>r<csc_rows m. \<forall>c<csc_columns m. get_zero_based m' r c = get_zero_based m r c"
      using one(2-4) two(4) nonzero [OF wf] nonzero [OF one(1)] by (simp add: option.map_id)
  qed
qed

theorem try_transpose_involution_witness:
  "\<exists>t m'. try_transpose mod7_element quiet_env id sample_matrix = Ok t \<and>
     try_transpose mod7_element quiet_env id t = Ok m' \<and> m' = sample_matrix"
proof -
  have "\<not> isl (try_transpose mod7_element quiet_env id sample_transposed)" by code_simp
  then obtain m' where twice: "try_transpose mod7_element quiet_env id sample_transposed = Ok m'"
    by (cases "try_transpose mod7_element quiet_env id sample_transposed") auto
  from try_transpose_involution [OF sample_matrix_wf sample_transpose twice] sample_transpose twice
  show ?thesis by blast
qed


subsubsection \<open>Validation of parts\<close>

definition previous_rows :: "nat option \<Rightarrow> nat list" where
  "previous_rows p = (case p of None \<Rightarrow> [] | Some r \<Rightarrow> [r])"

definition column_valid :: "'t CscElement \<Rightarrow> nat \<Rightarrow> nat list \<Rightarrow> 't list \<Rightarrow> nat option \<Rightarrow> nat list \<Rightarrow> bool" where
  "column_valid el rows rs vs p ps \<longleftrightarrow>
     sorted_wrt (<) (previous_rows p @ map ((!) rs) ps) \<and>
     (\<forall>q\<in>set ps. rs ! q < rows \<and> \<not> is_explicit_zero el (vs ! q))"

lemma column_valid_Cons:
  "column_valid el rows rs vs p (q # ps) \<longleftrightarrow>
     rs ! q < rows \<and> (case p of None \<Rightarrow> True | Some r \<Rightarrow> r < rs ! q) \<and> \<not> is_explicit_zero el (vs ! q) \<and>
     column_valid el rows rs vs (Some (rs ! q)) ps"
  by (cases p) (auto simp: column_valid_def previous_rows_def intro: less_trans)

lemma check_column_outcome:
  "case check_column el env rows rs vs p ps of
     Inr _ \<Rightarrow> column_valid el rows rs vs p ps
   | Inl e \<Rightarrow> env_failure env e \<or> \<not> column_valid el rows rs vs p ps \<and> (\<exists>i. e = InvalidCsc i)"
proof (induction ps arbitrary: p)
  case (Cons q ps)
  show ?case
  proof (cases "check_cancelled env ''part offset'' q")
    case (Inr u)
    with Cons [of "Some (rs ! q)"] show ?thesis
      by (auto simp: Let_def column_valid_Cons split: sum.splits option.splits)
  qed auto
qed (auto simp: column_valid_def previous_rows_def split: option.splits)

definition columns_valid :: "'t CscElement \<Rightarrow> nat \<Rightarrow> nat \<Rightarrow> nat list \<Rightarrow> nat list \<Rightarrow> 't list \<Rightarrow> bool" where
  "columns_valid el rows columns offsets rs vs \<longleftrightarrow>
     (\<forall>c<columns. offsets ! c \<le> offsets ! (c + 1) \<and> offsets ! (c + 1) \<le> length vs \<and>
        column_valid el rows rs vs None [offsets ! c..<offsets ! (c + 1)])"

lemma check_column_Ok: "check_column el env rows rs vs p ps = Ok u \<Longrightarrow> column_valid el rows rs vs p ps"
  using check_column_outcome [where el = el and env = env and rows = rows and rs = rs and vs = vs and p = p and ps = ps]
  by simp

lemma check_columns_Ok:
  assumes "check_columns el env rows columns offsets rs vs = Ok u"
  shows "columns_valid el rows columns offsets rs vs"
  unfolding columns_valid_def
proof (intro allI impI)
  fix c assume "c < columns"
  with assms have "c \<in> set [0..<columns]" by simp
  with assms show "offsets ! c \<le> offsets ! (c + 1) \<and> offsets ! (c + 1) \<le> length vs \<and>
        column_valid el rows rs vs None [offsets ! c..<offsets ! (c + 1)]"
    unfolding check_columns_def for_each_eq_Ok
    by (auto simp: result_simps checked_usize_def checked_simps not_less dest!: bspec [of _ _ c] check_column_Ok
        split: if_splits)
qed

lemma check_columns_Err:
  assumes "check_columns el env rows columns offsets rs vs = Err e" and few: "length vs \<le> usize_max"
  shows "env_failure env e \<or> \<not> columns_valid el rows columns offsets rs vs"
proof -
  from for_each_Err_elem [OF assms(1) [unfolded check_columns_def]] obtain c where c: "c < columns"
    and fail: "and_then (check_cancelled env ''part column'' c) (\<lambda>_.
       and_then (checked_usize (offsets ! c)) (\<lambda>first.
       and_then (checked_usize (offsets ! (c + 1))) (\<lambda>final.
         if final < first \<or> length vs < final then Err (InvalidCsc ColumnOffsets)
         else check_column el env rows rs vs None [first..<final]))) = Err e" by auto
  show ?thesis
  proof (cases "offsets ! c \<le> offsets ! (c + 1) \<and> offsets ! (c + 1) \<le> length vs")
    case False
    with c show ?thesis by (auto simp: columns_valid_def)
  next
    case True
    with few have "checked_usize (offsets ! c) = Ok (offsets ! c)" "checked_usize (offsets ! (c + 1)) = Ok (offsets ! (c + 1))"
      by (auto simp: checked_usize_def try_from_def)
    with True fail have "env_failure env e \<or> check_column el env rows rs vs None [offsets ! c..<offsets ! (c + 1)] = Err e"
      by (auto simp: result_simps)
    with check_column_outcome [where el = el and env = env and rows = rows and rs = rs and vs = vs and p = None
        and ps = "[offsets ! c..<offsets ! (c + 1)]"] c show ?thesis
      by (auto simp: columns_valid_def)
  qed
qed

lemma columns_valid_wf_storage:
  assumes "length offsets = columns + 1" and "length rs = length vs"
  shows "wf_storage el rows columns \<lparr>col_offsets = offsets, row_indices = rs, csc_values = vs, reserved_nnz = reserve\<rparr> \<longleftrightarrow>
    offsets ! 0 = 0 \<and> offsets ! columns = length vs \<and> columns_valid el rows columns offsets rs vs" (is "wf_storage _ _ _ ?st \<longleftrightarrow> ?parts")
proof
  assume wf: "wf_storage el rows columns ?st"
  then obtain ts where "spells el rows columns ?st ts" by (auto simp: wf_storage_iff)
  note nths = spells_nth [OF this]
  have "offsets ! (c + 1) \<le> length vs" if "c < columns" for c
    using nths(2) nths(4) [of "c + 1"] column_count_le [of ts "c + 1"] that by simp
  with wf show ?parts
    by (fastforce simp: wf_storage_def columns_valid_def column_valid_def previous_rows_def assms)
next
  assume parts: ?parts
  then have "rising ((!) offsets) columns" by (simp add: rising_def columns_valid_def)
  have all: "rs ! q < rows \<and> \<not> is_explicit_zero el (vs ! q)" if "q < length vs" for q
  proof -
    from rising_covers [OF \<open>rising ((!) offsets) columns\<close> le_refl, of q] parts that
    obtain c where "c < columns" "q \<in> set [offsets ! c..<offsets ! (c + 1)]" by auto
    with parts show ?thesis unfolding columns_valid_def column_valid_def by blast
  qed
  then have "\<forall>r\<in>set rs. r < rows" "\<forall>v\<in>set vs. \<not> is_explicit_zero el v"
    using assms(2) by (auto simp: in_set_conv_nth)
  with parts assms show "wf_storage el rows columns ?st"
    by (auto simp: wf_storage_def columns_valid_def column_valid_def previous_rows_def)
qed

text \<open>
  C17: caller-supplied parts are accepted only when they are canonical storage for the declared
  extents, and the accepted matrix consists of exactly those parts; and in a quiet environment
  canonical parts of a representable shape are always accepted.
\<close>

theorem try_from_canonical_parts_exact:
  fixes offsets rs vs reserve
  defines "st \<equiv> \<lparr>col_offsets = offsets, row_indices = rs, csc_values = vs, reserved_nnz = reserve\<rparr>"
  assumes few: "length vs \<le> usize_max"
  shows "(try_from_canonical_parts el env rows columns offsets rs vs reserve rc vc = Ok m \<longrightarrow>
      storage m = st \<and> sparse_shape rows columns = Ok (csc_shape m) \<and> columns < usize_max \<and>
      wf_storage el rows columns st \<and> length vs \<le> reserve) \<and>
    (quiet env \<and> rows \<le> u64_max \<and> rows * columns \<le> u64_max \<and> columns < usize_max \<and>
      wf_storage el rows columns st \<and> length vs \<le> reserve \<longrightarrow>
      (\<exists>m. try_from_canonical_parts el env rows columns offsets rs vs reserve rc vc = Ok m))"
proof (rule conjI; rule impI)
  assume ok: "try_from_canonical_parts el env rows columns offsets rs vs reserve rc vc = Ok m"
  then have parts: "length offsets = columns + 1" "length rs = length vs" "slice_get offsets 0 = Some 0" "last offsets = length vs"
      "check_columns el env rows columns offsets rs vs = Ok ()" "length vs \<le> reserve" "columns < usize_max"
    and m: "storage m = st" "sparse_shape rows columns = Ok (csc_shape m)"
    by (auto simp: try_from_canonical_parts_def result_simps checked_usize_def checked_u64_def checked_simps st_def)
  moreover have "offsets ! columns = length vs"
    using parts(1,4) by (simp add: last_conv_nth) (metis last_conv_nth length_0_conv diff_Suc_1 nat.distinct(1))
  ultimately show "storage m = st \<and> sparse_shape rows columns = Ok (csc_shape m) \<and> columns < usize_max \<and>
      wf_storage el rows columns st \<and> length vs \<le> reserve"
    using check_columns_Ok [OF parts(5)] columns_valid_wf_storage [OF parts(1,2)]
    by (simp add: st_def slice_get_def split: if_splits)
next
  assume *: "quiet env \<and> rows \<le> u64_max \<and> rows * columns \<le> u64_max \<and> columns < usize_max \<and>
      wf_storage el rows columns st \<and> length vs \<le> reserve"
  then have len: "length offsets = columns + 1" "length rs = length vs" by (auto simp: wf_storage_def st_def)
  with * columns_valid_wf_storage [OF len] have parts: "offsets ! 0 = 0" "offsets ! columns = length vs"
      "columns_valid el rows columns offsets rs vs" by (simp_all add: st_def)
  have polls: "check_cancelled env s p = Ok ()" "reserve_more env s k n = Ok ()" for s p k n
    using * env_failures [of env] by (cases "check_cancelled env s p"; cases "reserve_more env s k n"; fastforce simp: env_failure_def)+
  have "check_columns el env rows columns offsets rs vs = Ok ()"
    using check_columns_Err [OF _ few, of el env rows columns offsets rs] parts(3) *
    by (cases "check_columns el env rows columns offsets rs vs") (auto simp: env_failure_def)
  moreover have "offsets \<noteq> []" using len by auto
  moreover from this have "last offsets = length vs" using len parts(2) by (simp add: last_conv_nth)
  ultimately show "\<exists>m. try_from_canonical_parts el env rows columns offsets rs vs reserve rc vc = Ok m"
    using * len parts few
    by (simp add: try_from_canonical_parts_def sparse_shape_eq polls checked_usize_def checked_u64_def try_from_def
        checked_add_def slice_get_def usize_max_eq_u64_max)
qed


theorem try_from_canonical_parts_exact_witness:
  "\<exists>m. try_from_canonical_parts mod7_element quiet_env 3 2 [0, 1, 2] [1, 2] [3, 2] 4 2 2 = Ok m \<and>
     storage m = storage sample_matrix"
proof -
  let ?st = "\<lparr>col_offsets = [0, 1, 2], row_indices = [1, 2], csc_values = [3, 2 :: nat], reserved_nnz = 4\<rparr>"
  have "wf_storage mod7_element 3 2 ?st" by code_simp
  moreover have b: "length [3, 2 :: nat] \<le> usize_max" "(3 :: nat) \<le> u64_max" "3 * 2 \<le> u64_max" "2 < usize_max"
    by code_simp+
  ultimately obtain m where "try_from_canonical_parts mod7_element quiet_env 3 2 [0, 1, 2] [1, 2] [3, 2] 4 2 2 = Ok m"
    using try_from_canonical_parts_exact [OF b(1), where el = mod7_element and env = quiet_env and rows = 3 and columns = 2
        and offsets = "[0, 1, 2]" and rs = "[1, 2]" and reserve = 4 and rc = 2 and vc = 2] by auto
  with try_from_canonical_parts_exact [OF b(1), where el = mod7_element and env = quiet_env and rows = 3 and columns = 2
        and offsets = "[0, 1, 2]" and rs = "[1, 2]" and reserve = 4 and rc = 2 and vc = 2 and m = m]
  show ?thesis by (auto simp: sample_matrix_def)
qed

text \<open>
  Looking up a canonical matrix by a one-based linear index or by one-based subscripts gives the
  element at the column-major position, for every index in range, and the range error otherwise.
\<close>

theorem one_based_lookups_agree:
  assumes wf: "wf_csc el m"
  shows "get_linear_one_based m i =
      (if 1 \<le> i \<and> i \<le> csc_rows m * csc_columns m
       then get_subscripts_one_based m ((i - 1) mod csc_rows m + 1) ((i - 1) div csc_rows m + 1)
       else Err (SparseLinearIndexOutOfBounds i (csc_rows m * csc_columns m)))"
proof -
  have num: "csc_numel m = csc_rows m * csc_columns m"
    using wf matrix_dims(3) [of "csc_rows m" "csc_columns m" "csc_shape m" "storage m"]
    by (cases m) (simp add: wf_csc_def)
  show ?thesis
  proof (cases "1 \<le> i \<and> i \<le> csc_rows m * csc_columns m")
    case True
    then have "0 < csc_rows m" by (cases "csc_rows m") auto
    moreover have "(i - 1) div csc_rows m < csc_columns m"
      using True by (intro less_mult_imp_div_less) (auto simp: mult.commute)
    moreover have "(i - 1) mod csc_rows m < csc_rows m" using \<open>0 < csc_rows m\<close> by simp
    ultimately show ?thesis
      using True num
      by (auto simp: get_linear_one_based_def get_subscripts_one_based_def simp del: mod_less_divisor)
  qed (use num in \<open>auto simp: get_linear_one_based_def\<close>)
qed

theorem one_based_lookups_agree_witness:
  "get_linear_one_based sample_matrix 6 = get_subscripts_one_based sample_matrix 3 2 \<and>
   get_subscripts_one_based sample_matrix 3 2 = Ok (Some 2)"
proof -
  have d: "csc_rows sample_matrix = 3" "csc_columns sample_matrix = 2" by code_simp+
  have "get_subscripts_one_based sample_matrix 3 2 = Ok (Some 2)" by code_simp
  moreover have sub: "(6 - 1) mod 3 + 1 = (3 :: nat)" "(6 - 1) div 3 + 1 = (2 :: nat)" by simp_all
  ultimately show ?thesis
    using one_based_lookups_agree [OF sample_matrix_wf, of 6, unfolded d sub] by simp
qed

end
