(* ===== verification/Rust_BTree.thy ===== *)
theory Rust_BTree
  imports Rust_Prelude "HOL-Library.List_Lexorder" "HOL-Library.Char_ord"
begin

section \<open>Ordered maps\<close>

text \<open>
  \<open>BTreeMap\<close> as an association list in strictly increasing key order. The locale states what its
  clients rely on, and the interpretation discharges it for the list operations.
\<close>

type_synonym ('k, 'v) btree = "('k \<times> 'v) list"

definition bt_wf :: "('k :: linorder, 'v) btree \<Rightarrow> bool" where
  "bt_wf m \<longleftrightarrow> sorted_wrt (<) (map fst m)"

definition bt_get :: "('k, 'v) btree \<Rightarrow> 'k \<Rightarrow> 'v option" where
  "bt_get m k = map_of m k"

fun bt_insert :: "'k :: linorder \<Rightarrow> 'v \<Rightarrow> ('k, 'v) btree \<Rightarrow> ('k, 'v) btree" where
  "bt_insert k v [] = [(k, v)]"
| "bt_insert k v ((k', v') # m) =
     (if k < k' then (k, v) # (k', v') # m
      else if k = k' then (k, v) # m
      else (k', v') # bt_insert k v m)"

definition bt_remove :: "'k \<Rightarrow> ('k, 'v) btree \<Rightarrow> ('k, 'v) btree" where
  "bt_remove k m = filter (\<lambda>e. fst e \<noteq> k) m"

text \<open>\<open>get_mut\<close> followed by a store through the reference.\<close>

definition bt_update :: "'k \<Rightarrow> ('v \<Rightarrow> 'v) \<Rightarrow> ('k, 'v) btree \<Rightarrow> ('k, 'v) btree" where
  "bt_update k f m = map (\<lambda>(k', v). (k', if k' = k then f v else v)) m"

lemma bt_wf_Nil [simp]: "bt_wf []"
  by (simp add: bt_wf_def)

lemma bt_get_Nil [simp]: "bt_get [] k = None" "dom (bt_get []) = {}"
  by (auto simp: bt_get_def)

lemma bt_wf_distinct: "bt_wf m \<Longrightarrow> distinct (map fst m)"
  by (simp add: bt_wf_def strict_sorted_iff)

lemma bt_insert_keys: "fst ` set (bt_insert k v m) = insert k (fst ` set m)"
  by (induction k v m rule: bt_insert.induct) auto

lemma bt_insert_get: "bt_get (bt_insert k v m) j = (if j = k then Some v else bt_get m j)"
  unfolding bt_get_def by (induction k v m rule: bt_insert.induct) auto

lemma bt_insert_wf: "bt_wf m \<Longrightarrow> bt_wf (bt_insert k v m)"
proof (induction k v m rule: bt_insert.induct)
  case (2 k v k' v' m)
  have keys: "fst ` set (bt_insert k v m) = insert k (fst ` set m)" by (rule bt_insert_keys)
  have "\<forall>x\<in>set (bt_insert k v m). k' < fst x" if "k' < k" "\<forall>x\<in>set m. k' < fst x"
  proof
    fix x assume "x \<in> set (bt_insert k v m)"
    then have "fst x \<in> insert k (fst ` set m)" using keys by (metis imageI)
    with that show "k' < fst x" by auto
  qed
  with 2 show ?case by (auto simp: bt_wf_def)
qed (simp add: bt_wf_def)

lemma bt_remove_get: "bt_get (bt_remove k m) j = (if j = k then None else bt_get m j)"
  unfolding bt_get_def bt_remove_def by (induction m) auto

lemma bt_remove_wf: "bt_wf m \<Longrightarrow> bt_wf (bt_remove k m)"
  unfolding bt_wf_def bt_remove_def by (induction m) auto

lemma bt_update_get: "bt_get (bt_update k f m) j = (if j = k then map_option f (bt_get m j) else bt_get m j)"
  unfolding bt_get_def bt_update_def by (induction m) auto

lemma bt_update_keys [simp]: "map fst (bt_update k f m) = map fst m"
  by (simp add: bt_update_def comp_def case_prod_beta)

lemma bt_update_wf: "bt_wf m \<Longrightarrow> bt_wf (bt_update k f m)"
  by (simp add: bt_wf_def)

lemma bt_length:
  assumes "bt_wf m"
  shows "length m = card (dom (bt_get m))"
proof -
  have "dom (bt_get m) = fst ` set m" unfolding bt_get_def [abs_def] by (rule dom_map_of_conv_image_fst)
  also have "card \<dots> = length m" using bt_wf_distinct [OF assms] by (metis distinct_card length_map set_map)
  finally show ?thesis by simp
qed

lemma bt_get_Some_iff: "bt_wf m \<Longrightarrow> bt_get m k = Some v \<longleftrightarrow> (k, v) \<in> set m"
  by (simp add: bt_get_def bt_wf_distinct)

locale ordered_map =
  fixes wf :: "'m \<Rightarrow> bool"
    and get :: "'m \<Rightarrow> 'k \<Rightarrow> 'v option"
    and insert_entry :: "'k \<Rightarrow> 'v \<Rightarrow> 'm \<Rightarrow> 'm"
    and remove_entry :: "'k \<Rightarrow> 'm \<Rightarrow> 'm"
    and update_entry :: "'k \<Rightarrow> ('v \<Rightarrow> 'v) \<Rightarrow> 'm \<Rightarrow> 'm"
    and len :: "'m \<Rightarrow> nat"
  assumes get_insert: "get (insert_entry k v m) j = (if j = k then Some v else get m j)"
    and get_remove: "get (remove_entry k m) j = (if j = k then None else get m j)"
    and get_update: "get (update_entry k f m) j = (if j = k then map_option f (get m j) else get m j)"
    and wf_insert: "wf m \<Longrightarrow> wf (insert_entry k v m)"
    and wf_remove: "wf m \<Longrightarrow> wf (remove_entry k m)"
    and wf_update: "wf m \<Longrightarrow> wf (update_entry k f m)"
    and len_card: "wf m \<Longrightarrow> len m = card (dom (get m))"
    and finite_dom: "finite (dom (get m))"
begin

lemma dom_insert: "dom (get (insert_entry k v m)) = insert k (dom (get m))"
  by (auto simp: get_insert split: if_splits)

lemma dom_remove: "dom (get (remove_entry k m)) = dom (get m) - {k}"
  by (auto simp: get_remove split: if_splits)

lemma dom_update: "dom (get (update_entry k f m)) = dom (get m)"
  by (auto simp: get_update split: if_splits)

lemma len_insert: "wf m \<Longrightarrow> get m k = None \<Longrightarrow> len (insert_entry k v m) = Suc (len m)"
  by (simp add: len_card wf_insert dom_insert finite_dom domIff card_insert_disjoint)

lemma len_remove: "wf m \<Longrightarrow> get m k \<noteq> None \<Longrightarrow> len m = Suc (len (remove_entry k m))"
  using card_Suc_Diff1 [OF finite_dom, of k m] by (simp add: len_card wf_remove dom_remove domIff)

lemma len_update: "wf m \<Longrightarrow> len (update_entry k f m) = len m"
  by (simp add: len_card wf_update dom_update)

lemma get_fold_update:
  "get (fold (\<lambda>k. update_entry k f) ks m) j =
     (if j \<in> set ks then map_option (f ^^ count_list ks j) (get m j) else get m j)"
  by (induction ks arbitrary: m) (auto simp: get_update option.map_comp comp_def funpow_swap1)

lemma wf_fold_update: "wf m \<Longrightarrow> wf (fold (\<lambda>k. update_entry k f) ks m)"
  by (induction ks arbitrary: m) (auto simp: wf_update)

lemma dom_fold_update: "dom (get (fold (\<lambda>k. update_entry k f) ks m)) = dom (get m)"
  by (induction ks arbitrary: m) (auto simp: dom_update)

end

interpretation bt: ordered_map bt_wf bt_get bt_insert bt_remove bt_update length
proof
  fix m :: "('a :: linorder, 'b) btree" and k j :: 'a and v :: 'b and f :: "'b \<Rightarrow> 'b"
  show "bt_get (bt_insert k v m) j = (if j = k then Some v else bt_get m j)" by (rule bt_insert_get)
  show "bt_get (bt_remove k m) j = (if j = k then None else bt_get m j)" by (rule bt_remove_get)
  show "bt_get (bt_update k f m) j = (if j = k then map_option f (bt_get m j) else bt_get m j)"
    by (rule bt_update_get)
  show "bt_wf (bt_insert k v m)" if "bt_wf m" using that by (rule bt_insert_wf)
  show "bt_wf (bt_remove k m)" if "bt_wf m" using that by (rule bt_remove_wf)
  show "bt_wf (bt_update k f m)" if "bt_wf m" using that by (rule bt_update_wf)
  show "length m = card (dom (bt_get m))" if "bt_wf m" using that by (rule bt_length)
  show "finite (dom (bt_get m))" unfolding bt_get_def by (rule finite_dom_map_of)
qed

end
