(* ===== verification/Object_Store.thy ===== *)
theory Object_Store
  imports Rust_BTree
begin

section \<open>The object store and its collector (openmat-object/src/object.rs)\<close>

text \<open>
  Object records with their property slots, the life cycle of construction and of handle
  finalisation, assignment copies, and the two-phase tracing collection. The store returns the
  updated state next to each result. The class registry's answers that allocation asks for are
  arguments, as are the callbacks of tracing, destructor lookup and slot copying; a callback is
  keyed by the record and slot it is called for, so that it may answer differently at each call.
\<close>

subsection \<open>Identities and descriptors\<close>

type_synonym ClassId = nat
type_synonym ObjectId = nat

datatype PropertyKey = PropertyKey (declaring_class: ClassId) (key_name: string)

instantiation PropertyKey :: linorder
begin

definition less_eq_PropertyKey :: "PropertyKey \<Rightarrow> PropertyKey \<Rightarrow> bool" where
  "less_eq_PropertyKey a b \<longleftrightarrow> (declaring_class a, key_name a) \<le> (declaring_class b, key_name b)"

definition less_PropertyKey :: "PropertyKey \<Rightarrow> PropertyKey \<Rightarrow> bool" where
  "less_PropertyKey a b \<longleftrightarrow> (declaring_class a, key_name a) < (declaring_class b, key_name b)"

instance
proof
  fix a b c :: PropertyKey
  show "a < b \<longleftrightarrow> a \<le> b \<and> \<not> b \<le> a"
    unfolding less_PropertyKey_def less_eq_PropertyKey_def by (rule less_le_not_le)
  show "a \<le> a" by (simp add: less_eq_PropertyKey_def)
  show "a \<le> c" if "a \<le> b" "b \<le> c"
    using that unfolding less_eq_PropertyKey_def by (rule order_trans)
  show "a = b" if "a \<le> b" "b \<le> a"
    using order_antisym [OF that [unfolded less_eq_PropertyKey_def]] by (auto intro: PropertyKey.expand)
  show "a \<le> b \<or> b \<le> a" unfolding less_eq_PropertyKey_def by (rule linear)
qed

end

datatype Access = Public | Protected | Private

datatype ClassSemantics = Value | Handle

datatype MethodKind = Instance | Static

datatype AttributeOwner = OwnerClass string | OwnerProperty string | OwnerMethod string

datatype ConstructionState = Allocated | Constructing | Constructed | Failed

datatype HandleState = Alive | Finalizing | Invalid

subsection \<open>Errors (openmat-object/src/error.rs)\<close>

datatype (plugins only: code) ObjectError =
    EmptyName string
  | DuplicateClass string
  | DuplicateSuperclass string ClassId
  | DuplicateProperty string string
  | DuplicateMethod string string
  | InvalidPropertyDefinition string string string
  | InheritedPropertyConflict string string ClassId
  | OverrideKindMismatch string string MethodKind MethodKind
  | AbstractOverrideAccessMismatch string string Access Access
  | AbstractPropertyOverrideAccessMismatch string string
  | SealedMethodOverride string string
  | SealedSuperclass string ClassId
  | ExplicitConcreteWithAbstractMethods string "string list"
  | InvalidEnumerationDefinition string string
  | DuplicateEnumerationMember string string
  | DuplicateEvent string string
  | EventNotFound ClassId string
  | InvalidConstructorKind string
  | UnsupportedAttribute AttributeOwner string
  | UnknownClass ClassId
  | UnknownClassName string
  | InheritanceCycle ClassId
  | IdExhausted string
  | CapacityExceeded string
  | MethodNotFound ClassId string
  | MethodKindMismatch string MethodKind MethodKind
  | AbstractMethodCall string string
  | AbstractClassInstantiation string
  | EnumerationDirectConstruction string
  | PropertyNotFound ClassId string
  | PropertyReadOnly ClassId string
  | PropertyWriteOnly ClassId string
  | MissingAccessor ClassId string string
  | AccessDenied string ClassId Access "ClassId option"
  | UnknownObject ObjectId
  | ObjectReferenceMismatch ObjectId
  | ObjectClassMismatch ObjectId ClassId ClassId
  | ObjectSemanticsMismatch ObjectId ClassSemantics ClassSemantics
  | HandleNotAlive ObjectId HandleState
  | FinalizationCandidateMismatch ObjectId
  | InvalidConstructionTransition ObjectId ConstructionState ConstructionState
  | ObjectNotConstructed ObjectId ConstructionState
  | MissingPropertyInitializer ClassId string
  | PropertySlotNotFound ObjectId string
  | ObjectShapeOverflow
  | ArrayElementCountMismatch nat nat
  | HeterogeneousArrayElement nat ClassId ClassId
  | ValueIdentityAliased ObjectId

type_synonym 'a ObjectResult = "(ObjectError, 'a) result"

subsection \<open>State\<close>

record FinalizationCandidate =
  candidate_id :: ObjectId
  candidate_class :: ClassId
  candidate_construction :: ConstructionState

record GcPlan =
  candidates :: "FinalizationCandidate list"
  unreachable :: "ObjectId list"
  planned_objects :: nat
  planned_slots :: nat

record GcMetrics =
  live_objects :: nat
  live_slots :: nat
  allocation_debt :: nat
  collections :: nat
  total_allocated_objects :: nat
  total_reclaimed_objects :: nat
  total_reclaimed_slots :: nat
  last_reclaimed_objects :: nat
  last_reclaimed_slots :: nat

record GcCollection =
  reclaimed_objects :: nat
  reclaimed_slots :: nat
  remaining_objects :: nat
  remaining_slots :: nat

record ObjectRef =
  ref_id :: ObjectId
  ref_class :: ClassId
  ref_semantics :: ClassSemantics

record 's ObjectRecord =
  rec_class :: ClassId
  rec_semantics :: ClassSemantics
  rec_state :: ConstructionState
  rec_handle_state :: HandleState
  rec_slots :: "(PropertyKey, 's) btree"

record 's ObjectStore =
  objects :: "(ObjectId, 's ObjectRecord) btree"
  invalid_handles :: "(ObjectId, ClassId) btree"
  next_id :: nat
  metrics :: GcMetrics

definition store_new :: "'s ObjectStore" where
  "store_new =
     \<lparr>objects = [], invalid_handles = [], next_id = 1,
      metrics = \<lparr>live_objects = 0, live_slots = 0, allocation_debt = 0, collections = 0,
                 total_allocated_objects = 0, total_reclaimed_objects = 0, total_reclaimed_slots = 0,
                 last_reclaimed_objects = 0, last_reclaimed_slots = 0\<rparr>\<rparr>"

definition store_len :: "'s ObjectStore \<Rightarrow> nat" where
  "store_len st = length (objects st)"

definition store_is_empty :: "'s ObjectStore \<Rightarrow> bool" where
  "store_is_empty st \<longleftrightarrow> objects st = []"

definition next_allocation_id :: "'s ObjectStore \<Rightarrow> ObjectId" where
  "next_allocation_id st = next_id st"

definition collection_due :: "'s ObjectStore \<Rightarrow> nat \<Rightarrow> bool" where
  "collection_due st threshold \<longleftrightarrow> threshold \<le> allocation_debt (metrics st)"

definition aliases :: "ObjectRef \<Rightarrow> ObjectRef \<Rightarrow> bool" where
  "aliases a b \<longleftrightarrow> ref_id a = ref_id b"

subsection \<open>Access to records\<close>

definition validate_reference :: "ObjectRef \<Rightarrow> 's ObjectRecord \<Rightarrow> unit ObjectResult" where
  "validate_reference obj r =
     (if ref_class obj \<noteq> rec_class r \<or> ref_semantics obj \<noteq> rec_semantics r
      then Err (ObjectReferenceMismatch (ref_id obj)) else Ok ())"

definition record_raw :: "'s ObjectStore \<Rightarrow> ObjectRef \<Rightarrow> 's ObjectRecord ObjectResult" where
  "record_raw st obj =
     (case bt_get (objects st) (ref_id obj) of
        None \<Rightarrow>
          (case bt_get (invalid_handles st) (ref_id obj) of
             Some class_id \<Rightarrow>
               if class_id = ref_class obj \<and> ref_semantics obj = Handle
               then Err (HandleNotAlive (ref_id obj) Invalid)
               else Err (ObjectReferenceMismatch (ref_id obj))
           | None \<Rightarrow> Err (UnknownObject (ref_id obj)))
      | Some r \<Rightarrow> and_then (validate_reference obj r) (\<lambda>_. Ok r))"

definition store_record :: "'s ObjectStore \<Rightarrow> ObjectRef \<Rightarrow> 's ObjectRecord ObjectResult" where
  "store_record st obj =
     and_then (record_raw st obj) (\<lambda>r.
       if rec_semantics r = Handle \<and> rec_handle_state r \<noteq> Alive
       then Err (HandleNotAlive (ref_id obj) (rec_handle_state r)) else Ok r)"

text \<open>
  The mutable accessors find the same record or fail the same way; what the caller then writes
  through the reference is an update of that record.
\<close>

definition update_record :: "ObjectId \<Rightarrow> ('s ObjectRecord \<Rightarrow> 's ObjectRecord) \<Rightarrow> 's ObjectStore \<Rightarrow> 's ObjectStore" where
  "update_record i f st = st\<lparr>objects := bt_update i f (objects st)\<rparr>"

definition finalizing_record :: "'s ObjectStore \<Rightarrow> FinalizationCandidate \<Rightarrow> 's ObjectRecord ObjectResult" where
  "finalizing_record st cand =
     (case bt_get (objects st) (candidate_id cand) of
        None \<Rightarrow>
          if bt_get (invalid_handles st) (candidate_id cand) = Some (candidate_class cand)
          then Err (HandleNotAlive (candidate_id cand) Invalid)
          else Err (FinalizationCandidateMismatch (candidate_id cand))
      | Some r \<Rightarrow>
          if rec_class r \<noteq> candidate_class cand \<or> rec_semantics r \<noteq> Handle \<or>
             rec_state r \<noteq> candidate_construction cand \<or> rec_handle_state r \<noteq> Finalizing
          then Err (FinalizationCandidateMismatch (candidate_id cand)) else Ok r)"

definition state_of :: "'s ObjectStore \<Rightarrow> ObjectRef \<Rightarrow> ConstructionState ObjectResult" where
  "state_of st obj = and_then (store_record st obj) (\<lambda>r. Ok (rec_state r))"

definition handle_state_of :: "'s ObjectStore \<Rightarrow> ObjectRef \<Rightarrow> HandleState ObjectResult" where
  "handle_state_of st obj =
     (if ref_semantics obj \<noteq> Handle
      then Err (ObjectSemanticsMismatch (ref_id obj) Handle (ref_semantics obj))
      else case bt_get (objects st) (ref_id obj) of
        Some r \<Rightarrow> and_then (validate_reference obj r) (\<lambda>_. Ok (rec_handle_state r))
      | None \<Rightarrow>
          (case bt_get (invalid_handles st) (ref_id obj) of
             Some class_id \<Rightarrow>
               if class_id = ref_class obj then Ok Invalid else Err (ObjectReferenceMismatch (ref_id obj))
           | None \<Rightarrow> Err (UnknownObject (ref_id obj))))"

definition slot :: "'s ObjectStore \<Rightarrow> ObjectRef \<Rightarrow> PropertyKey \<Rightarrow> 's ObjectResult" where
  "slot st obj key =
     and_then (store_record st obj) (\<lambda>r.
       ok_or (PropertySlotNotFound (ref_id obj) (key_name key)) (bt_get (rec_slots r) key))"

text \<open>Taking a mutable slot and storing a value through it.\<close>

definition slot_store :: "'s ObjectStore \<Rightarrow> ObjectRef \<Rightarrow> PropertyKey \<Rightarrow> 's \<Rightarrow> 's ObjectStore ObjectResult" where
  "slot_store st obj key v =
     and_then (store_record st obj) (\<lambda>r.
     and_then (ok_or (PropertySlotNotFound (ref_id obj) (key_name key)) (bt_get (rec_slots r) key)) (\<lambda>_.
       Ok (update_record (ref_id obj) (\<lambda>r. r\<lparr>rec_slots := bt_update key (\<lambda>_. v) (rec_slots r)\<rparr>) st)))"

definition finalizer_slot :: "'s ObjectStore \<Rightarrow> FinalizationCandidate \<Rightarrow> PropertyKey \<Rightarrow> 's ObjectResult" where
  "finalizer_slot st cand key =
     and_then (finalizing_record st cand) (\<lambda>r.
       ok_or (PropertySlotNotFound (candidate_id cand) (key_name key)) (bt_get (rec_slots r) key))"

subsection \<open>Counters\<close>

definition record_allocation :: "nat \<Rightarrow> 's ObjectStore \<Rightarrow> 's ObjectStore" where
  "record_allocation slot_count st =
     (let slots = min u64_max slot_count; debt = saturating_add u64_max slots 1; g = metrics st in
      st\<lparr>metrics := g\<lparr>live_objects := saturating_add u64_max (live_objects g) 1,
                       live_slots := saturating_add u64_max (live_slots g) slots,
                       allocation_debt := saturating_add u64_max (allocation_debt g) debt,
                       total_allocated_objects := saturating_add u64_max (total_allocated_objects g) 1\<rparr>\<rparr>)"

definition remove_record :: "ObjectId \<Rightarrow> 's ObjectStore \<Rightarrow> 's ObjectRecord option \<times> 's ObjectStore" where
  "remove_record i st =
     (case bt_get (objects st) i of
        None \<Rightarrow> (None, st)
      | Some r \<Rightarrow>
          let g = metrics st; slots = min u64_max (length (rec_slots r)) in
          (Some (if rec_semantics r = Handle then r\<lparr>rec_handle_state := Invalid\<rparr> else r),
           st\<lparr>objects := bt_remove i (objects st),
              invalid_handles := (if rec_semantics r = Handle then bt_insert i (rec_class r) (invalid_handles st)
                                  else invalid_handles st),
              metrics := g\<lparr>live_objects := live_objects g - 1, live_slots := live_slots g - slots\<rparr>\<rparr>))"

definition record_reclamation :: "'s ObjectRecord \<Rightarrow> 's ObjectStore \<Rightarrow> 's ObjectStore" where
  "record_reclamation r st =
     (let g = metrics st; slots = min u64_max (length (rec_slots r)) in
      st\<lparr>metrics := g\<lparr>total_reclaimed_objects := saturating_add u64_max (total_reclaimed_objects g) 1,
                       total_reclaimed_slots := saturating_add u64_max (total_reclaimed_slots g) slots\<rparr>\<rparr>)"

definition remove_and_reclaim :: "ObjectId \<Rightarrow> 's ObjectStore \<Rightarrow> 's ObjectStore" where
  "remove_and_reclaim i st =
     (case remove_record i st of (None, st') \<Rightarrow> st' | (Some r, st') \<Rightarrow> record_reclamation r st')"

subsection \<open>Finalisation\<close>

definition begin_finalization :: "'s ObjectStore \<Rightarrow> ObjectRef \<Rightarrow> bool \<Rightarrow>
    ('s ObjectStore \<times> FinalizationCandidate option) ObjectResult" where
  "begin_finalization st obj requires_destructor =
     (if ref_semantics obj \<noteq> Handle
      then Err (ObjectSemanticsMismatch (ref_id obj) Handle (ref_semantics obj))
      else case bt_get (invalid_handles st) (ref_id obj) of
        Some class_id \<Rightarrow>
          if class_id = ref_class obj then Ok (st, None) else Err (ObjectReferenceMismatch (ref_id obj))
      | None \<Rightarrow>
          and_then (record_raw st obj) (\<lambda>r.
            if rec_handle_state r \<noteq> Alive then Ok (st, None)
            else
              let st' = update_record (ref_id obj) (\<lambda>r. r\<lparr>rec_handle_state := Finalizing\<rparr>) st;
                  cand = \<lparr>candidate_id = ref_id obj, candidate_class = rec_class r, candidate_construction = rec_state r\<rparr>
              in if requires_destructor then Ok (st', Some cand)
                 else Ok (remove_and_reclaim (ref_id obj) st', None)))"

definition finish_finalization :: "'s ObjectStore \<Rightarrow> FinalizationCandidate \<Rightarrow> ('s ObjectStore \<times> bool) ObjectResult" where
  "finish_finalization st cand =
     (case bt_get (invalid_handles st) (candidate_id cand) of
        Some class_id \<Rightarrow>
          if class_id = candidate_class cand then Ok (st, False)
          else Err (FinalizationCandidateMismatch (candidate_id cand))
      | None \<Rightarrow>
          and_then (finalizing_record st cand) (\<lambda>_. Ok (remove_and_reclaim (candidate_id cand) st, True)))"

subsection \<open>Construction\<close>

definition transition :: "'s ObjectStore \<Rightarrow> ObjectRef \<Rightarrow> ConstructionState \<Rightarrow> ConstructionState \<Rightarrow> 's ObjectStore ObjectResult" where
  "transition st obj expected nxt =
     and_then (store_record st obj) (\<lambda>r.
       if rec_state r \<noteq> expected then Err (InvalidConstructionTransition (ref_id obj) (rec_state r) nxt)
       else Ok (update_record (ref_id obj) (\<lambda>r. r\<lparr>rec_state := nxt\<rparr>) st))"

definition begin_construction :: "'s ObjectStore \<Rightarrow> ObjectRef \<Rightarrow> 's ObjectStore ObjectResult" where
  "begin_construction st obj = transition st obj Allocated Constructing"

definition finish_construction :: "'s ObjectStore \<Rightarrow> ObjectRef \<Rightarrow> 's ObjectStore ObjectResult" where
  "finish_construction st obj = transition st obj Constructing Constructed"

definition fail_construction :: "'s ObjectStore \<Rightarrow> ObjectRef \<Rightarrow> 's ObjectStore ObjectResult" where
  "fail_construction st obj =
     and_then (store_record st obj) (\<lambda>r.
       case rec_state r of
         Allocated \<Rightarrow> Ok (update_record (ref_id obj) (\<lambda>r. r\<lparr>rec_state := Failed\<rparr>) st)
       | Constructing \<Rightarrow> Ok (update_record (ref_id obj) (\<lambda>r. r\<lparr>rec_state := Failed\<rparr>) st)
       | from_state \<Rightarrow> Err (InvalidConstructionTransition (ref_id obj) from_state Failed))"

definition discard_incomplete :: "'s ObjectStore \<Rightarrow> ObjectRef \<Rightarrow> 's ObjectStore ObjectResult" where
  "discard_incomplete st obj =
     and_then (store_record st obj) (\<lambda>r.
       if rec_state r = Constructed then Err (ObjectNotConstructed (ref_id obj) (rec_state r))
       else Ok (snd (remove_record (ref_id obj) st)))"

definition discard_value_assignment_copy :: "'s ObjectStore \<Rightarrow> ObjectRef \<Rightarrow> 's ObjectStore ObjectResult" where
  "discard_value_assignment_copy st obj =
     and_then (store_record st obj) (\<lambda>r.
       if rec_semantics r \<noteq> Value then Err (ObjectSemanticsMismatch (ref_id obj) Value (rec_semantics r))
       else if rec_state r \<noteq> Constructed then Err (ObjectNotConstructed (ref_id obj) (rec_state r))
       else Ok (snd (remove_record (ref_id obj) st)))"

subsection \<open>Allocation and assignment\<close>

definition reserve_id :: "'s ObjectStore \<Rightarrow> (ObjectId \<times> nat) ObjectResult" where
  "reserve_id st =
     and_then (ok_or (IdExhausted ''object'') (checked_add u64_max (next_id st) 1)) (\<lambda>nxt. Ok (next_id st, nxt))"

definition insert_record :: "ObjectId \<Rightarrow> nat \<Rightarrow> 's ObjectRecord \<Rightarrow> 's ObjectStore \<Rightarrow> 's ObjectStore" where
  "insert_record i nxt r st =
     record_allocation (length (rec_slots r)) (st\<lparr>objects := bt_insert i r (objects st), next_id := nxt\<rparr>)"

definition collect_slots :: "('a \<Rightarrow> (PropertyKey \<times> 's) ObjectResult) \<Rightarrow> 'a list \<Rightarrow> (PropertyKey, 's) btree ObjectResult" where
  "collect_slots f xs =
     fold_result (\<lambda>slots x. and_then (f x) (\<lambda>(key, v). Ok (bt_insert key v slots))) [] xs"

text \<open>A stored property of the class: its key, name and explicit default.\<close>

definition allocate_with :: "(ClassId \<Rightarrow> ClassSemantics ObjectResult) \<Rightarrow>
    (ClassId \<Rightarrow> (PropertyKey \<times> 's option) list ObjectResult) \<Rightarrow> (PropertyKey \<Rightarrow> 's ObjectResult) \<Rightarrow>
    's ObjectStore \<Rightarrow> ClassId \<Rightarrow> ('s ObjectStore \<times> ObjectRef) ObjectResult" where
  "allocate_with class_semantics stored_properties implicit_default st class_id =
     and_then (class_semantics class_id) (\<lambda>semantics.
     and_then (stored_properties class_id) (\<lambda>properties.
     and_then (collect_slots (\<lambda>(key, default_value).
         case default_value of
           Some v \<Rightarrow> Ok (key, v)
         | None \<Rightarrow> and_then (implicit_default key) (\<lambda>v. Ok (key, v))) properties) (\<lambda>slots.
     and_then (reserve_id st) (\<lambda>(i, nxt).
       Ok (insert_record i nxt
             \<lparr>rec_class = class_id, rec_semantics = semantics, rec_state = Allocated,
              rec_handle_state = Alive, rec_slots = slots\<rparr> st,
           \<lparr>ref_id = i, ref_class = class_id, ref_semantics = semantics\<rparr>)))))"

definition assignment_copy_with :: "(PropertyKey \<Rightarrow> 's \<Rightarrow> 's ObjectResult) \<Rightarrow> 's ObjectStore \<Rightarrow> ObjectRef \<Rightarrow>
    ('s ObjectStore \<times> ObjectRef) ObjectResult" where
  "assignment_copy_with copy_slot st source =
     and_then (store_record st source) (\<lambda>r.
       if rec_state r \<noteq> Constructed then Err (ObjectNotConstructed (ref_id source) (rec_state r))
       else if rec_semantics r = Handle then Ok (st, source)
       else
         and_then (collect_slots (\<lambda>(key, v). and_then (copy_slot key v) (\<lambda>c. Ok (key, c))) (rec_slots r)) (\<lambda>slots.
         and_then (reserve_id st) (\<lambda>(i, nxt).
           Ok (insert_record i nxt
                 \<lparr>rec_class = rec_class r, rec_semantics = rec_semantics r, rec_state = rec_state r,
                  rec_handle_state = Alive, rec_slots = slots\<rparr> st,
               \<lparr>ref_id = i, ref_class = ref_class source, ref_semantics = ref_semantics source\<rparr>))))"

definition assignment_copy :: "'s ObjectStore \<Rightarrow> ObjectRef \<Rightarrow> ('s ObjectStore \<times> ObjectRef) ObjectResult" where
  "assignment_copy = assignment_copy_with (\<lambda>_ v. Ok v)"

text \<open>The slot type's default value is an argument.\<close>

definition allocate :: "'s \<Rightarrow> (ClassId \<Rightarrow> ClassSemantics ObjectResult) \<Rightarrow>
    (ClassId \<Rightarrow> (PropertyKey \<times> 's option) list ObjectResult) \<Rightarrow>
    's ObjectStore \<Rightarrow> ClassId \<Rightarrow> ('s ObjectStore \<times> ObjectRef) ObjectResult" where
  "allocate dflt class_semantics stored_properties = allocate_with class_semantics stored_properties (\<lambda>_. Ok dflt)"

subsection \<open>Collection\<close>

definition not_alive_handle :: "'s ObjectRecord \<Rightarrow> bool" where
  "not_alive_handle r \<longleftrightarrow> rec_semantics r = Handle \<and> rec_handle_state r \<noteq> Alive"

definition trace_record :: "('s \<Rightarrow> ('e, ObjectId list) result) \<Rightarrow> 's ObjectRecord \<Rightarrow>
    ('e, ObjectId list) result" where
  "trace_record trace_slot r =
     fold_result (\<lambda>outgoing (key, v). and_then (trace_slot v) (\<lambda>handles. Ok (outgoing @ handles))) [] (rec_slots r)"

lemma mark_measure_decreases:
  assumes "bt_get objs i = Some r" and "i \<notin> marked"
  shows "card (dom (bt_get objs) - insert i marked) < card (dom (bt_get objs) - marked)"
proof (rule psubset_card_mono)
  show "finite (dom (bt_get objs) - marked)" unfolding bt_get_def by (simp add: finite_dom_map_of)
  show "dom (bt_get objs) - insert i marked \<subset> dom (bt_get objs) - marked"
    using assms by blast
qed

text \<open>
  The mark loop: \<open>pending\<close> is a stack whose top is the end of the list. Each iteration either drops
  its top or marks a record of the store that was not marked yet.
\<close>

function mark_loop :: "('s \<Rightarrow> ('e, ObjectId list) result) \<Rightarrow> (ObjectId, 's ObjectRecord) btree \<Rightarrow>
    ObjectId list \<Rightarrow> ObjectId set \<Rightarrow> ('e, ObjectId set) result" where
  "mark_loop trace_slot objs pending marked =
     (if pending = [] then Ok marked
      else let i = last pending; rest = butlast pending in
        if i \<in> marked then mark_loop trace_slot objs rest marked
        else case bt_get objs i of
          None \<Rightarrow> mark_loop trace_slot objs rest marked
        | Some r \<Rightarrow>
            if not_alive_handle r then mark_loop trace_slot objs rest marked
            else and_then (trace_record trace_slot r) (\<lambda>outgoing.
              mark_loop trace_slot objs (rest @ outgoing) (insert i marked)))"
  by pat_completeness auto

termination
  by (relation "inv_image (less_than <*lex*> less_than)
       (\<lambda>(_, objs, pending, marked). (card (dom (bt_get objs) - marked), length pending))")
     (auto simp: mark_measure_decreases)

declare mark_loop.simps [simp del]

text \<open>Sweep: the records in descending identity order, those that need a destructor as candidates.\<close>

definition sweep_record :: "(ClassId \<Rightarrow> ('e, bool) result) \<Rightarrow> ObjectId set \<Rightarrow>
    ObjectId list \<times> FinalizationCandidate list \<Rightarrow> ObjectId \<times> 's ObjectRecord \<Rightarrow>
    ('e, ObjectId list \<times> FinalizationCandidate list) result" where
  "sweep_record needs_finalization marked acc e =
     (case (acc, e) of ((dead, cands), (i, r)) \<Rightarrow>
        if i \<in> marked \<or> not_alive_handle r then Ok (dead, cands)
        else and_then (if rec_semantics r = Handle then needs_finalization (rec_class r) else Ok False)
          (\<lambda>needs_destructor. Ok (dead @ [i],
             if needs_destructor
             then cands @ [\<lparr>candidate_id = i, candidate_class = rec_class r, candidate_construction = rec_state r\<rparr>]
             else cands)))"

definition finalize_record :: "'s ObjectRecord \<Rightarrow> 's ObjectRecord" where
  "finalize_record r = (if rec_semantics r = Handle then r\<lparr>rec_handle_state := Finalizing\<rparr> else r)"

definition plan_collection :: "(ClassId \<Rightarrow> ('e, bool) result) \<Rightarrow> 's ObjectStore \<Rightarrow> ObjectId set \<Rightarrow> ('e, 's ObjectStore \<times> GcPlan) result" where
  "plan_collection needs_finalization st marked =
     and_then (fold_result (sweep_record needs_finalization marked) ([], []) (rev (objects st))) (\<lambda>(dead, cands).
       let objs = fold (\<lambda>i. bt_update i finalize_record) dead (objects st) in
       Ok (st\<lparr>objects := objs\<rparr>,
           \<lparr>candidates = cands, unreachable = dead,
            planned_objects = min u64_max (length dead),
            planned_slots = fold (\<lambda>i slots. saturating_add u64_max slots
              (case bt_get objs i of None \<Rightarrow> 0 | Some r \<Rightarrow> min u64_max (length (rec_slots r)))) dead 0\<rparr>))"

definition try_begin_collection_with :: "('s \<Rightarrow> ('e, ObjectId list) result) \<Rightarrow>
    (ClassId \<Rightarrow> ('e, bool) result) \<Rightarrow> 's ObjectStore \<Rightarrow> ObjectId list \<Rightarrow> ('e, 's ObjectStore \<times> GcPlan) result" where
  "try_begin_collection_with trace_slot needs_finalization st roots =
     and_then (mark_loop trace_slot (objects st) roots {}) (plan_collection needs_finalization st)"

definition finish_collection :: "'s ObjectStore \<Rightarrow> GcPlan \<Rightarrow> 's ObjectStore \<times> GcCollection" where
  "finish_collection st plan =
     (let st' = fold remove_and_reclaim (unreachable plan) st; g = metrics st';
          g' = g\<lparr>allocation_debt := 0, collections := saturating_add u64_max (collections g) 1,
                 last_reclaimed_objects := planned_objects plan, last_reclaimed_slots := planned_slots plan\<rparr>
      in (st'\<lparr>metrics := g'\<rparr>,
          \<lparr>reclaimed_objects = planned_objects plan, reclaimed_slots = planned_slots plan,
           remaining_objects = live_objects g', remaining_slots = live_slots g'\<rparr>))"

text \<open>Collection with infallible callbacks.\<close>

definition begin_collection_with :: "('s \<Rightarrow> ObjectId list) \<Rightarrow> (ClassId \<Rightarrow> bool) \<Rightarrow>
    's ObjectStore \<Rightarrow> ObjectId list \<Rightarrow> ('s ObjectStore \<times> GcPlan) option" where
  "begin_collection_with trace_slot needs_finalization st roots =
     (case try_begin_collection_with (\<lambda>v. Ok (trace_slot v)) (\<lambda>c. Ok (needs_finalization c)) st roots of
        Inl (e :: unit) \<Rightarrow> None
      | Inr x \<Rightarrow> Some x)"

definition collect_with :: "('s \<Rightarrow> ObjectId list) \<Rightarrow> 's ObjectStore \<Rightarrow> ObjectId list \<Rightarrow>
    ('s ObjectStore \<times> GcCollection) option" where
  "collect_with trace_slot st roots =
     map_option (\<lambda>(st', plan). finish_collection st' plan) (begin_collection_with trace_slot (\<lambda>_. False) st roots)"

subsection \<open>Object arrays\<close>

record ObjectArrayDescriptor =
  array_class :: ClassId
  array_semantics :: ClassSemantics
  array_shape :: "nat list"
  element_ids :: "ObjectId list"

definition check_element :: "ClassId \<Rightarrow> ClassSemantics \<Rightarrow> ObjectId set \<times> ObjectId list \<Rightarrow> nat \<times> ObjectRef \<Rightarrow>
    (ObjectId set \<times> ObjectId list) ObjectResult" where
  "check_element class_id semantics acc e =
     (case (acc, e) of ((value_ids, ids), (index, element)) \<Rightarrow>
        if ref_class element \<noteq> class_id then Err (HeterogeneousArrayElement index class_id (ref_class element))
        else if ref_semantics element \<noteq> semantics
        then Err (ObjectSemanticsMismatch (ref_id element) semantics (ref_semantics element))
        else if semantics = Value \<and> ref_id element \<in> value_ids then Err (ValueIdentityAliased (ref_id element))
        else Ok (if semantics = Value then insert (ref_id element) value_ids else value_ids, ids @ [ref_id element]))"

definition object_array_new :: "(ClassId \<Rightarrow> ClassSemantics ObjectResult) \<Rightarrow> (nat \<Rightarrow> bool) \<Rightarrow> ClassId \<Rightarrow> nat list \<Rightarrow>
    ObjectRef list \<Rightarrow> ObjectArrayDescriptor ObjectResult" where
  "object_array_new class_semantics reservable_elements class_id dims elements =
     and_then (class_semantics class_id) (\<lambda>semantics.
     and_then (fold_result (\<lambda>product dimension.
         ok_or ObjectShapeOverflow (checked_mul u64_max product dimension)) 1 dims) (\<lambda>expected.
     and_then (ok_or ObjectShapeOverflow (try_from u64_max (length elements))) (\<lambda>actual.
       if expected \<noteq> actual then Err (ArrayElementCountMismatch expected (length elements))
       else if \<not> reservable_elements (length elements) then Err (CapacityExceeded ''object-array elements'')
       else and_then (fold_result (check_element class_id semantics) ({}, []) (enumerate 0 elements)) (\<lambda>(_, ids).
         Ok \<lparr>array_class = class_id, array_semantics = semantics, array_shape = dims, element_ids = ids\<rparr>))))"


subsection \<open>The store invariant\<close>

definition wf_record :: "'s ObjectRecord \<Rightarrow> bool" where
  "wf_record r \<longleftrightarrow> bt_wf (rec_slots r) \<and> (rec_semantics r = Value \<longrightarrow> rec_handle_state r = Alive) \<and>
     rec_handle_state r \<noteq> Invalid"

definition store_inv :: "'s ObjectStore \<Rightarrow> bool" where
  "store_inv st \<longleftrightarrow>
     bt_wf (objects st) \<and> bt_wf (invalid_handles st) \<and>
     dom (bt_get (objects st)) \<inter> dom (bt_get (invalid_handles st)) = {} \<and>
     (\<forall>i\<in>dom (bt_get (objects st)) \<union> dom (bt_get (invalid_handles st)). 0 < i \<and> i < next_id st) \<and>
     1 \<le> next_id st \<and> next_id st \<le> u64_max \<and>
     live_objects (metrics st) = length (objects st) \<and>
     (\<forall>i r. bt_get (objects st) i = Some r \<longrightarrow> wf_record r)"

lemma store_invD:
  assumes "store_inv st"
  shows "bt_wf (objects st)" and "bt_wf (invalid_handles st)"
    and "bt_get (objects st) i = Some r \<Longrightarrow> bt_get (invalid_handles st) i = None"
    and "bt_get (objects st) i = Some r \<Longrightarrow> 0 < i \<and> i < next_id st"
    and "bt_get (invalid_handles st) i = Some c \<Longrightarrow> 0 < i \<and> i < next_id st"
    and "1 \<le> next_id st" and "next_id st \<le> u64_max"
    and "live_objects (metrics st) = length (objects st)"
    and "bt_get (objects st) i = Some r \<Longrightarrow> wf_record r"
  using assms by (auto simp: store_inv_def)

text \<open>Identities below \<open>next_id\<close> leave room for the live counter to count every record.\<close>

lemma store_inv_few_objects:
  assumes "store_inv st"
  shows "length (objects st) < next_id st"
proof -
  have "dom (bt_get (objects st)) \<subseteq> {0<..<next_id st}" using assms by (auto simp: store_inv_def)
  then have "card (dom (bt_get (objects st))) \<le> card {0<..<next_id st}" by (intro card_mono) auto
  with bt.len_card [OF store_invD(1) [OF assms]] store_invD(6) [OF assms] show ?thesis by simp
qed

lemma store_new_inv: "store_inv store_new"
  by (simp add: store_inv_def store_new_def bt_get_def u64_max_def)

lemma update_record_simps [simp]:
  "next_id (update_record i f st) = next_id st"
  "invalid_handles (update_record i f st) = invalid_handles st"
  "metrics (update_record i f st) = metrics st"
  "bt_get (objects (update_record i f st)) j =
     (if j = i then map_option f (bt_get (objects st) j) else bt_get (objects st) j)"
  by (simp_all add: update_record_def bt.get_update)

lemma update_record_inv:
  assumes "store_inv st" and "\<And>r. bt_get (objects st) i = Some r \<Longrightarrow> wf_record r \<Longrightarrow> wf_record (f r)"
  shows "store_inv (update_record i f st)"
  using assms bt.wf_update [OF store_invD(1) [OF assms(1)], of i f] bt.len_update [OF store_invD(1) [OF assms(1)], of i f]
  by (auto simp: store_inv_def update_record_def bt.get_update bt.dom_update split: if_splits)

lemma remove_record_simps [simp]:
  "next_id (snd (remove_record i st)) = next_id st"
  "bt_get (objects (snd (remove_record i st))) j = (if j = i then None else bt_get (objects st) j)"
  "bt_get (invalid_handles (snd (remove_record i st))) j =
     (case bt_get (objects st) i of
        Some r \<Rightarrow> if rec_semantics r = Handle \<and> j = i then Some (rec_class r) else bt_get (invalid_handles st) j
      | None \<Rightarrow> bt_get (invalid_handles st) j)"
  by (auto simp: remove_record_def Let_def bt.get_remove bt.get_insert split: option.splits)

lemma record_reclamation_simps [simp]:
  "next_id (record_reclamation r st) = next_id st"
  "objects (record_reclamation r st) = objects st"
  "invalid_handles (record_reclamation r st) = invalid_handles st"
  "live_objects (metrics (record_reclamation r st)) = live_objects (metrics st)"
  by (simp_all add: record_reclamation_def Let_def)

lemma remove_record_inv:
  assumes inv: "store_inv st"
  shows "store_inv (snd (remove_record i st))"
proof (cases "bt_get (objects st) i")
  case None
  with inv show ?thesis by (simp add: remove_record_def)
next
  case (Some r)
  note d = store_invD [OF inv]
  have len: "length (objects st) = Suc (length (bt_remove i (objects st)))"
    using bt.len_remove [OF d(1), of i] Some by simp
  define hs where "hs = (if rec_semantics r = Handle then bt_insert i (rec_class r) (invalid_handles st) else invalid_handles st)"
  have i: "0 < i \<and> i < next_id st" using d(4) Some by blast
  have hs: "bt_wf hs" using bt.wf_insert [OF d(2)] d(2) by (simp add: hs_def)
  have hs_entry: "bt_get (bt_remove i (objects st)) j = None \<and> 0 < j \<and> j < next_id st" if "bt_get hs j = Some c" for j c
    using that d(3) [of j] d(5) [of j] i
    by (cases "bt_get (objects st) j") (auto simp: hs_def bt.get_insert bt.get_remove split: if_splits)
  then have disjoint: "dom (bt_get (bt_remove i (objects st))) \<inter> dom (bt_get hs) = {}" by fastforce
  have range: "0 < j \<and> j < next_id st"
    if "j \<in> dom (bt_get (bt_remove i (objects st))) \<union> dom (bt_get hs)" for j
    using that hs_entry d(4) by (auto simp: bt.get_remove split: if_splits)
  have st: "objects (snd (remove_record i st)) = bt_remove i (objects st)"
    "invalid_handles (snd (remove_record i st)) = hs"
    "live_objects (metrics (snd (remove_record i st))) = length (bt_remove i (objects st))"
    using Some len d(8) by (auto simp: remove_record_def Let_def hs_def)
  show ?thesis
    unfolding store_inv_def st
    using bt.wf_remove [OF d(1), of i] hs disjoint range d(6,7,9) by (auto simp: bt.get_remove split: if_splits)
qed

lemma remove_and_reclaim_simps [simp]:
  "next_id (remove_and_reclaim i st) = next_id st"
  "objects (remove_and_reclaim i st) = objects (snd (remove_record i st))"
  "invalid_handles (remove_and_reclaim i st) = invalid_handles (snd (remove_record i st))"
  using remove_record_simps(1) [of i st]
  by (auto simp: remove_and_reclaim_def simp del: remove_record_simps split: prod.splits option.splits)

lemma remove_and_reclaim_inv:
  assumes "store_inv st"
  shows "store_inv (remove_and_reclaim i st)"
proof -
  have "live_objects (metrics (remove_and_reclaim i st)) = live_objects (metrics (snd (remove_record i st)))"
    by (auto simp: remove_and_reclaim_def split: prod.splits option.splits)
  with remove_record_inv [OF assms, of i] show ?thesis
    by (simp add: store_inv_def)
qed

lemma record_allocation_simps [simp]:
  "next_id (record_allocation n st) = next_id st"
  "objects (record_allocation n st) = objects st"
  "invalid_handles (record_allocation n st) = invalid_handles st"
  "live_objects (metrics (record_allocation n st)) = min u64_max (live_objects (metrics st) + 1)"
  by (simp_all add: record_allocation_def Let_def saturating_add_def)

lemma insert_record_simps [simp]:
  "next_id (insert_record i nxt r st) = nxt"
  "bt_get (objects (insert_record i nxt r st)) j = (if j = i then Some r else bt_get (objects st) j)"
  "invalid_handles (insert_record i nxt r st) = invalid_handles st"
  by (simp_all add: insert_record_def bt.get_insert)

lemma reserve_id_Ok: "reserve_id st = Ok (i, nxt) \<longleftrightarrow> i = next_id st \<and> nxt = Suc (next_id st) \<and> nxt \<le> u64_max"
  by (auto simp: reserve_id_def result_simps checked_simps)

lemma insert_record_inv:
  assumes inv: "store_inv st" and id: "reserve_id st = Ok (i, nxt)" and r: "wf_record r"
  shows "store_inv (insert_record i nxt r st)"
proof -
  note d = store_invD [OF inv]
  from id have i: "i = next_id st" "nxt = Suc (next_id st)" "Suc (next_id st) \<le> u64_max"
    by (auto simp: reserve_id_Ok)
  have fresh: "bt_get (objects st) i = None" using d(4) [of i] i by (cases "bt_get (objects st) i") auto
  have fresh': "bt_get (invalid_handles st) i = None" using d(5) [of i] i by (cases "bt_get (invalid_handles st) i") auto
  have "live_objects (metrics (insert_record i nxt r st)) = length (bt_insert i r (objects st))"
    using bt.len_insert [OF d(1) fresh, of r] d(8) store_inv_few_objects [OF inv] d(7)
    by (simp add: insert_record_def)
  moreover have "objects (insert_record i nxt r st) = bt_insert i r (objects st)"
    by (simp add: insert_record_def)
  ultimately show ?thesis
    using inv bt.wf_insert [OF d(1), of i r] r i fresh fresh'
    by (auto simp: store_inv_def bt.dom_insert bt.get_insert domIff less_Suc_eq split: if_splits)
qed

lemma collect_slots_wf: "collect_slots f xs = Ok slots \<Longrightarrow> bt_wf slots"
  unfolding collect_slots_def
  by (erule fold_result_Ok_invariant) (auto simp: result_simps intro: bt.wf_insert)


subsection \<open>Marking finds what is reachable\<close>

definition traceable :: "(ObjectId, 's ObjectRecord) btree \<Rightarrow> ObjectId \<Rightarrow> bool" where
  "traceable objs i \<longleftrightarrow> (case bt_get objs i of None \<Rightarrow> False | Some r \<Rightarrow> \<not> not_alive_handle r)"

definition slot_edge :: "('s \<Rightarrow> ('e, ObjectId list) result) \<Rightarrow> (ObjectId, 's ObjectRecord) btree \<Rightarrow>
    ObjectId \<Rightarrow> ObjectId \<Rightarrow> bool" where
  "slot_edge tr objs i j \<longleftrightarrow>
     (case bt_get objs i of
        None \<Rightarrow> False
      | Some r \<Rightarrow> (case trace_record tr r of Inl _ \<Rightarrow> False | Inr out \<Rightarrow> j \<in> set out))"

inductive gc_reach :: "('s \<Rightarrow> ('e, ObjectId list) result) \<Rightarrow> (ObjectId, 's ObjectRecord) btree \<Rightarrow>
    ObjectId set \<Rightarrow> ObjectId \<Rightarrow> bool" for tr objs roots where
  reach_root: "i \<in> roots \<Longrightarrow> traceable objs i \<Longrightarrow> gc_reach tr objs roots i"
| reach_edge: "gc_reach tr objs roots i \<Longrightarrow> slot_edge tr objs i j \<Longrightarrow> traceable objs j \<Longrightarrow> gc_reach tr objs roots j"

lemma gc_reach_traceable: "gc_reach tr objs roots i \<Longrightarrow> traceable objs i"
  by (induction rule: gc_reach.induct) auto

lemma gc_reach_trans:
  assumes "gc_reach tr objs S i" and "\<And>j. j \<in> S \<Longrightarrow> traceable objs j \<Longrightarrow> gc_reach tr objs T j"
  shows "gc_reach tr objs T i"
  using assms by (induction rule: gc_reach.induct) (auto intro: reach_edge)

text \<open>What marking from \<open>todo\<close> with \<open>marked\<close> behind it has to deliver.\<close>

definition marks :: "('s \<Rightarrow> ('e, ObjectId list) result) \<Rightarrow> (ObjectId, 's ObjectRecord) btree \<Rightarrow> ObjectId set \<Rightarrow> ObjectId set \<Rightarrow>
    ObjectId set \<Rightarrow> bool" where
  "marks tr objs todo marked m \<longleftrightarrow>
     marked \<subseteq> m \<and> m \<subseteq> marked \<union> {i. gc_reach tr objs todo i} \<and> (\<forall>i\<in>todo. traceable objs i \<longrightarrow> i \<in> m) \<and>
     (\<forall>i\<in>m - marked. \<forall>j. slot_edge tr objs i j \<longrightarrow> traceable objs j \<longrightarrow> j \<in> m)"

lemma marks_none: "marks tr objs {} marked marked"
  by (simp add: marks_def)

lemma marks_skip:
  assumes "i \<in> marked \<or> \<not> traceable objs i" and "marks tr objs todo marked m"
  shows "marks tr objs (insert i todo) marked m"
proof -
  have "gc_reach tr objs (insert i todo) j" if "gc_reach tr objs todo j" for j
    using that by (rule gc_reach_trans) (auto intro: reach_root)
  with assms show ?thesis unfolding marks_def by blast
qed

lemma marks_visit:
  assumes live: "traceable objs i" and out: "\<And>j. j \<in> out \<Longrightarrow> slot_edge tr objs i j"
    and complete: "\<And>j. slot_edge tr objs i j \<Longrightarrow> traceable objs j \<Longrightarrow> j \<in> insert i marked \<union> todo \<union> out"
    and rest: "marks tr objs (todo \<union> out) (insert i marked) m"
  shows "marks tr objs (insert i todo) marked m"
proof -
  have i: "gc_reach tr objs (insert i todo) i" using live by (auto intro: reach_root)
  have reach: "gc_reach tr objs (insert i todo) j" if "gc_reach tr objs (todo \<union> out) j" for j
    using that
  proof (rule gc_reach_trans)
    fix k assume "k \<in> todo \<union> out" "traceable objs k"
    then show "gc_reach tr objs (insert i todo) k" using out i by (auto intro: reach_root reach_edge)
  qed
  have marked: "insert i marked \<subseteq> m" and only: "m \<subseteq> insert i marked \<union> {j. gc_reach tr objs (todo \<union> out) j}"
    and all: "\<And>j. j \<in> todo \<union> out \<Longrightarrow> traceable objs j \<Longrightarrow> j \<in> m"
    and step: "\<And>k j. k \<in> m \<Longrightarrow> k \<notin> insert i marked \<Longrightarrow> slot_edge tr objs k j \<Longrightarrow> traceable objs j \<Longrightarrow> j \<in> m"
    using rest unfolding marks_def by blast+
  have "m \<subseteq> marked \<union> {j. gc_reach tr objs (insert i todo) j}" using only reach i by blast
  moreover have "j \<in> m" if "k \<in> m - marked" "slot_edge tr objs k j" "traceable objs j" for k j
  proof (cases "k = i")
    case True
    with complete [of j] that marked all show ?thesis by blast
  next
    case False
    with that step show ?thesis by blast
  qed
  moreover have "\<forall>j\<in>insert i todo. traceable objs j \<longrightarrow> j \<in> m" using marked all by blast
  ultimately show ?thesis using marked unfolding marks_def by blast
qed

lemma marks_exact:
  assumes "marks tr objs roots {} m"
  shows "m = {i. gc_reach tr objs roots i}"
proof
  show "m \<subseteq> {i. gc_reach tr objs roots i}" using assms by (simp add: marks_def)
  show "{i. gc_reach tr objs roots i} \<subseteq> m"
  proof clarify
    fix i assume "gc_reach tr objs roots i"
    then show "i \<in> m" by (induction rule: gc_reach.induct) (use assms in \<open>auto simp: marks_def\<close>)
  qed
qed

lemma traceable_simps:
  "bt_get objs i = None \<Longrightarrow> \<not> traceable objs i" "bt_get objs i = Some r \<Longrightarrow> traceable objs i \<longleftrightarrow> \<not> not_alive_handle r"
  by (simp_all add: traceable_def)

lemma set_stack: "pending \<noteq> [] \<Longrightarrow> set pending = insert (last pending) (set (butlast pending))"
  by (induction pending rule: rev_induct) auto

lemma mark_loop_marks: "mark_loop tr objs pending marked = Ok m \<Longrightarrow> marks tr objs (set pending) marked m"
proof (induction tr objs pending marked rule: mark_loop.induct)
  case (1 tr objs pending marked)
  show ?case
  proof (cases "pending = []")
    case True
    with "1.prems" show ?thesis by (simp add: mark_loop.simps marks_none)
  next
    case False
    let ?i = "last pending" and ?rest = "butlast pending"
    note loop = "1.prems" [unfolded mark_loop.simps [of tr objs pending marked], simplified False Let_def if_False]
    consider (skip) "?i \<in> marked \<or> \<not> traceable objs ?i"
      | (visit) r where "?i \<notin> marked" "bt_get objs ?i = Some r" "\<not> not_alive_handle r"
      by (cases "bt_get objs ?i") (auto simp: traceable_simps)
    then show ?thesis
    proof cases
      case skip
      then have "marks tr objs (set ?rest) marked m"
        using loop "1.IH"(1-3) [OF False refl refl] by (auto simp: traceable_def split: if_splits option.splits)
      with skip show ?thesis unfolding set_stack [OF False] by (rule marks_skip)
    next
      case visit
      then obtain out where out: "trace_record tr r = Ok out" "mark_loop tr objs (?rest @ out) (insert ?i marked) = Ok m"
        using loop by (auto simp: result_simps)
      have edges: "slot_edge tr objs ?i j \<longleftrightarrow> j \<in> set out" for j using visit out by (simp add: slot_edge_def)
      have "marks tr objs (set ?rest \<union> set out) (insert ?i marked) m"
        using "1.IH"(4) [OF False refl refl visit out] by simp
      then show ?thesis
        unfolding set_stack [OF False] by (rule marks_visit [rotated 3]) (use visit edges in \<open>auto simp: traceable_simps\<close>)
    qed
  qed
qed

lemma mark_loop_exact: "mark_loop tr objs roots {} = Ok m \<Longrightarrow> m = {i. gc_reach tr objs (set roots) i}"
  by (rule marks_exact [OF mark_loop_marks])

subsection \<open>Sweeping\<close>

definition doomed :: "ObjectId set \<Rightarrow> ObjectId \<times> 's ObjectRecord \<Rightarrow> bool" where
  "doomed marked e \<longleftrightarrow> fst e \<notin> marked \<and> \<not> not_alive_handle (snd e)"

definition candidate_for :: "(ClassId \<Rightarrow> ('e, bool) result) \<Rightarrow> FinalizationCandidate \<Rightarrow>
    ObjectId \<times> 's ObjectRecord \<Rightarrow> bool" where
  "candidate_for nf cand e \<longleftrightarrow>
     cand = \<lparr>candidate_id = fst e, candidate_class = rec_class (snd e), candidate_construction = rec_state (snd e)\<rparr> \<and>
     rec_semantics (snd e) = Handle \<and> nf (rec_class (snd e)) = Ok True"

lemma sweep_record_eq:
  "\<not> doomed marked (i, r) \<Longrightarrow> sweep_record nf marked (dead, cands) (i, r) = Ok (dead, cands)"
  "doomed marked (i, r) \<Longrightarrow> sweep_record nf marked (dead, cands) (i, r) =
     and_then (if rec_semantics r = Handle then nf (rec_class r) else Ok False) (\<lambda>b.
       Ok (dead @ [i], if b
         then cands @ [\<lparr>candidate_id = i, candidate_class = rec_class r, candidate_construction = rec_state r\<rparr>]
         else cands))"
  by (auto simp: sweep_record_def doomed_def)

lemma sweep_Ok:
  assumes "fold_result (sweep_record nf marked) (dead, cands) es = Ok (dead', cands')"
  shows "dead' = dead @ map fst (filter (doomed marked) es) \<and>
    (\<exists>new. cands' = cands @ new \<and> (\<forall>c. c \<in> set new \<longleftrightarrow> (\<exists>e\<in>set es. doomed marked e \<and> candidate_for nf c e)) \<and>
      (distinct (map fst es) \<longrightarrow> distinct (map candidate_id new)))"
  using assms
proof (induction es arbitrary: dead cands)
  case (Cons e es)
  obtain i r where e: "e = (i, r)" by (cases e)
  show ?case
  proof (cases "doomed marked e")
    case False
    with Cons.prems have "fold_result (sweep_record nf marked) (dead, cands) es = Ok (dead', cands')"
      by (simp add: e sweep_record_eq)
    from Cons.IH [OF this] False show ?thesis by auto
  next
    case True
    with Cons.prems obtain b where b: "(if rec_semantics r = Handle then nf (rec_class r) else Ok False) = Ok b"
      and rest: "fold_result (sweep_record nf marked) (dead @ [i],
        if b then cands @ [\<lparr>candidate_id = i, candidate_class = rec_class r, candidate_construction = rec_state r\<rparr>] else cands) es =
        Ok (dead', cands')"
      unfolding e by (auto simp: sweep_record_eq result_simps)
    from Cons.IH [OF rest] obtain new where IH: "dead' = (dead @ [i]) @ map fst (filter (doomed marked) es)"
      "cands' = (if b then cands @ [\<lparr>candidate_id = i, candidate_class = rec_class r, candidate_construction = rec_state r\<rparr>] else cands) @ new"
      "\<forall>c. c \<in> set new \<longleftrightarrow> (\<exists>e\<in>set es. doomed marked e \<and> candidate_for nf c e)" "distinct (map fst es) \<longrightarrow> distinct (map candidate_id new)" by blast
    define own where "own = (if b then [\<lparr>candidate_id = i, candidate_class = rec_class r, candidate_construction = rec_state r\<rparr>] else [])"
    have own: "c \<in> set own \<longleftrightarrow> candidate_for nf c e" for c
      using b by (auto simp: own_def candidate_for_def e split: if_splits)
    have "distinct (map candidate_id (own @ new))" if d: "distinct (map fst (e # es))"
    proof -
      have "candidate_id c \<noteq> i" if "c \<in> set new" for c
        using IH(3) that d by (force simp: e candidate_for_def)
      with IH(4) d show ?thesis by (auto simp: own_def e)
    qed
    moreover have "cands' = cands @ (own @ new)" using IH(2) by (simp add: own_def)
    moreover have "\<forall>c. c \<in> set (own @ new) \<longleftrightarrow> (\<exists>e\<in>set (e # es). doomed marked e \<and> candidate_for nf c e)"
      using IH(3) own True by auto
    ultimately show ?thesis using IH(1) True by (intro conjI exI [of _ "own @ new"]) (simp_all add: e)
  qed
qed simp

lemma finalize_record_idem: "(finalize_record ^^ Suc n) r = finalize_record r"
  by (induction n) (auto simp: finalize_record_def)

lemma fold_finalize_get:
  fixes objs :: "(ObjectId, 's ObjectRecord) btree"
  shows
  "bt_get (fold (\<lambda>i. bt_update i finalize_record) dead objs) j =
     (if j \<in> set dead then map_option finalize_record (bt_get objs j) else bt_get objs j)"
proof (cases "j \<in> set dead")
  case True
  then obtain n where "count_list dead j = Suc n"
    by (cases "count_list dead j") (auto simp: count_list_0_iff)
  with True show ?thesis
    using bt.get_fold_update [of finalize_record dead objs j] finalize_record_idem
    by (cases "bt_get objs j") (simp_all del: funpow.simps)
qed (simp add: bt.get_fold_update)

text \<open>The outcome of planning a collection, in terms of reachability from the roots.\<close>

lemma begin_collection_Ok:
  assumes inv: "store_inv st" and ok: "try_begin_collection_with tr nf st roots = Ok (st', plan)"
  shows "set (unreachable plan) = {i. traceable (objects st) i \<and> \<not> gc_reach tr (objects st) (set roots) i}"
    and "sorted_wrt (>) (unreachable plan)"
    and "c \<in> set (candidates plan) \<longleftrightarrow> candidate_id c \<in> set (unreachable plan) \<and>
      (\<exists>r. bt_get (objects st) (candidate_id c) = Some r \<and> candidate_for nf c (candidate_id c, r))"
    and "distinct (map candidate_id (candidates plan))"
    and "bt_get (objects st') j = (if j \<in> set (unreachable plan) then map_option finalize_record (bt_get (objects st) j)
      else bt_get (objects st) j)"
    and "invalid_handles st' = invalid_handles st" and "next_id st' = next_id st" and "metrics st' = metrics st"
    and "store_inv st'"
proof -
  note wf = store_invD(1) [OF inv]
  from ok obtain marked dead cands where mark: "mark_loop tr (objects st) roots {} = Ok marked"
    and sweep: "fold_result (sweep_record nf marked) ([], []) (rev (objects st)) = Ok (dead, cands)"
    and st': "st' = st\<lparr>objects := fold (\<lambda>i. bt_update i finalize_record) dead (objects st)\<rparr>"
    and plan: "unreachable plan = dead" "candidates plan = cands"
    by (auto simp: try_begin_collection_with_def plan_collection_def result_simps Let_def)
  have marked: "marked = {i. gc_reach tr (objects st) (set roots) i}" by (rule mark_loop_exact [OF mark])
  have dead: "dead = map fst (filter (doomed marked) (rev (objects st)))" using sweep_Ok [OF sweep] by simp
  have entry: "(i, r) \<in> set (objects st) \<longleftrightarrow> bt_get (objects st) i = Some r" for i r
    using bt_get_Some_iff [OF wf] by blast
  have in_dead: "i \<in> set dead \<longleftrightarrow> traceable (objects st) i \<and> i \<notin> marked" for i
    by (force simp: dead doomed_def traceable_def entry image_iff split: option.splits)
  then show "set (unreachable plan) = {i. traceable (objects st) i \<and> \<not> gc_reach tr (objects st) (set roots) i}"
    by (auto simp: plan marked)
  show "sorted_wrt (>) (unreachable plan)"
    using wf unfolding plan dead bt_wf_def rev_filter [symmetric] rev_map [symmetric] sorted_wrt_rev
    by (simp add: sorted_wrt_map sorted_wrt_filter)
  have d: "distinct (map fst (rev (objects st)))" using bt_wf_distinct [OF wf] by (simp add: rev_map [symmetric])
  show "c \<in> set (candidates plan) \<longleftrightarrow> candidate_id c \<in> set (unreachable plan) \<and>
      (\<exists>r. bt_get (objects st) (candidate_id c) = Some r \<and> candidate_for nf c (candidate_id c, r))"
  proof -
    have "c \<in> set (candidates plan) \<longleftrightarrow>
      (\<exists>i r. (i, r) \<in> set (objects st) \<and> doomed marked (i, r) \<and> candidate_for nf c (i, r))"
      using sweep_Ok [OF sweep] plan by auto
    also have "\<dots> \<longleftrightarrow> (\<exists>r. (candidate_id c, r) \<in> set (objects st) \<and> doomed marked (candidate_id c, r) \<and>
        candidate_for nf c (candidate_id c, r))"
      by (auto simp: candidate_for_def)
    finally show ?thesis by (auto simp: plan in_dead traceable_def doomed_def entry)
  qed
  show "distinct (map candidate_id (candidates plan))" using sweep_Ok [OF sweep] d plan by auto
  show get: "bt_get (objects st') j = (if j \<in> set (unreachable plan) then map_option finalize_record (bt_get (objects st) j)
      else bt_get (objects st) j)" for j
    by (simp add: st' plan fold_finalize_get)
  show "invalid_handles st' = invalid_handles st" "next_id st' = next_id st" "metrics st' = metrics st"
    by (simp_all add: st')
  have wf': "bt_wf (objects st')" using bt.wf_fold_update [OF wf] by (simp add: st')
  moreover have "dom (bt_get (objects st')) = dom (bt_get (objects st))" by (simp add: st' bt.dom_fold_update)
  moreover from this have "length (objects st') = length (objects st)"
    using bt.len_card [OF wf] bt.len_card [OF wf'] by simp
  moreover have "wf_record (finalize_record r)" if "wf_record r" for r :: "'a ObjectRecord"
    using that by (auto simp: wf_record_def finalize_record_def)
  ultimately show "store_inv st'"
    using inv get by (auto simp: store_inv_def st' split: if_splits)
qed

lemma fold_remove_facts:
  assumes "store_inv st"
  shows "store_inv (fold remove_and_reclaim is st)"
    and "bt_get (objects (fold remove_and_reclaim is st)) j = (if j \<in> set is then None else bt_get (objects st) j)"
    and "bt_get (invalid_handles (fold remove_and_reclaim is st)) j =
      (case bt_get (objects st) j of
         Some r \<Rightarrow> if rec_semantics r = Handle \<and> j \<in> set is then Some (rec_class r) else bt_get (invalid_handles st) j
       | None \<Rightarrow> bt_get (invalid_handles st) j)"
    and "next_id (fold remove_and_reclaim is st) = next_id st"
proof -
  have "store_inv (fold remove_and_reclaim is st) \<and>
    (\<forall>j. bt_get (objects (fold remove_and_reclaim is st)) j = (if j \<in> set is then None else bt_get (objects st) j)) \<and>
    (\<forall>j. bt_get (invalid_handles (fold remove_and_reclaim is st)) j =
      (case bt_get (objects st) j of
         Some r \<Rightarrow> if rec_semantics r = Handle \<and> j \<in> set is then Some (rec_class r) else bt_get (invalid_handles st) j
       | None \<Rightarrow> bt_get (invalid_handles st) j)) \<and> next_id (fold remove_and_reclaim is st) = next_id st"
    using assms
  proof (induction "is" arbitrary: st)
    case (Cons i "is")
    from Cons.IH [OF remove_and_reclaim_inv [OF Cons.prems, of i]] show ?case
      by (auto split: option.splits)
  qed (auto split: option.splits)
  then show "store_inv (fold remove_and_reclaim is st)"
    and "bt_get (objects (fold remove_and_reclaim is st)) j = (if j \<in> set is then None else bt_get (objects st) j)"
    and "bt_get (invalid_handles (fold remove_and_reclaim is st)) j =
      (case bt_get (objects st) j of
         Some r \<Rightarrow> if rec_semantics r = Handle \<and> j \<in> set is then Some (rec_class r) else bt_get (invalid_handles st) j
       | None \<Rightarrow> bt_get (invalid_handles st) j)"
    and "next_id (fold remove_and_reclaim is st) = next_id st" by blast+
qed

lemma finish_collection_facts:
  assumes inv: "store_inv st" and fin: "finish_collection st plan = (st', coll)"
  shows "store_inv st'" and "bt_get (objects st') j = (if j \<in> set (unreachable plan) then None else bt_get (objects st) j)"
    and "bt_get (invalid_handles st') j =
      (case bt_get (objects st) j of
         Some r \<Rightarrow> if rec_semantics r = Handle \<and> j \<in> set (unreachable plan) then Some (rec_class r) else bt_get (invalid_handles st) j
       | None \<Rightarrow> bt_get (invalid_handles st) j)"
    and "next_id st' = next_id st"
proof -
  let ?f = "fold remove_and_reclaim (unreachable plan) st"
  from fin have st': "objects st' = objects ?f" "invalid_handles st' = invalid_handles ?f" "next_id st' = next_id ?f"
    "live_objects (metrics st') = live_objects (metrics ?f)"
    by (auto simp: finish_collection_def Let_def)
  note facts = fold_remove_facts [OF inv, of "unreachable plan"]
  show "store_inv st'" using facts(1) by (simp add: store_inv_def st')
  show "bt_get (objects st') j = (if j \<in> set (unreachable plan) then None else bt_get (objects st) j)"
    by (simp add: st' facts(2))
  show "bt_get (invalid_handles st') j =
      (case bt_get (objects st) j of
         Some r \<Rightarrow> if rec_semantics r = Handle \<and> j \<in> set (unreachable plan) then Some (rec_class r) else bt_get (invalid_handles st) j
       | None \<Rightarrow> bt_get (invalid_handles st) j)"
    by (simp add: st' facts(3))
  show "next_id st' = next_id st" by (simp add: st' facts(4))
qed


subsection \<open>Runs of the store\<close>

text \<open>One step per operation that changes the state, with whatever arguments and callbacks.\<close>

inductive store_step :: "'s ObjectStore \<Rightarrow> 's ObjectStore \<Rightarrow> bool" where
  step_allocate: "allocate_with sem props dflt st c = Ok (st', obj) \<Longrightarrow> store_step st st'"
| step_copy: "assignment_copy_with cp st src = Ok (st', obj) \<Longrightarrow> store_step st st'"
| step_store: "slot_store st obj key v = Ok st' \<Longrightarrow> store_step st st'"
| step_begin_construction: "begin_construction st obj = Ok st' \<Longrightarrow> store_step st st'"
| step_finish_construction: "finish_construction st obj = Ok st' \<Longrightarrow> store_step st st'"
| step_fail_construction: "fail_construction st obj = Ok st' \<Longrightarrow> store_step st st'"
| step_discard: "discard_incomplete st obj = Ok st' \<Longrightarrow> store_step st st'"
| step_discard_copy: "discard_value_assignment_copy st obj = Ok st' \<Longrightarrow> store_step st st'"
| step_begin_finalization: "begin_finalization st obj b = Ok (st', cand) \<Longrightarrow> store_step st st'"
| step_finish_finalization: "finish_finalization st cand = Ok (st', b) \<Longrightarrow> store_step st st'"
| step_begin_collection: "try_begin_collection_with tr nf st roots = (Ok (st', plan) :: (unit, _) result) \<Longrightarrow> store_step st st'"
| step_finish_collection: "finish_collection st plan = (st', coll) \<Longrightarrow> store_step st st'"

text \<open>
  Every step is one of four changes: a new record under the next identity, an update of one record
  that keeps its identity and does not bring a handle back to life, removals, or the marking of
  unreachable handles.
\<close>

definition spent :: "'s ObjectStore \<Rightarrow> ObjectId \<Rightarrow> bool" where
  "spent st i \<longleftrightarrow> i < next_id st \<and>
     (case bt_get (objects st) i of None \<Rightarrow> True | Some r \<Rightarrow> rec_handle_state r \<noteq> Alive)"

definition advances :: "'s ObjectStore \<Rightarrow> 's ObjectStore \<Rightarrow> bool" where
  "advances st st' \<longleftrightarrow> store_inv st' \<and> next_id st \<le> next_id st' \<and>
     (\<forall>i. spent st i \<longrightarrow> spent st' i) \<and>
     (\<forall>i<next_id st. bt_get (objects st) i = None \<longrightarrow> bt_get (objects st') i = None) \<and>
     (\<forall>i c. bt_get (invalid_handles st) i = Some c \<longrightarrow> bt_get (invalid_handles st') i = Some c)"

lemma advances_refl: "store_inv st \<Longrightarrow> advances st st"
  by (simp add: advances_def)

lemma advances_update:
  assumes inv: "store_inv st"
    and rec: "\<And>r. bt_get (objects st) i = Some r \<Longrightarrow> wf_record r \<Longrightarrow>
      wf_record (f r) \<and> (rec_handle_state (f r) = Alive \<longrightarrow> rec_handle_state r = Alive)"
  shows "advances st (update_record i f st)"
  using update_record_inv [OF inv, of i f] rec store_invD(9) [OF inv]
  by (auto simp: advances_def spent_def split: option.splits)

lemma advances_remove:
  assumes inv: "store_inv st"
  shows "advances st (snd (remove_record i st))" and "advances st (remove_and_reclaim i st)"
  using remove_record_inv [OF inv, of i] remove_and_reclaim_inv [OF inv, of i] store_invD(3) [OF inv, of i]
  by (auto simp: advances_def spent_def split: option.splits)

lemma advances_insert:
  assumes inv: "store_inv st" and id: "reserve_id st = Ok (i, nxt)" and r: "wf_record r"
  shows "advances st (insert_record i nxt r st)"
  using insert_record_inv [OF assms] id by (auto simp: advances_def spent_def reserve_id_Ok)

lemma advances_trans: "advances st st1 \<Longrightarrow> advances st1 st2 \<Longrightarrow> advances st st2"
  by (auto simp: advances_def)

lemma advances_begin_finalization:
  assumes inv: "store_inv st" and ok: "begin_finalization st obj b = Ok (st', cand)"
  shows "advances st st'"
proof (cases "st' = st")
  case True
  with inv show ?thesis by (simp add: advances_refl)
next
  case False
  let ?f = "\<lambda>r. r\<lparr>rec_handle_state := Finalizing\<rparr>"
  from False ok obtain r where r: "bt_get (objects st) (ref_id obj) = Some r" "rec_semantics r = Handle"
    and st': "st' = update_record (ref_id obj) ?f st \<or> st' = remove_and_reclaim (ref_id obj) (update_record (ref_id obj) ?f st)"
    by (auto simp: begin_finalization_def record_raw_def validate_reference_def result_simps Let_def
        split: if_splits option.splits)
  have adv: "advances st (update_record (ref_id obj) ?f st)"
    using inv by (rule advances_update) (use r in \<open>auto simp: wf_record_def\<close>)
  then have "store_inv (update_record (ref_id obj) ?f st)" by (simp add: advances_def)
  from advances_trans [OF adv advances_remove(2) [OF this]] adv st' show ?thesis by auto
qed

lemma collect_slots_record_wf:
  "collect_slots f xs = Ok slots \<Longrightarrow>
   wf_record \<lparr>rec_class = c, rec_semantics = sem, rec_state = s, rec_handle_state = Alive, rec_slots = slots\<rparr>"
  using collect_slots_wf by (simp add: wf_record_def)

lemma store_step_advances:
  assumes inv: "store_inv st" and step: "store_step st st'"
  shows "advances st st'"
  using step
proof cases
  case step_allocate
  then show ?thesis
    by (auto simp: allocate_with_def result_simps intro!: advances_insert [OF inv] collect_slots_record_wf)
next
  case step_copy
  then show ?thesis
    using inv by (auto simp: assignment_copy_with_def result_simps split: if_splits
        intro: advances_refl advances_insert collect_slots_record_wf)
next
  case step_store
  then show ?thesis
    by (auto simp: slot_store_def result_simps wf_record_def intro!: advances_update [OF inv] bt.wf_update)
next
  case step_begin_construction
  then show ?thesis
    by (auto simp: begin_construction_def transition_def result_simps wf_record_def split: if_splits
        intro!: advances_update [OF inv])
next
  case step_finish_construction
  then show ?thesis
    by (auto simp: finish_construction_def transition_def result_simps wf_record_def split: if_splits
        intro!: advances_update [OF inv])
next
  case (step_fail_construction obj)
  then obtain r where r: "store_record st obj = Ok r"
    and st': "rec_state r = Allocated \<or> rec_state r = Constructing"
      "st' = update_record (ref_id obj) (\<lambda>r. r\<lparr>rec_state := Failed\<rparr>) st"
    by (cases "store_record st obj"; cases "rec_state (projr (store_record st obj))") (auto simp: fail_construction_def)
  then show ?thesis by (auto simp: wf_record_def intro!: advances_update [OF inv])
next
  case step_discard
  then show ?thesis
    by (auto simp: discard_incomplete_def result_simps split: if_splits intro!: advances_remove [OF inv])
next
  case step_discard_copy
  then show ?thesis
    by (auto simp: discard_value_assignment_copy_def result_simps split: if_splits intro!: advances_remove [OF inv])
next
  case step_begin_finalization
  with inv show ?thesis by (rule advances_begin_finalization)
next
  case step_finish_finalization
  then show ?thesis
    using inv by (auto simp: finish_finalization_def result_simps split: if_splits option.splits
        intro: advances_refl advances_remove)
next
  case step_begin_collection
  note facts = begin_collection_Ok [OF inv this]
  show ?thesis
    unfolding advances_def facts(6,7) using facts(9)
    by (auto simp: facts(5) spent_def facts(7) finalize_record_def split: option.splits if_splits)
next
  case step_finish_collection
  note facts = finish_collection_facts [OF inv this]
  show ?thesis
    unfolding advances_def using facts(1,4) store_invD(3) [OF inv]
    by (auto simp: facts(2,3) spent_def split: option.splits if_splits)
qed

lemma store_steps_advance:
  assumes "store_step\<^sup>*\<^sup>* st st'" and inv: "store_inv st"
  shows "advances st st'"
  using assms(1)
proof (induction rule: rtranclp_induct)
  case base
  from inv show ?case by (rule advances_refl)
next
  case (step st1 st2)
  then have "store_inv st1" by (simp add: advances_def)
  from store_step_advances [OF this step(2)] step(3) show ?case by (blast intro: advances_trans)
qed

subsection \<open>Properties\<close>


text \<open>A sample registry: class 1 is a handle class, class 2 a value class, each with one stored property.\<close>

definition sample_semantics :: "ClassId \<Rightarrow> ClassSemantics ObjectResult" where
  "sample_semantics c = (if c = 1 then Ok Handle else if c = 2 then Ok Value else Err (UnknownClass c))"

definition sample_properties :: "ClassId \<Rightarrow> (PropertyKey \<times> nat list option) list ObjectResult" where
  "sample_properties c = Ok [(PropertyKey c ''p'', Some [])]"

definition sample_alloc :: "nat list ObjectStore \<Rightarrow> ClassId \<Rightarrow> (nat list ObjectStore \<times> ObjectRef) ObjectResult" where
  "sample_alloc = allocate_with sample_semantics sample_properties (\<lambda>k. Err (MissingPropertyInitializer (declaring_class k) (key_name k)))"

definition sample_record :: "ClassId \<Rightarrow> ClassSemantics \<Rightarrow> nat list \<Rightarrow> nat list ObjectRecord" where
  "sample_record c sem links =
     \<lparr>rec_class = c, rec_semantics = sem, rec_state = Allocated, rec_handle_state = Alive,
      rec_slots = [(PropertyKey c ''p'', links)]\<rparr>"

definition sample_state :: "nat \<Rightarrow> (ObjectId, nat list ObjectRecord) btree \<Rightarrow> nat list ObjectStore" where
  "sample_state n objs =
     \<lparr>objects = objs, invalid_handles = [], next_id = n + 1,
      metrics = \<lparr>live_objects = n, live_slots = n, allocation_debt = 2 * n, collections = 0,
                 total_allocated_objects = n, total_reclaimed_objects = 0, total_reclaimed_slots = 0,
                 last_reclaimed_objects = 0, last_reclaimed_slots = 0\<rparr>\<rparr>"

text \<open>Handle 1 refers to value object 2; handle 3 is referred to by nobody.\<close>

definition sample_store :: "nat list ObjectStore" where
  "sample_store = sample_state 3
     [(1, sample_record 1 Handle [2]), (2, sample_record 2 Value []), (3, sample_record 1 Handle [])]"

lemma sample_store_reachable: "store_step\<^sup>*\<^sup>* store_new sample_store"
proof -
  let ?s1 = "sample_state 1 [(1, sample_record 1 Handle [])]"
  let ?s2 = "sample_state 2 [(1, sample_record 1 Handle []), (2, sample_record 2 Value [])]"
  let ?s3 = "sample_state 3 [(1, sample_record 1 Handle []), (2, sample_record 2 Value []), (3, sample_record 1 Handle [])]"
  have "sample_alloc store_new 1 = Ok (?s1, \<lparr>ref_id = 1, ref_class = 1, ref_semantics = Handle\<rparr>)" by code_simp
  then have 1: "store_step store_new ?s1" unfolding sample_alloc_def by (rule step_allocate)
  have "sample_alloc ?s1 2 = Ok (?s2, \<lparr>ref_id = 2, ref_class = 2, ref_semantics = Value\<rparr>)" by code_simp
  then have 2: "store_step ?s1 ?s2" unfolding sample_alloc_def by (rule step_allocate)
  have "sample_alloc ?s2 1 = Ok (?s3, \<lparr>ref_id = 3, ref_class = 1, ref_semantics = Handle\<rparr>)" by code_simp
  then have 3: "store_step ?s2 ?s3" unfolding sample_alloc_def by (rule step_allocate)
  have "slot_store ?s3 \<lparr>ref_id = 1, ref_class = 1, ref_semantics = Handle\<rparr> (PropertyKey 1 ''p'') [2] = Ok sample_store"
    by code_simp
  then have 4: "store_step ?s3 sample_store" by (rule step_store)
  from 1 2 3 4 show ?thesis by (meson converse_rtranclp_into_rtranclp rtranclp.rtrancl_refl)
qed

lemma sample_store_inv: "store_inv sample_store"
  using store_steps_advance [OF sample_store_reachable store_new_inv] by (simp add: advances_def)


text \<open>
  C22: tracing marks exactly the records reachable from the roots through slots of records that are
  not already finalising, and planning a collection lists exactly the other such records, each once,
  in descending identity order, with a destructor candidate exactly for those of them that are
  handles of a class the caller's query finds a destructor for.
\<close>

theorem collection_plan_exact:
  assumes inv: "store_inv st" and ok: "try_begin_collection_with tr nf st roots = Ok (st', plan)"
  shows "set (unreachable plan) = {i. traceable (objects st) i \<and> \<not> gc_reach tr (objects st) (set roots) i} \<and>
    sorted_wrt (>) (unreachable plan) \<and> distinct (map candidate_id (candidates plan)) \<and>
    (\<forall>c. c \<in> set (candidates plan) \<longleftrightarrow> candidate_id c \<in> set (unreachable plan) \<and>
       (\<exists>r. bt_get (objects st) (candidate_id c) = Some r \<and> candidate_for nf c (candidate_id c, r)))"
  using begin_collection_Ok(1-4) [OF inv ok] by auto

definition sample_trace :: "nat list \<Rightarrow> (unit, ObjectId list) result" where
  "sample_trace v = Ok v"

definition sample_planned :: "nat list ObjectStore" where
  "sample_planned = sample_state 3
     [(1, sample_record 1 Handle [2]), (2, sample_record 2 Value []),
      (3, (sample_record 1 Handle [])\<lparr>rec_handle_state := Finalizing\<rparr>)]"

definition sample_plan :: GcPlan where
  "sample_plan =
     \<lparr>candidates = [\<lparr>candidate_id = 3, candidate_class = 1, candidate_construction = Allocated\<rparr>],
      unreachable = [3], planned_objects = 1, planned_slots = 1\<rparr>"

lemma sample_plan_eq:
  "try_begin_collection_with sample_trace (\<lambda>_. Ok True) sample_store [1] = Ok (sample_planned, sample_plan)"
  by code_simp

theorem collection_plan_exact_witness:
  "unreachable sample_plan = [3] \<and> \<not> gc_reach sample_trace (objects sample_store) {1} 3"
proof -
  have "unreachable sample_plan = [3]" by (simp add: sample_plan_def)
  with collection_plan_exact [OF sample_store_inv sample_plan_eq] show ?thesis by auto
qed


text \<open>
  C3: a collection never loses a reachable object. Planning and finishing a collection, with no step
  in between, keeps every record reachable from the roots exactly as it was, removes every other
  record that was not already finalising, leaves a permanent tombstone for each removed handle, and
  leaves finalising records to their pending destructors.
\<close>

theorem collection_safe:
  assumes inv: "store_inv st" and ok: "try_begin_collection_with tr nf st roots = Ok (st1, plan)"
    and fin: "finish_collection st1 plan = (st2, coll)"
  shows "bt_get (objects st2) i =
      (if traceable (objects st) i \<and> \<not> gc_reach tr (objects st) (set roots) i then None else bt_get (objects st) i) \<and>
    (bt_get (objects st) i = Some r \<and> rec_semantics r = Handle \<and> bt_get (objects st2) i = None \<longrightarrow>
      bt_get (invalid_handles st2) i = Some (rec_class r)) \<and>
    store_inv st2"
proof -
  note plan = begin_collection_Ok [OF inv ok]
  note swept = finish_collection_facts [OF plan(9) fin]
  show ?thesis
    using swept(1) by (auto simp: swept(2,3) plan(1,5,6) finalize_record_def)
qed

definition sample_collected :: "nat list ObjectStore" where
  "sample_collected =
     \<lparr>objects = [(1, sample_record 1 Handle [2]), (2, sample_record 2 Value [])],
      invalid_handles = [(3, 1)], next_id = 4,
      metrics = \<lparr>live_objects = 2, live_slots = 2, allocation_debt = 0, collections = 1,
                 total_allocated_objects = 3, total_reclaimed_objects = 1, total_reclaimed_slots = 1,
                 last_reclaimed_objects = 1, last_reclaimed_slots = 1\<rparr>\<rparr>"

lemma sample_collected_eq:
  "finish_collection sample_planned sample_plan =
     (sample_collected, \<lparr>reclaimed_objects = 1, reclaimed_slots = 1, remaining_objects = 2, remaining_slots = 2\<rparr>)"
  by code_simp

theorem collection_safe_witness:
  "bt_get (objects sample_collected) 2 = bt_get (objects sample_store) 2 \<and>
   bt_get (objects sample_collected) 3 = None \<and> bt_get (invalid_handles sample_collected) 3 = Some 1"
proof -
  note safe = collection_safe [OF sample_store_inv sample_plan_eq sample_collected_eq]
  have root: "gc_reach sample_trace (objects sample_store) (set [1]) 1"
    by (rule reach_root) (simp, code_simp)
  have "gc_reach sample_trace (objects sample_store) (set [1]) 2"
    by (rule reach_edge [OF root]) code_simp+
  moreover have "bt_get (objects sample_collected) 3 = None" by code_simp
  moreover have "bt_get (objects sample_store) 3 = Some (sample_record 1 Handle [])" by code_simp
  ultimately show ?thesis
    using safe [of 2] safe [of 3 "sample_record 1 Handle []"] by (simp add: sample_record_def)
qed

text \<open>
  identities are never reused and tombstones never fade: once an issued identity has no record it
  never gets one again, and once a handle is invalid it stays so with the same class, whatever
  operations follow.
\<close>

theorem identities_not_reused:
  assumes "store_inv st" and "store_step\<^sup>*\<^sup>* st st'" and "i < next_id st"
  shows "(bt_get (objects st) i = None \<longrightarrow> bt_get (objects st') i = None) \<and>
    (bt_get (invalid_handles st) i = Some c \<longrightarrow> bt_get (invalid_handles st') i = Some c)"
  using store_steps_advance [OF assms(2,1)] assms(3) by (simp add: advances_def)

definition sample_deleted :: "nat list ObjectStore" where
  "sample_deleted = sample_collected\<lparr>objects := bt_update 1 (\<lambda>r. r\<lparr>rec_handle_state := Finalizing\<rparr>) (objects sample_collected)\<rparr>"

lemma sample_deleted_eq:
  "begin_finalization sample_collected \<lparr>ref_id = 1, ref_class = 1, ref_semantics = Handle\<rparr> True =
     Ok (sample_deleted, Some \<lparr>candidate_id = 1, candidate_class = 1, candidate_construction = Allocated\<rparr>)"
  by code_simp

lemma sample_collected_inv: "store_inv sample_collected"
  by (rule finish_collection_facts(1) [OF begin_collection_Ok(9) [OF sample_store_inv sample_plan_eq] sample_collected_eq])

theorem identities_not_reused_witness:
  "bt_get (objects sample_deleted) 3 = None \<and> bt_get (invalid_handles sample_deleted) 3 = Some 1"
proof -
  have "store_step\<^sup>*\<^sup>* sample_collected sample_deleted"
    using sample_deleted_eq by (blast intro: r_into_rtranclp step_begin_finalization)
  moreover have "3 < next_id sample_collected" "bt_get (objects sample_collected) 3 = None"
    "bt_get (invalid_handles sample_collected) 3 = Some 1" by code_simp+
  ultimately show ?thesis
    using identities_not_reused [OF sample_collected_inv, of sample_deleted 3 1] by simp
qed

text \<open>How a destructor candidate is issued: by an explicit deletion or by a collection.\<close>

definition issues :: "'s ObjectStore \<Rightarrow> FinalizationCandidate list \<Rightarrow> 's ObjectStore \<Rightarrow> bool" where
  "issues st cs st' \<longleftrightarrow>
     (\<exists>obj b c. begin_finalization st obj b = Ok (st', Some c) \<and> cs = [c]) \<or>
     (\<exists>tr nf roots plan. try_begin_collection_with tr nf st roots = (Ok (st', plan) :: (unit, _) result) \<and> cs = candidates plan)"

lemma issues_spends:
  assumes inv: "store_inv st" and iss: "issues st cs st'" and c: "c \<in> set cs"
  shows "\<not> spent st (candidate_id c)" and "spent st' (candidate_id c)"
proof -
  have "\<not> spent st (candidate_id c) \<and> spent st' (candidate_id c)"
    using iss unfolding issues_def
  proof (elim disjE exE conjE)
    fix obj b d assume ok: "begin_finalization st obj b = Ok (st', Some d)" and "cs = [d]"
    with c have "d = c" by simp
    with ok obtain r where r: "bt_get (objects st) (candidate_id c) = Some r" "rec_handle_state r = Alive"
      and st': "st' = update_record (candidate_id c) (\<lambda>r. r\<lparr>rec_handle_state := Finalizing\<rparr>) st"
      by (auto simp: begin_finalization_def record_raw_def validate_reference_def result_simps Let_def
          split: if_splits option.splits)
    with store_invD(4) [OF inv r(1)] show ?thesis by (simp add: spent_def)
  next
    fix tr nf roots plan
    assume ok: "try_begin_collection_with tr nf st roots = (Ok (st', plan) :: (unit, _) result)" and cs: "cs = candidates plan"
    note facts = begin_collection_Ok [OF inv ok]
    from facts(3) [of c] c cs obtain r where r: "candidate_id c \<in> set (unreachable plan)"
      "bt_get (objects st) (candidate_id c) = Some r" "rec_semantics r = Handle"
      by (auto simp: candidate_for_def)
    with facts(1) have "rec_handle_state r = Alive" by (auto simp: traceable_def not_alive_handle_def)
    with r facts(5,7) store_invD(4) [OF inv r(2)] show ?thesis by (simp add: spent_def finalize_record_def)
  qed
  then show "\<not> spent st (candidate_id c)" and "spent st' (candidate_id c)" by blast+
qed

lemma issues_advances: "store_inv st \<Longrightarrow> issues st cs st' \<Longrightarrow> advances st st'"
  unfolding issues_def by (auto intro: store_step_advances store_step.intros)

text \<open>
  C14: a destructor is requested at most once per handle: after an explicit deletion or a collection
  has issued a candidate, no later deletion or collection issues one for the same identity, whatever
  operations come in between; and one collection never lists an identity twice.
\<close>

theorem finalized_at_most_once:
  assumes inv: "store_inv st" and first: "issues st cs st1" and run: "store_step\<^sup>*\<^sup>* st1 st2" and second: "issues st2 ds st3"
  shows "candidate_id ` set cs \<inter> candidate_id ` set ds = {} \<and> distinct (map candidate_id ds)"
proof -
  have inv1: "store_inv st1" using issues_advances [OF inv first] by (simp add: advances_def)
  note adv = store_steps_advance [OF run inv1]
  then have inv2: "store_inv st2" by (simp add: advances_def)
  have "spent st2 (candidate_id c)" if "c \<in> set cs" for c
    using issues_spends(2) [OF inv first that] adv by (simp add: advances_def)
  then have "candidate_id ` set cs \<inter> candidate_id ` set ds = {}"
    using issues_spends(1) [OF inv2 second] by fastforce
  moreover have "distinct (map candidate_id ds)"
    using second begin_collection_Ok(4) [OF inv2] unfolding issues_def by fastforce
  ultimately show ?thesis by blast
qed

theorem finalized_at_most_once_witness:
  "\<exists>ds. issues sample_store (candidates sample_plan) sample_planned \<and> issues sample_collected ds sample_deleted \<and>
     map candidate_id ds = [1] \<and> candidate_id ` set (candidates sample_plan) \<inter> candidate_id ` set ds = {}"
proof -
  have one: "issues sample_store (candidates sample_plan) sample_planned"
    using sample_plan_eq unfolding issues_def by blast
  have run: "store_step\<^sup>*\<^sup>* sample_planned sample_collected"
    using sample_collected_eq by (blast intro: r_into_rtranclp step_finish_collection)
  have two: "issues sample_collected [\<lparr>candidate_id = 1, candidate_class = 1, candidate_construction = Allocated\<rparr>] sample_deleted"
    using sample_deleted_eq unfolding issues_def by blast
  from one two finalized_at_most_once [OF sample_store_inv one run two] show ?thesis by fastforce
qed

end
