(* ===== verification/Bytecode_Model.thy ===== *)
theory Bytecode_Model
  imports Rust_Prelude "HOL-Library.Word"
begin

section \<open>The bytecode data model (openmat-bytecode/src/model.rs)\<close>

text \<open>
  The module format the compiler emits and the interpreter runs: index types, constants, operands,
  the instruction set, exception tables, functions, class tables and modules. A 16- or 32-bit field
  is a word of that width, a double is its 64-bit pattern, and a collection keeps its source order.
\<close>

subsection \<open>Versions and indices\<close>

record BytecodeVersion =
  major :: "16 word"
  minor :: "16 word"

definition version_new :: "16 word \<Rightarrow> 16 word \<Rightarrow> BytecodeVersion" where
  "version_new a b = \<lparr>major = a, minor = b\<rparr>"

definition CURRENT_BYTECODE_VERSION :: BytecodeVersion where
  "CURRENT_BYTECODE_VERSION = version_new 29 0"

definition MIN_SUPPORTED_BYTECODE_VERSION :: BytecodeVersion where
  "MIN_SUPPORTED_BYTECODE_VERSION = version_new 24 0"

datatype Register = Register (reg_get: "32 word")
datatype PackRegister = PackRegister (pack_get: "32 word")
datatype LocalSlot = LocalSlot (local_get: "32 word")
datatype PersistentSlot = PersistentSlot (persistent_get: "32 word")
datatype ConstantId = ConstantId (const_get: "32 word")
datatype FunctionId = FunctionId (func_get: "32 word")
datatype InstructionIndex = InstructionIndex (index_get: "32 word")
datatype ClassDefinitionId = ClassDefinitionId (class_get: "32 word")

text \<open>Indices compare as their numbers (the derived order).\<close>

instantiation InstructionIndex :: linorder
begin

definition less_eq_InstructionIndex :: "InstructionIndex \<Rightarrow> InstructionIndex \<Rightarrow> bool" where
  "less_eq_InstructionIndex a b \<longleftrightarrow> index_get a \<le> index_get b"

definition less_InstructionIndex :: "InstructionIndex \<Rightarrow> InstructionIndex \<Rightarrow> bool" where
  "less_InstructionIndex a b \<longleftrightarrow> index_get a < index_get b"

instance
  by intro_classes (auto simp: less_eq_InstructionIndex_def less_InstructionIndex_def InstructionIndex.expand)

end

lemma InstructionIndex_order [simp]:
  "InstructionIndex a \<le> InstructionIndex b \<longleftrightarrow> a \<le> b"
  "InstructionIndex a < InstructionIndex b \<longleftrightarrow> a < b"
  by (simp_all add: less_eq_InstructionIndex_def less_InstructionIndex_def)

record SourceLocation =
  source_id :: "32 word"
  loc_start :: "32 word"
  loc_end :: "32 word"

subsection \<open>Constants and operators\<close>

datatype Constant =
    Nothing
  | Logical bool
  | Double "64 word"
  | Complex "64 word" "64 word"
  | Char "16 word list"
  | String string
  | Function FunctionId

datatype BinaryOperator =
    Add | Subtract | Multiply | ElementMultiply | Divide | LeftDivide | ElementDivide
  | ElementLeftDivide | Power | ElementPower | Equal | NotEqual | LessThan | LessThanOrEqual
  | GreaterThan | GreaterThanOrEqual

fun logical_discriminant :: "BinaryOperator \<Rightarrow> 8 word" where
  "logical_discriminant Add = 0"
| "logical_discriminant Subtract = 1"
| "logical_discriminant Multiply = 2"
| "logical_discriminant ElementMultiply = 3"
| "logical_discriminant Divide = 4"
| "logical_discriminant ElementDivide = 5"
| "logical_discriminant Power = 6"
| "logical_discriminant ElementPower = 7"
| "logical_discriminant Equal = 8"
| "logical_discriminant NotEqual = 9"
| "logical_discriminant LessThan = 10"
| "logical_discriminant LessThanOrEqual = 11"
| "logical_discriminant GreaterThan = 12"
| "logical_discriminant GreaterThanOrEqual = 13"
| "logical_discriminant LeftDivide = 14"
| "logical_discriminant ElementLeftDivide = 15"

definition from_logical_discriminant :: "8 word \<Rightarrow> BinaryOperator option" where
  "from_logical_discriminant d =
     (if d = 0 then Some Add
      else if d = 1 then Some Subtract
      else if d = 2 then Some Multiply
      else if d = 3 then Some ElementMultiply
      else if d = 4 then Some Divide
      else if d = 5 then Some ElementDivide
      else if d = 6 then Some Power
      else if d = 7 then Some ElementPower
      else if d = 8 then Some Equal
      else if d = 9 then Some NotEqual
      else if d = 10 then Some LessThan
      else if d = 11 then Some LessThanOrEqual
      else if d = 12 then Some GreaterThan
      else if d = 13 then Some GreaterThanOrEqual
      else if d = 14 then Some LeftDivide
      else if d = 15 then Some ElementLeftDivide
      else None)"

text \<open>The operator's spelling (its \<open>Display\<close> instance).\<close>

fun operator_text :: "BinaryOperator \<Rightarrow> string" where
  "operator_text Add = ''+''"
| "operator_text Subtract = ''-''"
| "operator_text Multiply = ''*''"
| "operator_text ElementMultiply = ''.*''"
| "operator_text Divide = ''/''"
| "operator_text LeftDivide = [CHR 0x5C]"
| "operator_text ElementDivide = ''./''"
| "operator_text ElementLeftDivide = [CHR ''.'', CHR 0x5C]"
| "operator_text Power = ''^''"
| "operator_text ElementPower = ''.^''"
| "operator_text Equal = ''==''"
| "operator_text NotEqual = ''~=''"
| "operator_text LessThan = ''<''"
| "operator_text LessThanOrEqual = ''<=''"
| "operator_text GreaterThan = ''>''"
| "operator_text GreaterThanOrEqual = ''>=''"

subsection \<open>Operands\<close>

datatype ApplyArgument = Value Register | Expand PackRegister | Colon

datatype ValueSource = One Register | Expand PackRegister

datatype StatementResultTarget = Global ConstantId | Local LocalSlot

datatype BindingTarget = Local LocalSlot | Persistent PersistentSlot | Capture ConstantId | Workspace ConstantId

datatype NamedBindingKind = Local LocalSlot | Persistent PersistentSlot | Capture | Workspace

datatype FieldOperand = Static ConstantId | Dynamic Register

datatype PlaceStep = Paren "ApplyArgument list" | Brace "ApplyArgument list" | Field FieldOperand

datatype PackApplyTarget =
    Value Register
  | Field Register ConstantId
  | Qualified Register Register "ConstantId list"

datatype AssignmentMode = Store | Delete

datatype SharedCaptureSource = Local LocalSlot | Enclosing

subsection \<open>Class tables\<close>

datatype ClassSemantics = Value | Handle

datatype Access = Public | Protected | Private

datatype MethodKind = Instance | Static

datatype PropertyKind = Stored | Constant | Dependent

record PropertyDefinition =
  property_name :: string
  property_kind :: PropertyKind
  default :: "FunctionId option"
  get_access :: "Access option"
  set_access :: "Access option"
  property_location :: SourceLocation

record MethodDefinition =
  method_name :: string
  method_function :: FunctionId
  method_kind :: MethodKind
  access :: Access
  is_abstract :: bool
  is_external :: bool
  constructor_output :: "LocalSlot option"
  method_location :: SourceLocation

record ClassDefinition =
  class_name :: string
  semantics :: ClassSemantics
  superclass :: "string option"
  declared_abstract :: "bool option"
  sealed :: bool
  properties :: "PropertyDefinition list"
  methods :: "MethodDefinition list"
  class_location :: SourceLocation

datatype ClassKind = Ordinary | Enumeration

record EnumMemberDefinition =
  member_name :: string
  argument_initializer :: FunctionId
  argument_count :: "32 word"
  member_location :: SourceLocation

record EventDefinition =
  event_name :: string
  listen_access :: Access
  notify_access :: Access
  hidden :: bool
  event_location :: SourceLocation

record AbstractPropertyDefinition =
  abstract_name :: string
  abstract_kind :: PropertyKind
  abstract_get_access :: "Access option"
  abstract_set_access :: "Access option"
  abstract_location :: SourceLocation

record ClassFeatureDefinition =
  feature_class :: ClassDefinitionId
  feature_kind :: ClassKind
  enumeration_base :: "string option"
  enumeration_members :: "EnumMemberDefinition list"
  events :: "EventDefinition list"
  abstract_properties :: "AbstractPropertyDefinition list"
  sealed_methods :: "string list"
  feature_location :: SourceLocation

subsection \<open>Exception tables\<close>

datatype ExceptionHandlerKind = Catch InstructionIndex "LocalSlot option" | Swallow

record ExceptionHandler =
  protected_start :: InstructionIndex
  protected_end :: InstructionIndex
  handler_kind :: ExceptionHandlerKind
  exit :: InstructionIndex
  handler_location :: "SourceLocation option"

definition catch :: "InstructionIndex \<Rightarrow> InstructionIndex \<Rightarrow> InstructionIndex \<Rightarrow> InstructionIndex \<Rightarrow> LocalSlot option \<Rightarrow> ExceptionHandler" where
  "catch s e handler x error_local =
     \<lparr>protected_start = s, protected_end = e, handler_kind = Catch handler error_local, exit = x, handler_location = None\<rparr>"

definition swallow :: "InstructionIndex \<Rightarrow> InstructionIndex \<Rightarrow> InstructionIndex \<Rightarrow> ExceptionHandler" where
  "swallow s e x =
     \<lparr>protected_start = s, protected_end = e, handler_kind = Swallow, exit = x, handler_location = None\<rparr>"

definition with_location :: "ExceptionHandler \<Rightarrow> SourceLocation \<Rightarrow> ExceptionHandler" where
  "with_location h loc = h\<lparr>handler_location := Some loc\<rparr>"

subsection \<open>Instructions\<close>

datatype (plugins only:) InstructionKind =
    RequireDefined Register ConstantId
  | RequireSinglePack PackRegister
  | CountPlaceOutputs Register Register "PlaceStep list"
  | ApplyOutputPack PackRegister Register PackApplyTarget "ApplyArgument list"
  | SlicePack PackRegister PackRegister Register Register
  | DeclareNamedBindings "(ConstantId \<times> NamedBindingKind) list"
  | DeclareImports "ConstantId list"
  | ClearImports
  | LoadConstant Register ConstantId
  | Move Register Register
  | Binary BinaryOperator Register Register Register
  | SwitchMatch Register Register Register
  | BuildMatrix Register "Register list list"
  | BuildCell Register "ValueSource list list"
  | Range Register Register Register Register
  | Transpose Register Register bool
  | LoadLocal Register LocalSlot
  | StoreLocal LocalSlot Register
  | DeclareGlobal ConstantId
  | DeclarePersistent PersistentSlot
  | LoadPersistent Register PersistentSlot
  | StorePersistent PersistentSlot Register
  | LoadCallInputCount Register
  | LoadCallOutputCount Register
  | LoadVariadicInputs Register
  | LoadGlobal Register ConstantId bool
  | LoadCallTarget Register ConstantId
  | LoadQualifiedTarget Register Register Register ConstantId "ConstantId list" "32 word"
  | ApplyBinding "Register list" Register "ApplyArgument list"
  | LoadFunctionHandle Register ConstantId
  | LoadFunctionHandleCandidates Register "ConstantId list"
  | MakeClosure Register FunctionId "(ConstantId \<times> Register option \<times> bool) list"
  | MakeSharedClosure Register FunctionId "(ConstantId \<times> SharedCaptureSource) list"
  | LoadCapture Register ConstantId
  | StoreCapture ConstantId Register
  | LoadGlobalOrNothing Register ConstantId
  | StoreGlobal ConstantId Register
  | ClearGlobal "ConstantId list"
  | ClearGlobalAll
  | ClearLocal "LocalSlot list"
  | ClearCapture "ConstantId list"
  | ClearDynamicBindings "ConstantId list" bool
  | RegisterClass ClassDefinitionId
  | InvokeSuperclassConstructor ConstantId LocalSlot "Register list"
  | GetField Register Register ConstantId
  | SetField Register Register ConstantId Register
  | ApplyField "Register list" Register ConstantId "ApplyArgument list"
  | ApplyQualified "Register list" Register Register "ConstantId list" "ApplyArgument list"
  | GetQualifiedPack PackRegister Register Register Register "ConstantId list"
  | BraceApply PackRegister Register "ApplyArgument list"
  | GetAggregateField PackRegister Register FieldOperand
  | AssignPlace Register Register "PlaceStep list" ValueSource AssignmentMode
  | AssignBindingPlace "Register option" BindingTarget Register "PlaceStep list" ValueSource AssignmentMode
  | ResolveEnd Register Register "32 word" "32 word"
  | Unpack "Register list" PackRegister
  | Jump InstructionIndex
  | JumpIfFalse Register InstructionIndex
  | Call "Register list" Register "Register list"
  | Apply "Register list" Register "ApplyArgument list"
  | StatementApply Register "ApplyArgument list" StatementResultTarget bool
  | StatementApplyField Register ConstantId "ApplyArgument list" StatementResultTarget bool
  | StatementApplyQualified Register Register "ConstantId list" "ApplyArgument list" StatementResultTarget bool
  | StatementPack PackRegister StatementResultTarget bool
  | StatementValue Register StatementResultTarget bool
  | Display ConstantId Register
  | ReturnApply Register "ApplyArgument list"
  | ReturnApplyField Register ConstantId "ApplyArgument list"
  | IndexAssign Register Register "ApplyArgument list" Register
  | ForEach Register Register Register InstructionIndex
  | Return "Register list"
  | ReturnVariadic "Register list" Register

record Instruction =
  instr_kind :: InstructionKind
  instr_location :: "SourceLocation option"

definition instruction_new :: "InstructionKind \<Rightarrow> Instruction" where
  "instruction_new k = \<lparr>instr_kind = k, instr_location = None\<rparr>"

definition located :: "InstructionKind \<Rightarrow> SourceLocation \<Rightarrow> Instruction" where
  "located k loc = \<lparr>instr_kind = k, instr_location = Some loc\<rparr>"

subsection \<open>Functions and modules\<close>

record ArgumentLayout =
  positional_count :: "32 word"
  required_count :: "32 word"
  repeating_count :: "32 word"
  named :: "(LocalSlot \<times> string) list"

record Function =
  function_name :: string
  register_count :: "32 word"
  pack_register_count :: "32 word"
  local_count :: "32 word"
  persistent_slot_count :: "32 word"
  parameter_count :: "32 word"
  argument_layout :: "ArgumentLayout option"
  constants :: "Constant list"
  instructions :: "Instruction list"
  exception_handlers :: "ExceptionHandler list"

definition function_new :: "string \<Rightarrow> 32 word \<Rightarrow> 32 word \<Rightarrow> 32 word \<Rightarrow> Function" where
  "function_new nm registers locals parameters =
     \<lparr>function_name = nm, register_count = registers, pack_register_count = 0, local_count = locals,
      persistent_slot_count = 0, parameter_count = parameters, argument_layout = None,
      constants = [], instructions = [], exception_handlers = []\<rparr>"

definition with_pack_register_count :: "Function \<Rightarrow> 32 word \<Rightarrow> Function" where
  "with_pack_register_count fn n = fn\<lparr>pack_register_count := n\<rparr>"

definition with_persistent_slot_count :: "Function \<Rightarrow> 32 word \<Rightarrow> Function" where
  "with_persistent_slot_count fn n = fn\<lparr>persistent_slot_count := n\<rparr>"

definition with_exception_handlers :: "Function \<Rightarrow> ExceptionHandler list \<Rightarrow> Function" where
  "with_exception_handlers fn hs = fn\<lparr>exception_handlers := hs\<rparr>"

record BytecodeModule =
  version :: BytecodeVersion
  module_functions :: "Function list"
  classes :: "ClassDefinition list"
  class_features :: "ClassFeatureDefinition list"
  entry :: FunctionId

definition module_new :: "Function list \<Rightarrow> FunctionId \<Rightarrow> BytecodeModule" where
  "module_new fns e =
     \<lparr>version = CURRENT_BYTECODE_VERSION, module_functions = fns, classes = [], class_features = [], entry = e\<rparr>"

definition with_classes :: "BytecodeModule \<Rightarrow> ClassDefinition list \<Rightarrow> BytecodeModule" where
  "with_classes md cs = md\<lparr>classes := cs\<rparr>"

definition with_class_features :: "BytecodeModule \<Rightarrow> ClassFeatureDefinition list \<Rightarrow> BytecodeModule" where
  "with_class_features md fs = md\<lparr>class_features := fs\<rparr>"

lemma logical_discriminant_decodes: "from_logical_discriminant (logical_discriminant b) = Some b"
  by (cases b) (simp_all add: from_logical_discriminant_def)

lemma discriminant_decode_iff:
  "from_logical_discriminant d = Some b \<longleftrightarrow> logical_discriminant b = d"
  by (auto simp: logical_discriminant_decodes) (auto simp: from_logical_discriminant_def split: if_splits)

lemma discriminant_onto:
  assumes "d < 16"
  shows "\<exists>b. logical_discriminant b = d"
proof -
  have "unat d < 16" using assms by (simp add: word_less_nat_alt)
  then have "unat d \<in> {0,1,2,3,4,5,6,7,8,9,10,11,12,13,14,15}"
    unfolding insert_iff empty_iff by presburger
  moreover have "d = word_of_nat (unat d)" by simp
  ultimately have "d \<in> {0,1,2,3,4,5,6,7,8,9,10,11,12,13,14,15}" by fastforce
  then show ?thesis by (auto intro: logical_discriminant.simps)
qed

lemma discriminant_bound: "logical_discriminant b < 16"
  by (cases b) simp_all

text \<open>
  the format-level operator codes are a bijection between the operators and the numbers below
  sixteen: every operator decodes from its own code, every code below sixteen is the code of the
  operator it decodes to, and no other byte decodes.
\<close>

theorem discriminant_roundtrip:
  "(from_logical_discriminant d = Some b \<longleftrightarrow> logical_discriminant b = d) \<and>
   (from_logical_discriminant d = None \<longleftrightarrow> 16 \<le> d)"
proof -
  have "from_logical_discriminant d \<noteq> None \<longleftrightarrow> d < 16"
    using discriminant_onto discriminant_bound by (auto simp: discriminant_decode_iff)
  then have "from_logical_discriminant d = None \<longleftrightarrow> 16 \<le> d"
    unfolding linorder_not_less [symmetric] by metis
  with discriminant_decode_iff show ?thesis by blast
qed

end
