(* ===== verification/Bytecode_Operands.thy ===== *)
theory Bytecode_Operands
  imports Bytecode_Model
begin

section \<open>Operand and instruction checks of the verifier (openmat-bytecode/src/verify.rs)\<close>

text \<open>
  The verifier's errors, its checks of single operands, and the check of one instruction. In the
  source every error of an instruction is wrapped by one closure that adds the function, the
  instruction index and the source location; here the match on the instruction returns the bare
  error kind and \<open>verify_instruction\<close> adds the context once. The specification side lists the
  operands of each instruction, so that an accepted instruction is one whose listed operands are
  all in range and whose structural side conditions hold.
\<close>

named_theorems verify_simps \<open>definitions of the arms of the instruction check\<close>

subsection \<open>Errors\<close>

datatype (plugins only:) VerificationErrorKind =
    InvalidArgumentLayout
  | UnsupportedVersion BytecodeVersion BytecodeVersion
  | PackageInstructionsRequireCurrentVersion BytecodeVersion
  | ImportClearRequiresCurrentVersion BytecodeVersion
  | CallTargetRequiresCurrentVersion BytecodeVersion
  | DynamicOutputsRequireCurrentVersion BytecodeVersion
  | ExternalMethodRequiresCurrentVersion BytecodeVersion string string
  | ExternalMethodIsAbstract string string
  | InvalidEntry FunctionId
  | ParametersExceedLocals "32 word" "32 word"
  | VariadicInputsMustBeFirst
  | DuplicateVariadicInputs
  | InvalidRegister Register "32 word"
  | InvalidPackRegister PackRegister "32 word"
  | InvalidLocal LocalSlot "32 word"
  | InvalidPersistentSlot PersistentSlot "32 word"
  | InvalidConstant ConstantId nat
  | GlobalNameIsNotString ConstantId
  | FieldNameIsNotString ConstantId
  | RaggedCellRows nat nat nat
  | EmptyPlacePath
  | DeleteSourceMustBeOne
  | InvalidEndArgumentCount
  | InvalidEndArgumentIndex "32 word" "32 word"
  | EmptyClearNames
  | InvalidFunctionConstant FunctionId
  | InvalidClosureFunction FunctionId
  | DuplicateClosureCapture string
  | InvalidClassDefinition ClassDefinitionId nat
  | EmptyClassName "string option"
  | EmptySuperclassName string
  | SelfSuperclass string
  | InvalidClassFunction string string FunctionId
  | InvalidPropertyDefaultSignature string string "32 word"
  | MissingConstantInitializer string string
  | InvalidPropertyWriteAccess string string PropertyKind
  | DependentPropertyHasInitializer string string
  | MissingDependentAccessor string string string
  | InvalidDependentAccessorTarget string string
  | SpecialMethodMustBeInstance string string
  | InvalidSpecialMethodSignature string string "32 word" "32 word" "32 word" "32 word option"
  | StaticMethodHasConstructorOutput string string
  | AbstractMethodHasConstructorOutput string string
  | AbstractConstructor string
  | ExplicitConcreteHasAbstractMethod string string
  | InvalidClassFeature string string string
  | InvalidConstructorOutput string string LocalSlot "32 word"
  | SuperclassConstructorOutsideConstructor string
  | InvalidSuperclassConstructorTarget string "string option" string
  | InvalidSuperclassConstructorObject string LocalSlot LocalSlot
  | InvalidJump InstructionIndex nat
  | InvalidExceptionProtectedRange InstructionIndex InstructionIndex nat
  | InvalidExceptionHandler InstructionIndex nat
  | InvalidExceptionExit InstructionIndex nat
  | InvalidExceptionCatchOrder InstructionIndex InstructionIndex InstructionIndex
  | InvalidExceptionCatchSkip InstructionIndex InstructionIndex
  | InvalidExceptionSwallowExit InstructionIndex InstructionIndex
  | DuplicateExceptionRange InstructionIndex InstructionIndex
  | CrossingExceptionRanges InstructionIndex InstructionIndex InstructionIndex InstructionIndex
  | NestedExceptionHandlerEscapes InstructionIndex InstructionIndex InstructionIndex InstructionIndex InstructionIndex

record VerificationError =
  error_function :: "FunctionId option"
  error_instruction :: "InstructionIndex option"
  error_location :: "SourceLocation option"
  error_kind :: VerificationErrorKind

type_synonym checked_kind = "(VerificationErrorKind, unit) result"
type_synonym verified = "(VerificationError, unit) result"

definition function_error :: "FunctionId \<Rightarrow> VerificationErrorKind \<Rightarrow> VerificationError" where
  "function_error fid kind =
     \<lparr>error_function = Some fid, error_instruction = None, error_location = None, error_kind = kind\<rparr>"

text \<open>A 32-bit index always fits a 64-bit \<open>usize\<close>, so the conversion in \<open>get\<close> cannot fail.\<close>

definition get :: "'a list \<Rightarrow> 32 word \<Rightarrow> 'a option" where
  "get items index = slice_get items (unat index)"

definition index_to_u32 :: "nat \<Rightarrow> 32 word" where
  "index_to_u32 index = (case try_from u32_max index of Some i \<Rightarrow> of_nat i | None \<Rightarrow> of_nat u32_max)"

subsection \<open>Single operands\<close>

definition check_register :: "Function \<Rightarrow> Register \<Rightarrow> checked_kind" where
  "check_register fn r =
     (if reg_get r < register_count fn then Ok () else Err (InvalidRegister r (register_count fn)))"

definition check_pack_register :: "Function \<Rightarrow> PackRegister \<Rightarrow> checked_kind" where
  "check_pack_register fn r =
     (if pack_get r < pack_register_count fn then Ok () else Err (InvalidPackRegister r (pack_register_count fn)))"

definition check_local :: "Function \<Rightarrow> LocalSlot \<Rightarrow> checked_kind" where
  "check_local fn l =
     (if local_get l < local_count fn then Ok () else Err (InvalidLocal l (local_count fn)))"

definition check_persistent_slot :: "Function \<Rightarrow> PersistentSlot \<Rightarrow> checked_kind" where
  "check_persistent_slot fn s =
     (if persistent_get s < persistent_slot_count fn then Ok ()
      else Err (InvalidPersistentSlot s (persistent_slot_count fn)))"

definition check_constant :: "Function \<Rightarrow> ConstantId \<Rightarrow> checked_kind" where
  "check_constant fn c =
     (if get (constants fn) (const_get c) \<noteq> None then Ok ()
      else Err (InvalidConstant c (length (constants fn))))"

definition check_global_name :: "Function \<Rightarrow> ConstantId \<Rightarrow> checked_kind" where
  "check_global_name fn c =
     (case get (constants fn) (const_get c) of
        None \<Rightarrow> Err (InvalidConstant c (length (constants fn)))
      | Some (String _) \<Rightarrow> Ok ()
      | Some _ \<Rightarrow> Err (GlobalNameIsNotString c))"

definition check_field_name :: "Function \<Rightarrow> ConstantId \<Rightarrow> checked_kind" where
  "check_field_name fn c =
     (case get (constants fn) (const_get c) of
        None \<Rightarrow> Err (InvalidConstant c (length (constants fn)))
      | Some (String _) \<Rightarrow> Ok ()
      | Some _ \<Rightarrow> Err (FieldNameIsNotString c))"

definition check_jump :: "Function \<Rightarrow> InstructionIndex \<Rightarrow> checked_kind" where
  "check_jump fn t =
     (if get (instructions fn) (index_get t) \<noteq> None then Ok ()
      else Err (InvalidJump t (length (instructions fn))))"

subsection \<open>Composite operands\<close>

definition verify_apply_arguments :: "(Register \<Rightarrow> ('e, unit) result) \<Rightarrow> (PackRegister \<Rightarrow> ('e, unit) result) \<Rightarrow>
    ApplyArgument list \<Rightarrow> ('e, unit) result" where
  "verify_apply_arguments register pack_register arguments =
     for_each (\<lambda>argument. case argument of
         ApplyArgument.Value a \<Rightarrow> register a
       | ApplyArgument.Expand a \<Rightarrow> pack_register a
       | Colon \<Rightarrow> Ok ()) arguments"

definition verify_value_source :: "(Register \<Rightarrow> ('e, unit) result) \<Rightarrow> (PackRegister \<Rightarrow> ('e, unit) result) \<Rightarrow>
    ValueSource \<Rightarrow> ('e, unit) result" where
  "verify_value_source register pack_register source =
     (case source of One s \<Rightarrow> register s | ValueSource.Expand s \<Rightarrow> pack_register s)"

definition verify_field_operand :: "(Register \<Rightarrow> ('e, unit) result) \<Rightarrow> (ConstantId \<Rightarrow> ('e, unit) result) \<Rightarrow>
    FieldOperand \<Rightarrow> ('e, unit) result" where
  "verify_field_operand register field_name field =
     (case field of FieldOperand.Static c \<Rightarrow> field_name c | Dynamic r \<Rightarrow> register r)"

definition verify_place_path :: "(Register \<Rightarrow> ('e, unit) result) \<Rightarrow> (PackRegister \<Rightarrow> ('e, unit) result) \<Rightarrow>
    (ConstantId \<Rightarrow> ('e, unit) result) \<Rightarrow> PlaceStep list \<Rightarrow> ('e, unit) result" where
  "verify_place_path register pack_register field_name path =
     for_each (\<lambda>step. case step of
         Paren arguments \<Rightarrow> verify_apply_arguments register pack_register arguments
       | Brace arguments \<Rightarrow> verify_apply_arguments register pack_register arguments
       | PlaceStep.Field field \<Rightarrow> verify_field_operand register field_name field) path"

subsection \<open>The arms of the instruction check\<close>

definition verify_pack_target :: "Function \<Rightarrow> PackApplyTarget \<Rightarrow> checked_kind" where
  "verify_pack_target fn target =
     (case target of
        PackApplyTarget.Value r \<Rightarrow> check_register fn r
      | PackApplyTarget.Field object name \<Rightarrow> all_checks [check_register fn object, check_field_name fn name]
      | Qualified tgt unresolved_suffix members \<Rightarrow>
          all_checks [check_register fn tgt, check_register fn unresolved_suffix,
            for_each (check_field_name fn) members])"

definition verify_apply_output_pack :: "Function \<Rightarrow> PackRegister \<Rightarrow> Register \<Rightarrow> PackApplyTarget \<Rightarrow> ApplyArgument list \<Rightarrow> checked_kind" where
  [verify_simps]: "verify_apply_output_pack fn dst_pack count target arguments =
     all_checks [check_pack_register fn dst_pack, check_register fn count, verify_pack_target fn target,
       verify_apply_arguments (check_register fn) (check_pack_register fn) arguments]"

definition verify_named_binding :: "Function \<Rightarrow> ConstantId \<times> NamedBindingKind \<Rightarrow> checked_kind" where
  "verify_named_binding fn b =
     (case b of (name, kind) \<Rightarrow>
        all_checks [check_global_name fn name,
          (case kind of
             NamedBindingKind.Local slot \<Rightarrow> check_local fn slot
           | NamedBindingKind.Persistent slot \<Rightarrow> check_persistent_slot fn slot
           | NamedBindingKind.Capture \<Rightarrow> Ok ()
           | NamedBindingKind.Workspace \<Rightarrow> Ok ())])"

definition verify_cell_rows :: "'a list list \<Rightarrow> checked_kind" where
  "verify_cell_rows rows =
     (case rows of
        [] \<Rightarrow> Ok ()
      | first # _ \<Rightarrow>
          for_each (\<lambda>(row, values).
              if length values \<noteq> length first then Err (RaggedCellRows row (length first) (length values)) else Ok ())
            (drop 1 (enumerate 0 rows)))"

definition verify_build_cell :: "Function \<Rightarrow> Register \<Rightarrow> ValueSource list list \<Rightarrow> checked_kind" where
  [verify_simps]: "verify_build_cell fn dst rows =
     all_checks [check_register fn dst, verify_cell_rows rows,
       for_each (verify_value_source (check_register fn) (check_pack_register fn)) (concat rows)]"

definition verify_load_qualified_target :: "Function \<Rightarrow> Register \<Rightarrow> Register \<Rightarrow> Register \<Rightarrow> ConstantId \<Rightarrow> ConstantId list \<Rightarrow> checked_kind" where
  [verify_simps]: "verify_load_qualified_target fn dst root_found unresolved_suffix root qualified =
     all_checks [check_register fn dst, check_register fn root_found, check_register fn unresolved_suffix,
       check_global_name fn root, for_each (check_global_name fn) qualified]"

definition verify_closure_function :: "BytecodeModule \<Rightarrow> FunctionId \<Rightarrow> checked_kind" where
  "verify_closure_function md closure =
     (if get (module_functions md) (func_get closure) = None then Err (InvalidClosureFunction closure) else Ok ())"

text \<open>
  A capture's name is read from the constant pool by unchecked indexing, and a constant that is not a
  string there is \<open>unreachable!\<close>; \<open>undefined\<close> stands for the panic of either.
\<close>

definition constant_text :: "Function \<Rightarrow> ConstantId \<Rightarrow> string" where
  "constant_text fn c = (case get (constants fn) (const_get c) of Some (String s) \<Rightarrow> s | _ \<Rightarrow> undefined)"

definition verify_capture :: "Function \<Rightarrow> ('s \<Rightarrow> checked_kind) \<Rightarrow> string set \<Rightarrow> ConstantId \<times> 's \<Rightarrow>
    (VerificationErrorKind, string set) result" where
  "verify_capture fn check_source names capture =
     (case capture of (name, source) \<Rightarrow>
        and_then (check_global_name fn name) (\<lambda>_.
        and_then (check_source source) (\<lambda>_.
          if constant_text fn name \<in> names then Err (DuplicateClosureCapture (constant_text fn name))
          else Ok (insert (constant_text fn name) names))))"

definition verify_make_closure :: "BytecodeModule \<Rightarrow> Function \<Rightarrow> Register \<Rightarrow> FunctionId \<Rightarrow>
    (ConstantId \<times> Register option \<times> bool) list \<Rightarrow> checked_kind" where
  "verify_make_closure md fn dst closure captures =
     all_checks [check_register fn dst, verify_closure_function md closure,
       and_then (fold_result (verify_capture fn (\<lambda>(source, _).
           case source of Some r \<Rightarrow> check_register fn r | None \<Rightarrow> Ok ())) {} captures) (\<lambda>_. Ok ())]"

definition verify_make_shared_closure :: "BytecodeModule \<Rightarrow> Function \<Rightarrow> Register \<Rightarrow> FunctionId \<Rightarrow>
    (ConstantId \<times> SharedCaptureSource) list \<Rightarrow> checked_kind" where
  "verify_make_shared_closure md fn dst closure captures =
     all_checks [check_register fn dst, verify_closure_function md closure,
       and_then (fold_result (verify_capture fn (\<lambda>source.
           case source of SharedCaptureSource.Local slot \<Rightarrow> check_local fn slot | Enclosing \<Rightarrow> Ok ())) {} captures) (\<lambda>_. Ok ())]"

definition verify_clear_global :: "Function \<Rightarrow> ConstantId list \<Rightarrow> checked_kind" where
  [verify_simps]: "verify_clear_global fn names =
     (if names = [] then Err EmptyClearNames else for_each (check_global_name fn) names)"

definition verify_register_class :: "BytecodeModule \<Rightarrow> ClassDefinitionId \<Rightarrow> checked_kind" where
  [verify_simps]: "verify_register_class md c =
     (if get (classes md) (class_get c) = None then Err (InvalidClassDefinition c (length (classes md))) else Ok ())"

text \<open>The last dot-separated segment of a class name is the name of its constructor.\<close>

definition constructor_name :: "string \<Rightarrow> string" where
  "constructor_name name = rev (takeWhile (\<lambda>c. c \<noteq> CHR ''.'') (rev name))"

definition owners :: "BytecodeModule \<Rightarrow> FunctionId \<Rightarrow> (ClassDefinition \<times> MethodDefinition) list" where
  "owners md fid =
     concat (map (\<lambda>c. map (\<lambda>mt. (c, mt)) (filter (\<lambda>mt. method_function mt = fid) (methods c))) (classes md))"

definition verify_superclass_constructor_context :: "BytecodeModule \<Rightarrow> FunctionId \<Rightarrow> Function \<Rightarrow> ConstantId \<Rightarrow> LocalSlot \<Rightarrow> checked_kind" where
  "verify_superclass_constructor_context md fid fn superclass_id object =
     (case get (constants fn) (const_get superclass_id) of
        Some (String actual) \<Rightarrow>
          (case owners md fid of
             [] \<Rightarrow> Err (SuperclassConstructorOutsideConstructor actual)
           | (c, mt) # rest \<Rightarrow>
               if rest \<noteq> [] \<or> method_name mt \<noteq> constructor_name (class_name c) \<or> method_kind mt \<noteq> Instance
               then Err (SuperclassConstructorOutsideConstructor actual)
               else
                 (case constructor_output mt of
                    None \<Rightarrow> Err (SuperclassConstructorOutsideConstructor actual)
                  | Some expected \<Rightarrow>
                      if superclass c \<noteq> Some actual
                      then Err (InvalidSuperclassConstructorTarget (class_name c) (superclass c) actual)
                      else if object \<noteq> expected
                      then Err (InvalidSuperclassConstructorObject (class_name c) expected object)
                      else Ok ()))
      | Some _ \<Rightarrow> Err (GlobalNameIsNotString superclass_id)
      | None \<Rightarrow> Err (InvalidConstant superclass_id (length (constants fn))))"

definition verify_invoke_superclass :: "BytecodeModule \<Rightarrow> FunctionId \<Rightarrow> Function \<Rightarrow> ConstantId \<Rightarrow> LocalSlot \<Rightarrow> Register list \<Rightarrow> checked_kind" where
  [verify_simps]: "verify_invoke_superclass md fid fn superclass_id object arguments =
     all_checks [check_local fn object, check_global_name fn superclass_id,
       for_each (check_register fn) arguments,
       verify_superclass_constructor_context md fid fn superclass_id object]"

definition verify_set_field :: "Function \<Rightarrow> Register \<Rightarrow> Register \<Rightarrow> ConstantId \<Rightarrow> Register \<Rightarrow> checked_kind" where
  [verify_simps]: "verify_set_field fn dst object name v =
     all_checks [check_register fn dst, check_register fn object, check_global_name fn name, check_register fn v]"

definition verify_apply_field :: "Function \<Rightarrow> Register list \<Rightarrow> Register \<Rightarrow> ConstantId \<Rightarrow> ApplyArgument list \<Rightarrow> checked_kind" where
  [verify_simps]: "verify_apply_field fn outputs object name arguments =
     all_checks [check_register fn object, check_global_name fn name, for_each (check_register fn) outputs,
       verify_apply_arguments (check_register fn) (check_pack_register fn) arguments]"

definition verify_apply_qualified :: "Function \<Rightarrow> Register list \<Rightarrow> Register \<Rightarrow> Register \<Rightarrow> ConstantId list \<Rightarrow> ApplyArgument list \<Rightarrow> checked_kind" where
  [verify_simps]: "verify_apply_qualified fn outputs target unresolved_suffix members arguments =
     all_checks [check_register fn target, check_register fn unresolved_suffix,
       for_each (check_field_name fn) members, for_each (check_register fn) outputs,
       verify_apply_arguments (check_register fn) (check_pack_register fn) arguments]"

definition verify_get_qualified_pack :: "Function \<Rightarrow> PackRegister \<Rightarrow> Register \<Rightarrow> Register \<Rightarrow> Register \<Rightarrow> ConstantId list \<Rightarrow> checked_kind" where
  [verify_simps]: "verify_get_qualified_pack fn dst_pack target root_found unresolved_suffix members =
     all_checks [check_pack_register fn dst_pack, check_register fn target, check_register fn root_found,
       check_register fn unresolved_suffix, for_each (check_field_name fn) members]"

definition verify_brace_apply :: "Function \<Rightarrow> PackRegister \<Rightarrow> Register \<Rightarrow> ApplyArgument list \<Rightarrow> checked_kind" where
  [verify_simps]: "verify_brace_apply fn dst_pack target arguments =
     all_checks [check_pack_register fn dst_pack, check_register fn target,
       verify_apply_arguments (check_register fn) (check_pack_register fn) arguments]"

definition verify_get_aggregate_field :: "Function \<Rightarrow> PackRegister \<Rightarrow> Register \<Rightarrow> FieldOperand \<Rightarrow> checked_kind" where
  [verify_simps]: "verify_get_aggregate_field fn dst_pack target field =
     all_checks [check_pack_register fn dst_pack, check_register fn target,
       verify_field_operand (check_register fn) (check_field_name fn) field]"

definition verify_assign_place :: "Function \<Rightarrow> Register \<Rightarrow> Register \<Rightarrow> PlaceStep list \<Rightarrow> ValueSource \<Rightarrow> AssignmentMode \<Rightarrow> checked_kind" where
  [verify_simps]: "verify_assign_place fn dst root path source mode =
     all_checks [check_register fn dst, check_register fn root,
       ensure (path \<noteq> []) EmptyPlacePath,
       verify_place_path (check_register fn) (check_pack_register fn) (check_field_name fn) path,
       verify_value_source (check_register fn) (check_pack_register fn) source,
       ensure (\<not> (mode = Delete \<and> (case source of ValueSource.Expand _ \<Rightarrow> True | One _ \<Rightarrow> False))) DeleteSourceMustBeOne]"

definition verify_binding_target :: "Function \<Rightarrow> BindingTarget \<Rightarrow> checked_kind" where
  "verify_binding_target fn binding =
     (case binding of
        BindingTarget.Local slot \<Rightarrow> check_local fn slot
      | BindingTarget.Persistent slot \<Rightarrow> check_persistent_slot fn slot
      | BindingTarget.Capture name \<Rightarrow> check_global_name fn name
      | BindingTarget.Workspace name \<Rightarrow> check_global_name fn name)"

definition verify_assign_binding_place :: "Function \<Rightarrow> Register option \<Rightarrow> BindingTarget \<Rightarrow> Register \<Rightarrow> PlaceStep list \<Rightarrow>
    ValueSource \<Rightarrow> AssignmentMode \<Rightarrow> checked_kind" where
  [verify_simps]: "verify_assign_binding_place fn result binding root path source mode =
     all_checks [case result of Some r \<Rightarrow> check_register fn r | None \<Rightarrow> Ok (),
       verify_binding_target fn binding, check_register fn root,
       ensure (path \<noteq> []) EmptyPlacePath,
       verify_place_path (check_register fn) (check_pack_register fn) (check_field_name fn) path,
       verify_value_source (check_register fn) (check_pack_register fn) source,
       ensure (\<not> (mode = Delete \<and> (case source of ValueSource.Expand _ \<Rightarrow> True | One _ \<Rightarrow> False))) DeleteSourceMustBeOne]"

definition verify_resolve_end :: "Function \<Rightarrow> Register \<Rightarrow> Register \<Rightarrow> 32 word \<Rightarrow> 32 word \<Rightarrow> checked_kind" where
  [verify_simps]: "verify_resolve_end fn dst target argument_index argument_cnt =
     all_checks [check_register fn dst, check_register fn target,
       ensure (argument_cnt \<noteq> 0) InvalidEndArgumentCount,
       ensure (argument_index < argument_cnt) (InvalidEndArgumentIndex argument_index argument_cnt)]"

definition verify_call :: "Function \<Rightarrow> Register list \<Rightarrow> Register \<Rightarrow> Register list \<Rightarrow> checked_kind" where
  [verify_simps]: "verify_call fn outputs callee arguments =
     all_checks [check_register fn callee, for_each (check_register fn) outputs, for_each (check_register fn) arguments]"

definition verify_apply :: "Function \<Rightarrow> Register list \<Rightarrow> Register \<Rightarrow> ApplyArgument list \<Rightarrow> checked_kind" where
  [verify_simps]: "verify_apply fn outputs target arguments =
     all_checks [check_register fn target, for_each (check_register fn) outputs,
       verify_apply_arguments (check_register fn) (check_pack_register fn) arguments]"

definition verify_statement_result :: "Function \<Rightarrow> StatementResultTarget \<Rightarrow> checked_kind" where
  "verify_statement_result fn result =
     (case result of
        Global name \<Rightarrow> check_global_name fn name
      | StatementResultTarget.Local slot \<Rightarrow> check_local fn slot)"

definition verify_statement_apply :: "Function \<Rightarrow> Register \<Rightarrow> ApplyArgument list \<Rightarrow> StatementResultTarget \<Rightarrow> checked_kind" where
  [verify_simps]: "verify_statement_apply fn target arguments result =
     all_checks [check_register fn target,
       verify_apply_arguments (check_register fn) (check_pack_register fn) arguments,
       verify_statement_result fn result]"

definition verify_statement_apply_field :: "Function \<Rightarrow> Register \<Rightarrow> ConstantId \<Rightarrow> ApplyArgument list \<Rightarrow> StatementResultTarget \<Rightarrow> checked_kind" where
  [verify_simps]: "verify_statement_apply_field fn object name arguments result =
     all_checks [check_register fn object, check_field_name fn name,
       verify_apply_arguments (check_register fn) (check_pack_register fn) arguments,
       verify_statement_result fn result]"

definition verify_statement_apply_qualified :: "Function \<Rightarrow> Register \<Rightarrow> Register \<Rightarrow> ConstantId list \<Rightarrow> ApplyArgument list \<Rightarrow>
    StatementResultTarget \<Rightarrow> checked_kind" where
  [verify_simps]: "verify_statement_apply_qualified fn target unresolved_suffix members arguments result =
     all_checks [check_register fn target, check_register fn unresolved_suffix,
       for_each (check_field_name fn) members,
       verify_apply_arguments (check_register fn) (check_pack_register fn) arguments,
       verify_statement_result fn result]"

definition verify_statement_pack :: "Function \<Rightarrow> PackRegister \<Rightarrow> StatementResultTarget \<Rightarrow> checked_kind" where
  [verify_simps]: "verify_statement_pack fn pack result =
     all_checks [check_pack_register fn pack, verify_statement_result fn result]"

definition verify_statement_value :: "Function \<Rightarrow> Register \<Rightarrow> StatementResultTarget \<Rightarrow> checked_kind" where
  [verify_simps]: "verify_statement_value fn src result =
     all_checks [check_register fn src, verify_statement_result fn result]"

definition verify_return_apply :: "Function \<Rightarrow> Register \<Rightarrow> ApplyArgument list \<Rightarrow> checked_kind" where
  [verify_simps]: "verify_return_apply fn target arguments =
     all_checks [check_register fn target, verify_apply_arguments (check_register fn) (check_pack_register fn) arguments]"

definition verify_return_apply_field :: "Function \<Rightarrow> Register \<Rightarrow> ConstantId \<Rightarrow> ApplyArgument list \<Rightarrow> checked_kind" where
  [verify_simps]: "verify_return_apply_field fn object name arguments =
     all_checks [check_register fn object, check_field_name fn name,
       verify_apply_arguments (check_register fn) (check_pack_register fn) arguments]"

definition verify_index_assign :: "Function \<Rightarrow> Register \<Rightarrow> Register \<Rightarrow> ApplyArgument list \<Rightarrow> Register \<Rightarrow> checked_kind" where
  [verify_simps]: "verify_index_assign fn dst target arguments v =
     all_checks [check_register fn dst, check_register fn target, check_register fn v,
       verify_apply_arguments (check_register fn) (check_pack_register fn) arguments]"

definition verify_for_each :: "Function \<Rightarrow> Register \<Rightarrow> Register \<Rightarrow> Register \<Rightarrow> InstructionIndex \<Rightarrow> checked_kind" where
  [verify_simps]: "verify_for_each fn iterable index dst x =
     all_checks [check_register fn iterable, check_register fn index, check_register fn dst, check_jump fn x]"

definition verify_return_variadic :: "Function \<Rightarrow> Register list \<Rightarrow> Register \<Rightarrow> checked_kind" where
  [verify_simps]: "verify_return_variadic fn fixed variadic =
     all_checks [for_each (check_register fn) fixed, check_register fn variadic]"

subsection \<open>One instruction\<close>

primrec verify_operands :: "BytecodeModule \<Rightarrow> FunctionId \<Rightarrow> Function \<Rightarrow> InstructionKind \<Rightarrow> checked_kind" where
  "verify_operands md fid fn (RequireSinglePack pack) = check_pack_register fn pack"
| "verify_operands md fid fn (RequireDefined v name) = all_checks [check_register fn v, check_global_name fn name]"
| "verify_operands md fid fn (CountPlaceOutputs dst root path) =
     all_checks [check_register fn dst, check_register fn root, ensure (path \<noteq> []) EmptyPlacePath,
       verify_place_path (check_register fn) (check_pack_register fn) (check_field_name fn) path]"
| "verify_operands md fid fn (ApplyOutputPack dst_pack count target arguments) =
     verify_apply_output_pack fn dst_pack count target arguments"
| "verify_operands md fid fn (SlicePack dst_pack source start count) =
     all_checks [check_pack_register fn dst_pack, check_pack_register fn source, check_register fn start, check_register fn count]"
| "verify_operands md fid fn (DeclareNamedBindings bindings) = for_each (verify_named_binding fn) bindings"
| "verify_operands md fid fn (DeclareImports imports) = for_each (check_global_name fn) imports"
| "verify_operands md fid fn ClearImports = Ok ()"
| "verify_operands md fid fn ClearGlobalAll = Ok ()"
| "verify_operands md fid fn (LoadConstant dst c) = all_checks [check_register fn dst, check_constant fn c]"
| "verify_operands md fid fn (Move dst src) = all_checks [check_register fn dst, check_register fn src]"
| "verify_operands md fid fn (Binary operator dst lhs rhs) =
     all_checks [check_register fn dst, check_register fn lhs, check_register fn rhs]"
| "verify_operands md fid fn (SwitchMatch dst selector case_value) =
     all_checks [check_register fn dst, check_register fn selector, check_register fn case_value]"
| "verify_operands md fid fn (BuildMatrix dst rows) =
     all_checks [check_register fn dst, for_each (check_register fn) (concat rows)]"
| "verify_operands md fid fn (BuildCell dst rows) = verify_build_cell fn dst rows"
| "verify_operands md fid fn (Range dst start step stop) =
     all_checks [check_register fn dst, check_register fn start, check_register fn step, check_register fn stop]"
| "verify_operands md fid fn (Transpose dst operand conjugate) =
     all_checks [check_register fn dst, check_register fn operand]"
| "verify_operands md fid fn (LoadLocal dst slot) = all_checks [check_register fn dst, check_local fn slot]"
| "verify_operands md fid fn (StoreLocal slot src) = all_checks [check_local fn slot, check_register fn src]"
| "verify_operands md fid fn (DeclareGlobal name) = check_global_name fn name"
| "verify_operands md fid fn (DeclarePersistent slot) = check_persistent_slot fn slot"
| "verify_operands md fid fn (LoadPersistent dst slot) = all_checks [check_register fn dst, check_persistent_slot fn slot]"
| "verify_operands md fid fn (StorePersistent slot src) = all_checks [check_persistent_slot fn slot, check_register fn src]"
| "verify_operands md fid fn (LoadCallInputCount dst) = check_register fn dst"
| "verify_operands md fid fn (LoadCallOutputCount dst) = check_register fn dst"
| "verify_operands md fid fn (LoadVariadicInputs dst) = check_register fn dst"
| "verify_operands md fid fn (LoadGlobal dst name flag) = all_checks [check_register fn dst, check_global_name fn name]"
| "verify_operands md fid fn (LoadCallTarget dst name) = all_checks [check_register fn dst, check_global_name fn name]"
| "verify_operands md fid fn (LoadFunctionHandle dst name) = all_checks [check_register fn dst, check_global_name fn name]"
| "verify_operands md fid fn (LoadGlobalOrNothing dst name) = all_checks [check_register fn dst, check_global_name fn name]"
| "verify_operands md fid fn (LoadCapture dst name) = all_checks [check_register fn dst, check_global_name fn name]"
| "verify_operands md fid fn (LoadFunctionHandleCandidates dst names) =
     all_checks [check_register fn dst, for_each (check_global_name fn) names]"
| "verify_operands md fid fn (LoadQualifiedTarget dst root_found unresolved_suffix root qualified member_count) =
     verify_load_qualified_target fn dst root_found unresolved_suffix root qualified"
| "verify_operands md fid fn (MakeClosure dst closure captures) = verify_make_closure md fn dst closure captures"
| "verify_operands md fid fn (MakeSharedClosure dst closure captures) = verify_make_shared_closure md fn dst closure captures"
| "verify_operands md fid fn (StoreCapture name src) = all_checks [check_global_name fn name, check_register fn src]"
| "verify_operands md fid fn (StoreGlobal name src) = all_checks [check_global_name fn name, check_register fn src]"
| "verify_operands md fid fn (Display name src) = all_checks [check_global_name fn name, check_register fn src]"
| "verify_operands md fid fn (ClearGlobal names) = verify_clear_global fn names"
| "verify_operands md fid fn (ClearLocal locals) = for_each (check_local fn) locals"
| "verify_operands md fid fn (ClearCapture names) = for_each (check_global_name fn) names"
| "verify_operands md fid fn (ClearDynamicBindings names except) = for_each (check_global_name fn) names"
| "verify_operands md fid fn (RegisterClass c) = verify_register_class md c"
| "verify_operands md fid fn (InvokeSuperclassConstructor superclass_id object arguments) =
     verify_invoke_superclass md fid fn superclass_id object arguments"
| "verify_operands md fid fn (GetField dst object name) =
     all_checks [check_register fn dst, check_register fn object, check_global_name fn name]"
| "verify_operands md fid fn (SetField dst object name v) = verify_set_field fn dst object name v"
| "verify_operands md fid fn (ApplyField outputs object name arguments) = verify_apply_field fn outputs object name arguments"
| "verify_operands md fid fn (ApplyQualified outputs target unresolved_suffix members arguments) =
     verify_apply_qualified fn outputs target unresolved_suffix members arguments"
| "verify_operands md fid fn (GetQualifiedPack dst_pack target root_found unresolved_suffix members) =
     verify_get_qualified_pack fn dst_pack target root_found unresolved_suffix members"
| "verify_operands md fid fn (BraceApply dst_pack target arguments) = verify_brace_apply fn dst_pack target arguments"
| "verify_operands md fid fn (GetAggregateField dst_pack target field) = verify_get_aggregate_field fn dst_pack target field"
| "verify_operands md fid fn (AssignPlace dst root path source mode) = verify_assign_place fn dst root path source mode"
| "verify_operands md fid fn (AssignBindingPlace result binding root path source mode) =
     verify_assign_binding_place fn result binding root path source mode"
| "verify_operands md fid fn (ResolveEnd dst target argument_index argument_cnt) =
     verify_resolve_end fn dst target argument_index argument_cnt"
| "verify_operands md fid fn (Unpack outputs pack) =
     all_checks [for_each (check_register fn) outputs, check_pack_register fn pack]"
| "verify_operands md fid fn (Jump target) = check_jump fn target"
| "verify_operands md fid fn (JumpIfFalse condition target) =
     all_checks [check_register fn condition, check_jump fn target]"
| "verify_operands md fid fn (Call outputs callee arguments) = verify_call fn outputs callee arguments"
| "verify_operands md fid fn (Apply outputs target arguments) = verify_apply fn outputs target arguments"
| "verify_operands md fid fn (ApplyBinding outputs target arguments) = verify_apply fn outputs target arguments"
| "verify_operands md fid fn (StatementApply target arguments result display) =
     verify_statement_apply fn target arguments result"
| "verify_operands md fid fn (StatementApplyField object name arguments result display) =
     verify_statement_apply_field fn object name arguments result"
| "verify_operands md fid fn (StatementApplyQualified target unresolved_suffix members arguments result display) =
     verify_statement_apply_qualified fn target unresolved_suffix members arguments result"
| "verify_operands md fid fn (StatementPack pack result display) = verify_statement_pack fn pack result"
| "verify_operands md fid fn (StatementValue src result display) = verify_statement_value fn src result"
| "verify_operands md fid fn (ReturnApply target arguments) = verify_return_apply fn target arguments"
| "verify_operands md fid fn (ReturnApplyField object name arguments) = verify_return_apply_field fn object name arguments"
| "verify_operands md fid fn (IndexAssign dst target arguments v) = verify_index_assign fn dst target arguments v"
| "verify_operands md fid fn (ForEach iterable index dst x) = verify_for_each fn iterable index dst x"
| "verify_operands md fid fn (Return values) = for_each (check_register fn) values"
| "verify_operands md fid fn (ReturnVariadic fixed variadic) = verify_return_variadic fn fixed variadic"

definition package_instruction :: "InstructionKind \<Rightarrow> bool" where
  "package_instruction k =
     (case k of
        DeclareImports _ \<Rightarrow> True
      | LoadQualifiedTarget _ _ _ _ _ _ \<Rightarrow> True
      | LoadFunctionHandleCandidates _ _ \<Rightarrow> True
      | ApplyQualified _ _ _ _ _ \<Rightarrow> True
      | GetQualifiedPack _ _ _ _ _ \<Rightarrow> True
      | StatementApplyQualified _ _ _ _ _ _ \<Rightarrow> True
      | _ \<Rightarrow> False)"

definition call_target_instruction :: "InstructionKind \<Rightarrow> bool" where
  "call_target_instruction k = (case k of LoadCallTarget _ _ \<Rightarrow> True | _ \<Rightarrow> False)"

definition dynamic_output_instruction :: "InstructionKind \<Rightarrow> bool" where
  "dynamic_output_instruction k =
     (case k of
        RequireDefined _ _ \<Rightarrow> True
      | RequireSinglePack _ \<Rightarrow> True
      | CountPlaceOutputs _ _ _ \<Rightarrow> True
      | ApplyOutputPack _ _ _ _ \<Rightarrow> True
      | SlicePack _ _ _ _ \<Rightarrow> True
      | _ \<Rightarrow> False)"

definition check_version :: "BytecodeVersion \<Rightarrow> InstructionKind \<Rightarrow> checked_kind" where
  "check_version v k =
     (if major v < 24 \<and> package_instruction k then Err (PackageInstructionsRequireCurrentVersion v)
      else if major v < 25 \<and> k = ClearImports then Err (ImportClearRequiresCurrentVersion v)
      else if major v < 26 \<and> call_target_instruction k then Err (CallTargetRequiresCurrentVersion v)
      else if major v < 27 \<and> dynamic_output_instruction k then Err (DynamicOutputsRequireCurrentVersion v)
      else Ok ())"

definition verify_instruction :: "BytecodeModule \<Rightarrow> FunctionId \<Rightarrow> InstructionIndex \<Rightarrow> Function \<Rightarrow> Instruction \<Rightarrow> verified" where
  "verify_instruction md fid index fn ins =
     map_err (\<lambda>kind. \<lparr>error_function = Some fid, error_instruction = Some index,
                      error_location = instr_location ins, error_kind = kind\<rparr>)
       (all_checks [check_version (version md) (instr_kind ins), verify_operands md fid fn (instr_kind ins)])"

end
