(* ===== verification/Bytecode_Instructions.thy ===== *)
theory Bytecode_Instructions
  imports Bytecode_Operands
begin

section \<open>What an accepted instruction satisfies\<close>

text \<open>
  An independent reading of the instruction set: the operands each instruction mentions, what it
  means for an operand to be in range of its function, and the structural conditions of the
  instructions that have one. The verifier accepts exactly the instructions that satisfy both.
\<close>

subsection \<open>Operands of an instruction\<close>

datatype Operand =
    RegisterOperand Register
  | PackOperand PackRegister
  | LocalOperand LocalSlot
  | PersistentOperand PersistentSlot
  | ConstantOperand ConstantId
  | NameOperand ConstantId
  | JumpOperand InstructionIndex

definition operand_in_range :: "Function \<Rightarrow> Operand \<Rightarrow> bool" where
  "operand_in_range fn x =
     (case x of
        RegisterOperand r \<Rightarrow> unat (reg_get r) < unat (register_count fn)
      | PackOperand r \<Rightarrow> unat (pack_get r) < unat (pack_register_count fn)
      | LocalOperand l \<Rightarrow> unat (local_get l) < unat (local_count fn)
      | PersistentOperand s \<Rightarrow> unat (persistent_get s) < unat (persistent_slot_count fn)
      | ConstantOperand c \<Rightarrow> unat (const_get c) < length (constants fn)
      | NameOperand c \<Rightarrow> unat (const_get c) < length (constants fn) \<and> (\<exists>s. constants fn ! unat (const_get c) = String s)
      | JumpOperand t \<Rightarrow> unat (index_get t) < length (instructions fn))"

fun argument_operands :: "ApplyArgument \<Rightarrow> Operand list" where
  "argument_operands (ApplyArgument.Value r) = [RegisterOperand r]"
| "argument_operands (ApplyArgument.Expand r) = [PackOperand r]"
| "argument_operands Colon = []"

fun source_operands :: "ValueSource \<Rightarrow> Operand list" where
  "source_operands (One r) = [RegisterOperand r]"
| "source_operands (ValueSource.Expand r) = [PackOperand r]"

fun field_operands :: "FieldOperand \<Rightarrow> Operand list" where
  "field_operands (FieldOperand.Static c) = [NameOperand c]"
| "field_operands (Dynamic r) = [RegisterOperand r]"

fun step_operands :: "PlaceStep \<Rightarrow> Operand list" where
  "step_operands (Paren arguments) = concat (map argument_operands arguments)"
| "step_operands (Brace arguments) = concat (map argument_operands arguments)"
| "step_operands (PlaceStep.Field field) = field_operands field"

fun target_operands :: "PackApplyTarget \<Rightarrow> Operand list" where
  "target_operands (PackApplyTarget.Value r) = [RegisterOperand r]"
| "target_operands (PackApplyTarget.Field r c) = [RegisterOperand r, NameOperand c]"
| "target_operands (Qualified r u members) = [RegisterOperand r, RegisterOperand u] @ map NameOperand members"

fun binding_operands :: "BindingTarget \<Rightarrow> Operand list" where
  "binding_operands (BindingTarget.Local l) = [LocalOperand l]"
| "binding_operands (BindingTarget.Persistent s) = [PersistentOperand s]"
| "binding_operands (BindingTarget.Capture c) = [NameOperand c]"
| "binding_operands (BindingTarget.Workspace c) = [NameOperand c]"

fun named_operands :: "ConstantId \<times> NamedBindingKind \<Rightarrow> Operand list" where
  "named_operands (c, NamedBindingKind.Local l) = [NameOperand c, LocalOperand l]"
| "named_operands (c, NamedBindingKind.Persistent s) = [NameOperand c, PersistentOperand s]"
| "named_operands (c, NamedBindingKind.Capture) = [NameOperand c]"
| "named_operands (c, NamedBindingKind.Workspace) = [NameOperand c]"

fun result_operands :: "StatementResultTarget \<Rightarrow> Operand list" where
  "result_operands (Global c) = [NameOperand c]"
| "result_operands (StatementResultTarget.Local l) = [LocalOperand l]"

fun shared_operands :: "SharedCaptureSource \<Rightarrow> Operand list" where
  "shared_operands (SharedCaptureSource.Local l) = [LocalOperand l]"
| "shared_operands Enclosing = []"

definition option_operands :: "Register option \<Rightarrow> Operand list" where
  "option_operands r = (case r of Some x \<Rightarrow> [RegisterOperand x] | None \<Rightarrow> [])"

abbreviation arguments_operands :: "ApplyArgument list \<Rightarrow> Operand list" where
  "arguments_operands arguments \<equiv> concat (map argument_operands arguments)"

abbreviation path_operands :: "PlaceStep list \<Rightarrow> Operand list" where
  "path_operands path \<equiv> concat (map step_operands path)"

abbreviation registers :: "Register list \<Rightarrow> Operand list" where
  "registers rs \<equiv> map RegisterOperand rs"

primrec operands :: "InstructionKind \<Rightarrow> Operand list" where
  "operands (RequireDefined v c) = RegisterOperand v # [NameOperand c]"
| "operands (RequireSinglePack p) = [PackOperand p]"
| "operands (CountPlaceOutputs d r path) = registers [d, r] @ path_operands path"
| "operands (ApplyOutputPack p n t args) = PackOperand p # RegisterOperand n # target_operands t @ arguments_operands args"
| "operands (SlicePack p q s n) = [PackOperand p, PackOperand q] @ registers [s, n]"
| "operands (DeclareNamedBindings bs) = concat (map named_operands bs)"
| "operands (DeclareImports cs) = map NameOperand cs"
| "operands ClearImports = []"
| "operands (LoadConstant d c) = [RegisterOperand d, ConstantOperand c]"
| "operands (Move d s) = registers [d, s]"
| "operands (Binary b d l r) = registers [d, l, r]"
| "operands (SwitchMatch d s c) = registers [d, s, c]"
| "operands (BuildMatrix d rows) = RegisterOperand d # registers (concat rows)"
| "operands (BuildCell d rows) = RegisterOperand d # concat (map source_operands (concat rows))"
| "operands (Range d s t e) = registers [d, s, t, e]"
| "operands (Transpose d r b) = registers [d, r]"
| "operands (LoadLocal d l) = [RegisterOperand d, LocalOperand l]"
| "operands (StoreLocal l s) = [LocalOperand l, RegisterOperand s]"
| "operands (DeclareGlobal c) = [NameOperand c]"
| "operands (DeclarePersistent s) = [PersistentOperand s]"
| "operands (LoadPersistent d s) = [RegisterOperand d, PersistentOperand s]"
| "operands (StorePersistent s r) = [PersistentOperand s, RegisterOperand r]"
| "operands (LoadCallInputCount d) = registers [d]"
| "operands (LoadCallOutputCount d) = registers [d]"
| "operands (LoadVariadicInputs d) = registers [d]"
| "operands (LoadGlobal d c b) = [RegisterOperand d, NameOperand c]"
| "operands (LoadCallTarget d c) = [RegisterOperand d, NameOperand c]"
| "operands (LoadQualifiedTarget d f u c cs n) = registers [d, f, u] @ map NameOperand (c # cs)"
| "operands (ApplyBinding os t args) = registers (os @ [t]) @ arguments_operands args"
| "operands (LoadFunctionHandle d c) = [RegisterOperand d, NameOperand c]"
| "operands (LoadFunctionHandleCandidates d cs) = RegisterOperand d # map NameOperand cs"
| "operands (MakeClosure d f caps) =
     RegisterOperand d # concat (map (\<lambda>(c, r, b). NameOperand c # option_operands r) caps)"
| "operands (MakeSharedClosure d f caps) =
     RegisterOperand d # concat (map (\<lambda>(c, s). NameOperand c # shared_operands s) caps)"
| "operands (LoadCapture d c) = [RegisterOperand d, NameOperand c]"
| "operands (StoreCapture c s) = [NameOperand c, RegisterOperand s]"
| "operands (LoadGlobalOrNothing d c) = [RegisterOperand d, NameOperand c]"
| "operands (StoreGlobal c s) = [NameOperand c, RegisterOperand s]"
| "operands (ClearGlobal cs) = map NameOperand cs"
| "operands ClearGlobalAll = []"
| "operands (ClearLocal ls) = map LocalOperand ls"
| "operands (ClearCapture cs) = map NameOperand cs"
| "operands (ClearDynamicBindings cs b) = map NameOperand cs"
| "operands (RegisterClass c) = []"
| "operands (InvokeSuperclassConstructor c l args) = NameOperand c # LocalOperand l # registers args"
| "operands (GetField d ob c) = registers [d, ob] @ [NameOperand c]"
| "operands (SetField d ob c v) = registers [d, ob, v] @ [NameOperand c]"
| "operands (ApplyField os ob c args) = registers (os @ [ob]) @ NameOperand c # arguments_operands args"
| "operands (ApplyQualified os t u cs args) = registers (os @ [t, u]) @ map NameOperand cs @ arguments_operands args"
| "operands (GetQualifiedPack p t f u cs) = PackOperand p # registers [t, f, u] @ map NameOperand cs"
| "operands (BraceApply p t args) = PackOperand p # RegisterOperand t # arguments_operands args"
| "operands (GetAggregateField p t f) = PackOperand p # RegisterOperand t # field_operands f"
| "operands (AssignPlace d r path s md) = registers [d, r] @ path_operands path @ source_operands s"
| "operands (AssignBindingPlace res b r path s md) =
     option_operands res @ binding_operands b @ RegisterOperand r # path_operands path @ source_operands s"
| "operands (ResolveEnd d t i n) = registers [d, t]"
| "operands (Unpack os p) = registers os @ [PackOperand p]"
| "operands (Jump t) = [JumpOperand t]"
| "operands (JumpIfFalse c t) = [RegisterOperand c, JumpOperand t]"
| "operands (Call os c args) = registers (os @ c # args)"
| "operands (Apply os t args) = registers (os @ [t]) @ arguments_operands args"
| "operands (StatementApply t args res b) = RegisterOperand t # arguments_operands args @ result_operands res"
| "operands (StatementApplyField ob c args res b) =
     RegisterOperand ob # NameOperand c # arguments_operands args @ result_operands res"
| "operands (StatementApplyQualified t u cs args res b) =
     registers [t, u] @ map NameOperand cs @ arguments_operands args @ result_operands res"
| "operands (StatementPack p res b) = PackOperand p # result_operands res"
| "operands (StatementValue s res b) = RegisterOperand s # result_operands res"
| "operands (Display c s) = [NameOperand c, RegisterOperand s]"
| "operands (ReturnApply t args) = RegisterOperand t # arguments_operands args"
| "operands (ReturnApplyField ob c args) = RegisterOperand ob # NameOperand c # arguments_operands args"
| "operands (IndexAssign d t args v) = registers [d, t, v] @ arguments_operands args"
| "operands (ForEach it i d x) = registers [it, i, d] @ [JumpOperand x]"
| "operands (Return vs) = registers vs"
| "operands (ReturnVariadic vs v) = registers (vs @ [v])"

subsection \<open>Structural conditions\<close>

text \<open>The class and method whose constructor may run the superclass constructor from this function.\<close>

definition constructor_context :: "BytecodeModule \<Rightarrow> FunctionId \<Rightarrow> Function \<Rightarrow> ConstantId \<Rightarrow> LocalSlot \<Rightarrow> bool" where
  "constructor_context md fid fn superclass_id object \<longleftrightarrow>
     (\<exists>c mt. owners md fid = [(c, mt)] \<and> method_name mt = constructor_name (class_name c) \<and> method_kind mt = Instance \<and>
        constructor_output mt = Some object \<and> superclass c = Some (constant_text fn superclass_id))"

definition deletion_ok :: "AssignmentMode \<Rightarrow> ValueSource \<Rightarrow> bool" where
  "deletion_ok mode source \<longleftrightarrow> (mode = Delete \<longrightarrow> (\<exists>r. source = One r))"

definition well_structured :: "BytecodeModule \<Rightarrow> FunctionId \<Rightarrow> Function \<Rightarrow> InstructionKind \<Rightarrow> bool" where
  "well_structured md fid fn k =
     (case k of
        CountPlaceOutputs _ _ path \<Rightarrow> path \<noteq> []
      | BuildCell _ rows \<Rightarrow> (\<forall>row\<in>set rows. \<forall>row'\<in>set rows. length row = length row')
      | MakeClosure _ f captures \<Rightarrow>
          unat (func_get f) < length (module_functions md) \<and> distinct (map (\<lambda>x. constant_text fn (fst x)) captures)
      | MakeSharedClosure _ f captures \<Rightarrow>
          unat (func_get f) < length (module_functions md) \<and> distinct (map (\<lambda>x. constant_text fn (fst x)) captures)
      | ClearGlobal names \<Rightarrow> names \<noteq> []
      | RegisterClass c \<Rightarrow> unat (class_get c) < length (classes md)
      | InvokeSuperclassConstructor c object _ \<Rightarrow> constructor_context md fid fn c object
      | AssignPlace _ _ path source mode \<Rightarrow> path \<noteq> [] \<and> deletion_ok mode source
      | AssignBindingPlace _ _ _ path source mode \<Rightarrow> path \<noteq> [] \<and> deletion_ok mode source
      | ResolveEnd _ _ i n \<Rightarrow> unat i < unat n
      | _ \<Rightarrow> True)"

subsection \<open>The contract of an operand check\<close>

locale operand_check =
  fixes check :: "Function \<Rightarrow> 'o \<Rightarrow> checked_kind" and valid :: "Function \<Rightarrow> 'o \<Rightarrow> bool"
  assumes check_iff: "check fn x = Ok () \<longleftrightarrow> valid fn x"
begin

lemma accepts: "check fn x = Ok u \<longleftrightarrow> valid fn x"
  using check_iff by (cases u) simp

lemma accepts_all: "for_each (check fn) xs = Ok u \<longleftrightarrow> (\<forall>x\<in>set xs. valid fn x)"
  by (simp add: for_each_eq_Ok check_iff)

lemma rejects: "(\<exists>e. check fn x = Err e) \<longleftrightarrow> \<not> valid fn x"
  using check_iff [of fn x] by (cases "check fn x") auto

end

locale argument_checks =
  r: operand_check register rvalid + p: operand_check pack pvalid + n: operand_check name nvalid
  for register :: "Function \<Rightarrow> Register \<Rightarrow> checked_kind" and rvalid
    and pack :: "Function \<Rightarrow> PackRegister \<Rightarrow> checked_kind" and pvalid
    and name :: "Function \<Rightarrow> ConstantId \<Rightarrow> checked_kind" and nvalid
begin

lemma accepts_arguments:
  "verify_apply_arguments (register fn) (pack fn) arguments = Ok u \<longleftrightarrow>
     (\<forall>a\<in>set arguments. case a of ApplyArgument.Value x \<Rightarrow> rvalid fn x | ApplyArgument.Expand x \<Rightarrow> pvalid fn x | Colon \<Rightarrow> True)"
  by (auto simp: verify_apply_arguments_def for_each_eq_Ok r.accepts p.accepts split: ApplyArgument.splits)

lemma accepts_source:
  "verify_value_source (register fn) (pack fn) s = Ok u \<longleftrightarrow>
     (case s of One x \<Rightarrow> rvalid fn x | ValueSource.Expand x \<Rightarrow> pvalid fn x)"
  by (simp add: verify_value_source_def r.accepts p.accepts split: ValueSource.split)

lemma accepts_field:
  "verify_field_operand (register fn) (name fn) f = Ok u \<longleftrightarrow>
     (case f of FieldOperand.Static c \<Rightarrow> nvalid fn c | Dynamic x \<Rightarrow> rvalid fn x)"
  by (simp add: verify_field_operand_def r.accepts n.accepts split: FieldOperand.split)

lemma accepts_path:
  "verify_place_path (register fn) (pack fn) (name fn) path = Ok u \<longleftrightarrow>
     (\<forall>st\<in>set path. case st of
        Paren args \<Rightarrow> verify_apply_arguments (register fn) (pack fn) args = Ok ()
      | Brace args \<Rightarrow> verify_apply_arguments (register fn) (pack fn) args = Ok ()
      | PlaceStep.Field f \<Rightarrow> verify_field_operand (register fn) (name fn) f = Ok ())"
  unfolding verify_place_path_def for_each_eq_Ok by (intro ball_cong) (simp_all split: PlaceStep.split)

end

lemma get_eq: "get xs i = None \<longleftrightarrow> length xs \<le> unat i" "get xs i = Some x \<longleftrightarrow> unat i < length xs \<and> xs ! unat i = x"
  by (auto simp: get_def slice_get_eq)

interpretation reg: operand_check check_register "\<lambda>fn x. operand_in_range fn (RegisterOperand x)"
  by unfold_locales (simp add: check_register_def operand_in_range_def word_less_nat_alt)

interpretation pack: operand_check check_pack_register "\<lambda>fn x. operand_in_range fn (PackOperand x)"
  by unfold_locales (simp add: check_pack_register_def operand_in_range_def word_less_nat_alt)

interpretation loc: operand_check check_local "\<lambda>fn x. operand_in_range fn (LocalOperand x)"
  by unfold_locales (simp add: check_local_def operand_in_range_def word_less_nat_alt)

interpretation pers: operand_check check_persistent_slot "\<lambda>fn x. operand_in_range fn (PersistentOperand x)"
  by unfold_locales (simp add: check_persistent_slot_def operand_in_range_def word_less_nat_alt)

interpretation const: operand_check check_constant "\<lambda>fn x. operand_in_range fn (ConstantOperand x)"
  by unfold_locales (simp add: check_constant_def operand_in_range_def get_eq not_le)

interpretation gname: operand_check check_global_name "\<lambda>fn x. operand_in_range fn (NameOperand x)"
  by unfold_locales (auto simp: check_global_name_def operand_in_range_def get_eq split: option.split Constant.split)

interpretation fname: operand_check check_field_name "\<lambda>fn x. operand_in_range fn (NameOperand x)"
  by unfold_locales (auto simp: check_field_name_def operand_in_range_def get_eq split: option.split Constant.split)

interpretation jump: operand_check check_jump "\<lambda>fn x. operand_in_range fn (JumpOperand x)"
  by unfold_locales (simp add: check_jump_def operand_in_range_def get_eq not_le)

interpretation args: argument_checks check_register "\<lambda>fn x. operand_in_range fn (RegisterOperand x)"
  check_pack_register "\<lambda>fn x. operand_in_range fn (PackOperand x)"
  check_field_name "\<lambda>fn x. operand_in_range fn (NameOperand x)"
  by unfold_locales

lemmas operand_accepts = reg.accepts pack.accepts loc.accepts pers.accepts const.accepts gname.accepts
  fname.accepts jump.accepts reg.accepts_all pack.accepts_all loc.accepts_all gname.accepts_all fname.accepts_all

lemma arguments_accepted:
  "verify_apply_arguments (check_register fn) (check_pack_register fn) arguments = Ok u \<longleftrightarrow>
     (\<forall>x\<in>set (arguments_operands arguments). operand_in_range fn x)"
proof -
  have "(case a of ApplyArgument.Value x \<Rightarrow> operand_in_range fn (RegisterOperand x)
      | ApplyArgument.Expand x \<Rightarrow> operand_in_range fn (PackOperand x) | Colon \<Rightarrow> True) \<longleftrightarrow>
    (\<forall>x\<in>set (argument_operands a). operand_in_range fn x)" for a
    by (cases a) simp_all
  then show ?thesis by (simp add: args.accepts_arguments)
qed

lemma source_accepted:
  "verify_value_source (check_register fn) (check_pack_register fn) s = Ok u \<longleftrightarrow>
     (\<forall>x\<in>set (source_operands s). operand_in_range fn x)"
  by (cases s) (simp_all add: args.accepts_source)

lemma field_accepted:
  "verify_field_operand (check_register fn) (check_field_name fn) f = Ok u \<longleftrightarrow>
     (\<forall>x\<in>set (field_operands f). operand_in_range fn x)"
  by (cases f) (simp_all add: args.accepts_field)

lemma path_accepted:
  "verify_place_path (check_register fn) (check_pack_register fn) (check_field_name fn) path = Ok u \<longleftrightarrow>
     (\<forall>x\<in>set (path_operands path). operand_in_range fn x)"
proof -
  have "(case st of
        Paren args \<Rightarrow> verify_apply_arguments (check_register fn) (check_pack_register fn) args = Ok ()
      | Brace args \<Rightarrow> verify_apply_arguments (check_register fn) (check_pack_register fn) args = Ok ()
      | PlaceStep.Field f \<Rightarrow> verify_field_operand (check_register fn) (check_field_name fn) f = Ok ()) \<longleftrightarrow>
    (\<forall>x\<in>set (step_operands st). operand_in_range fn x)" for st
    by (cases st) (simp_all add: arguments_accepted field_accepted)
  then show ?thesis by (simp add: args.accepts_path)
qed

lemma target_accepted:
  "verify_pack_target fn t = Ok u \<longleftrightarrow> (\<forall>x\<in>set (target_operands t). operand_in_range fn x)"
  by (cases t) (simp_all add: verify_pack_target_def result_simps operand_accepts)

lemma binding_accepted:
  "verify_binding_target fn b = Ok u \<longleftrightarrow> (\<forall>x\<in>set (binding_operands b). operand_in_range fn x)"
  by (cases b) (simp_all add: verify_binding_target_def operand_accepts)

lemma named_accepted:
  "verify_named_binding fn b = Ok u \<longleftrightarrow> (\<forall>x\<in>set (named_operands b). operand_in_range fn x)"
  by (cases b rule: named_operands.cases) (simp_all add: verify_named_binding_def result_simps operand_accepts)

lemma result_accepted:
  "verify_statement_result fn t = Ok u \<longleftrightarrow> (\<forall>x\<in>set (result_operands t). operand_in_range fn x)"
  by (cases t) (simp_all add: verify_statement_result_def operand_accepts)

lemmas composite_accepts = arguments_accepted source_accepted field_accepted path_accepted target_accepted
  binding_accepted named_accepted result_accepted

lemma cell_rows_accepted:
  "verify_cell_rows rows = Ok u \<longleftrightarrow> (\<forall>row\<in>set rows. \<forall>row'\<in>set rows. length row = length row')"
proof (cases rows)
  case (Cons first rest)
  have "drop 1 (enumerate 0 rows) = enumerate 1 rest" by (simp add: Cons)
  moreover have "(\<forall>x\<in>set (enumerate n rest). length (snd x) = length first) \<longleftrightarrow> (\<forall>row\<in>set rest. length row = length first)" for n
    by (induction rest arbitrary: n) auto
  ultimately have "verify_cell_rows rows = Ok u \<longleftrightarrow> (\<forall>row\<in>set rest. length row = length first)"
    by (simp add: verify_cell_rows_def Cons for_each_eq_Ok case_prod_unfold split: if_splits)
  also have "\<dots> \<longleftrightarrow> (\<forall>row\<in>set rows. \<forall>row'\<in>set rows. length row = length row')"
    by (auto simp: Cons)
  finally show ?thesis .
qed (simp add: verify_cell_rows_def)

lemma constant_text_string: "operand_in_range fn (NameOperand c) \<Longrightarrow> constants fn ! unat (const_get c) = String (constant_text fn c)"
  by (auto simp: operand_in_range_def constant_text_def get_def slice_get_def)

lemma captures_accepted:
  "(\<exists>names'. fold_result (verify_capture fn check_source) names captures = Ok names') \<longleftrightarrow>
     (\<forall>(c, s)\<in>set captures. operand_in_range fn (NameOperand c) \<and> check_source s = Ok ()) \<and>
     distinct (map (\<lambda>x. constant_text fn (fst x)) captures) \<and>
     set (map (\<lambda>x. constant_text fn (fst x)) captures) \<inter> names = {}"
proof (induction captures arbitrary: names)
  case (Cons x captures)
  obtain c s where x: "x = (c, s)" by (cases x)
  have "(\<exists>names'. fold_result (verify_capture fn check_source) names (x # captures) = Ok names') \<longleftrightarrow>
    operand_in_range fn (NameOperand c) \<and> check_source s = Ok () \<and> constant_text fn c \<notin> names \<and>
    (\<exists>names'. fold_result (verify_capture fn check_source) (insert (constant_text fn c) names) captures = Ok names')"
    by (auto simp: x verify_capture_def result_simps gname.accepts)
  then show ?case unfolding Cons.IH by (auto simp: x)
qed simp

lemma make_closure_accepted:
  "verify_make_closure md fn dst f captures = Ok u \<longleftrightarrow>
     (\<forall>x\<in>set (operands (MakeClosure dst f captures)). operand_in_range fn x) \<and>
     well_structured md fid fn (MakeClosure dst f captures)"
proof -
  have "(case r of (s, _) \<Rightarrow> case s of Some r \<Rightarrow> check_register fn r | None \<Rightarrow> Ok ()) = Ok () \<longleftrightarrow>
    (\<forall>x\<in>set (option_operands (fst r)). operand_in_range fn x)" for r :: "Register option \<times> bool"
    by (auto simp: option_operands_def reg.accepts split: prod.split option.split)
  then show ?thesis
    unfolding verify_make_closure_def well_structured_def verify_closure_function_def
    by (simp add: all_checks_eq_Ok and_then_eq_Ok reg.accepts get_eq captures_accepted not_le) (auto split: prod.splits)
qed

lemma make_shared_closure_accepted:
  "verify_make_shared_closure md fn dst f captures = Ok u \<longleftrightarrow>
     (\<forall>x\<in>set (operands (MakeSharedClosure dst f captures)). operand_in_range fn x) \<and>
     well_structured md fid fn (MakeSharedClosure dst f captures)"
proof -
  have "(case s of SharedCaptureSource.Local slot \<Rightarrow> check_local fn slot | Enclosing \<Rightarrow> Ok ()) = Ok () \<longleftrightarrow>
    (\<forall>x\<in>set (shared_operands s). operand_in_range fn x)" for s
    by (cases s) (simp_all add: loc.accepts)
  then show ?thesis
    unfolding verify_make_shared_closure_def well_structured_def verify_closure_function_def
    by (simp add: all_checks_eq_Ok and_then_eq_Ok reg.accepts get_eq captures_accepted not_le) (auto split: prod.splits)
qed

lemma superclass_context_accepted:
  assumes "operand_in_range fn (NameOperand c)"
  shows "verify_superclass_constructor_context md fid fn c object = Ok u \<longleftrightarrow> constructor_context md fid fn c object"
proof -
  have "get (constants fn) (const_get c) = Some (String (constant_text fn c))"
    using assms constant_text_string [OF assms] by (simp add: get_eq operand_in_range_def)
  then show ?thesis
    by (auto simp: verify_superclass_constructor_context_def constructor_context_def split: list.split option.split)
qed

lemma deletion_accepted:
  "(mode = Delete \<longrightarrow> \<not> (case source of One _ \<Rightarrow> False | ValueSource.Expand _ \<Rightarrow> True)) \<longleftrightarrow> deletion_ok mode source"
  by (cases source) (auto simp: deletion_ok_def)

lemma option_accepted:
  "(case r of None \<Rightarrow> Ok () | Some x \<Rightarrow> check_register fn x) = Ok () \<longleftrightarrow>
     (\<forall>x\<in>set (option_operands r). operand_in_range fn x)"
  by (cases r) (simp_all add: option_operands_def reg.accepts)

lemma operands_accepted:
  "verify_operands md fid fn k = Ok () \<longleftrightarrow>
     (\<forall>x\<in>set (operands k). operand_in_range fn x) \<and> well_structured md fid fn k"
proof (cases k)
  case (MakeClosure dst f captures)
  then show ?thesis by (simp add: make_closure_accepted [of _ _ _ _ _ _ fid])
next
  case (MakeSharedClosure dst f captures)
  then show ?thesis by (simp add: make_shared_closure_accepted [of _ _ _ _ _ _ fid])
next
  case (InvokeSuperclassConstructor c object arguments)
  then show ?thesis
    by (auto simp: verify_invoke_superclass_def well_structured_def result_simps operand_accepts superclass_context_accepted)
next
  case (ResolveEnd dst target i n)
  moreover have "n \<noteq> 0 \<and> unat i < unat n \<longleftrightarrow> unat i < unat n" by auto
  ultimately show ?thesis
    by (simp add: verify_resolve_end_def well_structured_def result_simps operand_accepts word_less_nat_alt)
qed (simp_all add: verify_simps well_structured_def result_simps operand_accepts composite_accepts cell_rows_accepted
    deletion_accepted option_accepted get_eq ball_Un conj_ac not_le)

text \<open>
  the check of one instruction's operands succeeds exactly when every operand the instruction
  mentions is in range of its function (registers, packs, locals and persistent slots below the
  declared counts, constants inside the pool, names string constants, jump targets inside the
  instruction stream) and its structural condition holds.
\<close>

theorem verify_operands_exact:
  "verify_operands md fid fn k = Ok () \<longleftrightarrow>
     (\<forall>x\<in>set (operands k). operand_in_range fn x) \<and> well_structured md fid fn k"
  by (rule operands_accepted)

definition sample_frame :: Function where
  "sample_frame = (function_new ''f'' 3 1 0)\<lparr>constants := [String ''x'', Nothing]\<rparr>"

theorem verify_operands_exact_witness:
  "verify_operands (module_new [] (FunctionId 0)) (FunctionId 0) sample_frame (GetField (Register 0) (Register 2) (ConstantId 0)) = Ok () \<and>
   verify_operands (module_new [] (FunctionId 0)) (FunctionId 0) sample_frame (GetField (Register 0) (Register 3) (ConstantId 0)) \<noteq> Ok () \<and>
   verify_operands (module_new [] (FunctionId 0)) (FunctionId 0) sample_frame (GetField (Register 0) (Register 2) (ConstantId 1)) \<noteq> Ok ()"
  unfolding verify_operands_exact
  by (simp add: well_structured_def operand_in_range_def sample_frame_def function_new_def)

end
