(* ===== verification/Bytecode_Handlers.thy ===== *)
theory Bytecode_Handlers
  imports Bytecode_Instructions "HOL-Library.Multiset"
begin

section \<open>Exception tables: verification and handler selection\<close>

text \<open>
  The verifier's checks of a function's exception table (openmat-bytecode/src/verify.rs) and the
  interpreter's choice of the innermost handler (openmat-runtime/src/interpreter.rs). Verified
  tables are laminar: two protected ranges are disjoint or one strictly encloses the other, so the
  choice by shortest range is the unique nearest handler, whatever the order of the table.
\<close>

subsection \<open>Verification\<close>

definition exception_handler_error :: "FunctionId \<Rightarrow> ExceptionHandler \<Rightarrow> VerificationErrorKind \<Rightarrow> VerificationError" where
  "exception_handler_error fid h kind =
     \<lparr>error_function = Some fid, error_instruction = None, error_location = handler_location h, error_kind = kind\<rparr>"

definition verify_catch :: "Function \<Rightarrow> ExceptionHandler \<Rightarrow> InstructionIndex \<Rightarrow> LocalSlot option \<Rightarrow> Instruction \<Rightarrow> checked_kind" where
  "verify_catch fn h catch_index error_local end_instruction =
     all_checks [
       ensure (get (instructions fn) (index_get catch_index) \<noteq> None)
         (InvalidExceptionHandler catch_index (length (instructions fn))),
       ensure (checked_add u32_max (unat (index_get (protected_end h))) 1 = Some (unat (index_get catch_index)) \<and> catch_index \<le> exit h)
         (InvalidExceptionCatchOrder (protected_end h) catch_index (exit h)),
       case error_local of Some l \<Rightarrow> check_local fn l | None \<Rightarrow> Ok (),
       ensure (instr_kind end_instruction = Jump (exit h)) (InvalidExceptionCatchSkip (protected_end h) (exit h))]"

definition verify_exception_handler :: "FunctionId \<Rightarrow> Function \<Rightarrow> ExceptionHandler \<Rightarrow> verified" where
  "verify_exception_handler fid fn h =
     map_err (exception_handler_error fid h)
       (case (get (instructions fn) (index_get (protected_start h)), get (instructions fn) (index_get (protected_end h))) of
          (Some _, Some end_instruction) \<Rightarrow>
            if protected_start h \<ge> protected_end h
            then Err (InvalidExceptionProtectedRange (protected_start h) (protected_end h) (length (instructions fn)))
            else if get (instructions fn) (index_get (exit h)) = None
            then Err (InvalidExceptionExit (exit h) (length (instructions fn)))
            else
              (case handler_kind h of
                 Catch catch_index error_local \<Rightarrow> verify_catch fn h catch_index error_local end_instruction
               | Swallow \<Rightarrow>
                   ensure (protected_end h = exit h) (InvalidExceptionSwallowExit (protected_end h) (exit h)))
        | _ \<Rightarrow> Err (InvalidExceptionProtectedRange (protected_start h) (protected_end h) (length (instructions fn))))"

definition contains_range :: "ExceptionHandler \<Rightarrow> ExceptionHandler \<Rightarrow> bool" where
  "contains_range a b \<longleftrightarrow> protected_start a \<le> protected_start b \<and> protected_end b \<le> protected_end a"

definition verify_nested_pair :: "FunctionId \<Rightarrow> ExceptionHandler \<Rightarrow> ExceptionHandler \<Rightarrow> verified" where
  "verify_nested_pair fid outer inner =
     (if exit inner > protected_end outer
      then Err (exception_handler_error fid inner
        (NestedExceptionHandlerEscapes (protected_start outer) (protected_end outer)
          (protected_start inner) (protected_end inner) (exit inner)))
      else Ok ())"

definition verify_range_pair :: "FunctionId \<Rightarrow> ExceptionHandler \<Rightarrow> ExceptionHandler \<Rightarrow> verified" where
  "verify_range_pair fid first second =
     (if protected_start first = protected_start second \<and> protected_end first = protected_end second
      then Err (exception_handler_error fid second (DuplicateExceptionRange (protected_start second) (protected_end second)))
      else if (protected_start first < protected_end second \<and> protected_start second < protected_end first) \<and>
        \<not> contains_range first second \<and> \<not> contains_range second first
      then Err (exception_handler_error fid second
        (CrossingExceptionRanges (protected_start first) (protected_end first) (protected_start second) (protected_end second)))
      else if contains_range first second then verify_nested_pair fid first second
      else if contains_range second first then verify_nested_pair fid second first
      else Ok ())"

fun verify_exception_range_nesting :: "FunctionId \<Rightarrow> ExceptionHandler list \<Rightarrow> verified" where
  "verify_exception_range_nesting fid [] = Ok ()"
| "verify_exception_range_nesting fid (first # rest) =
     and_then (for_each (verify_range_pair fid first) rest) (\<lambda>_. verify_exception_range_nesting fid rest)"

definition verify_exception_handlers :: "FunctionId \<Rightarrow> Function \<Rightarrow> verified" where
  "verify_exception_handlers fid fn =
     and_then (for_each (verify_exception_handler fid fn) (exception_handlers fn)) (\<lambda>_.
       verify_exception_range_nesting fid (exception_handlers fn))"

subsection \<open>Selection (openmat-runtime/src/interpreter.rs)\<close>

fun min_by_key :: "('a \<Rightarrow> 'k::linorder) \<Rightarrow> 'a list \<Rightarrow> 'a option" where
  "min_by_key key [] = None"
| "min_by_key key (x # xs) = Some (fold (\<lambda>y best. if key y < key best then y else best) xs x)"

definition protects :: "InstructionIndex \<Rightarrow> ExceptionHandler \<Rightarrow> bool" where
  "protects i h \<longleftrightarrow> protected_start h \<le> i \<and> i < protected_end h"

definition innermost_exception_handler :: "Function \<Rightarrow> InstructionIndex \<Rightarrow> ExceptionHandler option" where
  "innermost_exception_handler fn i =
     min_by_key (\<lambda>h. unat (index_get (protected_end h)) - unat (index_get (protected_start h)))
       (filter (protects i) (exception_handlers fn))"

subsection \<open>What a verified table satisfies\<close>

definition handler_ok :: "Function \<Rightarrow> ExceptionHandler \<Rightarrow> bool" where
  "handler_ok fn h \<longleftrightarrow>
     protected_start h < protected_end h \<and> unat (index_get (protected_end h)) < length (instructions fn) \<and>
     unat (index_get (exit h)) < length (instructions fn) \<and>
     (case handler_kind h of
        Catch c l \<Rightarrow>
          unat (index_get c) = Suc (unat (index_get (protected_end h))) \<and> c \<le> exit h \<and>
          (\<forall>x. l = Some x \<longrightarrow> operand_in_range fn (LocalOperand x)) \<and>
          instr_kind (instructions fn ! unat (index_get (protected_end h))) = Jump (exit h)
      | Swallow \<Rightarrow> exit h = protected_end h)"

definition encloses :: "ExceptionHandler \<Rightarrow> ExceptionHandler \<Rightarrow> bool" where
  "encloses outer inner \<longleftrightarrow> contains_range outer inner \<and> \<not> contains_range inner outer \<and> exit inner \<le> protected_end outer"

definition disjoint_ranges :: "ExceptionHandler \<Rightarrow> ExceptionHandler \<Rightarrow> bool" where
  "disjoint_ranges a b \<longleftrightarrow> protected_end a \<le> protected_start b \<or> protected_end b \<le> protected_start a"

definition laminar :: "ExceptionHandler list \<Rightarrow> bool" where
  "laminar hs \<longleftrightarrow> sorted_wrt (\<lambda>a b. disjoint_ranges a b \<or> encloses a b \<or> encloses b a) hs"

lemma index_less_unat: "a < b \<longleftrightarrow> unat (index_get a) < unat (index_get b)" for a b :: InstructionIndex
  by (simp add: less_InstructionIndex_def word_less_nat_alt)

lemma index_le_unat: "a \<le> b \<longleftrightarrow> unat (index_get a) \<le> unat (index_get b)" for a b :: InstructionIndex
  by (simp add: less_eq_InstructionIndex_def word_le_nat_alt)

lemma verify_exception_handler_iff:
  "verify_exception_handler fid fn h = Ok u \<longleftrightarrow> handler_ok fn h"
proof -
  have local_ok: "(case l of Some x \<Rightarrow> check_local fn x | None \<Rightarrow> Ok ()) = Ok () \<longleftrightarrow>
      (\<forall>x. l = Some x \<longrightarrow> operand_in_range fn (LocalOperand x))" for l
    by (cases l) (simp_all add: loc.accepts)
  have "unat w \<le> u32_max" for w :: "32 word"
    using unsigned_less [of w, where 'a = nat] by (simp add: u32_max_def)
  then have add1: "checked_add u32_max (unat w) 1 = Some (unat v) \<longleftrightarrow> unat v = Suc (unat w)" for v w :: "32 word"
    by (metis Suc_eq_plus1 checked_eq_Some(1))
  show ?thesis
    unfolding verify_exception_handler_def handler_ok_def verify_catch_def map_err_eq_Ok
    by (auto simp: get_eq result_simps local_ok add1 [unfolded One_nat_def] index_less_unat index_le_unat split: option.splits ExceptionHandlerKind.splits)
qed

lemma handler_ok_range: "handler_ok fn h \<Longrightarrow> protected_start h < protected_end h"
  by (simp add: handler_ok_def)

lemma index_eq_unat: "a = b \<longleftrightarrow> unat (index_get a) = unat (index_get b)" for a b :: InstructionIndex
  by (cases a; cases b) (simp add: word_unat_eq_iff)

text \<open>The arithmetic of two ranges, from \<open>s\<close> to \<open>e\<close> with exit \<open>x\<close>.\<close>

lemma range_pair_arithmetic:
  fixes sa ea xa sb eb xb :: nat
  assumes "sa < ea" and "sb < eb"
  shows "(\<not> (sa = sb \<and> ea = eb) \<and>
      (sa < eb \<and> sb < ea \<longrightarrow> (sa \<le> sb \<and> eb \<le> ea) \<or> (sb \<le> sa \<and> ea \<le> eb)) \<and>
      (sa \<le> sb \<and> eb \<le> ea \<longrightarrow> xb \<le> ea) \<and>
      (\<not> (sa \<le> sb \<and> eb \<le> ea) \<and> (sb \<le> sa \<and> ea \<le> eb) \<longrightarrow> xa \<le> eb)) \<longleftrightarrow>
    ((ea \<le> sb \<or> eb \<le> sa) \<or>
     (sa \<le> sb \<and> eb \<le> ea) \<and> \<not> (sb \<le> sa \<and> ea \<le> eb) \<and> xb \<le> ea \<or>
     (sb \<le> sa \<and> ea \<le> eb) \<and> \<not> (sa \<le> sb \<and> eb \<le> ea) \<and> xa \<le> eb)"
  using assms by presburger

lemma verify_range_pair_iff:
  assumes "protected_start a < protected_end a" and "protected_start b < protected_end b"
  shows "verify_range_pair fid a b = Ok u \<longleftrightarrow> disjoint_ranges a b \<or> encloses a b \<or> encloses b a"
proof -
  have "verify_range_pair fid a b = Ok u \<longleftrightarrow>
      \<not> (protected_start a = protected_start b \<and> protected_end a = protected_end b) \<and>
      (protected_start a < protected_end b \<and> protected_start b < protected_end a \<longrightarrow> contains_range a b \<or> contains_range b a) \<and>
      (contains_range a b \<longrightarrow> exit b \<le> protected_end a) \<and>
      (\<not> contains_range a b \<and> contains_range b a \<longrightarrow> exit a \<le> protected_end b)"
    by (simp add: verify_range_pair_def verify_nested_pair_def not_less [symmetric])
  also have "\<dots> \<longleftrightarrow> disjoint_ranges a b \<or> encloses a b \<or> encloses b a"
    using assms
    unfolding contains_range_def encloses_def disjoint_ranges_def index_eq_unat index_less_unat index_le_unat
    by (rule range_pair_arithmetic)
  finally show ?thesis .
qed

lemma verify_nesting_iff:
  assumes "\<forall>h\<in>set hs. protected_start h < protected_end h"
  shows "verify_exception_range_nesting fid hs = Ok u \<longleftrightarrow> laminar hs"
  using assms
proof (induction hs)
  case (Cons a hs)
  have "for_each (verify_range_pair fid a) hs = Ok () \<longleftrightarrow>
    (\<forall>b\<in>set hs. disjoint_ranges a b \<or> encloses a b \<or> encloses b a)"
    unfolding for_each_eq_Ok using Cons.prems by (intro ball_cong refl verify_range_pair_iff) auto
  with Cons show ?case by (simp add: laminar_def and_then_eq_Ok)
qed (simp add: laminar_def)

lemma verify_exception_handlers_iff:
  "verify_exception_handlers fid fn = Ok u \<longleftrightarrow>
     (\<forall>h\<in>set (exception_handlers fn). handler_ok fn h) \<and> laminar (exception_handlers fn)"
  using verify_nesting_iff [of "exception_handlers fn" fid u] handler_ok_range
  unfolding verify_exception_handlers_def and_then_eq_Ok for_each_eq_Ok verify_exception_handler_iff by blast

subsection \<open>The nearest handler\<close>

lemma fold_min_by_key:
  "fold (\<lambda>y best. if key y < key best then y else best) xs x \<in> insert x (set xs) \<and>
   (\<forall>y\<in>insert x (set xs). key (fold (\<lambda>y best. if key y < key best then y else best) xs x) \<le> (key y :: 'k::linorder))"
proof (induction xs arbitrary: x)
  case (Cons z xs)
  let ?x = "if key z < key x then z else x"
  show ?case using Cons.IH [of ?x] by (auto split: if_splits)
qed simp

lemma min_by_key_None: "min_by_key key xs = None \<longleftrightarrow> xs = []"
  by (cases xs) simp_all

lemma min_by_key_Some:
  assumes "min_by_key key xs = Some m"
  shows "m \<in> set xs" and "x \<in> set xs \<Longrightarrow> key m \<le> key x"
  using assms fold_min_by_key [of key] by (cases xs; force)+

lemma laminar_pair:
  assumes "laminar hs" and "a \<in> set hs" and "b \<in> set hs" and "a \<noteq> b"
  shows "disjoint_ranges a b \<or> encloses a b \<or> encloses b a"
proof -
  obtain i j where ij: "i < length hs" "j < length hs" "hs ! i = a" "hs ! j = b" "i \<noteq> j"
    using assms(2-4) by (metis in_set_conv_nth)
  then show ?thesis
    using assms(1) unfolding laminar_def sorted_wrt_iff_nth_less disjoint_ranges_def
    by (cases i j rule: linorder_cases) blast+
qed

lemma encloses_shorter:
  assumes "encloses a b" and "protected_start b < protected_end b"
  shows "unat (index_get (protected_end b)) - unat (index_get (protected_start b)) <
    unat (index_get (protected_end a)) - unat (index_get (protected_start a))"
  using assms unfolding encloses_def contains_range_def index_le_unat index_less_unat by linarith

lemma both_protect_encloses:
  assumes ok: "verify_exception_handlers fid fn = Ok ()" and "a \<in> set (exception_handlers fn)" and "b \<in> set (exception_handlers fn)"
    and "protects i a" and "protects i b" and "a \<noteq> b"
  shows "encloses a b \<or> encloses b a"
  using laminar_pair [of "exception_handlers fn" a b] assms
  unfolding verify_exception_handlers_iff protects_def disjoint_ranges_def by auto

lemma innermost_characterisation:
  assumes ok: "verify_exception_handlers fid fn = Ok ()"
  shows "innermost_exception_handler fn i = Some h \<longleftrightarrow>
    h \<in> set (exception_handlers fn) \<and> protects i h \<and>
    (\<forall>g\<in>set (exception_handlers fn). protects i g \<and> g \<noteq> h \<longrightarrow> encloses g h)"
    (is "?l \<longleftrightarrow> ?r h")
proof -
  let ?key = "\<lambda>h. unat (index_get (protected_end h)) - unat (index_get (protected_start h))"
  have range: "protected_start h < protected_end h" if "h \<in> set (exception_handlers fn)" for h
    using ok that handler_ok_range by (auto simp: verify_exception_handlers_iff)
  have chosen: "?r m" if m: "innermost_exception_handler fn i = Some m" for m
  proof -
    note min = min_by_key_Some [OF m [unfolded innermost_exception_handler_def]]
    have "encloses g m" if "g \<in> set (exception_handlers fn)" "protects i g" "g \<noteq> m" for g
      using both_protect_encloses [OF ok that(1) _ that(2) _ that(3), of ] min(1) min(2) [of g] that
        encloses_shorter [of m g] range by (force simp: not_le [symmetric])
    with min(1) show ?thesis by auto
  qed
  show ?thesis
  proof
    assume r: "?r h"
    then have "innermost_exception_handler fn i \<noteq> None"
      by (auto simp: innermost_exception_handler_def min_by_key_None filter_empty_conv)
    then obtain m where m: "innermost_exception_handler fn i = Some m" by blast
    have "m = h"
    proof (rule ccontr)
      assume "m \<noteq> h"
      with r chosen [OF m] have "encloses m h" "encloses h m" by auto
      then show False by (simp add: encloses_def)
    qed
    with m show ?l by simp
  qed (rule chosen)
qed

lemma laminar_iff_distinct:
  assumes "\<forall>h\<in>set hs. protected_start h < protected_end h"
  shows "laminar hs \<longleftrightarrow> distinct hs \<and>
    (\<forall>a\<in>set hs. \<forall>b\<in>set hs. a \<noteq> b \<longrightarrow> disjoint_ranges a b \<or> encloses a b \<or> encloses b a)"
  using assms
proof (induction hs)
  case (Cons x hs)
  have sym: "disjoint_ranges a b \<longleftrightarrow> disjoint_ranges b a" for a b by (auto simp: disjoint_ranges_def)
  have "\<not> (disjoint_ranges x x \<or> encloses x x)"
    using Cons.prems by (auto simp: disjoint_ranges_def encloses_def)
  with Cons sym show ?case by (auto simp: laminar_def)
qed (simp add: laminar_def)

lemma handlers_ok_cong:
  assumes "instructions fn' = instructions fn" and "local_count fn' = local_count fn"
  shows "handler_ok fn' h \<longleftrightarrow> handler_ok fn h"
  by (cases "handler_kind h") (simp_all add: handler_ok_def assms operand_in_range_def)

lemma verify_handlers_mset:
  assumes ok: "verify_exception_handlers fid fn = Ok ()" and perm: "mset hs = mset (exception_handlers fn)"
  shows "verify_exception_handlers fid (with_exception_handlers fn hs) = Ok ()"
proof -
  have eq: "set hs = set (exception_handlers fn)" "distinct hs \<longleftrightarrow> distinct (exception_handlers fn)"
    using perm by (metis set_mset_mset, metis mset_eq_imp_distinct_iff)
  have range: "\<forall>h\<in>set (exception_handlers fn). protected_start h < protected_end h"
    using ok handler_ok_range by (auto simp: verify_exception_handlers_iff)
  have "laminar hs"
    using ok range laminar_iff_distinct [of hs] laminar_iff_distinct [of "exception_handlers fn"]
    by (simp add: eq verify_exception_handlers_iff)
  moreover have "handler_ok (with_exception_handlers fn hs) h \<longleftrightarrow> handler_ok fn h" for h
    by (rule handlers_ok_cong) (simp_all add: with_exception_handlers_def)
  ultimately show ?thesis
    using ok by (simp add: verify_exception_handlers_iff eq(1) with_exception_handlers_def)
qed

subsection \<open>Properties\<close>

text \<open>A function with a catch around instructions 0 and 1 and a swallowing range inside it.\<close>

definition sample_handlers :: "ExceptionHandler list" where
  "sample_handlers =
     [catch (InstructionIndex 0) (InstructionIndex 2) (InstructionIndex 3) (InstructionIndex 3) (Some (LocalSlot 0)),
      swallow (InstructionIndex 0) (InstructionIndex 1) (InstructionIndex 1)]"

definition sample_function :: Function where
  "sample_function =
     with_exception_handlers
       ((function_new ''f'' 2 1 0)\<lparr>instructions := map instruction_new
          [LoadLocal (Register 0) (LocalSlot 0), Move (Register 1) (Register 0), Jump (InstructionIndex 3), Return []]\<rparr>)
       sample_handlers"

lemma sample_function_simps:
  "instructions sample_function = map instruction_new
     [LoadLocal (Register 0) (LocalSlot 0), Move (Register 1) (Register 0), Jump (InstructionIndex 3), Return []]"
  "exception_handlers sample_function = sample_handlers" "local_count sample_function = 1"
  "register_count sample_function = 2"
  by (simp_all add: sample_function_def with_exception_handlers_def function_new_def)

lemma sample_function_verified: "verify_exception_handlers fid sample_function = Ok ()"
  unfolding verify_exception_handlers_iff sample_function_simps
  by (simp add: sample_handlers_def laminar_def handler_ok_def sample_function_simps catch_def swallow_def
      operand_in_range_def instruction_new_def encloses_def contains_range_def disjoint_ranges_def word_le_nat_alt)

text \<open>
  an exception table is accepted exactly when every record is well formed (a non-empty protected
  range inside the stream, an exit inside it, a catch entry right behind the jump that ends the
  protected body and not behind the exit, a catch local of the frame, or an exit at the end of the
  body for a swallowing range) and the ranges are laminar: pairwise disjoint, or one strictly
  enclosing the other together with its whole construct.
\<close>

theorem exception_table_exact:
  "verify_exception_handlers fid fn = Ok () \<longleftrightarrow>
     (\<forall>h\<in>set (exception_handlers fn). handler_ok fn h) \<and> laminar (exception_handlers fn)"
  by (rule verify_exception_handlers_iff)

theorem exception_table_exact_witness:
  "verify_exception_handlers (FunctionId 0) sample_function = Ok () \<and> laminar sample_handlers"
  using exception_table_exact [of "FunctionId 0" sample_function] sample_function_verified
  by (simp add: sample_function_simps)

text \<open>
  C23: in a verified function the handler the interpreter selects for a failing instruction protects
  it and lies strictly inside every other handler that protects it; none is selected only when no
  range covers the instruction; and reordering the table changes neither the verdict of the verifier
  nor the selection.
\<close>

theorem innermost_handler_nearest:
  assumes ok: "verify_exception_handlers fid fn = Ok ()" and perm: "mset hs = mset (exception_handlers fn)"
  shows "(innermost_exception_handler fn i = Some h \<longleftrightarrow>
      h \<in> set (exception_handlers fn) \<and> protects i h \<and>
      (\<forall>g\<in>set (exception_handlers fn). protects i g \<and> g \<noteq> h \<longrightarrow> encloses g h)) \<and>
    (innermost_exception_handler fn i = None \<longleftrightarrow> (\<forall>g\<in>set (exception_handlers fn). \<not> protects i g)) \<and>
    verify_exception_handlers fid (with_exception_handlers fn hs) = Ok () \<and>
    innermost_exception_handler (with_exception_handlers fn hs) i = innermost_exception_handler fn i"
proof -
  have none: "innermost_exception_handler f i = None \<longleftrightarrow> (\<forall>g\<in>set (exception_handlers f). \<not> protects i g)" for f
    by (simp add: innermost_exception_handler_def min_by_key_None filter_empty_conv)
  have ok': "verify_exception_handlers fid (with_exception_handlers fn hs) = Ok ()"
    by (rule verify_handlers_mset [OF ok perm])
  have "set (exception_handlers (with_exception_handlers fn hs)) = set (exception_handlers fn)"
    using perm by (simp add: with_exception_handlers_def) (metis set_mset_mset)
  then have "innermost_exception_handler (with_exception_handlers fn hs) i = Some g \<longleftrightarrow>
      innermost_exception_handler fn i = Some g" for g
    using innermost_characterisation [OF ok, of i g] innermost_characterisation [OF ok', of i g] by simp
  then have "innermost_exception_handler (with_exception_handlers fn hs) i = innermost_exception_handler fn i"
    by (metis not_None_eq)
  with ok' innermost_characterisation [OF ok] none show ?thesis by blast
qed

theorem innermost_handler_nearest_witness:
  "innermost_exception_handler (with_exception_handlers sample_function (rev sample_handlers)) (InstructionIndex 0) =
     Some (swallow (InstructionIndex 0) (InstructionIndex 1) (InstructionIndex 1))"
proof -
  have "innermost_exception_handler sample_function (InstructionIndex 0) =
     Some (swallow (InstructionIndex 0) (InstructionIndex 1) (InstructionIndex 1))"
    by (simp add: innermost_exception_handler_def sample_function_simps sample_handlers_def catch_def swallow_def protects_def)
  then show ?thesis
    using innermost_handler_nearest [OF sample_function_verified, of "rev sample_handlers" "InstructionIndex 0"]
    by (simp add: sample_function_simps)
qed

end
