(* ===== verification/Bytecode_Classes.thy ===== *)
theory Bytecode_Classes
  imports Bytecode_Instructions
begin

section \<open>Verification of the class table (openmat-bytecode/src/verify.rs)\<close>

text \<open>
  The checks of class headers, properties, methods, dependent accessors and the separate feature
  records (enumeration members, events, abstract properties, sealed methods), each loop with the set
  of names it has already seen.
\<close>

definition class_error :: "FunctionId option \<Rightarrow> SourceLocation \<Rightarrow> VerificationErrorKind \<Rightarrow> VerificationError" where
  "class_error fid loc kind =
     \<lparr>error_function = fid, error_instruction = None, error_location = Some loc, error_kind = kind\<rparr>"

subsection \<open>Headers and special methods\<close>

definition verify_superclass :: "ClassDefinition \<Rightarrow> verified" where
  "verify_superclass c =
     (case superclass c of
        None \<Rightarrow> Ok ()
      | Some base \<Rightarrow>
          if base = '''' then Err (class_error None (class_location c) (EmptySuperclassName (class_name c)))
          else if base = class_name c then Err (class_error None (class_location c) (SelfSuperclass (class_name c)))
          else Ok ())"

definition split_once :: "char \<Rightarrow> string \<Rightarrow> (string \<times> string) option" where
  "split_once sep s =
     (if sep \<in> set s then Some (takeWhile (\<lambda>x. x \<noteq> sep) s, tl (dropWhile (\<lambda>x. x \<noteq> sep) s)) else None)"

definition accessor_parts :: "string \<Rightarrow> (string \<times> string) option" where
  "accessor_parts name =
     (case split_once CHR ''.'' name of
        None \<Rightarrow> None
      | Some (kind, property) \<Rightarrow>
          if (kind = ''get'' \<or> kind = ''set'') \<and> property \<noteq> '''' \<and> CHR ''.'' \<notin> set property
          then Some (kind, property) else None)"

fun find_map :: "('a \<Rightarrow> 'b option) \<Rightarrow> 'a list \<Rightarrow> 'b option" where
  "find_map f [] = None"
| "find_map f (x # xs) = (case f x of Some y \<Rightarrow> Some y | None \<Rightarrow> find_map f xs)"

definition returned_count :: "Instruction \<Rightarrow> nat option" where
  "returned_count ins = (case instr_kind ins of Return vs \<Rightarrow> Some (length vs) | _ \<Rightarrow> None)"

definition returns_exactly :: "32 word \<Rightarrow> Instruction \<Rightarrow> bool" where
  "returns_exactly n ins =
     (case returned_count ins of Some k \<Rightarrow> try_from u32_max k = Some (unat n) | None \<Rightarrow> True)"

definition verify_special_method_signature :: "BytecodeModule \<Rightarrow> ClassDefinition \<Rightarrow> MethodDefinition \<Rightarrow> 32 word \<Rightarrow> 32 word \<Rightarrow> verified" where
  "verify_special_method_signature md c mt expected_parameters expected_outputs =
     (if method_kind mt \<noteq> Instance
      then Err (class_error (Some (method_function mt)) (method_location mt)
        (SpecialMethodMustBeInstance (class_name c) (method_name mt)))
      else
        (case get (module_functions md) (func_get (method_function mt)) of
           None \<Rightarrow> Ok ()
         | Some fn \<Rightarrow>
             let actual_outputs = find_map (\<lambda>ins. case returned_count ins of
                   Some k \<Rightarrow> map_option of_nat (try_from u32_max k) | None \<Rightarrow> None) (instructions fn);
                 outputs_match = (actual_outputs = Some expected_outputs \<and>
                   list_all (returns_exactly expected_outputs) (instructions fn))
             in if parameter_count fn \<noteq> expected_parameters \<or> \<not> outputs_match
                then Err (class_error (Some (method_function mt)) (method_location mt)
                  (InvalidSpecialMethodSignature (class_name c) (method_name mt) expected_parameters
                    (parameter_count fn) expected_outputs actual_outputs))
                else Ok ()))"

definition verify_dependent_accessor :: "ClassDefinition \<Rightarrow> PropertyDefinition \<Rightarrow> string \<Rightarrow> verified" where
  "verify_dependent_accessor c pr kind =
     (let accessor = kind @ ''.'' @ property_name pr
      in if list_ex (\<lambda>mt. method_name mt = accessor) (methods c) then Ok ()
         else Err (class_error None (property_location pr)
           (MissingDependentAccessor (class_name c) (property_name pr) accessor)))"

subsection \<open>Properties and methods\<close>

definition valid_access :: "PropertyKind \<Rightarrow> Access option \<Rightarrow> Access option \<Rightarrow> bool" where
  "valid_access kind g s =
     (case kind of
        Stored \<Rightarrow> g \<noteq> None \<and> s \<noteq> None
      | PropertyKind.Constant \<Rightarrow> g \<noteq> None \<and> s = None
      | Dependent \<Rightarrow> g \<noteq> None \<or> s \<noteq> None)"

definition verify_property :: "BytecodeModule \<Rightarrow> ClassDefinition \<Rightarrow> PropertyDefinition \<Rightarrow> verified" where
  "verify_property md c pr =
     (let err = class_error None (property_location pr)
      in all_checks [
        ensure (property_name pr \<noteq> '''') (err (EmptyClassName (Some ''property''))),
        ensure (valid_access (property_kind pr) (get_access pr) (set_access pr))
          (err (InvalidPropertyWriteAccess (class_name c) (property_name pr) (property_kind pr))),
        ensure (\<not> (property_kind pr = PropertyKind.Constant \<and> default pr = None))
          (err (MissingConstantInitializer (class_name c) (property_name pr))),
        ensure (\<not> (property_kind pr = Dependent \<and> default pr \<noteq> None))
          (err (DependentPropertyHasInitializer (class_name c) (property_name pr))),
        (case default pr of
           None \<Rightarrow> Ok ()
         | Some fid \<Rightarrow>
             (case get (module_functions md) (func_get fid) of
                None \<Rightarrow> Err (err (InvalidClassFunction (class_name c) (property_name pr) fid))
              | Some fn \<Rightarrow>
                  if parameter_count fn \<noteq> 0
                  then Err (class_error (Some fid) (property_location pr)
                    (InvalidPropertyDefaultSignature (class_name c) (property_name pr) (parameter_count fn)))
                  else Ok ()))])"

definition valid_accessor_target :: "ClassDefinition \<Rightarrow> string \<Rightarrow> string \<Rightarrow> bool" where
  "valid_accessor_target c kind property =
     (case find (\<lambda>pr. property_name pr = property) (properties c) of
        None \<Rightarrow> superclass c \<noteq> None
      | Some pr \<Rightarrow> property_kind pr = Dependent \<and>
          (if kind = ''get'' then get_access pr \<noteq> None
           else if kind = ''set'' then set_access pr \<noteq> None
           else False))"

definition verify_accessor_method :: "BytecodeModule \<Rightarrow> ClassDefinition \<Rightarrow> MethodDefinition \<Rightarrow> verified" where
  "verify_accessor_method md c mt =
     (let invalid = class_error (Some (method_function mt)) (method_location mt)
           (InvalidDependentAccessorTarget (class_name c) (method_name mt))
      in case accessor_parts (method_name mt) of
        Some (kind, property) \<Rightarrow>
          if \<not> valid_accessor_target c kind property then Err invalid
          else verify_special_method_signature md c mt (if kind = ''get'' then 1 else 2) 1
      | None \<Rightarrow> if CHR ''.'' \<in> set (method_name mt) then Err invalid else Ok ())"

definition verify_method :: "BytecodeModule \<Rightarrow> ClassDefinition \<Rightarrow> MethodDefinition \<Rightarrow> verified" where
  "verify_method md c mt =
     and_then (ensure (method_name mt \<noteq> '''') (class_error None (method_location mt) (EmptyClassName (Some ''method'')))) (\<lambda>_.
     and_then (ok_or (class_error None (method_location mt)
         (InvalidClassFunction (class_name c) (method_name mt) (method_function mt)))
         (get (module_functions md) (func_get (method_function mt)))) (\<lambda>fn.
       let err = class_error (Some (method_function mt)) (method_location mt)
       in all_checks [
         ensure (\<not> (is_external mt \<and> major (version md) < 25))
           (err (ExternalMethodRequiresCurrentVersion (version md) (class_name c) (method_name mt))),
         ensure (\<not> (is_external mt \<and> is_abstract mt)) (err (ExternalMethodIsAbstract (class_name c) (method_name mt))),
         ensure (\<not> (method_kind mt = Static \<and> constructor_output mt \<noteq> None))
           (err (StaticMethodHasConstructorOutput (class_name c) (method_name mt))),
         ensure (\<not> (is_abstract mt \<and> constructor_output mt \<noteq> None))
           (err (AbstractMethodHasConstructorOutput (class_name c) (method_name mt))),
         ensure (\<not> (is_abstract mt \<and> method_name mt = constructor_name (class_name c)))
           (err (AbstractConstructor (class_name c))),
         (if method_name mt = ''plus'' then verify_special_method_signature md c mt 2 1 else Ok ()),
         verify_accessor_method md c mt,
         (case constructor_output mt of
            Some l \<Rightarrow> ensure (local_get l < local_count fn)
              (err (InvalidConstructorOutput (class_name c) (method_name mt) l (local_count fn)))
          | None \<Rightarrow> Ok ())]))"

definition verify_abstract_conflict :: "ClassDefinition \<Rightarrow> verified" where
  "verify_abstract_conflict c =
     (if declared_abstract c = Some False
      then (case find is_abstract (methods c) of
              Some mt \<Rightarrow> Err (class_error (Some (method_function mt)) (method_location mt)
                (ExplicitConcreteHasAbstractMethod (class_name c) (method_name mt)))
            | None \<Rightarrow> Ok ())
      else Ok ())"

definition verify_accessors_present :: "ClassDefinition \<Rightarrow> PropertyDefinition \<Rightarrow> verified" where
  "verify_accessors_present c pr =
     all_checks [
       (if get_access pr \<noteq> None then verify_dependent_accessor c pr ''get'' else Ok ()),
       (if set_access pr \<noteq> None then verify_dependent_accessor c pr ''set'' else Ok ())]"

definition verify_class :: "BytecodeModule \<Rightarrow> ClassDefinition \<Rightarrow> verified" where
  "verify_class md c =
     all_checks [
       ensure (class_name c \<noteq> '''') (class_error None (class_location c) (EmptyClassName None)),
       verify_superclass c,
       verify_abstract_conflict c,
       for_each (verify_property md c) (properties c),
       for_each (verify_method md c) (methods c),
       for_each (verify_accessors_present c) (filter (\<lambda>pr. property_kind pr = Dependent) (properties c))]"

subsection \<open>Feature records\<close>

definition invalid_feature :: "ClassDefinition \<Rightarrow> string \<Rightarrow> string \<Rightarrow> SourceLocation \<Rightarrow> VerificationError" where
  "invalid_feature c name reason loc = class_error None loc (InvalidClassFeature (class_name c) name reason)"

text \<open>Inserting into a set of names fails for an empty name or one already there.\<close>

definition insert_name :: "string set \<Rightarrow> string \<Rightarrow> VerificationError \<Rightarrow> (VerificationError, string set) result" where
  "insert_name names name e = (if name = '''' \<or> name \<in> names then Err e else Ok (insert name names))"

definition names_member :: "ClassDefinition \<Rightarrow> string \<Rightarrow> bool" where
  "names_member c name \<longleftrightarrow>
     list_ex (\<lambda>pr. property_name pr = name) (properties c) \<or> list_ex (\<lambda>mt. method_name mt = name) (methods c)"

definition verify_feature_header :: "ClassDefinition \<Rightarrow> ClassFeatureDefinition \<Rightarrow> verified" where
  "verify_feature_header c ft =
     (let err = (\<lambda>reason. invalid_feature c ''enumeration'' reason (feature_location ft))
      in all_checks [
        ensure (\<not> (feature_kind ft = Ordinary \<and> enumeration_members ft \<noteq> []))
          (err ''ordinary class carries enumeration members''),
        ensure (\<not> (feature_kind ft = Enumeration \<and> enumeration_members ft = []))
          (err ''enumeration class has no members''),
        ensure (\<not> (feature_kind ft = Enumeration \<and>
            (declared_abstract c = Some True \<or> list_ex is_abstract (methods c) \<or> abstract_properties ft \<noteq> [])))
          (err ''enumeration class is abstract''),
        ensure (\<not> (feature_kind ft = Ordinary \<and> enumeration_base ft \<noteq> None))
          (err ''ordinary class carries an enumeration base''),
        ensure (case enumeration_base ft of None \<Rightarrow> True | Some base \<Rightarrow> \<not> (base = '''' \<or> base = class_name c))
          (err ''enumeration base is empty or self-referential'')])"

definition initializer_matches :: "Function \<Rightarrow> 32 word \<Rightarrow> bool" where
  "initializer_matches fn n \<longleftrightarrow>
     parameter_count fn = 0 \<and> list_all (returns_exactly n) (instructions fn) \<and>
     list_ex (\<lambda>ins. returned_count ins \<noteq> None) (instructions fn)"

definition verify_enum_member :: "BytecodeModule \<Rightarrow> ClassDefinition \<Rightarrow> string set \<Rightarrow> EnumMemberDefinition \<Rightarrow>
    (VerificationError, string set) result" where
  "verify_enum_member md c names mb =
     and_then (insert_name names (member_name mb)
       (invalid_feature c (member_name mb) ''enumeration member name is empty or duplicated'' (member_location mb))) (\<lambda>names'.
     and_then (ensure (\<not> names_member c (member_name mb))
       (invalid_feature c (member_name mb) ''enumeration member conflicts with a property or method'' (member_location mb))) (\<lambda>_.
     and_then (ok_or (class_error None (member_location mb)
         (InvalidClassFunction (class_name c) (member_name mb) (argument_initializer mb)))
       (get (module_functions md) (func_get (argument_initializer mb)))) (\<lambda>fn.
     and_then (ensure (initializer_matches fn (argument_count mb))
       (invalid_feature c (member_name mb) ''constructor-argument initializer signature does not match its arity''
         (member_location mb))) (\<lambda>_. Ok names'))))"

definition verify_event :: "ClassDefinition \<Rightarrow> string set \<Rightarrow> EventDefinition \<Rightarrow> (VerificationError, string set) result" where
  "verify_event c names ev =
     and_then (insert_name names (event_name ev)
       (invalid_feature c (event_name ev) ''event name is empty or conflicts with another class feature'' (event_location ev))) (\<lambda>names'.
     and_then (ensure (\<not> names_member c (event_name ev))
       (invalid_feature c (event_name ev) ''event name conflicts with a property or method'' (event_location ev))) (\<lambda>_. Ok names'))"

definition verify_abstract_property :: "ClassDefinition \<Rightarrow> string set \<Rightarrow> AbstractPropertyDefinition \<Rightarrow> (VerificationError, string set) result" where
  "verify_abstract_property c names ap =
     and_then (insert_name names (abstract_name ap)
       (invalid_feature c (abstract_name ap) ''abstract property name is empty or conflicts with another class feature''
         (abstract_location ap))) (\<lambda>names'.
     and_then (ensure (valid_access (abstract_kind ap) (abstract_get_access ap) (abstract_set_access ap))
       (invalid_feature c (abstract_name ap) ''abstract property kind and access metadata disagree'' (abstract_location ap))) (\<lambda>_.
     and_then (ensure (\<not> names_member c (abstract_name ap))
       (invalid_feature c (abstract_name ap) ''abstract property conflicts with a concrete property or method''
         (abstract_location ap))) (\<lambda>_. Ok names')))"

definition verify_sealed_method :: "ClassDefinition \<Rightarrow> ClassFeatureDefinition \<Rightarrow> string set \<Rightarrow> string \<Rightarrow> (VerificationError, string set) result" where
  "verify_sealed_method c ft seen name =
     and_then (insert_name seen name
       (invalid_feature c name ''sealed method name is empty or duplicated'' (feature_location ft))) (\<lambda>seen'.
     and_then (ensure (find (\<lambda>mt. method_name mt = name) (methods c) \<noteq> None)
       (invalid_feature c name ''sealed method must name a local method'' (feature_location ft))) (\<lambda>_. Ok seen'))"

definition verify_feature :: "BytecodeModule \<Rightarrow> ClassDefinitionId set \<Rightarrow> ClassFeatureDefinition \<Rightarrow>
    (VerificationError, ClassDefinitionId set) result" where
  "verify_feature md seen ft =
     and_then (ok_or (class_error None (feature_location ft) (InvalidClassDefinition (feature_class ft) (length (classes md))))
       (get (classes md) (class_get (feature_class ft)))) (\<lambda>c.
     and_then (ensure (feature_class ft \<notin> seen)
       (invalid_feature c ''<class>'' ''class has more than one feature record'' (feature_location ft))) (\<lambda>_.
     and_then (verify_feature_header c ft) (\<lambda>_.
     and_then (fold_result (verify_enum_member md c) {} (enumeration_members ft)) (\<lambda>names.
     and_then (fold_result (verify_event c) names (events ft)) (\<lambda>names.
     and_then (fold_result (verify_abstract_property c) names (abstract_properties ft)) (\<lambda>_.
     and_then (fold_result (verify_sealed_method c ft) {} (sealed_methods ft)) (\<lambda>_.
       Ok (insert (feature_class ft) seen))))))))"

definition verify_class_features :: "BytecodeModule \<Rightarrow> verified" where
  "verify_class_features md = and_then (fold_result (verify_feature md) {} (class_features md)) (\<lambda>_. Ok ())"

definition verify_classes :: "BytecodeModule \<Rightarrow> verified" where
  "verify_classes md = all_checks [for_each (verify_class md) (classes md), verify_class_features md]"

subsection \<open>What an accepted class satisfies\<close>

lemmas class_results = all_checks_eq_Ok and_then_eq_Ok ensure_eq ok_or_eq for_each_eq_Ok

lemma accessor_parts_join:
  assumes "kind = ''get'' \<or> kind = ''set''"
  shows "accessor_parts (kind @ ''.'' @ name) = (if name \<noteq> '''' \<and> CHR ''.'' \<notin> set name then Some (kind, name) else None)"
  using assms by (auto simp: accessor_parts_def split_once_def)

lemma returns_exactly_iff: "returns_exactly n ins \<longleftrightarrow> (\<forall>vs. instr_kind ins = Return vs \<longrightarrow> length vs = unat n)"
proof -
  have "unat n \<le> u32_max" using unsigned_less [of n, where 'a = nat] by (simp add: u32_max_def)
  then show ?thesis
    by (cases "instr_kind ins") (auto simp: returns_exactly_def returned_count_def checked_simps)
qed

lemma find_map_Some: "find_map f xs = Some y \<Longrightarrow> \<exists>x\<in>set xs. f x = Some y"
  by (induction xs) (auto split: option.splits)

text \<open>A body with the given number of parameters whose every return, at least one, has the given number of values.\<close>

definition signature :: "Function \<Rightarrow> nat \<Rightarrow> nat \<Rightarrow> bool" where
  "signature fn parameters outputs \<longleftrightarrow>
     unat (parameter_count fn) = parameters \<and>
     (\<forall>ins\<in>set (instructions fn). \<forall>vs. instr_kind ins = Return vs \<longrightarrow> length vs = outputs) \<and>
     (\<exists>ins\<in>set (instructions fn). \<exists>vs. instr_kind ins = Return vs)"

lemma special_signature_Ok:
  assumes ok: "verify_special_method_signature md c mt ps os = Ok ()"
    and fn: "get (module_functions md) (func_get (method_function mt)) = Some fn"
  shows "method_kind mt = Instance \<and> signature fn (unat ps) (unat os)"
proof -
  let ?out = "\<lambda>ins. case returned_count ins of Some k \<Rightarrow> map_option of_nat (try_from u32_max k) | None \<Rightarrow> (None :: 32 word option)"
  have facts: "method_kind mt = Instance" "parameter_count fn = ps" "find_map ?out (instructions fn) = Some os"
    "list_all (returns_exactly os) (instructions fn)"
    using ok fn by (auto simp: verify_special_method_signature_def Let_def split: if_splits)
  from find_map_Some [OF facts(3)] obtain ins where "ins \<in> set (instructions fn)" "returned_count ins \<noteq> None"
    by (auto split: option.splits)
  then have "\<exists>ins\<in>set (instructions fn). \<exists>vs. instr_kind ins = Return vs"
    by (cases "instr_kind ins") (auto simp: returned_count_def)
  with facts show ?thesis by (auto simp: signature_def list_all_iff returns_exactly_iff)
qed

lemma verify_class_Ok:
  assumes "verify_class md c = Ok ()"
  shows "class_name c \<noteq> ''''"
    and "superclass c = Some s \<Longrightarrow> s \<noteq> '''' \<and> s \<noteq> class_name c"
    and "mt \<in> set (methods c) \<Longrightarrow> declared_abstract c = Some False \<Longrightarrow> \<not> is_abstract mt"
    and "pr \<in> set (properties c) \<Longrightarrow> verify_property md c pr = Ok ()"
    and "mt \<in> set (methods c) \<Longrightarrow> verify_method md c mt = Ok ()"
    and "pr \<in> set (properties c) \<Longrightarrow> property_kind pr = Dependent \<Longrightarrow> verify_accessors_present c pr = Ok ()"
proof -
  have "verify_superclass c = Ok ()" "verify_abstract_conflict c = Ok ()"
    using assms by (auto simp: verify_class_def class_results)
  then show "superclass c = Some s \<Longrightarrow> s \<noteq> '''' \<and> s \<noteq> class_name c"
    and "mt \<in> set (methods c) \<Longrightarrow> declared_abstract c = Some False \<Longrightarrow> \<not> is_abstract mt"
    by (auto simp: verify_superclass_def verify_abstract_conflict_def find_None_iff split: option.splits if_splits)
qed (use assms in \<open>auto simp: verify_class_def class_results\<close>)

lemma verify_method_Ok:
  assumes "verify_method md c mt = Ok ()"
  obtains fn where "get (module_functions md) (func_get (method_function mt)) = Some fn"
    and "verify_accessor_method md c mt = Ok ()"
    and "method_name mt = ''plus'' \<Longrightarrow> verify_special_method_signature md c mt 2 1 = Ok ()"
    and "\<And>l. constructor_output mt = Some l \<Longrightarrow> local_get l < local_count fn \<and> method_kind mt = Instance \<and> \<not> is_abstract mt"
proof -
  from assms obtain fn where fn: "get (module_functions md) (func_get (method_function mt)) = Some fn"
    by (auto simp: verify_method_def class_results)
  have "constructor_output mt = Some l \<Longrightarrow> local_get l < local_count fn \<and> method_kind mt = Instance \<and> \<not> is_abstract mt" for l
    using assms fn by (cases "method_kind mt") (auto simp: verify_method_def class_results Let_def)
  moreover have "verify_accessor_method md c mt = Ok ()"
    "method_name mt = ''plus'' \<Longrightarrow> verify_special_method_signature md c mt 2 1 = Ok ()"
    using assms fn by (auto simp: verify_method_def class_results Let_def)
  ultimately show ?thesis using that fn by blast
qed

lemma dependent_accessor_found:
  assumes c: "verify_class md c = Ok ()" and pr: "pr \<in> set (properties c)" and dep: "property_kind pr = Dependent"
    and present: "verify_dependent_accessor c pr kind = Ok ()" and kind: "kind = ''get'' \<or> kind = ''set''"
  shows "\<exists>mt fn. mt \<in> set (methods c) \<and> method_name mt = kind @ ''.'' @ property_name pr \<and> method_kind mt = Instance \<and>
    get (module_functions md) (func_get (method_function mt)) = Some fn \<and>
    signature fn (if kind = ''get'' then 1 else 2) 1 \<and> CHR ''.'' \<notin> set (property_name pr)"
proof -
  from present obtain mt where mt: "mt \<in> set (methods c)" "method_name mt = kind @ ''.'' @ property_name pr"
    by (auto simp: verify_dependent_accessor_def Let_def list_ex_iff split: if_splits)
  from verify_class_Ok(5) [OF c mt(1)] obtain fn where fn: "get (module_functions md) (func_get (method_function mt)) = Some fn"
    and acc: "verify_accessor_method md c mt = Ok ()" by (rule verify_method_Ok)
  have name: "property_name pr \<noteq> ''''"
    using verify_class_Ok(4) [OF c pr] by (auto simp: verify_property_def class_results Let_def)
  have dots: "CHR ''.'' \<notin> set (property_name pr)"
    using acc name unfolding verify_accessor_method_def mt(2) accessor_parts_join [OF kind]
    by (auto simp: Let_def split: if_splits)
  with acc name have "verify_special_method_signature md c mt (if kind = ''get'' then 1 else 2) 1 = Ok ()"
    unfolding verify_accessor_method_def mt(2) accessor_parts_join [OF kind] by (auto simp: Let_def split: if_splits)
  from special_signature_Ok [OF this fn] have "method_kind mt = Instance \<and> signature fn (if kind = ''get'' then 1 else 2) 1"
    by (simp split: if_splits)
  with mt fn dots show ?thesis by blast
qed

subsection \<open>Loops that collect names\<close>

text \<open>
  The four loops over feature entries share one contract: a step accepts an entry exactly when its
  name is neither empty nor among those seen and its own condition holds, and then adds the name.
\<close>

locale name_loop =
  fixes step :: "string set \<Rightarrow> 'x \<Rightarrow> (VerificationError, string set) result"
    and name :: "'x \<Rightarrow> string" and ok :: "'x \<Rightarrow> bool"
  assumes step_iff: "step names x = Ok names' \<longleftrightarrow>
    name x \<noteq> '''' \<and> name x \<notin> names \<and> ok x \<and> names' = insert (name x) names"
begin

lemma loop_iff:
  "fold_result step names xs = Ok names' \<longleftrightarrow>
     distinct (map name xs) \<and> name ` set xs \<inter> names = {} \<and> names' = names \<union> name ` set xs \<and>
     (\<forall>x\<in>set xs. name x \<noteq> '''' \<and> ok x)"
proof (induction xs arbitrary: names)
  case (Cons x xs)
  have "fold_result step names (x # xs) = Ok names' \<longleftrightarrow>
    name x \<noteq> '''' \<and> name x \<notin> names \<and> ok x \<and> fold_result step (insert (name x) names) xs = Ok names'"
    by (auto simp: and_then_eq_Ok step_iff)
  then show ?case unfolding Cons.IH by auto
qed auto

end

lemma insert_name_iff: "insert_name names name e = Ok names' \<longleftrightarrow> name \<noteq> '''' \<and> name \<notin> names \<and> names' = insert name names"
  by (auto simp: insert_name_def)

interpretation enum_loop: name_loop "verify_enum_member md c" member_name
  "\<lambda>mb. \<not> names_member c (member_name mb) \<and>
     (\<exists>fn. get (module_functions md) (func_get (argument_initializer mb)) = Some fn \<and> initializer_matches fn (argument_count mb))"
  for md c
  by unfold_locales (auto simp: verify_enum_member_def class_results insert_name_iff)

interpretation event_loop: name_loop "verify_event c" event_name "\<lambda>ev. \<not> names_member c (event_name ev)" for c
  by unfold_locales (auto simp: verify_event_def class_results insert_name_iff)

interpretation abstract_loop: name_loop "verify_abstract_property c" abstract_name
  "\<lambda>ap. valid_access (abstract_kind ap) (abstract_get_access ap) (abstract_set_access ap) \<and> \<not> names_member c (abstract_name ap)"
  for c
  by unfold_locales (auto simp: verify_abstract_property_def class_results insert_name_iff)

interpretation sealed_loop: name_loop "verify_sealed_method c ft" "\<lambda>name. name"
  "\<lambda>name. \<exists>mt\<in>set (methods c). method_name mt = name" for c ft
  by unfold_locales (auto simp: verify_sealed_method_def class_results insert_name_iff find_None_iff)

definition feature_names :: "ClassFeatureDefinition \<Rightarrow> string list" where
  "feature_names ft = map member_name (enumeration_members ft) @ map event_name (events ft) @ map abstract_name (abstract_properties ft)"

lemma initializer_signature:
  "initializer_matches fn n \<longleftrightarrow> signature fn 0 (unat n)"
proof -
  have "returned_count ins \<noteq> None \<longleftrightarrow> (\<exists>vs. instr_kind ins = Return vs)" for ins
    by (cases "instr_kind ins") (auto simp: returned_count_def)
  then show ?thesis
    by (simp add: initializer_matches_def signature_def list_all_iff list_ex_iff returns_exactly_iff unat_eq_0)
qed

lemma verify_feature_Ok:
  assumes "verify_feature md seen ft = Ok seen'"
  obtains c where "get (classes md) (class_get (feature_class ft)) = Some c"
    and "feature_class ft \<notin> seen" and "seen' = insert (feature_class ft) seen"
    and "distinct (feature_names ft)" and "\<forall>n\<in>set (feature_names ft). n \<noteq> '''' \<and> \<not> names_member c n"
    and "\<forall>mb\<in>set (enumeration_members ft). \<exists>fn. get (module_functions md) (func_get (argument_initializer mb)) = Some fn \<and>
      signature fn 0 (unat (argument_count mb))"
    and "set (sealed_methods ft) \<subseteq> method_name ` set (methods c)" and "distinct (sealed_methods ft)"
    and "feature_kind ft = Enumeration \<longleftrightarrow> enumeration_members ft \<noteq> []"
proof -
  from assms obtain c names1 names2 names3 names4 where c: "get (classes md) (class_get (feature_class ft)) = Some c"
    and seen: "feature_class ft \<notin> seen" "seen' = insert (feature_class ft) seen"
    and head: "verify_feature_header c ft = Ok ()"
    and l: "fold_result (verify_enum_member md c) {} (enumeration_members ft) = Ok names1"
      "fold_result (verify_event c) names1 (events ft) = Ok names2"
      "fold_result (verify_abstract_property c) names2 (abstract_properties ft) = Ok names3"
      "fold_result (verify_sealed_method c ft) {} (sealed_methods ft) = Ok names4"
    by (auto simp: verify_feature_def class_results)
  have kind: "feature_kind ft = Enumeration \<longleftrightarrow> enumeration_members ft \<noteq> []"
    using head by (cases "feature_kind ft") (auto simp: verify_feature_header_def class_results Let_def)
  note loops = l(1) [unfolded enum_loop.loop_iff] l(2) [unfolded event_loop.loop_iff]
    l(3) [unfolded abstract_loop.loop_iff] l(4) [unfolded sealed_loop.loop_iff]
  show ?thesis
  proof (rule that [OF c seen _ _ _ _ _ kind])
    show "distinct (feature_names ft)" using loops by (auto simp: feature_names_def)
    show "\<forall>n\<in>set (feature_names ft). n \<noteq> '''' \<and> \<not> names_member c n" using loops by (auto simp: feature_names_def)
    show "\<forall>mb\<in>set (enumeration_members ft). \<exists>fn. get (module_functions md) (func_get (argument_initializer mb)) = Some fn \<and>
      signature fn 0 (unat (argument_count mb))" using loops(1) by (simp add: initializer_signature)
    show "set (sealed_methods ft) \<subseteq> method_name ` set (methods c)" "distinct (sealed_methods ft)" using loops(4) by auto
  qed
qed

lemma feature_loop_Ok:
  assumes "fold_result (verify_feature md) seen fts = Ok seen'"
  shows "distinct (map feature_class fts) \<and> feature_class ` set fts \<inter> seen = {} \<and>
    (\<forall>ft\<in>set fts. \<exists>s s'. verify_feature md s ft = Ok s')"
  using assms
proof (induction fts arbitrary: seen)
  case (Cons ft fts)
  then obtain s where s: "verify_feature md seen ft = Ok s" "fold_result (verify_feature md) s fts = Ok seen'"
    by (auto simp: and_then_eq_Ok)
  from s(1) have "feature_class ft \<notin> seen" "s = insert (feature_class ft) seen"
    by (auto elim: verify_feature_Ok)
  with Cons.IH [OF s(2)] s(1) show ?case by auto
qed simp

end
