(* ===== verification/Bytecode_Verify.thy ===== *)
theory Bytecode_Verify
  imports Bytecode_Handlers Bytecode_Classes
begin

section \<open>Verification of functions and modules (openmat-bytecode/src/verify.rs)\<close>

text \<open>
  The module entry point of the verifier: version and entry, the class table, then every function
  with its argument layout, constants, exception table, variadic marker and instructions, in that
  order, stopping at the first error.
\<close>

subsection \<open>Functions\<close>

definition variadic_marker :: "Instruction \<Rightarrow> bool" where
  "variadic_marker ins = (case instr_kind ins of LoadVariadicInputs _ \<Rightarrow> True | _ \<Rightarrow> False)"

definition declares_scope :: "Instruction \<Rightarrow> bool" where
  "declares_scope ins = (case instr_kind ins of DeclareNamedBindings _ \<Rightarrow> True | DeclareImports _ \<Rightarrow> True | _ \<Rightarrow> False)"

text \<open>
  The loop over the option fields: it records every slot, and stops as soon as a slot is outside the
  owner slots or a field name is empty or repeated.
\<close>

fun named_slots :: "nat \<Rightarrow> nat \<Rightarrow> nat set \<Rightarrow> string set \<Rightarrow> (LocalSlot \<times> string) list \<Rightarrow> nat set option" where
  "named_slots positional_end parameters slots taken [] = Some slots"
| "named_slots positional_end parameters slots taken ((slot, name) # rest) =
     (if positional_end \<le> unat (local_get slot) \<and> unat (local_get slot) < parameters \<and> name \<noteq> '''' \<and> name \<notin> taken
      then named_slots positional_end parameters (insert (unat (local_get slot)) slots) (insert name taken) rest
      else None)"

definition valid_layout :: "BytecodeModule \<Rightarrow> Function \<Rightarrow> ArgumentLayout \<Rightarrow> bool" where
  "valid_layout md fn layout \<longleftrightarrow>
     28 \<le> major (version md) \<and>
     (repeating_count layout = 0 \<or> 29 \<le> major (version md)) \<and>
     required_count layout \<le> positional_count layout \<and>
     (case checked_add u32_max (unat (positional_count layout)) (unat (repeating_count layout)) of
        None \<Rightarrow> False
      | Some positional_end \<Rightarrow>
          positional_end \<le> unat (parameter_count fn) \<and>
          (case named_slots positional_end (unat (parameter_count fn)) {} {} (named layout) of
             None \<Rightarrow> False
           | Some slots \<Rightarrow> card slots = unat (parameter_count fn) - positional_end) \<and>
          \<not> list_ex variadic_marker (instructions fn))"

definition verify_layout :: "BytecodeModule \<Rightarrow> FunctionId \<Rightarrow> Function \<Rightarrow> verified" where
  "verify_layout md fid fn =
     (case argument_layout fn of
        None \<Rightarrow> Ok ()
      | Some layout \<Rightarrow> ensure (valid_layout md fn layout) (function_error fid InvalidArgumentLayout))"

definition verify_constant :: "BytecodeModule \<Rightarrow> FunctionId \<Rightarrow> Constant \<Rightarrow> verified" where
  "verify_constant md fid c =
     (case c of
        Function referenced \<Rightarrow>
          ensure (get (module_functions md) (func_get referenced) \<noteq> None)
            (function_error fid (InvalidFunctionConstant referenced))
      | _ \<Rightarrow> Ok ())"

fun position :: "('a \<Rightarrow> bool) \<Rightarrow> 'a list \<Rightarrow> nat option" where
  "position P [] = None"
| "position P (x # xs) = (if P x then Some 0 else map_option Suc (position P xs))"

definition verify_variadic :: "FunctionId \<Rightarrow> Function \<Rightarrow> verified" where
  "verify_variadic fid fn =
     (case filter (\<lambda>(_, ins). variadic_marker ins) (enumerate 0 (instructions fn)) of
        [] \<Rightarrow> Ok ()
      | (index, _) # rest \<Rightarrow>
          let first_executable = (case position (\<lambda>ins. \<not> declares_scope ins) (instructions fn) of Some i \<Rightarrow> i | None \<Rightarrow> 0)
          in if index \<noteq> first_executable then Err (function_error fid VariadicInputsMustBeFirst)
             else if rest \<noteq> [] then Err (function_error fid DuplicateVariadicInputs)
             else Ok ())"

definition verify_function :: "BytecodeModule \<Rightarrow> FunctionId \<Rightarrow> Function \<Rightarrow> verified" where
  "verify_function md fid fn =
     all_checks [
       verify_layout md fid fn,
       ensure (parameter_count fn \<le> local_count fn)
         (function_error fid (ParametersExceedLocals (parameter_count fn) (local_count fn))),
       for_each (verify_constant md fid) (constants fn),
       verify_exception_handlers fid fn,
       verify_variadic fid fn,
       for_each (\<lambda>(index, ins). verify_instruction md fid (InstructionIndex (index_to_u32 index)) fn ins)
         (enumerate 0 (instructions fn))]"

subsection \<open>Modules\<close>

definition module_error :: "VerificationErrorKind \<Rightarrow> VerificationError" where
  "module_error kind = \<lparr>error_function = None, error_instruction = None, error_location = None, error_kind = kind\<rparr>"

definition verify :: "BytecodeModule \<Rightarrow> verified" where
  "verify md =
     all_checks [
       ensure (\<not> (minor (version md) \<noteq> 0 \<or>
           major (version md) < major MIN_SUPPORTED_BYTECODE_VERSION \<or>
           major (version md) > major CURRENT_BYTECODE_VERSION))
         (module_error (UnsupportedVersion (version md) CURRENT_BYTECODE_VERSION)),
       ensure (get (module_functions md) (func_get (entry md)) \<noteq> None) (module_error (InvalidEntry (entry md))),
       verify_classes md,
       for_each (\<lambda>(index, fn). verify_function md (FunctionId (index_to_u32 index)) fn)
         (enumerate 0 (module_functions md))]"

subsection \<open>What a verified module satisfies\<close>

lemma index_to_u32_unat: "index_to_u32 (unat w) = w"
proof -
  have "unat w \<le> u32_max" using unsigned_less [of w, where 'a = nat] by (simp add: u32_max_def)
  then show ?thesis by (simp add: index_to_u32_def try_from_def)
qed

lemma in_enumerate: "(i, x) \<in> set (enumerate 0 xs) \<longleftrightarrow> i < length xs \<and> xs ! i = x"
  by (auto simp: in_set_enumerate_eq)

lemma ball_enumerate: "(\<forall>x\<in>set (enumerate n xs). P (snd x)) \<longleftrightarrow> (\<forall>x\<in>set xs. P x)"
  by (induction xs arbitrary: n) auto

lemma ball_enumerate_nth: "(\<forall>x\<in>set (enumerate 0 xs). Q x) \<longleftrightarrow> (\<forall>i<length xs. Q (i, xs ! i))"
  by (metis in_enumerate surj_pair)

lemma get_enumerate: "get xs w = Some x \<Longrightarrow> (unat w, x) \<in> set (enumerate 0 xs)"
  by (simp add: get_eq in_enumerate)

lemma verify_Ok:
  assumes "verify md = Ok ()"
  shows "minor (version md) = 0" and "24 \<le> major (version md)" and "major (version md) \<le> 29"
    and "get (module_functions md) (func_get (entry md)) \<noteq> None" and "verify_classes md = Ok ()"
    and "get (module_functions md) (func_get fid) = Some fn \<Longrightarrow> verify_function md fid fn = Ok ()"
proof -
  show "verify_function md fid fn = Ok ()" if fn: "get (module_functions md) (func_get fid) = Some fn"
  proof -
    have "\<forall>(i, fn)\<in>set (enumerate 0 (module_functions md)). verify_function md (FunctionId (index_to_u32 i)) fn = Ok ()"
      using assms by (auto simp: verify_def class_results)
    from bspec [OF this get_enumerate [OF fn]] show ?thesis by (simp add: index_to_u32_unat)
  qed
qed (use assms in \<open>auto simp: verify_def class_results MIN_SUPPORTED_BYTECODE_VERSION_def CURRENT_BYTECODE_VERSION_def version_new_def\<close>)

lemma verify_function_Ok:
  assumes "verify_function md fid fn = Ok ()"
  shows "argument_layout fn = Some layout \<Longrightarrow> valid_layout md fn layout"
    and "parameter_count fn \<le> local_count fn"
    and "Function f \<in> set (constants fn) \<Longrightarrow> get (module_functions md) (func_get f) \<noteq> None"
    and "verify_exception_handlers fid fn = Ok ()" and "verify_variadic fid fn = Ok ()"
    and "get (instructions fn) i = Some ins \<Longrightarrow> verify_instruction md fid (InstructionIndex i) fn ins = Ok ()"
proof -
  have all: "verify_layout md fid fn = Ok ()" "\<forall>c\<in>set (constants fn). verify_constant md fid c = Ok ()"
    "\<forall>(i, ins)\<in>set (enumerate 0 (instructions fn)). verify_instruction md fid (InstructionIndex (index_to_u32 i)) fn ins = Ok ()"
    using assms by (auto simp: verify_function_def class_results)
  show "valid_layout md fn layout" if "argument_layout fn = Some layout"
    using all(1) that by (simp add: verify_layout_def class_results)
  show "get (module_functions md) (func_get f) \<noteq> None" if "Function f \<in> set (constants fn)"
    using bspec [OF all(2) that] by (simp add: verify_constant_def class_results)
  show "verify_instruction md fid (InstructionIndex i) fn ins = Ok ()" if "get (instructions fn) i = Some ins"
    using bspec [OF all(3) get_enumerate [OF that]] by (simp add: index_to_u32_unat)
qed (use assms in \<open>auto simp: verify_function_def class_results\<close>)

lemma verify_instruction_Ok:
  "verify_instruction md fid i fn ins = Ok () \<longleftrightarrow>
     check_version (version md) (instr_kind ins) = Ok () \<and> verify_operands md fid fn (instr_kind ins) = Ok ()"
  by (simp add: verify_instruction_def map_err_eq_Ok class_results)

lemma named_slots_iff:
  "named_slots pe ps slots taken xs = Some slots' \<longleftrightarrow>
     slots' = slots \<union> (\<lambda>x. unat (local_get (fst x))) ` set xs \<and>
     (\<forall>(slot, name)\<in>set xs. pe \<le> unat (local_get slot) \<and> unat (local_get slot) < ps \<and> name \<noteq> '''') \<and>
     distinct (map snd xs) \<and> snd ` set xs \<inter> taken = {}"
proof (induction xs arbitrary: slots taken)
  case (Cons x xs)
  obtain slot name where x: "x = (slot, name)" by (cases x)
  show ?case
  proof (cases "pe \<le> unat (local_get slot) \<and> unat (local_get slot) < ps \<and> name \<noteq> '''' \<and> name \<notin> taken")
    case True
    then have eq: "named_slots pe ps slots taken (x # xs) =
        named_slots pe ps (insert (unat (local_get slot)) slots) (insert name taken) xs"
      by (simp add: x)
    show ?thesis unfolding eq Cons.IH using True by (auto simp: x)
  next
    case False
    then show ?thesis by (auto simp: x)
  qed
qed auto

subsection \<open>A declarative reading of the verifier\<close>

text \<open>The format version that introduced an instruction.\<close>

definition introduced_in :: "InstructionKind \<Rightarrow> nat" where
  "introduced_in k =
     (if dynamic_output_instruction k then 27
      else if call_target_instruction k then 26
      else if k = ClearImports then 25
      else if package_instruction k then 24
      else 0)"

lemma check_version_iff: "check_version v k = Ok () \<longleftrightarrow> introduced_in k \<le> unat (major v)"
proof -
  have d: "\<not> (dynamic_output_instruction k \<and> call_target_instruction k)" "\<not> (dynamic_output_instruction k \<and> package_instruction k)"
    "\<not> (call_target_instruction k \<and> package_instruction k)"
    "k = ClearImports \<Longrightarrow> \<not> dynamic_output_instruction k \<and> \<not> call_target_instruction k \<and> \<not> package_instruction k"
    by (cases k; simp add: dynamic_output_instruction_def call_target_instruction_def package_instruction_def)+
  show ?thesis
    using d by (simp add: check_version_def introduced_in_def word_less_nat_alt not_less)
qed

definition layout_ok :: "BytecodeModule \<Rightarrow> Function \<Rightarrow> ArgumentLayout \<Rightarrow> bool" where
  "layout_ok md fn layout \<longleftrightarrow>
     28 \<le> unat (major (version md)) \<and> (repeating_count layout \<noteq> 0 \<longrightarrow> 29 \<le> unat (major (version md))) \<and>
     unat (required_count layout) \<le> unat (positional_count layout) \<and>
     unat (positional_count layout) + unat (repeating_count layout) \<le> unat (parameter_count fn) \<and>
     (\<lambda>x. unat (local_get (fst x))) ` set (named layout) =
       {unat (positional_count layout) + unat (repeating_count layout)..<unat (parameter_count fn)} \<and>
     distinct (map snd (named layout)) \<and> '''' \<notin> snd ` set (named layout) \<and>
     (\<forall>ins\<in>set (instructions fn). \<not> variadic_marker ins)"

lemma valid_layout_iff: "valid_layout md fn layout \<longleftrightarrow> layout_ok md fn layout"
proof -
  let ?pe = "unat (positional_count layout) + unat (repeating_count layout)" and ?ps = "unat (parameter_count fn)"
  let ?slots = "(\<lambda>x. unat (local_get (fst x))) ` set (named layout)"
  have ps: "?ps \<le> u32_max" using unsigned_less [of "parameter_count fn", where 'a = nat] by (simp add: u32_max_def)
  have slots: "named_slots ?pe ?ps {} {} (named layout) = Some s \<longleftrightarrow> s = ?slots \<and> ?slots \<subseteq> {?pe..<?ps} \<and>
      distinct (map snd (named layout)) \<and> '''' \<notin> snd ` set (named layout)" for s
    unfolding named_slots_iff image_subset_iff case_prod_unfold by (auto simp: image_iff)
  have all: "?slots \<subseteq> {?pe..<?ps} \<and> card ?slots = ?ps - ?pe \<longleftrightarrow> ?slots = {?pe..<?ps}"
  proof
    assume "?slots = {?pe..<?ps}"
    then show "?slots \<subseteq> {?pe..<?ps} \<and> card ?slots = ?ps - ?pe" by (simp only: card_atLeastLessThan subset_refl)
  qed (intro card_subset_eq, simp_all)
  have named: "(case named_slots ?pe ?ps {} {} (named layout) of None \<Rightarrow> False | Some s \<Rightarrow> card s = ?ps - ?pe) \<longleftrightarrow>
      ?slots = {?pe..<?ps} \<and> distinct (map snd (named layout)) \<and> '''' \<notin> snd ` set (named layout)"
    using slots all by (auto split: option.split)
  show ?thesis
  proof (cases "?pe \<le> ?ps")
    case True
    with ps have "checked_add u32_max (unat (positional_count layout)) (unat (repeating_count layout)) = Some ?pe"
      by (simp add: checked_eq_Some)
    with True named show ?thesis
      by (auto simp: valid_layout_def layout_ok_def word_le_nat_alt list_ex_iff)
  next
    case False
    then show ?thesis by (auto simp: valid_layout_def layout_ok_def checked_simps split: option.split)
  qed
qed

definition variadic_ok :: "Function \<Rightarrow> bool" where
  "variadic_ok fn \<longleftrightarrow>
     (\<forall>j<length (instructions fn). variadic_marker (instructions fn ! j) \<longrightarrow>
        (\<forall>k<j. declares_scope (instructions fn ! k)))"

lemma position_Some: "position P xs = Some i \<longleftrightarrow> i < length xs \<and> P (xs ! i) \<and> (\<forall>k<i. \<not> P (xs ! k))"
proof (induction xs arbitrary: i)
  case (Cons x xs)
  then show ?case by (cases i) (auto simp: less_Suc_eq_0_disj nth_Cons')
qed simp

lemma position_None: "position P xs = None \<longleftrightarrow> (\<forall>x\<in>set xs. \<not> P x)"
  by (induction xs) auto

lemma marker_not_declaration: "variadic_marker ins \<Longrightarrow> \<not> declares_scope ins"
  by (cases "instr_kind ins") (simp_all add: variadic_marker_def declares_scope_def)

lemma verify_variadic_iff: "verify_variadic fid fn = Ok () \<longleftrightarrow> variadic_ok fn"
proof -
  let ?is = "instructions fn"
  define marks where "marks = filter (\<lambda>(_, ins). variadic_marker ins) (enumerate 0 ?is)"
  have in_marks: "(j, ins) \<in> set marks \<longleftrightarrow> j < length ?is \<and> ?is ! j = ins \<and> variadic_marker ins" for j ins
    by (auto simp: marks_def in_enumerate)
  have ordered: "sorted_wrt (\<lambda>a b. fst a < fst b) marks"
    unfolding marks_def by (rule sorted_wrt_filter) (simp add: sorted_wrt_map [symmetric, of "(<)" fst] sorted_wrt_upt)
  show ?thesis
  proof (cases marks)
    case Nil
    then have "variadic_ok fn" using in_marks by (auto simp: variadic_ok_def)
    then show ?thesis using Nil by (simp add: verify_variadic_def marks_def)
  next
    case (Cons m rest)
    obtain j ins where m: "m = (j, ins)" by (cases m)
    have j: "j < length ?is" "variadic_marker (?is ! j)" using in_marks [of j ins] by (auto simp: Cons m)
    have exec: "position (\<lambda>ins. \<not> declares_scope ins) ?is = Some p \<Longrightarrow> p \<le> j" for p
      using j marker_not_declaration [OF j(2)] by (auto simp: position_Some intro: leI)
    obtain p where p: "position (\<lambda>ins. \<not> declares_scope ins) ?is = Some p"
      using marker_not_declaration [OF j(2)] nth_mem [OF j(1)] by (cases "position (\<lambda>ins. \<not> declares_scope ins) ?is") (auto simp: position_None)
    have "verify_variadic fid fn = Ok () \<longleftrightarrow> j = p \<and> rest = []"
      by (simp add: verify_variadic_def marks_def [symmetric] Cons m p)
    also have "\<dots> \<longleftrightarrow> variadic_ok fn"
    proof
      assume "j = p \<and> rest = []"
      then have "k = p" if "k < length ?is" "variadic_marker (?is ! k)" for k
        using in_marks [of k "?is ! k"] that by (simp add: Cons m)
      with p show "variadic_ok fn" by (auto simp: variadic_ok_def position_Some)
    next
      assume ok: "variadic_ok fn"
      then have "\<not> p < j" using p j by (auto simp: variadic_ok_def position_Some)
      with exec [OF p] have "j = p" by simp
      moreover have "rest = []"
      proof (rule ccontr)
        assume "rest \<noteq> []"
        then obtain k ins' where k: "(k, ins') \<in> set rest" by (cases rest) auto
        with ordered have "j < k" by (force simp: Cons m)
        with ok k in_marks [of k ins'] have "declares_scope (?is ! j)" by (auto simp: variadic_ok_def Cons)
        with j(2) marker_not_declaration show False by blast
      qed
      ultimately show "j = p \<and> rest = []" by simp
    qed
    finally show ?thesis .
  qed
qed

definition function_ok :: "BytecodeModule \<Rightarrow> FunctionId \<Rightarrow> Function \<Rightarrow> bool" where
  "function_ok md fid fn \<longleftrightarrow>
     (\<forall>layout. argument_layout fn = Some layout \<longrightarrow> layout_ok md fn layout) \<and>
     unat (parameter_count fn) \<le> unat (local_count fn) \<and>
     (\<forall>f. Function f \<in> set (constants fn) \<longrightarrow> unat (func_get f) < length (module_functions md)) \<and>
     (\<forall>h\<in>set (exception_handlers fn). handler_ok fn h) \<and> laminar (exception_handlers fn) \<and>
     variadic_ok fn \<and>
     (\<forall>ins\<in>set (instructions fn).
        introduced_in (instr_kind ins) \<le> unat (major (version md)) \<and>
        (\<forall>x\<in>set (operands (instr_kind ins)). operand_in_range fn x) \<and> well_structured md fid fn (instr_kind ins))"

lemma verify_function_iff: "verify_function md fid fn = Ok () \<longleftrightarrow> function_ok md fid fn"
proof -
  have layout: "verify_layout md fid fn = Ok () \<longleftrightarrow> (\<forall>layout. argument_layout fn = Some layout \<longrightarrow> layout_ok md fn layout)"
    by (auto simp: verify_layout_def class_results valid_layout_iff split: option.split)
  have "verify_constant md fid c = Ok () \<longleftrightarrow> (\<forall>f. c = Function f \<longrightarrow> unat (func_get f) < length (module_functions md))" for c
    by (cases c) (simp_all add: verify_constant_def class_results get_eq not_le)
  then have constants: "(\<forall>c\<in>set (constants fn). verify_constant md fid c = Ok ()) \<longleftrightarrow>
      (\<forall>f. Function f \<in> set (constants fn) \<longrightarrow> unat (func_get f) < length (module_functions md))" by blast
  have instrs: "(\<forall>x\<in>set (enumerate 0 (instructions fn)).
      (case x of (i, ins) \<Rightarrow> verify_instruction md fid (InstructionIndex (index_to_u32 i)) fn ins) = Ok ()) \<longleftrightarrow>
      (\<forall>ins\<in>set (instructions fn). introduced_in (instr_kind ins) \<le> unat (major (version md)) \<and>
        (\<forall>x\<in>set (operands (instr_kind ins)). operand_in_range fn x) \<and> well_structured md fid fn (instr_kind ins))"
    using ball_enumerate [of 0 "instructions fn"]
    by (simp add: case_prod_unfold verify_instruction_Ok check_version_iff operands_accepted)
  show ?thesis
    unfolding verify_function_def function_ok_def all_checks_eq_Ok
    by (simp add: layout constants instrs for_each_eq_Ok ensure_eq verify_exception_handlers_iff verify_variadic_iff word_le_nat_alt)
qed

lemma verify_iff:
  "verify md = Ok () \<longleftrightarrow>
     minor (version md) = 0 \<and> 24 \<le> major (version md) \<and> major (version md) \<le> 29 \<and>
     unat (func_get (entry md)) < length (module_functions md) \<and> verify_classes md = Ok () \<and>
     (\<forall>i<length (module_functions md). function_ok md (FunctionId (index_to_u32 i)) (module_functions md ! i))"
proof -
  have "(\<forall>x\<in>set (enumerate 0 (module_functions md)).
      (case x of (i, fn) \<Rightarrow> verify_function md (FunctionId (index_to_u32 i)) fn) = Ok ()) \<longleftrightarrow>
    (\<forall>i<length (module_functions md). function_ok md (FunctionId (index_to_u32 i)) (module_functions md ! i))"
    by (simp add: ball_enumerate_nth verify_function_iff)
  then show ?thesis
    by (auto simp: verify_def class_results get_eq MIN_SUPPORTED_BYTECODE_VERSION_def CURRENT_BYTECODE_VERSION_def
        version_new_def not_less not_le)
qed

subsection \<open>A sample module\<close>

definition sample_location :: SourceLocation where
  "sample_location = \<lparr>source_id = 1, loc_start = 0, loc_end = 9\<rparr>"

definition sample_getter :: Function where
  "sample_getter = (function_new ''get.area'' 1 1 1)\<lparr>instructions := map instruction_new
     [LoadLocal (Register 0) (LocalSlot 0), Return [Register 0]]\<rparr>"

definition sample_property :: PropertyDefinition where
  "sample_property = \<lparr>property_name = ''area'', property_kind = Dependent, default = None,
     get_access = Some Public, set_access = None, property_location = sample_location\<rparr>"

definition sample_method :: MethodDefinition where
  "sample_method = \<lparr>method_name = ''get.area'', method_function = FunctionId 1, method_kind = Instance, access = Public,
     is_abstract = False, is_external = False, constructor_output = None, method_location = sample_location\<rparr>"

definition sample_class :: ClassDefinition where
  "sample_class = \<lparr>class_name = ''Shape'', semantics = Handle, superclass = None, declared_abstract = None, sealed = False,
     properties = [sample_property], methods = [sample_method], class_location = sample_location\<rparr>"

definition sample_feature :: ClassFeatureDefinition where
  "sample_feature = \<lparr>feature_class = ClassDefinitionId 0, feature_kind = Ordinary, enumeration_base = None,
     enumeration_members = [],
     events = [\<lparr>event_name = ''Moved'', listen_access = Public, notify_access = Private, hidden = False,
       event_location = sample_location\<rparr>],
     abstract_properties = [], sealed_methods = [''get.area''], feature_location = sample_location\<rparr>"

definition sample_module :: BytecodeModule where
  "sample_module = with_class_features
     (with_classes (module_new [sample_function, sample_getter] (FunctionId 0)) [sample_class]) [sample_feature]"

lemma sample_module_simps:
  "module_functions sample_module = [sample_function, sample_getter]" "classes sample_module = [sample_class]"
  "class_features sample_module = [sample_feature]" "version sample_module = \<lparr>major = 29, minor = 0\<rparr>"
  "entry sample_module = FunctionId 0"
  by (simp_all add: sample_module_def with_class_features_def with_classes_def module_new_def
      CURRENT_BYTECODE_VERSION_def version_new_def)

lemma sample_simps:
  "instructions sample_getter = map instruction_new [LoadLocal (Register 0) (LocalSlot 0), Return [Register 0]]"
  "parameter_count sample_getter = 1" "local_count sample_getter = 1" "register_count sample_getter = 1"
  "argument_layout sample_getter = None" "constants sample_getter = []" "exception_handlers sample_getter = []"
  "parameter_count sample_function = 0" "argument_layout sample_function = None" "constants sample_function = []"
  by (simp_all add: sample_getter_def sample_function_def function_new_def with_exception_handlers_def)

lemma sample_class_simps:
  "method_name sample_method = ''get.area''" "method_function sample_method = FunctionId 1" "method_kind sample_method = Instance"
  "\<not> is_abstract sample_method" "\<not> is_external sample_method" "constructor_output sample_method = None"
  "property_name sample_property = ''area''" "property_kind sample_property = Dependent" "default sample_property = None"
  "get_access sample_property = Some Public" "set_access sample_property = None"
  "class_name sample_class = ''Shape''" "superclass sample_class = None" "declared_abstract sample_class = None"
  "properties sample_class = [sample_property]" "methods sample_class = [sample_method]"
  by (simp_all add: sample_method_def sample_property_def sample_class_def)

lemma sample_class_verified: "verify_classes sample_module = Ok ()"
proof -
  have getter: "get (module_functions sample_module) 1 = Some sample_getter"
    by (simp add: get_def slice_get_def sample_module_simps)
  have accessor: "accessor_parts ''get.area'' = Some (''get'', ''area'')"
    by (simp add: accessor_parts_def split_once_def)
  have special: "verify_special_method_signature sample_module sample_class sample_method 1 1 = Ok ()"
    by (simp add: verify_special_method_signature_def sample_class_simps getter sample_simps
        instruction_new_def returned_count_def returns_exactly_def try_from_def u32_max_def)
  have "verify_method sample_module sample_class sample_method = Ok ()"
    by (simp add: verify_method_def sample_class_simps getter constructor_name_def
        verify_accessor_method_def accessor valid_accessor_target_def special)
  then have "verify_class sample_module sample_class = Ok ()"
    by (simp add: verify_class_def verify_superclass_def verify_abstract_conflict_def verify_property_def
        verify_accessors_present_def verify_dependent_accessor_def valid_access_def sample_class_simps)
  moreover have "verify_class_features sample_module = Ok ()"
    by (simp add: verify_class_features_def verify_feature_def sample_module_simps sample_feature_def get_def slice_get_def
        verify_feature_header_def verify_event_def insert_name_def names_member_def sample_class_simps verify_sealed_method_def)
  ultimately show ?thesis by (simp add: verify_classes_def sample_module_simps)
qed

lemma sample_functions_ok:
  "function_ok sample_module (FunctionId 0) sample_function" "function_ok sample_module (FunctionId 1) sample_getter"
proof -
  have kinds: "well_structured md fid fn (Jump t)" "well_structured md fid fn (Move a b)"
    "well_structured md fid fn (LoadLocal a l)" "well_structured md fid fn (Return vs)" for md fid fn t a b l vs
    by (simp_all add: well_structured_def)
  have since: "introduced_in (Jump t) = 0" "introduced_in (Move a b) = 0" "introduced_in (LoadLocal a l) = 0"
    "introduced_in (Return vs) = 0" for t a b l vs
    by (simp_all add: introduced_in_def dynamic_output_instruction_def call_target_instruction_def package_instruction_def)
  have handlers: "(\<forall>h\<in>set (exception_handlers sample_function). handler_ok sample_function h) \<and>
      laminar (exception_handlers sample_function)"
    using sample_function_verified [of "FunctionId 0"] by (simp add: verify_exception_handlers_iff)
  have "variadic_ok sample_function" "variadic_ok sample_getter"
    by (auto simp: variadic_ok_def sample_function_simps sample_simps instruction_new_def
        variadic_marker_def less_Suc_eq nth_Cons' split: if_splits)
  then show "function_ok sample_module (FunctionId 0) sample_function" "function_ok sample_module (FunctionId 1) sample_getter"
    using handlers
    by (simp_all add: function_ok_def kinds since operand_in_range_def sample_function_simps sample_simps
        instruction_new_def laminar_def)
qed

lemma sample_module_verified: "verify sample_module = Ok ()"
proof -
  have "function_ok sample_module (FunctionId (index_to_u32 i)) ([sample_function, sample_getter] ! i)" if "i < 2" for i
    using that sample_functions_ok by (auto simp: less_Suc_eq numeral_2_eq_2 index_to_u32_def try_from_def u32_max_def)
  then show ?thesis
    unfolding verify_iff by (simp add: sample_module_simps sample_class_verified)
qed

subsection \<open>Where errors point\<close>

text \<open>Only the check of an instruction attaches an instruction to its error.\<close>

definition no_instruction :: "(VerificationError, 'a) result \<Rightarrow> bool" where
  "no_instruction r \<longleftrightarrow> (\<forall>e. r = Err e \<longrightarrow> error_instruction e = None)"

lemma no_instruction_simps [simp]:
  "no_instruction (Ok x)" "no_instruction (Err e) \<longleftrightarrow> error_instruction e = None"
  "no_instruction (ensure b e) \<longleftrightarrow> b \<or> error_instruction e = None"
  "no_instruction (ok_or e y) \<longleftrightarrow> y \<noteq> None \<or> error_instruction e = None"
  by (auto simp: no_instruction_def result_simps)

lemma no_instruction_intros:
  "\<forall>c\<in>set cs. no_instruction c \<Longrightarrow> no_instruction (all_checks cs)"
  "\<forall>x\<in>set xs. no_instruction (f x) \<Longrightarrow> no_instruction (for_each f xs)"
  "no_instruction r \<Longrightarrow> (\<And>x. no_instruction (g x)) \<Longrightarrow> no_instruction (and_then r g)"
  "(\<And>s x. no_instruction (h s x)) \<Longrightarrow> no_instruction (fold_result h s0 ys)"
  unfolding no_instruction_def
  by (auto dest: all_checks_Err_elem for_each_Err_elem simp: result_simps intro: fold_result_Err)

lemma error_constructors [simp]:
  "error_instruction (class_error f l k) = None" "error_instruction (invalid_feature c n r l) = None"
  "error_instruction (function_error fid k) = None" "error_instruction (exception_handler_error fid h k) = None"
  "error_instruction (module_error k) = None"
  by (simp_all add: class_error_def invalid_feature_def function_error_def exception_handler_error_def module_error_def)

lemma special_method_no_instruction: "no_instruction (verify_special_method_signature md c mt a b)"
  by (simp add: verify_special_method_signature_def Let_def split: option.split)

lemma class_no_instruction: "no_instruction (verify_class md c)"
proof -
  have "no_instruction (verify_superclass c)" "no_instruction (verify_abstract_conflict c)"
    by (auto simp: verify_superclass_def verify_abstract_conflict_def split: option.split)
  moreover have "no_instruction (verify_property md c pr)" for pr
    unfolding verify_property_def Let_def by (rule no_instruction_intros) (auto split: option.split)
  moreover have "no_instruction (verify_accessor_method md c mt)" for mt
    by (auto simp: verify_accessor_method_def Let_def special_method_no_instruction split: option.split)
  then have "no_instruction (verify_method md c mt)" for mt
    unfolding verify_method_def Let_def
    by (intro no_instruction_intros) (auto simp: special_method_no_instruction split: option.split)
  moreover have "no_instruction (verify_accessors_present c pr)" for pr
    unfolding verify_accessors_present_def verify_dependent_accessor_def Let_def by (rule no_instruction_intros) auto
  ultimately show ?thesis
    unfolding verify_class_def by (intro no_instruction_intros) (auto intro!: no_instruction_intros)
qed

lemma feature_no_instruction: "no_instruction (verify_feature md seen ft)"
proof -
  have "no_instruction (verify_feature_header c ft)" for c
    unfolding verify_feature_header_def Let_def by (rule no_instruction_intros) auto
  moreover have "no_instruction (insert_name names n e)" if "error_instruction e = None" for names n e
    using that by (simp add: insert_name_def)
  then have "no_instruction (verify_enum_member md c names mb)" "no_instruction (verify_event c names ev)"
    "no_instruction (verify_abstract_property c names ap)" "no_instruction (verify_sealed_method c ft names n)" for c names mb ev ap n
    unfolding verify_enum_member_def verify_event_def verify_abstract_property_def verify_sealed_method_def
    by (intro no_instruction_intros; simp)+
  ultimately show ?thesis
    unfolding verify_feature_def by (intro no_instruction_intros) simp_all
qed

lemma classes_no_instruction: "no_instruction (verify_classes md)"
  unfolding verify_classes_def verify_class_features_def
  by (intro no_instruction_intros) (auto intro!: no_instruction_intros simp: class_no_instruction feature_no_instruction)

lemma handlers_no_instruction: "no_instruction (verify_exception_handlers fid fn)"
proof -
  have "no_instruction (map_err (exception_handler_error fid h) r)" for h and r :: checked_kind
    by (cases r) simp_all
  then have "no_instruction (verify_exception_handler fid fn h)" for h
    by (simp add: verify_exception_handler_def)
  moreover have "no_instruction (verify_range_pair fid a b)" for a b
    by (simp add: verify_range_pair_def verify_nested_pair_def)
  then have "no_instruction (verify_exception_range_nesting fid hs)" for hs
    by (induction hs) (auto intro!: no_instruction_intros)
  ultimately show ?thesis
    unfolding verify_exception_handlers_def by (intro no_instruction_intros) simp_all
qed

lemma for_each_enumerate_Err:
  assumes "for_each f (enumerate 0 xs) = Err e"
  shows "\<exists>i<length xs. f (i, xs ! i) = Err e \<and> (\<forall>k<i. f (k, xs ! k) = Ok ())"
proof -
  from assms obtain ys x zs where split: "enumerate 0 xs = ys @ x # zs" and ok: "\<forall>y\<in>set ys. f y = Ok ()" and err: "f x = Err e"
    by (auto simp: for_each_eq_Err)
  have nth: "enumerate 0 xs ! k = (k, xs ! k)" if "k < length xs" for k
    using that by (simp add: nth_enumerate_eq)
  have len: "length ys < length xs" using arg_cong [OF split, of length] by simp
  have "x = (length ys, xs ! length ys)" using nth [OF len] by (simp add: split)
  moreover have "(k, xs ! k) \<in> set ys" if "k < length ys" for k
    using nth [of k] that len by (auto simp: split nth_append in_set_conv_nth)
  ultimately show ?thesis using len ok err by blast
qed

lemma function_error_located:
  assumes err: "verify_function md fid fn = Err e" and at: "error_instruction e = Some j"
  shows "\<exists>i<length (instructions fn). j = InstructionIndex (index_to_u32 i) \<and>
    verify_instruction md fid j fn (instructions fn ! i) = Err e \<and>
    (\<forall>k<i. verify_instruction md fid (InstructionIndex (index_to_u32 k)) fn (instructions fn ! k) = Ok ())"
proof -
  let ?f = "\<lambda>(index, ins). verify_instruction md fid (InstructionIndex (index_to_u32 index)) fn ins"
  have quiet: "no_instruction (verify_layout md fid fn)" "no_instruction (verify_variadic fid fn)"
      "no_instruction (for_each (verify_constant md fid) (constants fn))"
    by (auto simp: verify_layout_def verify_variadic_def verify_constant_def Let_def
        intro!: no_instruction_intros split: option.split list.split Constant.split)
  from err quiet at have "for_each ?f (enumerate 0 (instructions fn)) = Err e"
    using handlers_no_instruction [of fid fn]
    by (auto simp: verify_function_def result_simps no_instruction_def)
  from for_each_enumerate_Err [OF this] obtain i where i: "i < length (instructions fn)"
      "verify_instruction md fid (InstructionIndex (index_to_u32 i)) fn (instructions fn ! i) = Err e"
      "\<forall>k<i. verify_instruction md fid (InstructionIndex (index_to_u32 k)) fn (instructions fn ! k) = Ok ()"
    by auto
  moreover from i(2) at have "j = InstructionIndex (index_to_u32 i)"
    by (cases "all_checks [check_version (version md) (instr_kind (instructions fn ! i)),
        verify_operands md fid fn (instr_kind (instructions fn ! i))]") (auto simp: verify_instruction_def)
  ultimately show ?thesis by blast
qed

subsection \<open>Properties\<close>

text \<open>
  C20: in a verified module every operand of every instruction is in range of its function: the
  register, pack, local and persistent indices are below the sizes the frame is allocated with,
  constants are in the pool, names are string constants and jumps land inside the stream.
\<close>

theorem verified_operands_in_range:
  assumes ok: "verify md = Ok ()" and fn: "get (module_functions md) (func_get fid) = Some fn"
    and ins: "get (instructions fn) i = Some ins" and x: "x \<in> set (operands (instr_kind ins))"
  shows "operand_in_range fn x"
  using verify_function_Ok(6) [OF verify_Ok(6) [OF ok fn] ins] x
  by (auto simp: verify_instruction_Ok operands_accepted)

theorem verified_operands_in_range_witness:
  "operand_in_range sample_function (RegisterOperand (Register 1))"
  by (rule verified_operands_in_range [OF sample_module_verified, of "FunctionId 0" _ 1 "instruction_new (Move (Register 1) (Register 0))"])
    (simp_all add: get_def slice_get_def sample_module_simps sample_function_simps instruction_new_def)



text \<open>
  an error that names an instruction names the first instruction that fails, in the first function
  that fails: the reported function and index select it, the location is the instruction's own, and
  every earlier function and every earlier instruction of the same function passes.
\<close>

theorem verify_error_located:
  assumes err: "verify md = Err e" and at: "error_instruction e = Some j"
  shows "\<exists>f<length (module_functions md). \<exists>i<length (instructions (module_functions md ! f)).
    error_function e = Some (FunctionId (index_to_u32 f)) \<and> j = InstructionIndex (index_to_u32 i) \<and>
    error_location e = instr_location (instructions (module_functions md ! f) ! i) \<and>
    verify_instruction md (FunctionId (index_to_u32 f)) j (module_functions md ! f) (instructions (module_functions md ! f) ! i) = Err e \<and>
    (\<forall>g<f. verify_function md (FunctionId (index_to_u32 g)) (module_functions md ! g) = Ok ()) \<and>
    (\<forall>k<i. verify_instruction md (FunctionId (index_to_u32 f)) (InstructionIndex (index_to_u32 k))
        (module_functions md ! f) (instructions (module_functions md ! f) ! k) = Ok ())"
proof -
  from err at have "for_each (\<lambda>(index, fn). verify_function md (FunctionId (index_to_u32 index)) fn)
      (enumerate 0 (module_functions md)) = Err e"
    using classes_no_instruction [of md] by (auto simp: verify_def result_simps no_instruction_def)
  from for_each_enumerate_Err [OF this] obtain f where f: "f < length (module_functions md)"
      "verify_function md (FunctionId (index_to_u32 f)) (module_functions md ! f) = Err e"
      "\<forall>g<f. verify_function md (FunctionId (index_to_u32 g)) (module_functions md ! g) = Ok ()"
    by auto
  from function_error_located [OF f(2) at] obtain i where i: "i < length (instructions (module_functions md ! f))"
      "j = InstructionIndex (index_to_u32 i)"
      "verify_instruction md (FunctionId (index_to_u32 f)) j (module_functions md ! f) (instructions (module_functions md ! f) ! i) = Err e"
      "\<forall>k<i. verify_instruction md (FunctionId (index_to_u32 f)) (InstructionIndex (index_to_u32 k))
        (module_functions md ! f) (instructions (module_functions md ! f) ! k) = Ok ()"
    by blast
  let ?r = "all_checks [check_version (version md) (instr_kind (instructions (module_functions md ! f) ! i)),
    verify_operands md (FunctionId (index_to_u32 f)) (module_functions md ! f) (instr_kind (instructions (module_functions md ! f) ! i))]"
  from i(3) have "error_function e = Some (FunctionId (index_to_u32 f))"
      "error_location e = instr_location (instructions (module_functions md ! f) ! i)"
    by (cases ?r; auto simp: verify_instruction_def)+
  with f i show ?thesis by blast
qed

definition sample_broken :: BytecodeModule where
  "sample_broken = module_new
     [(function_new ''f'' 2 0 0)\<lparr>instructions := [instruction_new (Return []), located (Move (Register 9) (Register 0)) sample_location]\<rparr>]
     (FunctionId 0)"

lemma sample_broken_error:
  "verify sample_broken = Err \<lparr>error_function = Some (FunctionId 0), error_instruction = Some (InstructionIndex 1),
     error_location = Some sample_location, error_kind = InvalidRegister (Register 9) 2\<rparr>"
  by (simp add: verify_def sample_broken_def module_new_def CURRENT_BYTECODE_VERSION_def MIN_SUPPORTED_BYTECODE_VERSION_def
      version_new_def get_def slice_get_def verify_classes_def verify_class_features_def verify_function_def verify_layout_def
      function_new_def verify_exception_handlers_def verify_variadic_def variadic_marker_def instruction_new_def located_def
      verify_instruction_def check_version_def package_instruction_def call_target_instruction_def dynamic_output_instruction_def
      check_register_def index_to_u32_def try_from_def u32_max_def)

theorem verify_error_located_witness:
  "\<exists>f i. error_function (projl (verify sample_broken)) = Some (FunctionId (index_to_u32 f)) \<and>
     InstructionIndex 1 = InstructionIndex (index_to_u32 i) \<and>
     error_location (projl (verify sample_broken)) = instr_location (instructions (module_functions sample_broken ! f) ! i)"
  using verify_error_located [OF sample_broken_error, of "InstructionIndex 1"] by (auto simp: sample_broken_error)

text \<open>
  a verified class gives every readable dependent property an instance method \<open>get.name\<close> whose body
  takes the object alone and returns exactly one value on every return, and every writable one an
  instance method \<open>set.name\<close> whose body takes the object and the value and returns exactly one value;
  such property names contain no dot.
\<close>

theorem dependent_accessors_complete:
  assumes ok: "verify md = Ok ()" and c: "c \<in> set (classes md)"
    and pr: "pr \<in> set (properties c)" and dep: "property_kind pr = Dependent"
  shows "CHR ''.'' \<notin> set (property_name pr) \<and>
    (get_access pr \<noteq> None \<longrightarrow> (\<exists>mt fn. mt \<in> set (methods c) \<and> method_name mt = ''get.'' @ property_name pr \<and>
      method_kind mt = Instance \<and> get (module_functions md) (func_get (method_function mt)) = Some fn \<and> signature fn 1 1)) \<and>
    (set_access pr \<noteq> None \<longrightarrow> (\<exists>mt fn. mt \<in> set (methods c) \<and> method_name mt = ''set.'' @ property_name pr \<and>
      method_kind mt = Instance \<and> get (module_functions md) (func_get (method_function mt)) = Some fn \<and> signature fn 2 1))"
proof -
  have vc: "verify_class md c = Ok ()"
    using verify_Ok(5) [OF ok] c by (auto simp: verify_classes_def class_results)
  have some: "get_access pr \<noteq> None \<or> set_access pr \<noteq> None"
    using verify_class_Ok(4) [OF vc pr] dep by (auto simp: verify_property_def class_results Let_def valid_access_def)
  have "get_access pr \<noteq> None \<Longrightarrow> verify_dependent_accessor c pr ''get'' = Ok ()"
    "set_access pr \<noteq> None \<Longrightarrow> verify_dependent_accessor c pr ''set'' = Ok ()"
    using verify_class_Ok(6) [OF vc pr dep] by (simp_all add: verify_accessors_present_def class_results)
  with dependent_accessor_found [OF vc pr dep, of "''get''"] dependent_accessor_found [OF vc pr dep, of "''set''"] some
  show ?thesis by (fastforce simp: append_Cons [symmetric])
qed

theorem dependent_accessors_complete_witness:
  "\<exists>mt fn. mt \<in> set (methods sample_class) \<and> method_name mt = ''get.area'' \<and>
     get (module_functions sample_module) (func_get (method_function mt)) = Some fn \<and> signature fn 1 1"
  using dependent_accessors_complete [OF sample_module_verified, of sample_class sample_property]
  by (auto simp: sample_module_simps sample_class_simps)

text \<open>
  in a verified module a class has at most one feature record; the names of its enumeration
  members, events and abstract properties are pairwise distinct, not empty and not names of its
  properties or methods; every enumeration member has an initialiser without parameters whose returns
  all carry the declared number of constructor arguments; sealed methods are distinct methods of the
  class; and a class is an enumeration exactly when it has members.
\<close>

theorem class_features_consistent:
  assumes ok: "verify md = Ok ()"
  shows "distinct (map feature_class (class_features md)) \<and>
    (\<forall>ft\<in>set (class_features md). \<exists>c. get (classes md) (class_get (feature_class ft)) = Some c \<and>
      distinct (feature_names ft) \<and> (\<forall>n\<in>set (feature_names ft). n \<noteq> '''' \<and> \<not> names_member c n) \<and>
      (\<forall>mb\<in>set (enumeration_members ft). \<exists>fn. get (module_functions md) (func_get (argument_initializer mb)) = Some fn \<and>
        signature fn 0 (unat (argument_count mb))) \<and>
      set (sealed_methods ft) \<subseteq> method_name ` set (methods c) \<and> distinct (sealed_methods ft) \<and>
      (feature_kind ft = Enumeration \<longleftrightarrow> enumeration_members ft \<noteq> []))"
proof -
  from verify_Ok(5) [OF ok] obtain seen where "fold_result (verify_feature md) {} (class_features md) = Ok seen"
    by (auto simp: verify_classes_def verify_class_features_def class_results)
  note loop = feature_loop_Ok [OF this]
  show ?thesis
  proof (intro conjI ballI)
    fix ft assume "ft \<in> set (class_features md)"
    with loop obtain s s' where "verify_feature md s ft = Ok s'" by blast
    then show "\<exists>c. get (classes md) (class_get (feature_class ft)) = Some c \<and>
      distinct (feature_names ft) \<and> (\<forall>n\<in>set (feature_names ft). n \<noteq> '''' \<and> \<not> names_member c n) \<and>
      (\<forall>mb\<in>set (enumeration_members ft). \<exists>fn. get (module_functions md) (func_get (argument_initializer mb)) = Some fn \<and>
        signature fn 0 (unat (argument_count mb))) \<and>
      set (sealed_methods ft) \<subseteq> method_name ` set (methods c) \<and> distinct (sealed_methods ft) \<and>
      (feature_kind ft = Enumeration \<longleftrightarrow> enumeration_members ft \<noteq> [])"
      by (rule verify_feature_Ok) blast
  qed (use loop in simp)
qed

theorem class_features_consistent_witness:
  "feature_names sample_feature = [''Moved''] \<and> \<not> names_member sample_class ''Moved''"
  using class_features_consistent [OF sample_module_verified]
  by (auto simp: sample_module_simps feature_names_def sample_feature_def get_def slice_get_def)

end
