(* ===== verification/Interp_Registers.thy ===== *)
theory Interp_Registers
  imports Bytecode_Instructions
begin

section \<open>Which registers an instruction reads (openmat-runtime/src/interpreter.rs)\<close>

text \<open>
  The interpreter moves a value out of its register when no other instruction of the function reads
  that register. The analysis is a match over the whole instruction set, for value registers and for
  pack registers; it is checked here against the operand lists of the instructions and the registers
  they write.
\<close>

subsection \<open>The analysis\<close>

definition reads_arguments :: "Register \<Rightarrow> ApplyArgument list \<Rightarrow> bool" where
  "reads_arguments r arguments = list_ex (\<lambda>a. a = ApplyArgument.Value r) arguments"

definition reads_source :: "Register \<Rightarrow> ValueSource \<Rightarrow> bool" where
  "reads_source r s \<longleftrightarrow> s = One r"

definition reads_field :: "Register \<Rightarrow> FieldOperand \<Rightarrow> bool" where
  "reads_field r f \<longleftrightarrow> f = Dynamic r"

definition reads_path :: "Register \<Rightarrow> PlaceStep list \<Rightarrow> bool" where
  "reads_path r path =
     list_ex (\<lambda>st. case st of
         Paren arguments \<Rightarrow> reads_arguments r arguments
       | Brace arguments \<Rightarrow> reads_arguments r arguments
       | PlaceStep.Field f \<Rightarrow> reads_field r f) path"

definition reads_pack_target :: "Register \<Rightarrow> PackApplyTarget \<Rightarrow> bool" where
  "reads_pack_target r t =
     (case t of
        PackApplyTarget.Value x \<Rightarrow> x = r
      | PackApplyTarget.Field ob _ \<Rightarrow> ob = r
      | Qualified tgt u _ \<Rightarrow> tgt = r \<or> u = r)"

primrec instruction_reads_register :: "InstructionKind \<Rightarrow> Register \<Rightarrow> bool" where
  "instruction_reads_register (Move d s) r \<longleftrightarrow> s = r"
| "instruction_reads_register (StoreLocal l s) r \<longleftrightarrow> s = r"
| "instruction_reads_register (StorePersistent p s) r \<longleftrightarrow> s = r"
| "instruction_reads_register (StoreCapture c s) r \<longleftrightarrow> s = r"
| "instruction_reads_register (StoreGlobal c s) r \<longleftrightarrow> s = r"
| "instruction_reads_register (StatementValue s res b) r \<longleftrightarrow> s = r"
| "instruction_reads_register (Display c s) r \<longleftrightarrow> s = r"
| "instruction_reads_register (Binary op d lhs rhs) r \<longleftrightarrow> lhs = r \<or> rhs = r"
| "instruction_reads_register (SwitchMatch d s c) r \<longleftrightarrow> s = r \<or> c = r"
| "instruction_reads_register (BuildMatrix d rows) r \<longleftrightarrow> list_ex (\<lambda>x. x = r) (concat rows)"
| "instruction_reads_register (BuildCell d rows) r \<longleftrightarrow> list_ex (reads_source r) (concat rows)"
| "instruction_reads_register (Range d s t e) r \<longleftrightarrow> s = r \<or> t = r \<or> e = r"
| "instruction_reads_register (Transpose d x b) r \<longleftrightarrow> x = r"
| "instruction_reads_register (ApplyBinding os t args) r \<longleftrightarrow> t = r \<or> reads_arguments r args"
| "instruction_reads_register (Apply os t args) r \<longleftrightarrow> t = r \<or> reads_arguments r args"
| "instruction_reads_register (StatementApply t args res b) r \<longleftrightarrow> t = r \<or> reads_arguments r args"
| "instruction_reads_register (ApplyQualified os t u cs args) r \<longleftrightarrow> t = r \<or> u = r \<or> reads_arguments r args"
| "instruction_reads_register (StatementApplyQualified t u cs args res b) r \<longleftrightarrow> t = r \<or> u = r \<or> reads_arguments r args"
| "instruction_reads_register (ReturnApply t args) r \<longleftrightarrow> t = r \<or> reads_arguments r args"
| "instruction_reads_register (MakeClosure d fid caps) r \<longleftrightarrow> list_ex (\<lambda>(_, s, _). s = Some r) caps"
| "instruction_reads_register (InvokeSuperclassConstructor c l args) r \<longleftrightarrow> r \<in> set args"
| "instruction_reads_register (GetField d ob c) r \<longleftrightarrow> ob = r"
| "instruction_reads_register (GetQualifiedPack p t rf u cs) r \<longleftrightarrow> t = r \<or> rf = r \<or> u = r"
| "instruction_reads_register (SetField d ob c v) r \<longleftrightarrow> ob = r \<or> v = r"
| "instruction_reads_register (ApplyField os ob c args) r \<longleftrightarrow> ob = r \<or> reads_arguments r args"
| "instruction_reads_register (StatementApplyField ob c args res b) r \<longleftrightarrow> ob = r \<or> reads_arguments r args"
| "instruction_reads_register (ReturnApplyField ob c args) r \<longleftrightarrow> ob = r \<or> reads_arguments r args"
| "instruction_reads_register (BraceApply p t args) r \<longleftrightarrow> t = r \<or> reads_arguments r args"
| "instruction_reads_register (GetAggregateField p t f) r \<longleftrightarrow> t = r \<or> reads_field r f"
| "instruction_reads_register (AssignPlace d root path s md) r \<longleftrightarrow> root = r \<or> reads_path r path \<or> reads_source r s"
| "instruction_reads_register (AssignBindingPlace res b root path s md) r \<longleftrightarrow> root = r \<or> reads_path r path \<or> reads_source r s"
| "instruction_reads_register (RequireDefined v c) r \<longleftrightarrow> v = r"
| "instruction_reads_register (CountPlaceOutputs d root path) r \<longleftrightarrow> root = r \<or> reads_path r path"
| "instruction_reads_register (SlicePack p q s n) r \<longleftrightarrow> s = r \<or> n = r"
| "instruction_reads_register (ApplyOutputPack p n t args) r \<longleftrightarrow> n = r \<or> reads_arguments r args \<or> reads_pack_target r t"
| "instruction_reads_register (ResolveEnd d t i n) r \<longleftrightarrow> t = r"
| "instruction_reads_register (JumpIfFalse c t) r \<longleftrightarrow> c = r"
| "instruction_reads_register (Call os c args) r \<longleftrightarrow> c = r \<or> r \<in> set args"
| "instruction_reads_register (IndexAssign d t args v) r \<longleftrightarrow> t = r \<or> v = r \<or> reads_arguments r args"
| "instruction_reads_register (ForEach it i d x) r \<longleftrightarrow> it = r \<or> i = r"
| "instruction_reads_register (Return vs) r \<longleftrightarrow> r \<in> set vs"
| "instruction_reads_register (ReturnVariadic vs v) r \<longleftrightarrow> r \<in> set vs \<or> v = r"
| "instruction_reads_register (DeclareImports cs) r \<longleftrightarrow> False"
| "instruction_reads_register ClearImports r \<longleftrightarrow> False"
| "instruction_reads_register (DeclareNamedBindings bs) r \<longleftrightarrow> False"
| "instruction_reads_register (LoadConstant d c) r \<longleftrightarrow> False"
| "instruction_reads_register (LoadLocal d l) r \<longleftrightarrow> False"
| "instruction_reads_register (DeclareGlobal c) r \<longleftrightarrow> False"
| "instruction_reads_register (DeclarePersistent s) r \<longleftrightarrow> False"
| "instruction_reads_register (LoadPersistent d s) r \<longleftrightarrow> False"
| "instruction_reads_register (LoadCallInputCount d) r \<longleftrightarrow> False"
| "instruction_reads_register (LoadCallOutputCount d) r \<longleftrightarrow> False"
| "instruction_reads_register (LoadVariadicInputs d) r \<longleftrightarrow> False"
| "instruction_reads_register (LoadGlobal d c b) r \<longleftrightarrow> False"
| "instruction_reads_register (LoadCallTarget d c) r \<longleftrightarrow> False"
| "instruction_reads_register (LoadQualifiedTarget d rf u c cs n) r \<longleftrightarrow> False"
| "instruction_reads_register (LoadFunctionHandle d c) r \<longleftrightarrow> False"
| "instruction_reads_register (LoadFunctionHandleCandidates d cs) r \<longleftrightarrow> False"
| "instruction_reads_register (MakeSharedClosure d fid caps) r \<longleftrightarrow> False"
| "instruction_reads_register (LoadCapture d c) r \<longleftrightarrow> False"
| "instruction_reads_register (LoadGlobalOrNothing d c) r \<longleftrightarrow> False"
| "instruction_reads_register (ClearGlobal cs) r \<longleftrightarrow> False"
| "instruction_reads_register ClearGlobalAll r \<longleftrightarrow> False"
| "instruction_reads_register (ClearLocal ls) r \<longleftrightarrow> False"
| "instruction_reads_register (ClearCapture cs) r \<longleftrightarrow> False"
| "instruction_reads_register (ClearDynamicBindings cs b) r \<longleftrightarrow> False"
| "instruction_reads_register (RegisterClass c) r \<longleftrightarrow> False"
| "instruction_reads_register (RequireSinglePack p) r \<longleftrightarrow> False"
| "instruction_reads_register (Unpack os p) r \<longleftrightarrow> False"
| "instruction_reads_register (Jump t) r \<longleftrightarrow> False"
| "instruction_reads_register (StatementPack p res b) r \<longleftrightarrow> False"

definition reads_pack_arguments :: "PackRegister \<Rightarrow> ApplyArgument list \<Rightarrow> bool" where
  "reads_pack_arguments p arguments = list_ex (\<lambda>a. a = ApplyArgument.Expand p) arguments"

definition reads_pack_source :: "PackRegister \<Rightarrow> ValueSource \<Rightarrow> bool" where
  "reads_pack_source p s \<longleftrightarrow> s = ValueSource.Expand p"

definition reads_pack_path :: "PackRegister \<Rightarrow> PlaceStep list \<Rightarrow> bool" where
  "reads_pack_path p path =
     list_ex (\<lambda>st. case st of
         Paren arguments \<Rightarrow> reads_pack_arguments p arguments
       | Brace arguments \<Rightarrow> reads_pack_arguments p arguments
       | PlaceStep.Field f \<Rightarrow> False) path"

definition instruction_reads_pack_register :: "InstructionKind \<Rightarrow> PackRegister \<Rightarrow> bool" where
  "instruction_reads_pack_register k p =
     (case k of
        BuildCell _ rows \<Rightarrow> list_ex (reads_pack_source p) (concat rows)
      | CountPlaceOutputs _ _ path \<Rightarrow> reads_pack_path p path
      | SlicePack _ source _ _ \<Rightarrow> source = p
      | ApplyOutputPack _ _ _ args \<Rightarrow> reads_pack_arguments p args
      | ApplyBinding _ _ args \<Rightarrow> reads_pack_arguments p args
      | ApplyField _ _ _ args \<Rightarrow> reads_pack_arguments p args
      | ApplyQualified _ _ _ _ args \<Rightarrow> reads_pack_arguments p args
      | BraceApply _ _ args \<Rightarrow> reads_pack_arguments p args
      | Apply _ _ args \<Rightarrow> reads_pack_arguments p args
      | StatementApply _ args _ _ \<Rightarrow> reads_pack_arguments p args
      | StatementApplyField _ _ args _ _ \<Rightarrow> reads_pack_arguments p args
      | StatementApplyQualified _ _ _ args _ _ \<Rightarrow> reads_pack_arguments p args
      | ReturnApply _ args \<Rightarrow> reads_pack_arguments p args
      | ReturnApplyField _ _ args \<Rightarrow> reads_pack_arguments p args
      | IndexAssign _ _ args _ \<Rightarrow> reads_pack_arguments p args
      | AssignPlace _ _ path s _ \<Rightarrow> reads_pack_path p path \<or> reads_pack_source p s
      | AssignBindingPlace _ _ _ path s _ \<Rightarrow> reads_pack_path p path \<or> reads_pack_source p s
      | Unpack _ pack \<Rightarrow> pack = p
      | StatementPack pack _ _ \<Rightarrow> pack = p
      | RequireSinglePack pack \<Rightarrow> pack = p
      | _ \<Rightarrow> False)"

text \<open>The function is scanned with its indices; \<open>current\<close> is the instruction being executed.\<close>

definition register_is_read_elsewhere :: "Function \<Rightarrow> InstructionIndex \<Rightarrow> Register \<Rightarrow> bool" where
  "register_is_read_elsewhere fn current r =
     list_ex (\<lambda>(index, ins). index \<noteq> unat (index_get current) \<and> instruction_reads_register (instr_kind ins) r)
       (enumerate 0 (instructions fn))"

definition pack_register_is_read_elsewhere :: "Function \<Rightarrow> InstructionIndex \<Rightarrow> PackRegister \<Rightarrow> bool" where
  "pack_register_is_read_elsewhere fn current p =
     list_ex (\<lambda>(index, ins). index \<noteq> unat (index_get current) \<and> instruction_reads_pack_register (instr_kind ins) p)
       (enumerate 0 (instructions fn))"

subsection \<open>The registers an instruction writes\<close>

definition destinations :: "InstructionKind \<Rightarrow> Register list" where
  "destinations k =
     (case k of
        CountPlaceOutputs d _ _ \<Rightarrow> [d] | LoadConstant d _ \<Rightarrow> [d] | Move d _ \<Rightarrow> [d] | Binary _ d _ _ \<Rightarrow> [d]
      | SwitchMatch d _ _ \<Rightarrow> [d] | BuildMatrix d _ \<Rightarrow> [d] | BuildCell d _ \<Rightarrow> [d] | Range d _ _ _ \<Rightarrow> [d]
      | Transpose d _ _ \<Rightarrow> [d] | LoadLocal d _ \<Rightarrow> [d] | LoadPersistent d _ \<Rightarrow> [d] | LoadCallInputCount d \<Rightarrow> [d]
      | LoadCallOutputCount d \<Rightarrow> [d] | LoadVariadicInputs d \<Rightarrow> [d] | LoadGlobal d _ _ \<Rightarrow> [d] | LoadCallTarget d _ \<Rightarrow> [d]
      | LoadQualifiedTarget d found suffix _ _ _ \<Rightarrow> [d, found, suffix] | ApplyBinding os _ _ \<Rightarrow> os
      | LoadFunctionHandle d _ \<Rightarrow> [d] | LoadFunctionHandleCandidates d _ \<Rightarrow> [d] | MakeClosure d _ _ \<Rightarrow> [d]
      | MakeSharedClosure d _ _ \<Rightarrow> [d] | LoadCapture d _ \<Rightarrow> [d] | LoadGlobalOrNothing d _ \<Rightarrow> [d] | GetField d _ _ \<Rightarrow> [d]
      | SetField d _ _ _ \<Rightarrow> [d] | ApplyField os _ _ _ \<Rightarrow> os | ApplyQualified os _ _ _ _ \<Rightarrow> os | AssignPlace d _ _ _ _ \<Rightarrow> [d]
      | AssignBindingPlace res _ _ _ _ _ \<Rightarrow> (case res of Some d \<Rightarrow> [d] | None \<Rightarrow> []) | ResolveEnd d _ _ _ \<Rightarrow> [d]
      | Unpack os _ \<Rightarrow> os | Call os _ _ \<Rightarrow> os | Apply os _ _ \<Rightarrow> os | IndexAssign d _ _ _ \<Rightarrow> [d]
      | ForEach _ i d _ \<Rightarrow> [i, d]
      | _ \<Rightarrow> [])"

definition pack_destinations :: "InstructionKind \<Rightarrow> PackRegister list" where
  "pack_destinations k =
     (case k of
        ApplyOutputPack p _ _ _ \<Rightarrow> [p] | SlicePack p _ _ _ \<Rightarrow> [p] | GetQualifiedPack p _ _ _ _ \<Rightarrow> [p]
      | BraceApply p _ _ \<Rightarrow> [p] | GetAggregateField p _ _ \<Rightarrow> [p]
      | _ \<Rightarrow> [])"

lemma reads_arguments_iff: "reads_arguments r args \<longleftrightarrow> RegisterOperand r \<in> set (arguments_operands args)"
proof -
  have "a = ApplyArgument.Value r \<longleftrightarrow> RegisterOperand r \<in> set (argument_operands a)" for a by (cases a) auto
  then show ?thesis by (simp add: reads_arguments_def list_ex_iff)
qed

lemma reads_pack_arguments_iff: "reads_pack_arguments p args \<longleftrightarrow> PackOperand p \<in> set (arguments_operands args)"
proof -
  have "a = ApplyArgument.Expand p \<longleftrightarrow> PackOperand p \<in> set (argument_operands a)" for a by (cases a) auto
  then show ?thesis by (simp add: reads_pack_arguments_def list_ex_iff)
qed

lemma reads_source_iff: "reads_source r s \<longleftrightarrow> RegisterOperand r \<in> set (source_operands s)"
  by (cases s) (auto simp: reads_source_def)

lemma reads_pack_source_iff: "reads_pack_source p s \<longleftrightarrow> PackOperand p \<in> set (source_operands s)"
  by (cases s) (auto simp: reads_pack_source_def)

lemma reads_field_iff: "reads_field r f \<longleftrightarrow> RegisterOperand r \<in> set (field_operands f)"
  by (cases f) (auto simp: reads_field_def)

lemma no_pack_in_field: "PackOperand p \<notin> set (field_operands f)"
  by (cases f) auto

lemma reads_path_iff: "reads_path r path \<longleftrightarrow> RegisterOperand r \<in> set (path_operands path)"
proof -
  have "(case st of Paren args \<Rightarrow> reads_arguments r args | Brace args \<Rightarrow> reads_arguments r args
      | PlaceStep.Field f \<Rightarrow> reads_field r f) \<longleftrightarrow> RegisterOperand r \<in> set (step_operands st)" for st
    by (cases st) (simp_all add: reads_arguments_iff reads_field_iff)
  then show ?thesis by (simp add: reads_path_def list_ex_iff)
qed

lemma reads_pack_path_iff: "reads_pack_path p path \<longleftrightarrow> PackOperand p \<in> set (path_operands path)"
proof -
  have "(case st of Paren args \<Rightarrow> reads_pack_arguments p args | Brace args \<Rightarrow> reads_pack_arguments p args
      | PlaceStep.Field f \<Rightarrow> False) \<longleftrightarrow> PackOperand p \<in> set (step_operands st)" for st
    by (cases st) (simp_all add: reads_pack_arguments_iff no_pack_in_field)
  then show ?thesis by (simp add: reads_pack_path_def list_ex_iff)
qed

lemma other_operands:
  "RegisterOperand r \<in> set (target_operands t) \<longleftrightarrow> reads_pack_target r t" "PackOperand p \<notin> set (target_operands t)"
  "RegisterOperand r \<notin> set (binding_operands b)" "PackOperand p \<notin> set (binding_operands b)"
  "RegisterOperand r \<notin> set (named_operands nb)" "PackOperand p \<notin> set (named_operands nb)"
  "RegisterOperand r \<notin> set (result_operands res)" "PackOperand p \<notin> set (result_operands res)"
  "RegisterOperand r \<notin> set (shared_operands sc)" "PackOperand p \<notin> set (shared_operands sc)"
  "RegisterOperand r \<in> set (option_operands x) \<longleftrightarrow> x = Some r" "PackOperand p \<notin> set (option_operands x)"
  by (cases t; auto simp: reads_pack_target_def; fail | cases b; simp; fail | cases nb rule: named_operands.cases; simp; fail
    | cases res; simp; fail | cases sc; simp; fail | cases x; auto simp: option_operands_def; fail)+

lemmas read_iffs = reads_arguments_iff reads_pack_arguments_iff reads_source_iff reads_pack_source_iff reads_field_iff
  reads_path_iff reads_pack_path_iff other_operands no_pack_in_field

lemma register_operands_split:
  "RegisterOperand r \<in> set (operands k) \<longleftrightarrow> instruction_reads_register k r \<or> r \<in> set (destinations k)"
proof (cases k)
  case (DeclareNamedBindings bs)
  then show ?thesis by (simp add: destinations_def read_iffs)
next
  case (BuildCell d rows)
  then show ?thesis by (auto simp: destinations_def read_iffs list_ex_iff)
next
  case (MakeClosure d f caps)
  then show ?thesis by (auto simp: destinations_def read_iffs list_ex_iff case_prod_unfold)
next
  case (MakeSharedClosure d f caps)
  then show ?thesis by (auto simp: destinations_def read_iffs case_prod_unfold)
next
  case (AssignBindingPlace res b root path s md)
  then show ?thesis
    by (cases res) (auto simp: destinations_def read_iffs simp del: set_concat)
qed (simp_all add: destinations_def read_iffs list_ex_iff image_iff eq_commute [of r] disj_ac del: set_concat concat.simps)

lemma pack_operands_split:
  "PackOperand p \<in> set (operands k) \<longleftrightarrow> instruction_reads_pack_register k p \<or> p \<in> set (pack_destinations k)"
proof (cases k)
  case (DeclareNamedBindings bs)
  then show ?thesis by (simp add: pack_destinations_def instruction_reads_pack_register_def read_iffs)
next
  case (BuildCell d rows)
  then show ?thesis by (auto simp: pack_destinations_def instruction_reads_pack_register_def read_iffs list_ex_iff)
next
  case (MakeClosure d f caps)
  then show ?thesis
    by (auto simp: pack_destinations_def instruction_reads_pack_register_def read_iffs list_ex_iff case_prod_unfold)
next
  case (MakeSharedClosure d f caps)
  then show ?thesis by (auto simp: pack_destinations_def instruction_reads_pack_register_def read_iffs case_prod_unfold)
qed (simp_all add: pack_destinations_def instruction_reads_pack_register_def read_iffs list_ex_iff image_iff eq_commute [of p]
    disj_ac del: set_concat concat.simps)

subsection \<open>Properties\<close>

text \<open>
  the analysis forgets no operand: a register that appears among an instruction's operands is
  reported as read or is one of the registers the instruction writes, and nothing else is reported;
  the same holds for pack registers.
\<close>

theorem register_analysis_exact:
  "(RegisterOperand r \<in> set (operands k) \<longleftrightarrow> instruction_reads_register k r \<or> r \<in> set (destinations k)) \<and>
   (PackOperand p \<in> set (operands k) \<longleftrightarrow> instruction_reads_pack_register k p \<or> p \<in> set (pack_destinations k))"
  using register_operands_split pack_operands_split by blast

end
