(* ===== verification/Interp_Frame.thy ===== *)
theory Interp_Frame
  imports Interp_Registers Bytecode_Verify Rust_BTree
begin

section \<open>Execution frames (openmat-runtime/src/interpreter.rs)\<close>

text \<open>
  The frame a function runs in: its registers, value packs and locals, the locals promoted to shared
  cells by nested closures, and the instruction pointer. Language values are a type parameter with
  the interpreter's no-value marker \<open>nothing\<close> as an argument; shared cells live in an explicit store
  of addresses, since two frames or closures may hold the same cell. Whether the allocator grants a
  reservation is an argument, and an error is the message of the interpreter's invalid-state error.
\<close>

subsection \<open>Shared cells\<close>

instantiation LocalSlot :: linorder
begin

definition less_eq_LocalSlot :: "LocalSlot \<Rightarrow> LocalSlot \<Rightarrow> bool" where
  "less_eq_LocalSlot a b \<longleftrightarrow> local_get a \<le> local_get b"

definition less_LocalSlot :: "LocalSlot \<Rightarrow> LocalSlot \<Rightarrow> bool" where
  "less_LocalSlot a b \<longleftrightarrow> local_get a < local_get b"

instance
  by intro_classes (auto simp: less_eq_LocalSlot_def less_LocalSlot_def LocalSlot.expand)

end

text \<open>A cell's lock may have been poisoned by a panicking writer.\<close>

record 'v SharedCell =
  poisoned :: bool
  cell_value :: 'v

type_synonym 'v cells = "'v SharedCell list"

definition shared_new :: "'v cells \<Rightarrow> 'v \<Rightarrow> 'v cells \<times> nat" where
  "shared_new h v = (h @ [\<lparr>poisoned = False, cell_value = v\<rparr>], length h)"

definition shared_read :: "'v cells \<Rightarrow> nat \<Rightarrow> 'v option" where
  "shared_read h a = (if poisoned (h ! a) then None else Some (cell_value (h ! a)))"

definition shared_replace :: "'v cells \<Rightarrow> nat \<Rightarrow> 'v \<Rightarrow> ('v cells \<times> 'v) option" where
  "shared_replace h a v =
     (if poisoned (h ! a) then None else Some (h[a := (h ! a)\<lparr>cell_value := v\<rparr>], cell_value (h ! a)))"

subsection \<open>Frames\<close>

datatype ScopeAddress = FrameScope "64 word" | Base

text \<open>What a closure holds under a name: a value, a shared cell, or a note that the name had no value.\<close>

datatype 'v CapturedBinding = CapturedValue 'v | CapturedShared nat | MissingValue | ResolverOnly

text \<open>What a registered closure holds; of its module only the identity.\<close>

record 'v RuntimeFunctionCode =
  owner_module :: nat
  code_function :: FunctionId
  code_captures :: "(string, 'v CapturedBinding) btree"
  code_caller_class :: "64 word option"

text \<open>\<open>caller_class\<close> is the frame's access context. The caller's scope snapshot, which only built-ins see, is left out.\<close>

record 'v ExecutionFrame =
  scope_address :: ScopeAddress
  frame_function :: FunctionId
  frame_instruction :: InstructionIndex
  frame_registers :: "'v list"
  frame_packs :: "'v list list"
  frame_locals :: "'v list"
  named_bindings :: "(string, NamedBindingKind) btree"
  dynamic_locals :: "(string, 'v) btree"
  shared_locals :: "(LocalSlot, nat) btree"
  call_inputs :: "'v list"
  input_count :: nat
  requested_output_count :: nat
  caller_class :: "64 word option"
  frame_captures :: "(string, 'v CapturedBinding) btree"
  imports_list :: "string list"

type_synonym 'a frame_result = "(string, 'a) result"

text \<open>Assigning through a mutable zip: the leading slots take the leading values.\<close>

definition fill_slots :: "'v list \<Rightarrow> 'v list \<Rightarrow> 'v list" where
  "fill_slots slots vs = take (length slots) vs @ drop (length vs) slots"

definition frame_new :: "(nat \<Rightarrow> bool) \<Rightarrow> 'v \<Rightarrow> ScopeAddress \<Rightarrow> FunctionId \<Rightarrow> Function \<Rightarrow> 'v list \<Rightarrow> nat \<Rightarrow>
    (LocalSlot \<times> 'v) option \<Rightarrow> 64 word option \<Rightarrow> (string, 'v CapturedBinding) btree \<Rightarrow> 'v ExecutionFrame option" where
  "frame_new reserve nothing scope fid fn arguments requested_outputs seeded_local context captures =
     (let locals = fill_slots (replicate (unat (local_count fn)) nothing) (take (unat (parameter_count fn)) arguments);
          frame = (\<lambda>ls. \<lparr>scope_address = scope, frame_function = fid, frame_instruction = InstructionIndex 0,
            frame_registers = replicate (unat (register_count fn)) nothing,
            frame_packs = replicate (unat (pack_register_count fn)) [],
            frame_locals = ls, named_bindings = [], dynamic_locals = [], shared_locals = [],
            call_inputs = arguments, input_count = length arguments, requested_output_count = requested_outputs,
            caller_class = context, frame_captures = captures, imports_list = []\<rparr>)
      in if length arguments \<le> u32_max \<and> requested_outputs \<le> u32_max \<and> reserve (unat (register_count fn)) \<and>
           reserve (unat (pack_register_count fn)) \<and> reserve (unat (local_count fn))
         then (case seeded_local of
                 None \<Rightarrow> Some (frame locals)
               | Some (slot, v) \<Rightarrow>
                   if unat (local_get slot) < length locals
                   then Some (frame (locals[unat (local_get slot) := v])) else None)
         else None)"

definition read_register :: "'v ExecutionFrame \<Rightarrow> Register \<Rightarrow> 'v frame_result" where
  "read_register fr r = ok_or ''register index escaped validation'' (get (frame_registers fr) (reg_get r))"

definition write_register :: "'v ExecutionFrame \<Rightarrow> Register \<Rightarrow> 'v \<Rightarrow> 'v ExecutionFrame frame_result" where
  "write_register fr r v =
     (if unat (reg_get r) < length (frame_registers fr)
      then Ok (fr\<lparr>frame_registers := (frame_registers fr)[unat (reg_get r) := v]\<rparr>)
      else Err ''register index escaped validation'')"

definition take_register :: "'v \<Rightarrow> 'v ExecutionFrame \<Rightarrow> Register \<Rightarrow> ('v ExecutionFrame \<times> 'v) frame_result" where
  "take_register nothing fr r =
     and_then (read_register fr r) (\<lambda>v.
       Ok (fr\<lparr>frame_registers := (frame_registers fr)[unat (reg_get r) := nothing]\<rparr>, v))"

definition read_pack_register :: "'v ExecutionFrame \<Rightarrow> PackRegister \<Rightarrow> 'v list frame_result" where
  "read_pack_register fr p = ok_or ''pack register index escaped validation'' (get (frame_packs fr) (pack_get p))"

definition write_pack_register :: "'v ExecutionFrame \<Rightarrow> PackRegister \<Rightarrow> 'v list \<Rightarrow> 'v ExecutionFrame frame_result" where
  "write_pack_register fr p vs =
     (if unat (pack_get p) < length (frame_packs fr)
      then Ok (fr\<lparr>frame_packs := (frame_packs fr)[unat (pack_get p) := vs]\<rparr>)
      else Err ''pack register index escaped validation'')"

definition take_pack_register :: "'v ExecutionFrame \<Rightarrow> PackRegister \<Rightarrow> ('v ExecutionFrame \<times> 'v list) frame_result" where
  "take_pack_register fr p =
     and_then (read_pack_register fr p) (\<lambda>vs.
       Ok (fr\<lparr>frame_packs := (frame_packs fr)[unat (pack_get p) := []]\<rparr>, vs))"

subsection \<open>Locals\<close>

definition load_local :: "'v cells \<Rightarrow> 'v ExecutionFrame \<Rightarrow> LocalSlot \<Rightarrow> 'v frame_result" where
  "load_local h fr l =
     (case bt_get (shared_locals fr) l of
        Some a \<Rightarrow> ok_or ''shared local lock is poisoned'' (shared_read h a)
      | None \<Rightarrow> ok_or ''local index escaped validation'' (get (frame_locals fr) (local_get l)))"

text \<open>Stores a value in a local, wherever the local lives, and returns the value it replaces.\<close>

definition replace_local :: "'v cells \<Rightarrow> 'v ExecutionFrame \<Rightarrow> LocalSlot \<Rightarrow> 'v \<Rightarrow> ('v cells \<times> 'v ExecutionFrame \<times> 'v) frame_result" where
  "replace_local h fr l v =
     (case bt_get (shared_locals fr) l of
        Some a \<Rightarrow>
          and_then (ok_or ''shared local lock is poisoned'' (shared_replace h a v)) (\<lambda>(h', previous). Ok (h', fr, previous))
      | None \<Rightarrow>
          (if unat (local_get l) < length (frame_locals fr)
           then Ok (h, fr\<lparr>frame_locals := (frame_locals fr)[unat (local_get l) := v]\<rparr>, frame_locals fr ! unat (local_get l))
           else Err ''local index escaped validation''))"

text \<open>A closure over a local moves it into a shared cell on first use.\<close>

definition promote_local :: "'v cells \<Rightarrow> 'v ExecutionFrame \<Rightarrow> LocalSlot \<Rightarrow> ('v cells \<times> 'v ExecutionFrame \<times> nat) frame_result" where
  "promote_local h fr l =
     (case bt_get (shared_locals fr) l of
        Some a \<Rightarrow> Ok (h, fr, a)
      | None \<Rightarrow>
          and_then (ok_or ''shared local escaped validation'' (get (frame_locals fr) (local_get l))) (\<lambda>v.
            let (h', a) = shared_new h v in Ok (h', fr\<lparr>shared_locals := bt_insert l a (shared_locals fr)\<rparr>, a)))"

subsection \<open>Arguments\<close>

datatype 'v IndexInput = IndexValue 'v | IndexColon

fun read_arguments_from :: "(nat \<Rightarrow> nat \<Rightarrow> bool) \<Rightarrow> 'v ExecutionFrame \<Rightarrow> 'v IndexInput list \<Rightarrow> ApplyArgument list \<Rightarrow>
    'v IndexInput list frame_result" where
  "read_arguments_from reserve fr values [] = Ok values"
| "read_arguments_from reserve fr values (a # rest) =
     and_then
       (case a of
          ApplyArgument.Value r \<Rightarrow> and_then (read_register fr r) (\<lambda>v. Ok (values @ [IndexValue v]))
        | ApplyArgument.Expand p \<Rightarrow>
            and_then (read_pack_register fr p) (\<lambda>vs.
            and_then (ensure (reserve (length values) (length vs)) ''expanded argument list exceeds host capacity'') (\<lambda>_.
              Ok (values @ map IndexValue vs)))
        | Colon \<Rightarrow> Ok (values @ [IndexColon]))
       (\<lambda>values'. read_arguments_from reserve fr values' rest)"

definition read_apply_arguments :: "(nat \<Rightarrow> nat \<Rightarrow> bool) \<Rightarrow> 'v ExecutionFrame \<Rightarrow> ApplyArgument list \<Rightarrow> 'v IndexInput list frame_result" where
  "read_apply_arguments reserve fr arguments =
     and_then (ensure (reserve 0 (length arguments)) ''apply argument list exceeds host capacity'') (\<lambda>_.
       read_arguments_from reserve fr [] arguments)"

text \<open>The consuming variant takes a register out when neither a later argument nor another instruction reads it.\<close>

definition consume_register :: "'v \<Rightarrow> Function \<Rightarrow> InstructionIndex \<Rightarrow> bool \<Rightarrow> 'v ExecutionFrame \<Rightarrow> Register \<Rightarrow>
    ('v ExecutionFrame \<times> 'v) frame_result" where
  "consume_register nothing fn current appears_again fr r =
     (if appears_again \<or> register_is_read_elsewhere fn current r
      then and_then (read_register fr r) (\<lambda>v. Ok (fr, v))
      else take_register nothing fr r)"

definition consume_pack :: "Function \<Rightarrow> InstructionIndex \<Rightarrow> bool \<Rightarrow> 'v ExecutionFrame \<Rightarrow> PackRegister \<Rightarrow>
    ('v ExecutionFrame \<times> 'v list) frame_result" where
  "consume_pack fn current appears_again fr p =
     (if appears_again \<or> pack_register_is_read_elsewhere fn current p
      then and_then (read_pack_register fr p) (\<lambda>vs. Ok (fr, vs))
      else take_pack_register fr p)"

fun take_arguments_from :: "(nat \<Rightarrow> nat \<Rightarrow> bool) \<Rightarrow> 'v \<Rightarrow> Function \<Rightarrow> InstructionIndex \<Rightarrow> 'v ExecutionFrame \<Rightarrow>
    'v IndexInput list \<Rightarrow> ApplyArgument list \<Rightarrow> ('v ExecutionFrame \<times> 'v IndexInput list) frame_result" where
  "take_arguments_from reserve nothing fn current fr values [] = Ok (fr, values)"
| "take_arguments_from reserve nothing fn current fr values (a # rest) =
     and_then
       (case a of
          ApplyArgument.Value r \<Rightarrow>
            and_then (consume_register nothing fn current (a \<in> set rest) fr r) (\<lambda>(fr', v). Ok (fr', values @ [IndexValue v]))
        | ApplyArgument.Expand p \<Rightarrow>
            and_then (consume_pack fn current (a \<in> set rest) fr p) (\<lambda>(fr', vs).
            and_then (ensure (reserve (length values) (length vs)) ''expanded argument list exceeds host capacity'') (\<lambda>_.
              Ok (fr', values @ map IndexValue vs)))
        | Colon \<Rightarrow> Ok (fr, values @ [IndexColon]))
       (\<lambda>(fr', values'). take_arguments_from reserve nothing fn current fr' values' rest)"

definition take_apply_arguments :: "(nat \<Rightarrow> nat \<Rightarrow> bool) \<Rightarrow> 'v \<Rightarrow> Function \<Rightarrow> InstructionIndex \<Rightarrow> 'v ExecutionFrame \<Rightarrow>
    ApplyArgument list \<Rightarrow> ('v ExecutionFrame \<times> 'v IndexInput list) frame_result" where
  "take_apply_arguments reserve nothing fn current fr arguments =
     and_then (ensure (reserve 0 (length arguments)) ''apply argument list exceeds host capacity'') (\<lambda>_.
       take_arguments_from reserve nothing fn current fr [] arguments)"

fun take_registers_from :: "'v \<Rightarrow> Function \<Rightarrow> InstructionIndex \<Rightarrow> 'v ExecutionFrame \<Rightarrow> 'v list \<Rightarrow> Register list \<Rightarrow>
    ('v ExecutionFrame \<times> 'v list) frame_result" where
  "take_registers_from nothing fn current fr values [] = Ok (fr, values)"
| "take_registers_from nothing fn current fr values (r # rest) =
     and_then (consume_register nothing fn current (r \<in> set rest) fr r) (\<lambda>(fr', v).
       take_registers_from nothing fn current fr' (values @ [v]) rest)"

definition take_call_arguments :: "(nat \<Rightarrow> bool) \<Rightarrow> 'v \<Rightarrow> Function \<Rightarrow> InstructionIndex \<Rightarrow> 'v ExecutionFrame \<Rightarrow> Register list \<Rightarrow>
    ('v ExecutionFrame \<times> 'v list) frame_result" where
  "take_call_arguments reserve nothing fn current fr arguments =
     and_then (ensure (reserve (length arguments)) ''call argument list exceeds host capacity'') (\<lambda>_.
       take_registers_from nothing fn current fr [] arguments)"

subsection \<open>Unwinding\<close>

text \<open>
  The interpreter state an error touches: the last error shown to the language and the exception
  object under construction. Classifying an error, describing it and building its exception object
  are arguments.
\<close>

record 'd ErrorState =
  last_error :: "'d option"
  pending_exception :: "nat option"

definition record_last_error :: "('e \<Rightarrow> string option) \<Rightarrow> ('e \<Rightarrow> 'd) \<Rightarrow> ('d, 'x) ErrorState_scheme \<Rightarrow> 'e \<Rightarrow> ('d, 'x) ErrorState_scheme" where
  "record_last_error catchable_identifier describe st e =
     (case catchable_identifier e of None \<Rightarrow> st | Some _ \<Rightarrow> st\<lparr>last_error := Some (describe e)\<rparr>)"

definition clear_temporaries :: "'v \<Rightarrow> 'v ExecutionFrame \<Rightarrow> 'v ExecutionFrame" where
  "clear_temporaries nothing fr =
     fr\<lparr>frame_registers := map (\<lambda>_. nothing) (frame_registers fr), frame_packs := map (\<lambda>_. []) (frame_packs fr)\<rparr>"

definition unwind_frame_error :: "('e \<Rightarrow> string option) \<Rightarrow> ('e \<Rightarrow> 'd) \<Rightarrow> ('e \<Rightarrow> string \<Rightarrow> 'e) \<Rightarrow>
    (('d, 'x) ErrorState_scheme \<Rightarrow> 'e \<Rightarrow> string \<Rightarrow> ('d, 'x) ErrorState_scheme \<times> ('e, 'v) result) \<Rightarrow> 'v \<Rightarrow>
    ('d, 'x) ErrorState_scheme \<Rightarrow> Function \<Rightarrow> 'v ExecutionFrame \<Rightarrow> InstructionIndex \<Rightarrow> 'e \<Rightarrow>
    ('d, 'x) ErrorState_scheme \<times> 'v ExecutionFrame \<times> ('e, unit) result" where
  "unwind_frame_error catchable_identifier describe binding_error exception_object nothing st fn fr failed e =
     (let st1 = record_last_error catchable_identifier describe st e
      in case catchable_identifier e of
        None \<Rightarrow> (st1, fr, Err e)
      | Some identifier \<Rightarrow>
          (case innermost_exception_handler fn failed of
             None \<Rightarrow> (st1, fr, Err e)
           | Some handler \<Rightarrow>
               let fr1 = clear_temporaries nothing fr
               in case handler_kind handler of
                 Catch c error_local \<Rightarrow>
                   (case error_local of
                      Some l \<Rightarrow>
                        if get (frame_locals fr1) (local_get l) = None
                        then (st1, fr1, Err (binding_error e ''verified catch local is absent from its frame''))
                        else (case exception_object st1 e identifier of
                                (st2, Inl failure) \<Rightarrow> (st2, fr1, Err failure)
                              | (st2, Inr exception) \<Rightarrow>
                                  (st2, fr1\<lparr>frame_locals := (frame_locals fr1)[unat (local_get l) := exception],
                                             frame_instruction := c\<rparr>, Ok ()))
                    | None \<Rightarrow> (st1\<lparr>pending_exception := None\<rparr>, fr1\<lparr>frame_instruction := c\<rparr>, Ok ()))
               | Swallow \<Rightarrow> (st1\<lparr>pending_exception := None\<rparr>, fr1\<lparr>frame_instruction := exit handler\<rparr>, Ok ())))"

subsection \<open>The instruction pointer\<close>

definition next_index :: "InstructionIndex \<Rightarrow> InstructionIndex" where
  "next_index i = InstructionIndex (of_nat (saturating_add u32_max (unat (index_get i)) 1))"

text \<open>The pointer has already moved on when an error surfaces: the failing instruction is the one before it.\<close>

definition failed_instruction :: "InstructionIndex \<Rightarrow> InstructionIndex" where
  "failed_instruction i = InstructionIndex (of_nat (unat (index_get i) - 1))"

definition returns :: "InstructionKind \<Rightarrow> bool" where
  "returns k =
     (case k of Return _ \<Rightarrow> True | ReturnVariadic _ _ \<Rightarrow> True | ReturnApply _ _ \<Rightarrow> True | ReturnApplyField _ _ _ \<Rightarrow> True | _ \<Rightarrow> False)"

definition resume_point :: "ExceptionHandler \<Rightarrow> InstructionIndex" where
  "resume_point h = (case handler_kind h of Catch c _ \<Rightarrow> c | Swallow \<Rightarrow> exit h)"

text \<open>
  One turn of the frame loop as seen by the instruction pointer: it is advanced before the instruction
  runs, a jump, a false condition or an exhausted iteration overwrites it, and a caught error raised
  by the instruction resumes at the innermost handler.
\<close>

inductive control_step :: "Function \<Rightarrow> InstructionIndex \<Rightarrow> InstructionIndex \<Rightarrow> bool" for fn where
  fall_through: "get (instructions fn) (index_get pc) = Some ins \<Longrightarrow> \<not> returns (instr_kind ins) \<Longrightarrow>
    (\<And>t. instr_kind ins \<noteq> Jump t) \<Longrightarrow> control_step fn pc (next_index pc)"
| jump: "get (instructions fn) (index_get pc) = Some ins \<Longrightarrow> instr_kind ins = Jump t \<Longrightarrow> control_step fn pc t"
| branch: "get (instructions fn) (index_get pc) = Some ins \<Longrightarrow> instr_kind ins = JumpIfFalse c t \<Longrightarrow> control_step fn pc t"
| exhausted: "get (instructions fn) (index_get pc) = Some ins \<Longrightarrow> instr_kind ins = ForEach it i d x \<Longrightarrow> control_step fn pc x"
| caught: "get (instructions fn) (index_get pc) = Some ins \<Longrightarrow>
    innermost_exception_handler fn (failed_instruction (next_index pc)) = Some h \<Longrightarrow>
    control_step fn pc (resume_point h)"

inductive_cases control_stepE: "control_step fn pc pc'"

subsection \<open>Frames of a verified function\<close>

definition frame_matches :: "Function \<Rightarrow> 'v ExecutionFrame \<Rightarrow> bool" where
  "frame_matches fn fr \<longleftrightarrow>
     length (frame_registers fr) = unat (register_count fn) \<and> length (frame_packs fr) = unat (pack_register_count fn) \<and>
     length (frame_locals fr) = unat (local_count fn)"

lemma fill_slots_length [simp]: "length (fill_slots slots vs) = length slots"
  by (simp add: fill_slots_def)

lemma frame_new_matches: "frame_new reserve nothing scope fid fn args n seed context captures = Some fr \<Longrightarrow> frame_matches fn fr"
  by (auto simp: frame_new_def frame_matches_def Let_def split: if_splits option.splits)

lemma frame_access_ok:
  assumes "frame_matches fn fr"
  shows "operand_in_range fn (RegisterOperand r) \<Longrightarrow> read_register fr r = Ok (frame_registers fr ! unat (reg_get r))"
    and "operand_in_range fn (RegisterOperand r) \<Longrightarrow>
      write_register fr r v = Ok (fr\<lparr>frame_registers := (frame_registers fr)[unat (reg_get r) := v]\<rparr>)"
    and "operand_in_range fn (PackOperand p) \<Longrightarrow> read_pack_register fr p = Ok (frame_packs fr ! unat (pack_get p))"
    and "operand_in_range fn (PackOperand p) \<Longrightarrow>
      write_pack_register fr p vs = Ok (fr\<lparr>frame_packs := (frame_packs fr)[unat (pack_get p) := vs]\<rparr>)"
    and "operand_in_range fn (LocalOperand l) \<Longrightarrow> get (frame_locals fr) (local_get l) = Some (frame_locals fr ! unat (local_get l))"
  using assms
  by (simp_all add: frame_matches_def operand_in_range_def read_register_def write_register_def read_pack_register_def
      write_pack_register_def get_def slice_get_def)

lemma write_keeps_frame:
  assumes "frame_matches fn fr"
  shows "write_register fr r v = Ok fr' \<Longrightarrow> frame_matches fn fr'"
    and "write_pack_register fr p vs = Ok fr' \<Longrightarrow> frame_matches fn fr'"
    and "replace_local h fr l v = Ok (h', fr', w) \<Longrightarrow> frame_matches fn fr'"
    and "promote_local h fr l = Ok (h', fr', a) \<Longrightarrow> frame_matches fn fr'"
    and "frame_matches fn (clear_temporaries nothing fr)"
  using assms
  by (auto simp: frame_matches_def write_register_def write_pack_register_def replace_local_def promote_local_def
      clear_temporaries_def result_simps Let_def shared_new_def split: if_splits option.splits)

subsection \<open>Consuming arguments\<close>

text \<open>Two frames that agree on what the arguments mention.\<close>

definition agrees :: "ApplyArgument list \<Rightarrow> 'v ExecutionFrame \<Rightarrow> 'v ExecutionFrame \<Rightarrow> bool" where
  "agrees args a b \<longleftrightarrow>
     (\<forall>r. ApplyArgument.Value r \<in> set args \<longrightarrow> read_register a r = read_register b r) \<and>
     (\<forall>p. ApplyArgument.Expand p \<in> set args \<longrightarrow> read_pack_register a p = read_pack_register b p)"

text \<open>What consuming may do to a frame: clear registers and packs that nothing else reads.\<close>

definition consumed :: "Function \<Rightarrow> InstructionIndex \<Rightarrow> 'v ExecutionFrame \<Rightarrow> 'v ExecutionFrame \<Rightarrow> bool" where
  "consumed fn current a b \<longleftrightarrow>
     b\<lparr>frame_registers := frame_registers a, frame_packs := frame_packs a\<rparr> = a \<and>
     length (frame_registers b) = length (frame_registers a) \<and> length (frame_packs b) = length (frame_packs a) \<and>
     (\<forall>r. register_is_read_elsewhere fn current r \<longrightarrow> read_register b r = read_register a r) \<and>
     (\<forall>p. pack_register_is_read_elsewhere fn current p \<longrightarrow> read_pack_register b p = read_pack_register a p)"

lemma consumed_refl: "consumed fn current fr fr"
  by (simp add: consumed_def)

lemma consumed_trans: "consumed fn current a b \<Longrightarrow> consumed fn current b c \<Longrightarrow> consumed fn current a c"
  unfolding consumed_def by (cases a; cases b; cases c) simp

lemma index_inj:
  "unat (reg_get a) = unat (reg_get b) \<longleftrightarrow> a = b" "unat (pack_get c) = unat (pack_get d) \<longleftrightarrow> c = d"
  by (cases a; cases b; simp add: word_unat_eq_iff) (cases c; cases d; simp add: word_unat_eq_iff)

lemma cleared_register:
  "r' \<noteq> r \<Longrightarrow> read_register (fr\<lparr>frame_registers := (frame_registers fr)[unat (reg_get r) := v]\<rparr>) r' = read_register fr r'"
  "read_pack_register (fr\<lparr>frame_registers := rs\<rparr>) p = read_pack_register fr p"
  by (simp_all add: read_register_def read_pack_register_def get_def slice_get_def index_inj eq_commute [of r])

lemma cleared_pack:
  "p' \<noteq> p \<Longrightarrow> read_pack_register (fr\<lparr>frame_packs := (frame_packs fr)[unat (pack_get p) := vs]\<rparr>) p' = read_pack_register fr p'"
  "read_register (fr\<lparr>frame_packs := ps\<rparr>) r = read_register fr r"
  by (simp_all add: read_register_def read_pack_register_def get_def slice_get_def index_inj eq_commute [of p])

lemma consume_register_cases:
  obtains (failed) e where "read_register fr r = Err e" "consume_register nothing fn current again fr r = Err e"
  | (ok) v fr' where "read_register fr r = Ok v" "consume_register nothing fn current again fr r = Ok (fr', v)"
      "consumed fn current fr fr'" "\<And>r'. r' \<noteq> r \<or> again \<Longrightarrow> read_register fr' r' = read_register fr r'"
      "\<And>p. read_pack_register fr' p = read_pack_register fr p"
proof (cases "read_register fr r")
  case (Inl e)
  then show ?thesis using failed by (simp add: consume_register_def take_register_def)
next
  case (Inr v)
  show ?thesis
  proof (cases "again \<or> register_is_read_elsewhere fn current r")
    case True
    with Inr show ?thesis by (intro ok [of v fr]) (auto simp: consume_register_def consumed_refl)
  next
    case False
    let ?fr = "fr\<lparr>frame_registers := (frame_registers fr)[unat (reg_get r) := nothing]\<rparr>"
    have "read_register ?fr r' = read_register fr r'" if "register_is_read_elsewhere fn current r'" for r'
      using that False by (intro cleared_register(1)) auto
    then have "consumed fn current fr ?fr" by (simp add: consumed_def cleared_register(2))
    with Inr False show ?thesis
      by (intro ok [of v ?fr]) (auto simp: consume_register_def take_register_def cleared_register)
  qed
qed

lemma consume_pack_cases:
  obtains (failed) e where "read_pack_register fr p = Err e" "consume_pack fn current again fr p = Err e"
  | (ok) vs fr' where "read_pack_register fr p = Ok vs" "consume_pack fn current again fr p = Ok (fr', vs)"
      "consumed fn current fr fr'" "\<And>p'. p' \<noteq> p \<or> again \<Longrightarrow> read_pack_register fr' p' = read_pack_register fr p'"
      "\<And>r. read_register fr' r = read_register fr r"
proof (cases "read_pack_register fr p")
  case (Inl e)
  then show ?thesis using failed by (simp add: consume_pack_def take_pack_register_def)
next
  case (Inr vs)
  show ?thesis
  proof (cases "again \<or> pack_register_is_read_elsewhere fn current p")
    case True
    with Inr show ?thesis by (intro ok [of vs fr]) (auto simp: consume_pack_def consumed_refl)
  next
    case False
    let ?fr = "fr\<lparr>frame_packs := (frame_packs fr)[unat (pack_get p) := []]\<rparr>"
    have "read_pack_register ?fr p' = read_pack_register fr p'" if "pack_register_is_read_elsewhere fn current p'" for p'
      using that False by (intro cleared_pack(1)) auto
    then have "consumed fn current fr ?fr" by (simp add: consumed_def cleared_pack(2))
    with Inr False show ?thesis
      by (intro ok [of vs ?fr]) (auto simp: consume_pack_def take_pack_register_def cleared_pack)
  qed
qed

lemma take_arguments_refines:
  assumes "agrees args fr fr0"
  shows "(case take_arguments_from reserve nothing fn current fr acc args of
      Inl e \<Rightarrow> read_arguments_from reserve fr0 acc args = Err e
    | Inr (fr', vs) \<Rightarrow> read_arguments_from reserve fr0 acc args = Ok vs \<and> consumed fn current fr fr')"
  using assms
proof (induction args arbitrary: fr acc)
  case Nil
  then show ?case by (simp add: consumed_refl)
next
  case (Cons a args)
  have rest: "agrees args fr' fr0" if "\<And>r. ApplyArgument.Value r \<in> set args \<Longrightarrow> read_register fr' r = read_register fr r"
    "\<And>p. ApplyArgument.Expand p \<in> set args \<Longrightarrow> read_pack_register fr' p = read_pack_register fr p" for fr'
    using Cons.prems that by (auto simp: agrees_def)
  note step = Cons.IH [OF rest]
  show ?case
  proof (cases a)
    case (Value r)
    have same: "read_register fr0 r = read_register fr r" using Cons.prems Value by (auto simp: agrees_def)
    show ?thesis
    proof (cases rule: consume_register_cases [of fr r nothing fn current "a \<in> set args"])
      case (failed e)
      then show ?thesis by (simp add: Value same)
    next
      case (ok v fr')
      have "agrees args fr' fr0" using ok(5) Value by (intro rest ok(4)) auto
      from Cons.IH [OF this, of "acc @ [IndexValue v]"] show ?thesis
        using ok(1,2) consumed_trans [OF ok(3)] by (auto simp: Value same split: sum.splits prod.splits)
    qed
  next
    case (Expand p)
    have same: "read_pack_register fr0 p = read_pack_register fr p" using Cons.prems Expand by (auto simp: agrees_def)
    show ?thesis
    proof (cases rule: consume_pack_cases [of fr p fn current "a \<in> set args"])
      case (failed e)
      then show ?thesis by (simp add: Expand same)
    next
      case (ok vs fr')
      have "agrees args fr' fr0" using ok(5) Expand by (intro rest ok(4)) auto
      from Cons.IH [OF this, of "acc @ map IndexValue vs"] show ?thesis
        using ok(1,2) consumed_trans [OF ok(3)] by (auto simp: Expand same ensure_def split: sum.splits prod.splits)
    qed
  next
    case Colon
    from Cons.IH [OF rest [of fr], of "acc @ [IndexColon]"] show ?thesis by (simp add: Colon split: sum.splits prod.splits)
  qed
qed

subsection \<open>Unwinding and control in a verified function\<close>

lemma innermost_in_table:
  "innermost_exception_handler fn i = Some h \<Longrightarrow> h \<in> set (exception_handlers fn) \<and> protects i h"
  using min_by_key_Some(1) by (fastforce simp: innermost_exception_handler_def)

lemma resume_point_forward:
  assumes ok: "verify_exception_handlers fid fn = Ok ()" and h: "innermost_exception_handler fn i = Some h"
  shows "i < resume_point h" and "unat (index_get (resume_point h)) < length (instructions fn)" and "\<not> protects (resume_point h) h"
proof -
  have h_ok: "handler_ok fn h" and p: "protects i h"
    using ok innermost_in_table [OF h] by (auto simp: verify_exception_handlers_iff)
  have "protected_end h \<le> resume_point h \<and> unat (index_get (resume_point h)) < length (instructions fn)"
  proof (cases "handler_kind h")
    case (Catch c l)
    with h_ok show ?thesis by (auto simp: handler_ok_def resume_point_def index_le_unat)
  next
    case Swallow
    with h_ok show ?thesis by (simp add: handler_ok_def resume_point_def)
  qed
  with p show "i < resume_point h" "unat (index_get (resume_point h)) < length (instructions fn)" "\<not> protects (resume_point h) h"
    by (auto simp: protects_def)
qed

lemma next_index_le:
  assumes "get (instructions fn) (index_get pc) = Some ins"
  shows "unat (index_get (next_index pc)) \<le> length (instructions fn)"
proof -
  have "unat (index_get (next_index pc)) \<le> Suc (unat (index_get pc))"
    using unsigned_less [of "index_get pc", where 'a = nat]
    by (auto simp: next_index_def saturating_add_def unat_of_nat u32_max_def min_def)
  with assms show ?thesis by (simp add: get_eq)
qed

lemma failed_next_index:
  assumes "unat (index_get pc) < u32_max"
  shows "failed_instruction (next_index pc) = pc"
proof -
  have "saturating_add u32_max (unat (index_get pc)) 1 = unat (index_get pc) + 1"
    using assms by (simp add: saturating_add_def)
  then have "unat (index_get (next_index pc)) = unat (index_get pc) + 1"
    using assms unat_of_nat [where 'a = 32, of "unat (index_get pc) + 1"] by (simp add: next_index_def u32_max_def)
  then show ?thesis by (cases pc) (simp add: failed_instruction_def)
qed

lemma control_step_in_stream:
  assumes ok: "verify_function md fid fn = Ok ()" and step: "control_step fn pc pc'"
  shows "unat (index_get pc') \<le> length (instructions fn)"
  using step
proof cases
  case (fall_through ins)
  then show ?thesis using next_index_le by blast
next
  case (caught ins h)
  with resume_point_forward(2) [OF verify_function_Ok(4) [OF ok]] show ?thesis by (auto intro: less_imp_le)
qed (use verify_function_Ok(6) [OF ok] in \<open>force simp: verify_instruction_Ok operands_accepted operand_in_range_def\<close>)+

lemma exec_steps_in_stream:
  assumes ok: "verify_function md fid fn = Ok ()" and "(control_step fn)\<^sup>*\<^sup>* (InstructionIndex 0) pc"
  shows "unat (index_get pc) \<le> length (instructions fn)"
  using assms(2) by (induction rule: rtranclp_induct) (auto intro: control_step_in_stream [OF ok])

lemma unwind_frame_error_result:
  assumes ok: "verify_exception_handlers fid fn = Ok ()" and fr: "frame_matches fn fr"
    and u: "unwind_frame_error cid desc berr ex nothing st fn fr i e = (st', fr', r)"
  shows "r = Ok () \<Longrightarrow> \<exists>h. innermost_exception_handler fn i = Some h \<and> frame_instruction fr' = resume_point h"
    and "r = Ok () \<Longrightarrow> set (frame_registers fr') \<subseteq> {nothing} \<and> set (frame_packs fr') \<subseteq> {[]}"
    and "frame_matches fn fr'" and "shared_locals fr' = shared_locals fr"
    and "r = Err e' \<Longrightarrow> cid e = None \<and> e' = e \<or> innermost_exception_handler fn i = None \<and> e' = e \<or>
      (\<exists>identifier st''. cid e = Some identifier \<and> ex (record_last_error cid desc st e) e identifier = (st'', Err e'))"
proof -
  have local_ok: "\<exists>v. get (frame_locals (clear_temporaries nothing fr)) (local_get l) = Some v"
    if "innermost_exception_handler fn i = Some h" "handler_kind h = Catch c (Some l)" for h c l
  proof -
    have "handler_ok fn h" using ok innermost_in_table [OF that(1)] by (auto simp: verify_exception_handlers_iff)
    with that(2) fr show ?thesis by (simp add: handler_ok_def operand_in_range_def frame_matches_def get_eq clear_temporaries_def)
  qed
  note facts = u [unfolded unwind_frame_error_def Let_def] write_keeps_frame(5) [OF fr, of nothing]
  show "\<exists>h. innermost_exception_handler fn i = Some h \<and> frame_instruction fr' = resume_point h" if "r = Ok ()"
    using facts that by (auto simp: resume_point_def split: option.splits ExceptionHandlerKind.splits if_splits prod.splits sum.splits)
  show "set (frame_registers fr') \<subseteq> {nothing} \<and> set (frame_packs fr') \<subseteq> {[]}" if "r = Ok ()"
    using facts that
    by (auto simp: clear_temporaries_def split: option.splits ExceptionHandlerKind.splits if_splits prod.splits sum.splits)
  show "frame_matches fn fr'"
    using facts fr
    by (auto simp: frame_matches_def split: option.splits ExceptionHandlerKind.splits if_splits prod.splits sum.splits)
  show "shared_locals fr' = shared_locals fr"
    using facts
    by (auto simp: clear_temporaries_def split: option.splits ExceptionHandlerKind.splits if_splits prod.splits sum.splits)
  show "cid e = None \<and> e' = e \<or> innermost_exception_handler fn i = None \<and> e' = e \<or>
      (\<exists>identifier st''. cid e = Some identifier \<and> ex (record_last_error cid desc st e) e identifier = (st'', Err e'))"
    if "r = Err e'"
    using facts that
    by (auto dest: local_ok split: option.splits ExceptionHandlerKind.splits if_splits prod.splits sum.splits)
qed

subsection \<open>Properties\<close>

definition sample_frame_of :: "Function \<Rightarrow> nat ExecutionFrame" where
  "sample_frame_of fn = the (frame_new (\<lambda>_. True) 0 Base (FunctionId 0) fn [] 1 None None [])"

lemma sample_frame_matches: "frame_matches sample_function (sample_frame_of sample_function)"
proof -
  have "frame_new (\<lambda>_. True) 0 Base (FunctionId 0) sample_function [] 1 None None [] = Some (sample_frame_of sample_function)"
    by (simp add: sample_frame_of_def frame_new_def Let_def u32_max_def)
  then show ?thesis by (rule frame_new_matches)
qed

text \<open>
  C24: in a frame allocated for a function of a verified module, no operand of any of its instructions
  escapes validation: register and pack reads and writes succeed and keep the frame's dimensions,
  local slots exist, names are strings of the constant pool, and jump targets are instructions.
\<close>

theorem verified_frame_access:
  assumes ok: "verify md = Ok ()" and fn: "get (module_functions md) (func_get fid) = Some fn"
    and ins: "get (instructions fn) i = Some ins" and fr: "frame_matches fn fr"
    and x: "x \<in> set (operands (instr_kind ins))"
  shows "case x of
      RegisterOperand r \<Rightarrow> (\<exists>v. read_register fr r = Ok v) \<and> (\<exists>fr'. write_register fr r w = Ok fr' \<and> frame_matches fn fr')
    | PackOperand p \<Rightarrow> (\<exists>vs. read_pack_register fr p = Ok vs) \<and>
        (\<exists>fr'. write_pack_register fr p ws = Ok fr' \<and> frame_matches fn fr')
    | LocalOperand l \<Rightarrow> (\<exists>v. get (frame_locals fr) (local_get l) = Some v)
    | PersistentOperand s \<Rightarrow> unat (persistent_get s) < unat (persistent_slot_count fn)
    | ConstantOperand c \<Rightarrow> (\<exists>v. get (constants fn) (const_get c) = Some v)
    | NameOperand c \<Rightarrow> (\<exists>s. get (constants fn) (const_get c) = Some (String s))
    | JumpOperand t \<Rightarrow> (\<exists>k. get (instructions fn) (index_get t) = Some k)"
proof -
  have "operand_in_range fn x"
    using verify_function_Ok(6) [OF verify_Ok(6) [OF ok fn] ins] x by (auto simp: verify_instruction_Ok operands_accepted)
  then show ?thesis
    using frame_access_ok [OF fr] fr
    by (cases x) (auto simp: operand_in_range_def get_eq frame_matches_def)
qed

theorem verified_frame_access_witness:
  "\<exists>v. read_register (sample_frame_of sample_function) (Register 1) = Ok v"
  using verified_frame_access [OF sample_module_verified, of "FunctionId 0" sample_function 1
      "instruction_new (Move (Register 1) (Register 0))" "sample_frame_of sample_function" "RegisterOperand (Register 1)"]
  by (simp add: sample_frame_matches get_def slice_get_def sample_module_simps sample_function_simps instruction_new_def)

text \<open>
  consuming the arguments of an application yields exactly the values that copying them would, with
  the same errors, and whatever it moves out of the frame is read by no other instruction: every
  register and pack that another instruction reads keeps its value, and the locals, shared cells and
  dimensions are untouched.
\<close>

theorem take_arguments_equals_read:
  "(case take_apply_arguments reserve nothing fn current fr arguments of
      Inl e \<Rightarrow> read_apply_arguments reserve fr arguments = Err e
    | Inr (fr', vs) \<Rightarrow> read_apply_arguments reserve fr arguments = Ok vs \<and> consumed fn current fr fr')"
proof -
  have "agrees arguments fr fr" by (simp add: agrees_def)
  from take_arguments_refines [OF this, where reserve = reserve and nothing = nothing and fn = fn and current = current and acc = "[]"] show ?thesis
    by (cases "reserve 0 (length arguments)") (simp_all add: take_apply_arguments_def read_apply_arguments_def split: sum.splits prod.splits)
qed

text \<open>
  C12: an error caught in a verified function resumes strictly behind the failing instruction, inside the
  instruction stream and outside the range whose handler was chosen, with every register and pack
  empty and the frame's dimensions kept. An error leaves the frame only if it is not catchable, if no
  range protects the instruction, or if its exception object cannot be built; the catch local is
  always present.
\<close>

theorem unwinding_makes_progress:
  assumes ok: "verify md = Ok ()" and fn: "get (module_functions md) (func_get fid) = Some fn" and fr: "frame_matches fn fr"
    and u: "unwind_frame_error cid desc berr ex nothing st fn fr i e = (st', fr', r)"
  shows "frame_matches fn fr' \<and>
    (case r of
       Inr _ \<Rightarrow> i < frame_instruction fr' \<and> unat (index_get (frame_instruction fr')) < length (instructions fn) \<and>
         set (frame_registers fr') \<subseteq> {nothing} \<and> set (frame_packs fr') \<subseteq> {[]} \<and>
         (\<exists>h. innermost_exception_handler fn i = Some h \<and> \<not> protects (frame_instruction fr') h)
     | Inl e' \<Rightarrow> cid e = None \<and> e' = e \<or> innermost_exception_handler fn i = None \<and> e' = e \<or>
         (\<exists>identifier st''. cid e = Some identifier \<and> ex (record_last_error cid desc st e) e identifier = (st'', Err e')))"
proof -
  have vh: "verify_exception_handlers fid fn = Ok ()" by (rule verify_function_Ok(4) [OF verify_Ok(6) [OF ok fn]])
  note res = unwind_frame_error_result [OF vh fr u]
  show ?thesis
  proof (cases r)
    case (Inl e')
    with res(3,5) show ?thesis by simp
  next
    case (Inr w)
    then have "r = Ok ()" by simp
    with res(1,2,3) resume_point_forward [OF vh] show ?thesis by (fastforce simp: Inr)
  qed
qed

theorem unwinding_makes_progress_witness:
  "frame_instruction (fst (snd (unwind_frame_error (\<lambda>_. Some ''OpenMat:Error'') id (\<lambda>e _. e) (\<lambda>st _ _. (st, Ok 7)) 0
     \<lparr>last_error = None, pending_exception = None\<rparr> sample_function (sample_frame_of sample_function) (InstructionIndex 1) (3 :: nat))))
   > InstructionIndex 1"
proof -
  let ?u = "unwind_frame_error (\<lambda>_. Some ''OpenMat:Error'') id (\<lambda>e _. e) (\<lambda>st _ _. (st, Ok 7)) 0
     \<lparr>last_error = None, pending_exception = None\<rparr> sample_function (sample_frame_of sample_function) (InstructionIndex 1) (3 :: nat)"
  obtain st fr r where u: "?u = (st, fr, r)" by (cases ?u)
  have inner: "innermost_exception_handler sample_function (InstructionIndex 1) \<noteq> None"
    by (simp add: innermost_exception_handler_def sample_function_simps sample_handlers_def catch_def swallow_def protects_def)
  have g: "get (module_functions sample_module) (func_get (FunctionId 0)) = Some sample_function"
    by (simp add: get_def slice_get_def sample_module_simps)
  from unwinding_makes_progress [OF sample_module_verified g sample_frame_matches u] inner show ?thesis
    by (cases r) (auto simp: u)
qed

text \<open>
  the instruction pointer of a verified function never passes the end of its stream: at every
  reachable point it selects an instruction, or it is exactly one past the last, where the interpreter
  reports the pointer out of bounds.
\<close>

theorem instruction_pointer_in_stream:
  assumes ok: "verify md = Ok ()" and fn: "get (module_functions md) (func_get fid) = Some fn"
    and run: "(control_step fn)\<^sup>*\<^sup>* (InstructionIndex 0) pc"
  shows "(\<exists>ins. get (instructions fn) (index_get pc) = Some ins) \<or> unat (index_get pc) = length (instructions fn)"
  using exec_steps_in_stream [OF verify_Ok(6) [OF ok fn] run] by (auto simp: get_eq)

theorem instruction_pointer_in_stream_witness:
  "\<exists>ins. get (instructions sample_function) 3 = Some ins"
proof -
  have at: "get (instructions sample_function) (index_get (InstructionIndex 2)) = Some (instruction_new (Jump (InstructionIndex 3)))"
    by (simp add: get_def slice_get_def sample_function_simps)
  have first: "innermost_exception_handler sample_function (InstructionIndex 0) = Some (swallow (InstructionIndex 0) (InstructionIndex 1) (InstructionIndex 1))"
    by (simp add: innermost_exception_handler_def sample_function_simps sample_handlers_def catch_def swallow_def protects_def)
  have "failed_instruction (next_index (InstructionIndex 0)) = InstructionIndex 0"
    by (rule failed_next_index) (simp add: u32_max_def)
  with first have "innermost_exception_handler sample_function (failed_instruction (next_index (InstructionIndex 0))) =
      Some (swallow (InstructionIndex 0) (InstructionIndex 1) (InstructionIndex 1))" by simp
  from caught [OF _ this] have "control_step sample_function (InstructionIndex 0) (InstructionIndex 1)"
    by (simp add: get_def slice_get_def sample_function_simps resume_point_def swallow_def)
  moreover have "control_step sample_function (InstructionIndex 1) (InstructionIndex 2)"
    using fall_through [of sample_function "InstructionIndex 1" "instruction_new (Move (Register 1) (Register 0))"]
    by (simp add: get_def slice_get_def sample_function_simps instruction_new_def returns_def next_index_def saturating_add_def u32_max_def)
  moreover have "control_step sample_function (InstructionIndex 2) (InstructionIndex 3)"
    using jump [OF at] by (simp add: instruction_new_def)
  ultimately have run: "(control_step sample_function)\<^sup>*\<^sup>* (InstructionIndex 0) (InstructionIndex 3)"
    by (meson converse_rtranclp_into_rtranclp rtranclp.rtrancl_refl)
  have g: "get (module_functions sample_module) (func_get (FunctionId 0)) = Some sample_function"
    by (simp add: get_def slice_get_def sample_module_simps)
  show ?thesis
    using instruction_pointer_in_stream [OF sample_module_verified g run] by (simp add: sample_function_simps)
qed

text \<open>
  C25: an exception caught into a local that a nested closure has promoted to a shared cell is not seen
  by the code of the handler: unwinding stores it in the frame's own slot, while every later load of
  the local reads the cell, which still holds its old value.
\<close>

theorem caught_error_hidden:
  assumes caught: "unwind_frame_error cid desc berr ex nothing st fn fr i e = (st', fr', Ok ())"
    and handler: "innermost_exception_handler fn i = Some eh" "handler_kind eh = Catch c (Some l)"
    and shared: "bt_get (shared_locals fr) l = Some a"
  shows "frame_instruction fr' = c \<and> load_local h fr' l = load_local h fr l \<and>
    (\<exists>identifier st'' exception. cid e = Some identifier \<and>
      ex (record_last_error cid desc st e) e identifier = (st'', Ok exception) \<and>
      get (frame_locals fr') (local_get l) = Some exception)"
  using assms
  by (auto simp: unwind_frame_error_def Let_def clear_temporaries_def load_local_def get_def slice_get_def
      split: option.splits if_splits prod.splits sum.splits)

definition shared_frame :: "nat ExecutionFrame" where
  "shared_frame = (sample_frame_of sample_function)\<lparr>shared_locals := [(LocalSlot 0, 0)]\<rparr>"

definition shared_unwound :: "string ErrorState \<times> nat ExecutionFrame \<times> (nat, unit) result" where
  "shared_unwound = unwind_frame_error (\<lambda>_. Some ''OpenMat:Error'') (\<lambda>_. ''e'') (\<lambda>e _. e) (\<lambda>st _ _. (st, Ok 7)) 0
     \<lparr>last_error = None, pending_exception = None\<rparr> sample_function shared_frame (InstructionIndex 1) 3"

theorem caught_error_hidden_witness:
  "promote_local [] (sample_frame_of sample_function) (LocalSlot 0) = Ok ([\<lparr>poisoned = False, cell_value = 0\<rparr>], shared_frame, 0) \<and>
   get (frame_locals (fst (snd shared_unwound))) 0 = Some 7 \<and>
   load_local [\<lparr>poisoned = False, cell_value = 0\<rparr>] (fst (snd shared_unwound)) (LocalSlot 0) = Ok 0"
proof -
  have frame: "sample_frame_of sample_function = \<lparr>scope_address = Base, frame_function = FunctionId 0,
      frame_instruction = InstructionIndex 0, frame_registers = [0, 0], frame_packs = [], frame_locals = [0],
      named_bindings = [], dynamic_locals = [], shared_locals = [], call_inputs = [], input_count = 0,
      requested_output_count = 1, caller_class = None, frame_captures = [], imports_list = []\<rparr>"
    using replicate_Suc [of 1 "0 :: nat"]
    by (simp add: sample_frame_of_def frame_new_def Let_def u32_max_def fill_slots_def sample_function_def
        with_exception_handlers_def function_new_def flip: numeral_2_eq_2)
  have inner: "innermost_exception_handler sample_function (InstructionIndex 1) =
      Some (catch (InstructionIndex 0) (InstructionIndex 2) (InstructionIndex 3) (InstructionIndex 3) (Some (LocalSlot 0)))"
    by (simp add: innermost_exception_handler_def sample_function_simps sample_handlers_def catch_def swallow_def protects_def)
  have kind: "handler_kind (catch (InstructionIndex 0) (InstructionIndex 2) (InstructionIndex 3) (InstructionIndex 3) (Some (LocalSlot 0)))
      = Catch (InstructionIndex 3) (Some (LocalSlot 0))"
    by (simp add: catch_def)
  obtain st fr where u: "shared_unwound = (st, fr, Ok ())"
    using inner kind by (simp add: shared_unwound_def unwind_frame_error_def shared_frame_def frame clear_temporaries_def get_def slice_get_def)
  have "bt_get (shared_locals shared_frame) (LocalSlot 0) = Some 0" by (simp add: shared_frame_def bt_get_def)
  from caught_error_hidden [OF u [unfolded shared_unwound_def] inner kind this, of "[\<lparr>poisoned = False, cell_value = 0\<rparr>]"] show ?thesis
    by (simp add: u shared_frame_def frame promote_local_def shared_new_def load_local_def shared_read_def bt_get_def get_def slice_get_def)
qed

end
