(* ===== verification/Runtime_Error.thy ===== *)
theory Runtime_Error
  imports Bytecode_Model
begin

section \<open>Runtime failures (openmat-runtime/src/error.rs)\<close>

text \<open>
  The failure categories of the interpreter, with the identifiers under which language code can catch
  them. Errors of the linear-algebra provider and the rendering of messages are left out: the former
  are a type parameter.
\<close>

datatype ValueKind =
    KindNothing | KindLogical | KindDouble | KindComplex | KindSingle | KindString | KindChar | KindInteger | KindArray
  | KindSparse | KindCell | KindStruct | KindTable | KindObject | KindGraphics | KindFunction

definition kind_class_name :: "ValueKind \<Rightarrow> string" where
  "kind_class_name k =
     (case k of
        KindNothing \<Rightarrow> ''nothing'' | KindLogical \<Rightarrow> ''logical'' | KindDouble \<Rightarrow> ''double'' | KindComplex \<Rightarrow> ''double''
      | KindSingle \<Rightarrow> ''single'' | KindString \<Rightarrow> ''string'' | KindChar \<Rightarrow> ''char'' | KindInteger \<Rightarrow> ''integer''
      | KindArray \<Rightarrow> ''array'' | KindSparse \<Rightarrow> ''sparse'' | KindCell \<Rightarrow> ''cell'' | KindStruct \<Rightarrow> ''struct''
      | KindTable \<Rightarrow> ''table'' | KindObject \<Rightarrow> ''object'' | KindGraphics \<Rightarrow> ''graphics'' | KindFunction \<Rightarrow> ''function_handle'')"

datatype IndexErrorKind =
    NoSubscripts | NonNumeric | IndexNonFinite | NonInteger | NonPositive | LogicalLength nat nat

datatype RangeErrorKind = NonScalarReal | RangeNonFinite | ZeroStep | TooLarge

datatype 'l ArrayRuntimeError =
    LinearAlgebra 'l
  | ShapeMismatch string "nat list" "nat list"
  | InvalidOperand string ValueKind
  | ConcatenationMismatch nat nat nat
  | InvalidRange RangeErrorKind
  | InvalidIndex nat IndexErrorKind
  | ArrayIndexOutOfBounds nat nat nat
  | AssignmentSizeMismatch nat nat
  | ObjectArrayGrowthGap nat nat
  | IndexOutputArity nat
  | ColonCallArgument nat
  | SizeLimit
  | RaggedCellRows nat nat nat
  | InvalidStructFieldName string
  | MissingStructField string
  | StructSchemaMismatch "string list" "string list"
  | InvalidDeletionShape "nat list" nat
  | StructMemberApplyRequiresScalar nat

datatype BuiltinErrorCategory =
    ArgumentCount | TypeCategory | DomainCategory | OutputCategory | CancelledCategory | LanguageCopy | HostService
  | FileSystem | GraphicsCategory | OtherCategory

datatype ClassConstraintKind =
    AbstractClassInstantiation | SealedSuperclass | ExplicitConcreteWithAbstractMethods | AbstractOverrideAccessMismatch
  | AbstractMethodUnavailable

datatype 'l RuntimeErrorKind =
    Cancelled
  | UndefinedGlobal string
  | NotCallable ValueKind
  | InvalidFunctionHandle nat
  | UnknownFunctionHandleTarget string
  | InputArity string nat nat
  | MissingOutputs nat nat
  | InvalidOperands BinaryOperator ValueKind ValueKind
  | UnsupportedArrayOperator BinaryOperator
  | InvalidCondition ValueKind
  | BuiltinFailure string BuiltinErrorCategory "string option" string
  | ObjectFailure string string
  | ClassConstraint string ClassConstraintKind string
  | AccessViolation string string Access
  | UnsupportedClassFeature string
  | CallDepthExceeded nat
  | InstructionPointerOutOfBounds FunctionId InstructionIndex
  | InvalidExecutionState string "'l ArrayRuntimeError option"

record StackTraceFrame =
  trace_function :: FunctionId
  trace_name :: string
  trace_instruction :: InstructionIndex
  trace_location :: "SourceLocation option"

record 'l RuntimeError =
  runtime_kind :: "'l RuntimeErrorKind"
  runtime_location :: "SourceLocation option"
  runtime_stack :: "StackTraceFrame list"

fun array_catchable_identifier :: "'l ArrayRuntimeError \<Rightarrow> string" where
  "array_catchable_identifier (LinearAlgebra _) = ''OpenMat:LinearAlgebraError''"
| "array_catchable_identifier (ShapeMismatch _ _ _) = ''OpenMat:ArrayShapeMismatch''"
| "array_catchable_identifier (InvalidOperand _ _) = ''OpenMat:ArrayInvalidOperand''"
| "array_catchable_identifier (ConcatenationMismatch _ _ _) = ''OpenMat:ArrayConcatenationMismatch''"
| "array_catchable_identifier (InvalidRange _) = ''OpenMat:InvalidRange''"
| "array_catchable_identifier (InvalidIndex _ _) = ''OpenMat:InvalidIndex''"
| "array_catchable_identifier (ArrayIndexOutOfBounds _ _ _) = ''OpenMat:IndexOutOfBounds''"
| "array_catchable_identifier (AssignmentSizeMismatch _ _) = ''OpenMat:AssignmentSizeMismatch''"
| "array_catchable_identifier (ObjectArrayGrowthGap _ _) = ''OpenMat:ObjectArrayGrowthGap''"
| "array_catchable_identifier (IndexOutputArity _) = ''OpenMat:IndexOutputArity''"
| "array_catchable_identifier (ColonCallArgument _) = ''OpenMat:ColonCallArgument''"
| "array_catchable_identifier SizeLimit = ''OpenMat:ArraySizeLimit''"
| "array_catchable_identifier (RaggedCellRows _ _ _) = ''OpenMat:RaggedCellRows''"
| "array_catchable_identifier (InvalidStructFieldName _) = ''OpenMat:InvalidStructFieldName''"
| "array_catchable_identifier (MissingStructField _) = ''OpenMat:MissingStructField''"
| "array_catchable_identifier (StructSchemaMismatch _ _) = ''OpenMat:StructSchemaMismatch''"
| "array_catchable_identifier (InvalidDeletionShape _ _) = ''OpenMat:InvalidDeletionShape''"
| "array_catchable_identifier (StructMemberApplyRequiresScalar _) = ''OpenMat:StructMemberApplyRequiresScalar''"

fun catchable_identifier :: "'l RuntimeErrorKind \<Rightarrow> string option" where
  "catchable_identifier Cancelled = None"
| "catchable_identifier (InstructionPointerOutOfBounds _ _) = None"
| "catchable_identifier (InvalidExecutionState _ None) = None"
| "catchable_identifier (UndefinedGlobal _) = Some ''OpenMat:UndefinedName''"
| "catchable_identifier (NotCallable _) = Some ''OpenMat:NotCallable''"
| "catchable_identifier (InvalidFunctionHandle _) = Some ''OpenMat:InvalidFunctionHandle''"
| "catchable_identifier (UnknownFunctionHandleTarget _) = Some ''OpenMat:UnknownFunctionHandleTarget''"
| "catchable_identifier (InputArity _ _ _) = Some ''OpenMat:InputArity''"
| "catchable_identifier (MissingOutputs _ _) = Some ''OpenMat:MissingOutputs''"
| "catchable_identifier (InvalidOperands _ _ _) = Some ''OpenMat:InvalidOperands''"
| "catchable_identifier (UnsupportedArrayOperator _) = Some ''OpenMat:InvalidOperands''"
| "catchable_identifier (InvalidCondition _) = Some ''OpenMat:InvalidCondition''"
| "catchable_identifier (BuiltinFailure _ _ identifier _) =
     Some (case identifier of None \<Rightarrow> ''OpenMat:BuiltinError'' | Some i \<Rightarrow> i)"
| "catchable_identifier (ObjectFailure _ _) = Some ''OpenMat:ObjectError''"
| "catchable_identifier (ClassConstraint _ constraint _) =
     Some (case constraint of AbstractMethodUnavailable \<Rightarrow> ''OpenMat:UndefinedName'' | _ \<Rightarrow> ''OpenMat:ClassConstraint'')"
| "catchable_identifier (AccessViolation _ _ _) = Some ''OpenMat:AccessViolation''"
| "catchable_identifier (UnsupportedClassFeature _) = Some ''OpenMat:UnsupportedClassFeature''"
| "catchable_identifier (CallDepthExceeded _) = Some ''OpenMat:CallDepthExceeded''"
| "catchable_identifier (InvalidExecutionState _ (Some a)) = Some (array_catchable_identifier a)"

record IndexOutOfBoundsDetails =
  bounds_argument :: nat
  bounds_index :: nat
  bounds_extent :: nat

definition index_out_of_bounds :: "'l RuntimeErrorKind \<Rightarrow> IndexOutOfBoundsDetails option" where
  "index_out_of_bounds k =
     (case k of
        InvalidExecutionState _ (Some (ArrayIndexOutOfBounds argument index extent)) \<Rightarrow>
          Some \<lparr>bounds_argument = argument, bounds_index = index, bounds_extent = extent\<rparr>
      | _ \<Rightarrow> None)"

definition linalg_error :: "'l RuntimeErrorKind \<Rightarrow> 'l option" where
  "linalg_error k = (case k of InvalidExecutionState _ (Some (LinearAlgebra e)) \<Rightarrow> Some e | _ \<Rightarrow> None)"

text \<open>A verifier invariant that failed, and an array failure.\<close>

abbreviation invalid_state :: "string \<Rightarrow> 'l RuntimeErrorKind" where
  "invalid_state message \<equiv> InvalidExecutionState message None"

lemma catchable_iff:
  "catchable_identifier k = None \<longleftrightarrow>
     k = Cancelled \<or> (\<exists>f i. k = InstructionPointerOutOfBounds f i) \<or> (\<exists>m. k = invalid_state m)"
  by (cases k rule: catchable_identifier.cases) auto

end
