(* ===== verification/Finalizer_Queue.thy ===== *)
theory Finalizer_Queue
  imports Main
begin

section \<open>Pending finalizers (openmat-runtime/src/interpreter/finalization.rs)\<close>

text \<open>
  The queue of finalizers waiting to run, with the set of identities in it, and the flags that decide
  when the interpreter collects. The locale states what draining relies on; the lemmas show that a
  queue filled from a plan hands out each identity once, in the order of discovery.
\<close>

subsection \<open>Scheduling\<close>

datatype SafepointReason = RootRemoval | ScopeExit | CommandBoundary | AllocationDebt | ExplicitDelete | ConstructionFailure

record FinalizationSafepoints =
  root_removal_pending :: bool
  is_draining :: bool

definition safepoints_default :: FinalizationSafepoints where
  "safepoints_default = \<lparr>root_removal_pending = False, is_draining = False\<rparr>"

definition note_root_removal :: "FinalizationSafepoints \<Rightarrow> FinalizationSafepoints" where
  "note_root_removal s = s\<lparr>root_removal_pending := True\<rparr>"

definition take_root_removal :: "FinalizationSafepoints \<Rightarrow> bool \<times> FinalizationSafepoints" where
  "take_root_removal s = (root_removal_pending s, s\<lparr>root_removal_pending := False\<rparr>)"

definition begin_drain :: "FinalizationSafepoints \<Rightarrow> bool \<times> FinalizationSafepoints" where
  "begin_drain s = (if is_draining s then (False, s) else (True, s\<lparr>is_draining := True\<rparr>))"

definition end_drain :: "FinalizationSafepoints \<Rightarrow> FinalizationSafepoints" where
  "end_drain s = s\<lparr>is_draining := False\<rparr>"

subsection \<open>The queue\<close>

record 'a FinalizerQueue =
  queue_pending :: "(nat \<times> 'a) list"
  queue_members :: "nat set"

definition queue_default :: "'a FinalizerQueue" where
  "queue_default = \<lparr>queue_pending = [], queue_members = {}\<rparr>"

definition enqueue :: "nat \<Rightarrow> 'a \<Rightarrow> 'a FinalizerQueue \<Rightarrow> 'a FinalizerQueue" where
  "enqueue identity item q =
     (if identity \<in> queue_members q then q
      else q\<lparr>queue_members := insert identity (queue_members q), queue_pending := queue_pending q @ [(identity, item)]\<rparr>)"

definition enqueue_all :: "('a \<Rightarrow> nat) \<Rightarrow> 'a list \<Rightarrow> 'a FinalizerQueue \<Rightarrow> 'a FinalizerQueue" where
  "enqueue_all identity items q = fold (\<lambda>item. enqueue (identity item) item) items q"

definition pop_front :: "'a FinalizerQueue \<Rightarrow> 'a option \<times> 'a FinalizerQueue" where
  "pop_front q =
     (case queue_pending q of
        [] \<Rightarrow> (None, q)
      | (identity, item) # rest \<Rightarrow> (Some item, q\<lparr>queue_pending := rest, queue_members := queue_members q - {identity}\<rparr>))"

subsection \<open>The contract\<close>

definition queue_wf :: "'a FinalizerQueue \<Rightarrow> bool" where
  "queue_wf q \<longleftrightarrow> distinct (map fst (queue_pending q)) \<and> queue_members q = fst ` set (queue_pending q)"

text \<open>A work queue without duplicates: \<open>items\<close> is what it holds, in order.\<close>

locale work_queue =
  fixes wf :: "'q \<Rightarrow> bool" and items :: "'q \<Rightarrow> (nat \<times> 'a) list" and push :: "nat \<Rightarrow> 'a \<Rightarrow> 'q \<Rightarrow> 'q" and pop :: "'q \<Rightarrow> 'a option \<times> 'q"
  assumes items_distinct: "wf q \<Longrightarrow> distinct (map fst (items q))"
    and push_wf: "wf q \<Longrightarrow> wf (push k x q)"
    and push_items: "wf q \<Longrightarrow> items (push k x q) = (if k \<in> fst ` set (items q) then items q else items q @ [(k, x)])"
    and pop_empty: "wf q \<Longrightarrow> items q = [] \<Longrightarrow> fst (pop q) = None"
    and pop_wf: "wf q \<Longrightarrow> wf (snd (pop q))"
    and pop_items: "wf q \<Longrightarrow> items q = (k, x) # rest \<Longrightarrow> fst (pop q) = Some x \<and> items (snd (pop q)) = rest"
begin

lemma push_all:
  assumes "wf q" and "distinct (map ident xs)" and "fst ` set (items q) \<inter> ident ` set xs = {}"
  shows "wf (fold (\<lambda>x. push (ident x) x) xs q) \<and>
    items (fold (\<lambda>x. push (ident x) x) xs q) = items q @ map (\<lambda>x. (ident x, x)) xs"
  using assms
proof (induction xs arbitrary: q)
  case (Cons x xs)
  have "items (push (ident x) x q) = items q @ [(ident x, x)]" using Cons.prems push_items [of q "ident x" x] by auto
  with Cons.IH [of "push (ident x) x q"] Cons.prems push_wf show ?case by auto
qed simp

end

interpretation finalizers: work_queue queue_wf queue_pending enqueue pop_front
proof
  fix q :: "'a FinalizerQueue" and k :: nat and x :: 'a and rest
  assume wf: "queue_wf q"
  show "distinct (map fst (queue_pending q))" using wf by (simp add: queue_wf_def)
  show "queue_wf (enqueue k x q)" using wf by (auto simp: queue_wf_def enqueue_def)
  show "queue_pending (enqueue k x q) = (if k \<in> fst ` set (queue_pending q) then queue_pending q else queue_pending q @ [(k, x)])"
    using wf by (simp add: queue_wf_def enqueue_def)
  show "fst (pop_front q) = None" if "queue_pending q = []" using that by (simp add: pop_front_def)
  show "queue_wf (snd (pop_front q))"
    using wf by (cases "queue_pending q") (force simp: queue_wf_def pop_front_def)+
  show "fst (pop_front q) = Some x \<and> queue_pending (snd (pop_front q)) = rest" if "queue_pending q = (k, x) # rest"
    using that by (simp add: pop_front_def)
qed

lemma queue_default_wf: "queue_wf queue_default"
  by (simp add: queue_wf_def queue_default_def)

lemma enqueue_all_appends:
  assumes "queue_wf q" and "distinct (map ident xs)" and "fst ` set (queue_pending q) \<inter> ident ` set xs = {}"
  shows "queue_wf (enqueue_all ident xs q)" and "queue_pending (enqueue_all ident xs q) = queue_pending q @ map (\<lambda>x. (ident x, x)) xs"
  using finalizers.push_all [OF assms] by (simp_all add: enqueue_all_def)

end
