(* ===== verification/Interp_Bindings.thy ===== *)
theory Interp_Bindings
  imports Interp_Frame Runtime_Error Finalizer_Queue
begin

section \<open>Bindings and places (openmat-runtime/src/interpreter.rs)\<close>

text \<open>
  Where names live while a function runs: locals, cells shared with closures, persistent slots and the
  workspace, and the indexed assignment that takes a value out of its binding, updates it in place and
  puts it back. Instructions are functions from the machine to a result and the machine they leave
  behind, on every path, so partial effects before an error are part of the model. Source locations
  and the call stack attached to errors are left out.
\<close>

subsection \<open>The machine\<close>

record PersistentBindingKey =
  key_function_name :: string
  key_caller_class :: "64 word option"
  key_slot :: PersistentSlot

record ('v, 'h) Machine =
  frame :: "'v ExecutionFrame"
  workspace :: "(string, 'v) btree"
  base_imports :: "string list"
  persistent_bindings :: "PersistentBindingKey \<rightharpoonup> 'v"
  machine_cells :: "'v cells"
  machine_functions :: "(nat, 'v RuntimeFunctionCode) btree"
  next_function_handle :: "32 word option"
  safepoint_flags :: FinalizationSafepoints
  host :: 'h

text \<open>
  What the instructions need to know about language values: the no-value marker, an empty matrix, the
  language copy of a value, whether dropping a value may free objects, whether two values share their
  storage, and the in-place scalar update with the target it leaves. Copying a value object allocates
  objects, so it changes the part of the interpreter that is not modelled here (\<open>host\<close>).
\<close>

record ('v, 'h, 'l) Language =
  no_value :: 'v
  empty_double :: 'v
  language_copy :: "'v \<Rightarrow> 'h \<Rightarrow> ('l RuntimeErrorKind, 'v) result \<times> 'h"
  roots_object :: "'v cells \<Rightarrow> (nat, 'v RuntimeFunctionCode) btree \<Rightarrow> 'v \<Rightarrow> bool"
  shares_storage :: "'v \<Rightarrow> 'v \<Rightarrow> bool"
  assign_scalar_in_place :: "'v \<Rightarrow> 'v \<Rightarrow> 'v \<Rightarrow> ('l RuntimeErrorKind, bool) result \<times> 'v"
  dynamic_field_name :: "'v \<Rightarrow> ('l RuntimeErrorKind, string) result"

type_synonym ('v, 'h, 'l, 'a) exec = "('v, 'h) Machine \<Rightarrow> ('l RuntimeErrorKind, 'a) result \<times> ('v, 'h) Machine"

definition seq :: "('v, 'h, 'l, 'a) exec \<Rightarrow> ('a \<Rightarrow> ('v, 'h, 'l, 'b) exec) \<Rightarrow> ('v, 'h, 'l, 'b) exec" where
  "seq m f s = (case m s of (Inl e, s') \<Rightarrow> (Err e, s') | (Inr a, s') \<Rightarrow> f a s')"

definition give :: "('l RuntimeErrorKind, 'a) result \<Rightarrow> ('v, 'h, 'l, 'a) exec" where
  "give r s = (r, s)"

text \<open>An operation of the frame that only reads, and one that updates the frame.\<close>

definition reading :: "('v ExecutionFrame \<Rightarrow> 'a frame_result) \<Rightarrow> ('v, 'h, 'l, 'a) exec" where
  "reading f s = (map_err invalid_state (f (frame s)), s)"

definition writing :: "('v ExecutionFrame \<Rightarrow> 'v ExecutionFrame frame_result) \<Rightarrow> ('v, 'h, 'l, unit) exec" where
  "writing f s = (case f (frame s) of Inl m \<Rightarrow> (Err (invalid_state m), s) | Inr fr \<Rightarrow> (Ok (), s\<lparr>frame := fr\<rparr>))"

definition taking :: "('v ExecutionFrame \<Rightarrow> ('v ExecutionFrame \<times> 'a) frame_result) \<Rightarrow> ('v, 'h, 'l, 'a) exec" where
  "taking f s = (case f (frame s) of Inl m \<Rightarrow> (Err (invalid_state m), s) | Inr (fr, a) \<Rightarrow> (Ok a, s\<lparr>frame := fr\<rparr>))"

definition copying :: "('v, 'h, 'l) Language \<Rightarrow> 'v \<Rightarrow> ('v, 'h, 'l, 'v) exec" where
  "copying L v s = (case language_copy L v (host s) of (r, h) \<Rightarrow> (r, s\<lparr>host := h\<rparr>))"

definition note_removal :: "('v, 'h, 'l) Language \<Rightarrow> 'v \<Rightarrow> ('v, 'h, 'l, unit) exec" where
  "note_removal L v s = (Ok (), if roots_object L (machine_cells s) (machine_functions s) v then s\<lparr>safepoint_flags := note_root_removal (safepoint_flags s)\<rparr> else s)"

definition note_removed :: "('v, 'h, 'l) Language \<Rightarrow> 'v option \<Rightarrow> ('v, 'h, 'l, unit) exec" where
  "note_removed L previous = (case previous of None \<Rightarrow> give (Ok ()) | Some v \<Rightarrow> note_removal L v)"

definition global_name :: "Function \<Rightarrow> ConstantId \<Rightarrow> string option" where
  "global_name fn c = (case get (constants fn) (const_get c) of Some (String s) \<Rightarrow> Some s | _ \<Rightarrow> None)"

definition named :: "Function \<Rightarrow> string \<Rightarrow> ConstantId \<Rightarrow> ('v, 'h, 'l, string) exec" where
  "named fn message c = give (ok_or (invalid_state message) (global_name fn c))"

subsection \<open>Binding targets\<close>

datatype RuntimeBindingTarget =
    TargetLocal LocalSlot
  | TargetPersistent PersistentBindingKey
  | TargetShared nat
  | TargetWorkspace string

definition persistent_binding_key :: "Function \<Rightarrow> 'v ExecutionFrame \<Rightarrow> PersistentSlot \<Rightarrow> PersistentBindingKey" where
  "persistent_binding_key fn fr s =
     \<lparr>key_function_name = function_name fn, key_caller_class = caller_class fr, key_slot = s\<rparr>"

text \<open>The cell a closure captured under a name.\<close>

definition shared_capture :: "string \<Rightarrow> string \<Rightarrow> ('v, 'h, 'l, nat) exec" where
  "shared_capture message name s =
     ((case bt_get (frame_captures (frame s)) name of Some (CapturedShared a) \<Rightarrow> Ok a | _ \<Rightarrow> Err (invalid_state message)), s)"

definition resolve_binding_target :: "Function \<Rightarrow> BindingTarget \<Rightarrow> ('v, 'h, 'l, RuntimeBindingTarget) exec" where
  "resolve_binding_target fn t =
     (case t of
        BindingTarget.Local l \<Rightarrow> give (Ok (TargetLocal l))
      | BindingTarget.Persistent p \<Rightarrow> (\<lambda>s. (Ok (TargetPersistent (persistent_binding_key fn (frame s) p)), s))
      | BindingTarget.Capture c \<Rightarrow>
          seq (named fn ''capture name escaped validation'' c) (\<lambda>name.
          seq (shared_capture ''shared capture is missing'' name) (\<lambda>a. give (Ok (TargetShared a))))
      | BindingTarget.Workspace c \<Rightarrow>
          seq (named fn ''global name escaped validation'' c) (\<lambda>name. give (Ok (TargetWorkspace name))))"

text \<open>Storing in a local or a shared cell, handing back the previous value.\<close>

definition swap_local :: "LocalSlot \<Rightarrow> 'v \<Rightarrow> ('v, 'h, 'l, 'v) exec" where
  "swap_local l v s =
     (case replace_local (machine_cells s) (frame s) l v of
        Inl m \<Rightarrow> (Err (invalid_state m), s)
      | Inr (h, fr, previous) \<Rightarrow> (Ok previous, s\<lparr>machine_cells := h, frame := fr\<rparr>))"

definition swap_shared :: "string \<Rightarrow> nat \<Rightarrow> 'v \<Rightarrow> ('v, 'h, 'l, 'v) exec" where
  "swap_shared message a v s =
     (case shared_replace (machine_cells s) a v of
        None \<Rightarrow> (Err (invalid_state message), s)
      | Some (h, previous) \<Rightarrow> (Ok previous, s\<lparr>machine_cells := h\<rparr>))"

definition take_binding :: "('v, 'h, 'l) Language \<Rightarrow> RuntimeBindingTarget \<Rightarrow> ('v, 'h, 'l, 'v option) exec" where
  "take_binding L t =
     (case t of
        TargetLocal l \<Rightarrow> seq (swap_local l (no_value L)) (\<lambda>v. give (Ok (Some v)))
      | TargetPersistent k \<Rightarrow> (\<lambda>s. (Ok (persistent_bindings s k), s\<lparr>persistent_bindings := (persistent_bindings s)(k := None)\<rparr>))
      | TargetShared a \<Rightarrow> seq (swap_shared ''shared capture lock is poisoned'' a (no_value L)) (\<lambda>v. give (Ok (Some v)))
      | TargetWorkspace n \<Rightarrow> (\<lambda>s. (Ok (bt_get (workspace s) n), s\<lparr>workspace := bt_remove n (workspace s)\<rparr>)))"

definition replace_workspace_binding :: "('v, 'h, 'l) Language \<Rightarrow> string \<Rightarrow> 'v \<Rightarrow> ('v, 'h, 'l, unit) exec" where
  "replace_workspace_binding L n v s = note_removed L (bt_get (workspace s) n) (s\<lparr>workspace := bt_insert n v (workspace s)\<rparr>)"

definition insert_persistent :: "('v, 'h, 'l) Language \<Rightarrow> PersistentBindingKey \<Rightarrow> 'v \<Rightarrow> ('v, 'h, 'l, unit) exec" where
  "insert_persistent L k v s =
     note_removed L (persistent_bindings s k) (s\<lparr>persistent_bindings := (persistent_bindings s)(k \<mapsto> v)\<rparr>)"

definition commit_binding :: "('v, 'h, 'l) Language \<Rightarrow> RuntimeBindingTarget \<Rightarrow> 'v \<Rightarrow> ('v, 'h, 'l, unit) exec" where
  "commit_binding L t v =
     (case t of
        TargetLocal l \<Rightarrow> seq (swap_local l v) (note_removal L)
      | TargetPersistent k \<Rightarrow> insert_persistent L k v
      | TargetShared a \<Rightarrow> seq (swap_shared ''shared capture lock is poisoned'' a v) (note_removal L)
      | TargetWorkspace n \<Rightarrow> replace_workspace_binding L n v)"

definition restore_binding :: "('v, 'h, 'l) Language \<Rightarrow> RuntimeBindingTarget \<Rightarrow> 'v option \<Rightarrow> ('v, 'h, 'l, unit) exec" where
  "restore_binding L t previous =
     (case previous of
        Some v \<Rightarrow> commit_binding L t v
      | None \<Rightarrow>
          (case t of
             TargetPersistent k \<Rightarrow> (\<lambda>s. (Ok (), s\<lparr>persistent_bindings := (persistent_bindings s)(k := None)\<rparr>))
           | TargetWorkspace n \<Rightarrow> (\<lambda>s. (Ok (), s\<lparr>workspace := bt_remove n (workspace s)\<rparr>))
           | _ \<Rightarrow> give (Err (invalid_state ''owned frame binding unexpectedly disappeared''))))"

subsection \<open>Assignment through a binding\<close>

datatype 'v ResolvedPlaceStep = ResolvedParen "'v IndexInput list" | ResolvedBrace "'v IndexInput list" | ResolvedField string

record 'v AssignmentSource =
  source_values :: "'v list"
  source_expanded :: bool

definition resolve_field_operand :: "('v, 'h, 'l) Language \<Rightarrow> Function \<Rightarrow> FieldOperand \<Rightarrow> ('v, 'h, 'l, string) exec" where
  "resolve_field_operand L fn f =
     (case f of
        FieldOperand.Static c \<Rightarrow> named fn ''field constant escaped validation'' c
      | FieldOperand.Dynamic r \<Rightarrow> seq (reading (\<lambda>fr. read_register fr r)) (\<lambda>v. give (dynamic_field_name L v)))"

fun resolve_steps :: "(nat \<Rightarrow> nat \<Rightarrow> bool) \<Rightarrow> ('v, 'h, 'l) Language \<Rightarrow> Function \<Rightarrow> PlaceStep list \<Rightarrow> ('v, 'h, 'l, 'v ResolvedPlaceStep list) exec" where
  "resolve_steps reserve L fn [] = give (Ok [])"
| "resolve_steps reserve L fn (st # path) =
     seq (case st of
            Paren args \<Rightarrow> seq (reading (\<lambda>fr. read_apply_arguments reserve fr args)) (\<lambda>vs. give (Ok (ResolvedParen vs)))
          | Brace args \<Rightarrow> seq (reading (\<lambda>fr. read_apply_arguments reserve fr args)) (\<lambda>vs. give (Ok (ResolvedBrace vs)))
          | PlaceStep.Field f \<Rightarrow> seq (resolve_field_operand L fn f) (\<lambda>n. give (Ok (ResolvedField n))))
       (\<lambda>r. seq (resolve_steps reserve L fn path) (\<lambda>rs. give (Ok (r # rs))))"

definition resolve_place_path :: "(nat \<Rightarrow> nat \<Rightarrow> bool) \<Rightarrow> ('v, 'h, 'l) Language \<Rightarrow> Function \<Rightarrow> PlaceStep list \<Rightarrow> ('v, 'h, 'l, 'v ResolvedPlaceStep list) exec" where
  "resolve_place_path reserve L fn path =
     (if reserve 0 (length path) then resolve_steps reserve L fn path
      else give (Err (invalid_state ''aggregate place path exceeds host capacity'')))"

definition read_assignment_source :: "(nat \<Rightarrow> nat \<Rightarrow> bool) \<Rightarrow> ValueSource \<Rightarrow> ('v, 'h, 'l, 'v AssignmentSource) exec" where
  "read_assignment_source reserve src =
     (case src of
        One r \<Rightarrow> seq (reading (\<lambda>fr. read_register fr r)) (\<lambda>v. give (Ok \<lparr>source_values = [v], source_expanded = False\<rparr>))
      | Expand p \<Rightarrow>
          seq (reading (\<lambda>fr. read_pack_register fr p)) (\<lambda>pack.
            if reserve 0 (length pack) then give (Ok \<lparr>source_values = pack, source_expanded = True\<rparr>)
            else give (Err (invalid_state ''assignment value pack exceeds host capacity''))))"

text \<open>The operands of an assignment that may run in place: a plain scalar index and one value.\<close>

definition scalar_operands :: "PlaceStep list \<Rightarrow> ValueSource \<Rightarrow> AssignmentMode \<Rightarrow> (Register \<times> Register) option" where
  "scalar_operands path src mode =
     (case (path, src, mode) of
        ([Paren [ApplyArgument.Value index]], One v, Store) \<Rightarrow> Some (index, v)
      | _ \<Rightarrow> None)"

definition write_result :: "Register option \<Rightarrow> 'v \<Rightarrow> ('v, 'h, 'l, unit) exec" where
  "write_result res v = (case res of None \<Rightarrow> give (Ok ()) | Some r \<Rightarrow> writing (\<lambda>fr. write_register fr r v))"

text \<open>
  The in-place attempt. It yields nothing when the assignment is finished and the untouched operands
  when the general path has to take over. Whether the binding shares the root's storage is decided on
  the root as it was before the update.
\<close>

definition assign_in_place :: "('v, 'h, 'l) Language \<Rightarrow> Register option \<Rightarrow> RuntimeBindingTarget \<Rightarrow> Register \<Rightarrow> 'v \<Rightarrow> 'v \<Rightarrow>
    ('v, 'h, 'l, 'v option) exec" where
  "assign_in_place L res t root index v =
     seq (taking (\<lambda>fr. take_register (no_value L) fr root)) (\<lambda>original.
     seq (take_binding L t) (\<lambda>taken.
       let shared = (case taken of None \<Rightarrow> False | Some p \<Rightarrow> shares_storage L p original);
           put_back = (\<lambda>updated. if shared then commit_binding L t updated else restore_binding L t taken);
           (outcome, updated) = assign_scalar_in_place L original index v
       in case outcome of
            Inr True \<Rightarrow> seq (commit_binding L t updated) (\<lambda>_. seq (write_result res updated) (\<lambda>_. give (Ok None)))
          | Inr False \<Rightarrow> seq (put_back updated) (\<lambda>_. give (Ok (Some updated)))
          | Inl e \<Rightarrow> seq (put_back updated) (\<lambda>_. give (Err e))))"

text \<open>
  The general path, where \<open>assign\<close> computes the assigned value and may run language code, and the
  instruction.
\<close>

definition assign_and_commit :: "('v, 'h, 'l) Language \<Rightarrow>
    ('v \<Rightarrow> 'v ResolvedPlaceStep list \<Rightarrow> 'v AssignmentSource \<Rightarrow> AssignmentMode \<Rightarrow> ('v, 'h, 'l, 'v) exec) \<Rightarrow>
    Register option \<Rightarrow> RuntimeBindingTarget \<Rightarrow> AssignmentMode \<Rightarrow> 'v ResolvedPlaceStep list \<Rightarrow> 'v AssignmentSource \<Rightarrow> 'v \<Rightarrow>
    ('v, 'h, 'l, unit) exec" where
  "assign_and_commit L assign res t mode steps source original =
     seq (assign original steps source mode) (\<lambda>assigned.
     seq (copying L assigned) (\<lambda>stored.
     seq (commit_binding L t stored) (\<lambda>_. write_result res assigned)))"

definition exec_assign_binding_place :: "(nat \<Rightarrow> nat \<Rightarrow> bool) \<Rightarrow> ('v, 'h, 'l) Language \<Rightarrow>
    ('v \<Rightarrow> 'v ResolvedPlaceStep list \<Rightarrow> 'v AssignmentSource \<Rightarrow> AssignmentMode \<Rightarrow> ('v, 'h, 'l, 'v) exec) \<Rightarrow> Function \<Rightarrow>
    Register option \<Rightarrow> BindingTarget \<Rightarrow> Register \<Rightarrow> PlaceStep list \<Rightarrow> ValueSource \<Rightarrow> AssignmentMode \<Rightarrow> ('v, 'h, 'l, unit) exec" where
  "exec_assign_binding_place reserve L assign fn res binding root path src mode =
     seq (resolve_binding_target fn binding) (\<lambda>t.
       case scalar_operands path src mode of
         Some (ri, rv) \<Rightarrow>
           seq (reading (\<lambda>fr. read_register fr ri)) (\<lambda>index.
           seq (reading (\<lambda>fr. read_register fr rv)) (\<lambda>v.
           seq (assign_in_place L res t root index v) (\<lambda>remaining.
             case remaining of
               None \<Rightarrow> give (Ok ())
             | Some original \<Rightarrow>
                 assign_and_commit L assign res t mode [ResolvedParen [IndexValue index]]
                   \<lparr>source_values = [v], source_expanded = False\<rparr> original)))
       | None \<Rightarrow>
           seq (resolve_place_path reserve L fn path) (\<lambda>steps.
           seq (read_assignment_source reserve src) (\<lambda>source.
           seq (taking (\<lambda>fr. take_register (no_value L) fr root)) (\<lambda>original.
             assign_and_commit L assign res t mode steps source original))))"

subsection \<open>Places\<close>

text \<open>Two targets are the same place when they denote the same local slot, cell, persistent slot or name.\<close>

datatype Place = LocalPlace nat | CellPlace nat | PersistentPlace PersistentBindingKey | WorkspacePlace string

definition place_of :: "('v, 'h) Machine \<Rightarrow> RuntimeBindingTarget \<Rightarrow> Place" where
  "place_of s t =
     (case t of
        TargetLocal l \<Rightarrow> (case bt_get (shared_locals (frame s)) l of Some a \<Rightarrow> CellPlace a | None \<Rightarrow> LocalPlace (unat (local_get l)))
      | TargetPersistent k \<Rightarrow> PersistentPlace k
      | TargetShared a \<Rightarrow> CellPlace a
      | TargetWorkspace n \<Rightarrow> WorkspacePlace n)"

definition read_place :: "('v, 'h) Machine \<Rightarrow> Place \<Rightarrow> 'v option" where
  "read_place s p =
     (case p of
        LocalPlace i \<Rightarrow> if i < length (frame_locals (frame s)) then Some (frame_locals (frame s) ! i) else None
      | CellPlace a \<Rightarrow> if a < length (machine_cells s) then Some (cell_value (machine_cells s ! a)) else None
      | PersistentPlace k \<Rightarrow> persistent_bindings s k
      | WorkspacePlace n \<Rightarrow> bt_get (workspace s) n)"

text \<open>What a change of bindings leaves alone: everything but the value of one place.\<close>

definition same_but :: "Place \<Rightarrow> ('v, 'h) Machine \<Rightarrow> ('v, 'h) Machine \<Rightarrow> bool" where
  "same_but p s s' \<longleftrightarrow>
     (\<forall>q. q \<noteq> p \<longrightarrow> read_place s' q = read_place s q) \<and>
     length (frame_locals (frame s')) = length (frame_locals (frame s)) \<and> length (machine_cells s') = length (machine_cells s) \<and>
     map poisoned (machine_cells s') = map poisoned (machine_cells s) \<and>
     shared_locals (frame s') = shared_locals (frame s)"

text \<open>The target exists: its local or cell is there and the cell's lock is intact.\<close>

definition target_ok :: "('v, 'h) Machine \<Rightarrow> RuntimeBindingTarget \<Rightarrow> bool" where
  "target_ok s t \<longleftrightarrow>
     (case place_of s t of
        LocalPlace i \<Rightarrow> i < length (frame_locals (frame s))
      | CellPlace a \<Rightarrow> a < length (machine_cells s) \<and> \<not> poisoned (machine_cells s ! a)
      | _ \<Rightarrow> True)"

lemma same_but_refl: "same_but p s s"
  by (simp add: same_but_def)

lemma same_but_trans: "same_but p s s1 \<Longrightarrow> same_but p s1 s2 \<Longrightarrow> same_but p s s2"
  by (simp add: same_but_def)

lemma same_but_place: "same_but p s s' \<Longrightarrow> place_of s' t = place_of s t"
  by (simp add: place_of_def same_but_def split: RuntimeBindingTarget.splits)

lemma same_but_target:
  assumes "same_but p s s'" shows "target_ok s' t \<longleftrightarrow> target_ok s t"
proof -
  have "poisoned (machine_cells s' ! a) = poisoned (machine_cells s ! a)" if "a < length (machine_cells s)" for a
    using assms that nth_map [of a "machine_cells s" poisoned] nth_map [of a "machine_cells s'" poisoned]
    by (simp add: same_but_def)
  with assms show ?thesis
    by (auto simp: target_ok_def same_but_place [OF assms] same_but_def split: Place.splits)
qed

text \<open>
  The contract of bindings: taking out yields what the place held, committing makes the place hold the
  value, and neither touches another place or fails on a target that exists.
\<close>

locale binding_store =
  fixes ok :: "'s \<Rightarrow> 't \<Rightarrow> bool" and holds_at :: "'s \<Rightarrow> 't \<Rightarrow> 'v option" and others :: "'t \<Rightarrow> 's \<Rightarrow> 's \<Rightarrow> bool"
    and take_out :: "'t \<Rightarrow> 's \<Rightarrow> ('e, 'v option) result \<times> 's" and put_in :: "'t \<Rightarrow> 'v \<Rightarrow> 's \<Rightarrow> ('e, unit) result \<times> 's"
    and put_back :: "'t \<Rightarrow> 'v option \<Rightarrow> 's \<Rightarrow> ('e, unit) result \<times> 's"
  assumes take_law: "ok s t \<Longrightarrow> \<exists>s'. take_out t s = (Ok (holds_at s t), s') \<and> others t s s'"
    and put_law: "ok s t \<Longrightarrow> \<exists>s'. put_in t w s = (Ok (), s') \<and> holds_at s' t = Some w \<and> others t s s'"
    and back_law: "ok s t \<Longrightarrow> others t s s1 \<Longrightarrow> \<exists>s'. put_back t (holds_at s t) s1 = (Ok (), s') \<and> holds_at s' t = holds_at s t \<and> others t s1 s'"
    and others_ok: "others t s s1 \<Longrightarrow> ok s1 t = ok s t"
    and others_trans: "others t s s1 \<Longrightarrow> others t s1 s2 \<Longrightarrow> others t s s2"
begin

lemma take_put:
  assumes "ok s t"
  shows "\<exists>s1 s2. take_out t s = (Ok (holds_at s t), s1) \<and> put_in t w s1 = (Ok (), s2) \<and> holds_at s2 t = Some w \<and> others t s s2"
proof -
  obtain s1 where s1: "take_out t s = (Ok (holds_at s t), s1)" "others t s s1" using take_law [OF assms] by blast
  with put_law [of s1 t w] others_ok assms show ?thesis using others_trans by blast
qed

lemma take_back:
  assumes "ok s t"
  shows "\<exists>s1 s2. take_out t s = (Ok (holds_at s t), s1) \<and> put_back t (holds_at s t) s1 = (Ok (), s2) \<and>
    holds_at s2 t = holds_at s t \<and> others t s s2"
proof -
  obtain s1 where s1: "take_out t s = (Ok (holds_at s t), s1)" "others t s s1" using take_law [OF assms] by blast
  with back_law [OF assms s1(2)] show ?thesis using others_trans by blast
qed

text \<open>Taking out and undoing it: by putting back what was taken, or by putting in the same value again.\<close>

lemma take_undo:
  assumes "ok s t" "again \<Longrightarrow> holds_at s t = Some w"
  shows "\<exists>s1 s2. take_out t s = (Ok (holds_at s t), s1) \<and>
    (if again then put_in t w s1 else put_back t (holds_at s t) s1) = (Ok (), s2) \<and>
    holds_at s2 t = holds_at s t \<and> others t s s2"
  using take_put [OF assms(1), of w] take_back [OF assms(1)] assms(2) by (cases again) auto

end

definition binding_value :: "('v, 'h) Machine \<Rightarrow> RuntimeBindingTarget \<Rightarrow> 'v option" where
  "binding_value s t = read_place s (place_of s t)"

text \<open>The frame outside its locals, the imports and every place but the target's are untouched.\<close>

definition others_kept :: "RuntimeBindingTarget \<Rightarrow> ('v, 'h) Machine \<Rightarrow> ('v, 'h) Machine \<Rightarrow> bool" where
  "others_kept t s s' \<longleftrightarrow> same_but (place_of s t) s s' \<and> frame_registers (frame s') = frame_registers (frame s) \<and>
     frame_packs (frame s') = frame_packs (frame s) \<and> base_imports s' = base_imports s"

text \<open>Writing a place, and removing what a name is bound to.\<close>

definition set_place :: "Place \<Rightarrow> 'v \<Rightarrow> ('v, 'h) Machine \<Rightarrow> ('v, 'h) Machine" where
  "set_place p v s =
     (case p of
        LocalPlace i \<Rightarrow> s\<lparr>frame := (frame s)\<lparr>frame_locals := (frame_locals (frame s))[i := v]\<rparr>\<rparr>
      | CellPlace a \<Rightarrow> s\<lparr>machine_cells := (machine_cells s)[a := (machine_cells s ! a)\<lparr>cell_value := v\<rparr>]\<rparr>
      | PersistentPlace k \<Rightarrow> s\<lparr>persistent_bindings := (persistent_bindings s)(k \<mapsto> v)\<rparr>
      | WorkspacePlace n \<Rightarrow> s\<lparr>workspace := bt_insert n v (workspace s)\<rparr>)"

definition erase_place :: "Place \<Rightarrow> ('v, 'h) Machine \<Rightarrow> ('v, 'h) Machine" where
  "erase_place p s =
     (case p of
        PersistentPlace k \<Rightarrow> s\<lparr>persistent_bindings := (persistent_bindings s)(k := None)\<rparr>
      | WorkspacePlace n \<Rightarrow> s\<lparr>workspace := bt_remove n (workspace s)\<rparr>
      | _ \<Rightarrow> s)"

definition bound_name :: "Place \<Rightarrow> bool" where
  "bound_name p = (case p of PersistentPlace _ \<Rightarrow> True | WorkspacePlace _ \<Rightarrow> True | _ \<Rightarrow> False)"

lemma flags_kept [simp]:
  "read_place (s\<lparr>safepoint_flags := f\<rparr>) p = read_place s p" "place_of (s\<lparr>safepoint_flags := f\<rparr>) t = place_of s t"
  "same_but p s (s'\<lparr>safepoint_flags := f\<rparr>) = same_but p s s'" "others_kept t s (s'\<lparr>safepoint_flags := f\<rparr>) = others_kept t s s'"
  "binding_value (s\<lparr>safepoint_flags := f\<rparr>) t = binding_value s t" "target_ok (s\<lparr>safepoint_flags := f\<rparr>) t = target_ok s t"
proof -
  show read: "read_place (s\<lparr>safepoint_flags := f\<rparr>) p = read_place s p" for p s by (cases p) (simp_all add: read_place_def)
  show place: "place_of (s\<lparr>safepoint_flags := f\<rparr>) t = place_of s t" by (cases t) (simp_all add: place_of_def)
  show same: "same_but p s (s'\<lparr>safepoint_flags := f\<rparr>) = same_but p s s'" for p by (simp add: same_but_def read)
  show "others_kept t s (s'\<lparr>safepoint_flags := f\<rparr>) = others_kept t s s'" by (simp add: others_kept_def same)
  show "binding_value (s\<lparr>safepoint_flags := f\<rparr>) t = binding_value s t" by (simp add: binding_value_def read place)
  show "target_ok (s\<lparr>safepoint_flags := f\<rparr>) t = target_ok s t"
    by (cases "place_of s t") (simp_all add: target_ok_def place)
qed

definition place_ok :: "('v, 'h) Machine \<Rightarrow> Place \<Rightarrow> bool" where
  "place_ok s p =
     (case p of
        LocalPlace i \<Rightarrow> i < length (frame_locals (frame s))
      | CellPlace a \<Rightarrow> a < length (machine_cells s) \<and> \<not> poisoned (machine_cells s ! a)
      | _ \<Rightarrow> True)"

lemma target_ok_place: "target_ok s t = place_ok s (place_of s t)"
  by (simp add: target_ok_def place_ok_def)

lemma other_fields [simp]:
  "frame_registers (frame (set_place p v s)) = frame_registers (frame s)" "frame_packs (frame (set_place p v s)) = frame_packs (frame s)"
  "base_imports (set_place p v s) = base_imports s" "frame (erase_place p s) = frame s" "base_imports (erase_place p s) = base_imports s"
  "machine_cells (erase_place p s) = machine_cells s" "shared_locals (frame (set_place p v s)) = shared_locals (frame s)"
  by (cases p; simp add: set_place_def erase_place_def)+

lemma set_place_reads:
  assumes "place_ok s p"
  shows "read_place (set_place p v s) q = (if q = p then Some v else read_place s q)" and "same_but p s (set_place p v s)"
proof -
  show reads: "read_place (set_place p v s) q = (if q = p then Some v else read_place s q)" for q
    using assms by (cases p; cases q) (simp_all add: place_ok_def set_place_def read_place_def nth_list_update bt.get_insert)
  have "map poisoned ((machine_cells s)[a := (machine_cells s ! a)\<lparr>cell_value := v\<rparr>]) = map poisoned (machine_cells s)" for a
    by (cases "a < length (machine_cells s)") (simp_all add: map_update list_update_same_conv list_update_beyond)
  then have "map poisoned (machine_cells (set_place p v s)) = map poisoned (machine_cells s)"
    by (cases p) (simp_all add: set_place_def)
  moreover have "length (frame_locals (frame (set_place p v s))) = length (frame_locals (frame s))"
    "length (machine_cells (set_place p v s)) = length (machine_cells s)"
    by (cases p; simp add: set_place_def)+
  ultimately show "same_but p s (set_place p v s)" by (simp add: same_but_def reads)
qed

lemma erase_place_reads:
  assumes "bound_name p"
  shows "read_place (erase_place p s) q = (if q = p then None else read_place s q)" and "same_but p s (erase_place p s)"
proof -
  show reads: "read_place (erase_place p s) q = (if q = p then None else read_place s q)" for q
    using assms by (cases p; cases q) (simp_all add: bound_name_def erase_place_def read_place_def bt.get_remove)
  show "same_but p s (erase_place p s)"
    using reads by (simp add: same_but_def)
qed

lemma swap_local_eq:
  assumes "target_ok s (TargetLocal l)"
  shows "swap_local l v s = (Ok (the (binding_value s (TargetLocal l))), set_place (place_of s (TargetLocal l)) v s)"
  using assms
  by (cases "bt_get (shared_locals (frame s)) l")
    (auto simp: swap_local_def replace_local_def target_ok_def place_of_def binding_value_def read_place_def set_place_def shared_replace_def)

lemma swap_shared_eq:
  assumes "target_ok s (TargetShared a)"
  shows "swap_shared m a v s = (Ok (the (binding_value s (TargetShared a))), set_place (CellPlace a) v s)"
  using assms
  by (auto simp: swap_shared_def target_ok_def place_of_def binding_value_def read_place_def set_place_def shared_replace_def)

lemma unbound_is_name: "target_ok s t \<Longrightarrow> binding_value s t = None \<Longrightarrow> bound_name (place_of s t)"
  by (cases "place_of s t") (simp_all add: target_ok_def binding_value_def read_place_def bound_name_def)

text \<open>Taking, committing and restoring in terms of places. Only the safepoint flags depend on the language.\<close>

definition taken_place :: "('v, 'h, 'l) Language \<Rightarrow> Place \<Rightarrow> ('v, 'h) Machine \<Rightarrow> ('v, 'h) Machine" where
  "taken_place L p s = (if bound_name p then erase_place p s else set_place p (no_value L) s)"

definition up_to_flags :: "('v, 'h) Machine \<Rightarrow> ('v, 'h) Machine \<Rightarrow> bool" where
  "up_to_flags s s' \<longleftrightarrow> (\<exists>f. s' = s\<lparr>safepoint_flags := f\<rparr>)"

lemma up_to_flags_refl [simp]: "up_to_flags s s"
  by (rule exI [of _ "safepoint_flags s", THEN up_to_flags_def [THEN iffD2]]) simp

lemma up_to_flags_set [simp]: "up_to_flags s (s\<lparr>safepoint_flags := f\<rparr>)"
  by (auto simp: up_to_flags_def)

lemma note_removal_flags: "\<exists>s'. note_removal L v s = (Ok (), s') \<and> up_to_flags s s'"
  by (simp add: note_removal_def)

lemma note_removed_flags: "\<exists>s'. note_removed L o' s = (Ok (), s') \<and> up_to_flags s s'"
  by (cases o') (simp_all add: note_removed_def give_def note_removal_def)

lemma take_binding_eq:
  assumes "target_ok s t" shows "take_binding L t s = (Ok (binding_value s t), taken_place L (place_of s t) s)"
proof (cases t)
  case (TargetLocal l)
  then have "\<not> bound_name (place_of s t)" by (simp add: bound_name_def place_of_def split: option.splits)
  with TargetLocal assms show ?thesis using unbound_is_name [OF assms]
    by (cases "binding_value s t") (simp_all add: take_binding_def seq_def give_def taken_place_def swap_local_eq)
next
  case (TargetShared a)
  then have "\<not> bound_name (place_of s t)" "place_of s t = CellPlace a" by (simp_all add: bound_name_def place_of_def)
  with TargetShared assms show ?thesis using unbound_is_name [OF assms]
    by (cases "binding_value s t") (simp_all add: take_binding_def seq_def give_def taken_place_def swap_shared_eq)
qed (simp_all add: take_binding_def taken_place_def bound_name_def place_of_def erase_place_def binding_value_def read_place_def)

lemma commit_binding_eq:
  assumes "target_ok s t" shows "\<exists>s'. commit_binding L t v s = (Ok (), s') \<and> up_to_flags (set_place (place_of s t) v s) s'"
  using assms
  by (cases t)
    (simp_all add: commit_binding_def seq_def swap_local_eq swap_shared_eq note_removal_flags insert_persistent_def
      replace_workspace_binding_def place_of_def set_place_def note_removed_flags)

lemma restore_binding_eq:
  assumes "target_ok s t" "previous = None \<Longrightarrow> bound_name (place_of s t)"
  shows "\<exists>s'. restore_binding L t previous s = (Ok (), s') \<and>
    up_to_flags (case previous of Some v \<Rightarrow> set_place (place_of s t) v s | None \<Rightarrow> erase_place (place_of s t) s) s'"
proof (cases previous)
  case None
  with assms(2) show ?thesis
    by (cases t) (auto simp: restore_binding_def bound_name_def place_of_def erase_place_def split: option.splits)
next
  case (Some v)
  with commit_binding_eq [OF assms(1)] show ?thesis by (simp add: restore_binding_def)
qed

lemma others_kept_flags: "up_to_flags s s' \<Longrightarrow> others_kept t s0 s \<Longrightarrow> others_kept t s0 s'"
  by (auto simp: up_to_flags_def)

lemma binding_flags: "up_to_flags s s' \<Longrightarrow> binding_value s' t = binding_value s t"
  by (auto simp: up_to_flags_def)

lemma set_place_kept:
  assumes "target_ok s t"
  shows "others_kept t s (set_place (place_of s t) v s)" and "binding_value (set_place (place_of s t) v s) t = Some v"
  using assms set_place_reads [of s "place_of s t" v] same_but_place [of "place_of s t" s "set_place (place_of s t) v s" t]
  by (simp_all add: others_kept_def binding_value_def target_ok_place)

lemma erase_place_kept:
  assumes "bound_name (place_of s t)"
  shows "others_kept t s (erase_place (place_of s t) s)" and "binding_value (erase_place (place_of s t) s) t = None"
  using assms erase_place_reads [of "place_of s t" s] same_but_place [of "place_of s t" s "erase_place (place_of s t) s" t]
  by (simp_all add: others_kept_def binding_value_def)

lemma others_kept_place: "others_kept t s s1 \<Longrightarrow> place_of s1 t' = place_of s t'"
  unfolding others_kept_def using same_but_place by blast

lemma others_kept_target: "others_kept t s s1 \<Longrightarrow> target_ok s1 t' = target_ok s t'"
  by (auto simp: others_kept_def same_but_target)

lemma others_kept_trans: "others_kept t s s1 \<Longrightarrow> others_kept t s1 s2 \<Longrightarrow> others_kept t s s2"
  using same_but_trans by (auto simp: others_kept_def same_but_place)

interpretation bindings: binding_store target_ok binding_value others_kept "take_binding L" "commit_binding L" "restore_binding L"
  for L :: "('v, 'h, 'l) Language"
proof unfold_locales
  fix s :: "('v, 'h) Machine" and t assume ok: "target_ok s t"
  show "\<exists>s'. take_binding L t s = (Ok (binding_value s t), s') \<and> others_kept t s s'"
    using ok set_place_kept(1) [OF ok] erase_place_kept(1) [of s t] by (simp add: take_binding_eq taken_place_def)
  show "\<exists>s'. commit_binding L t w s = (Ok (), s') \<and> binding_value s' t = Some w \<and> others_kept t s s'" for w
    using commit_binding_eq [OF ok] set_place_kept [OF ok] others_kept_flags binding_flags by metis
next
  fix s s1 :: "('v, 'h) Machine" and t assume ok: "target_ok s t" and kept: "others_kept t s s1"
  have ok1: "target_ok s1 t" using ok kept by (simp add: others_kept_target)
  have name: "binding_value s t = None \<Longrightarrow> bound_name (place_of s1 t)"
    using unbound_is_name [OF ok] others_kept_place [OF kept] by simp
  obtain s' where "restore_binding L t (binding_value s t) s1 = (Ok (), s')"
    "up_to_flags (case binding_value s t of Some v \<Rightarrow> set_place (place_of s1 t) v s1 | None \<Rightarrow> erase_place (place_of s1 t) s1) s'"
    using restore_binding_eq [OF ok1 name] by blast
  then show "\<exists>s'. restore_binding L t (binding_value s t) s1 = (Ok (), s') \<and> binding_value s' t = binding_value s t \<and> others_kept t s1 s'"
    using set_place_kept [OF ok1] erase_place_kept [OF name] others_kept_flags binding_flags
    by (cases "binding_value s t") (fastforce dest: binding_flags others_kept_flags)+
next
  show "others_kept t s s1 \<Longrightarrow> target_ok s1 t = target_ok s t" for t and s s1 :: "('v, 'h) Machine" by (rule others_kept_target)
  show "others_kept t s s1 \<Longrightarrow> others_kept t s1 s2 \<Longrightarrow> others_kept t s s2" for t and s s1 s2 :: "('v, 'h) Machine"
    by (rule others_kept_trans)
qed

subsection \<open>Assignments that fail, and assignments that succeed\<close>

lemma kept_everything:
  assumes "others_kept t s s'" "binding_value s' t = binding_value s t"
  shows "read_place s' p = read_place s p"
proof (cases "p = place_of s t")
  case True
  with assms others_kept_place [OF assms(1), of t] show ?thesis by (simp add: binding_value_def)
next
  case False
  with assms(1) show ?thesis by (simp add: others_kept_def same_but_def)
qed

lemma take_register_reads:
  assumes "take_register n (frame s) r = Ok (fr, v)"
  shows "read_place (s\<lparr>frame := fr\<rparr>) p = read_place s p" "place_of (s\<lparr>frame := fr\<rparr>) t = place_of s t"
    "target_ok (s\<lparr>frame := fr\<rparr>) t = target_ok s t" "binding_value (s\<lparr>frame := fr\<rparr>) t = binding_value s t"
    "length (frame_registers fr) = length (frame_registers (frame s))"
proof -
  have fr: "frame_locals fr = frame_locals (frame s)" "shared_locals fr = shared_locals (frame s)"
    and "length (frame_registers fr) = length (frame_registers (frame s))"
    using assms by (auto simp: take_register_def and_then_def split: sum.splits)
  then show "length (frame_registers fr) = length (frame_registers (frame s))" by simp
  show place: "place_of (s\<lparr>frame := fr\<rparr>) t = place_of s t" using fr by (cases t) (simp_all add: place_of_def)
  show reads: "read_place (s\<lparr>frame := fr\<rparr>) p = read_place s p" for p
    using fr by (cases p) (simp_all add: read_place_def)
  show "target_ok (s\<lparr>frame := fr\<rparr>) t = target_ok s t"
    by (cases "place_of s t") (simp_all add: target_ok_def place fr)
  show "binding_value (s\<lparr>frame := fr\<rparr>) t = binding_value s t" by (simp add: binding_value_def place reads)
qed

lemmas assign_steps = exec_assign_binding_place_def assign_in_place_def seq_def give_def reading_def taking_def map_err_def Let_def


text \<open>
  An indexed assignment of a scalar that succeeds binds its target to the updated value, changes no
  other binding and writes the updated value to the result register.
\<close>

theorem in_place_assignment_binds:
  fixes L :: "('v, 'h, 'l) Language"
  assumes target: "(resolve_binding_target fn binding :: ('v, 'h, 'l, RuntimeBindingTarget) exec) s = (Ok t, s)" "target_ok s t"
    and operands: "scalar_operands path src mode = Some (ri, rv)"
      "read_register (frame s) ri = Ok index" "read_register (frame s) rv = Ok v" "read_register (frame s) root = Ok original"
    and assigned: "assign_scalar_in_place L original index v = (Ok True, updated)"
    and result_ok: "\<And>r. res = Some r \<Longrightarrow> unat (reg_get r) < length (frame_registers (frame s))"
  shows "\<exists>s'. exec_assign_binding_place reserve L assign fn res binding root path src mode s = (Ok (), s') \<and>
    read_place s' (place_of s t) = Some updated \<and> (\<forall>p. p \<noteq> place_of s t \<longrightarrow> read_place s' p = read_place s p) \<and>
    (\<forall>r. res = Some r \<longrightarrow> read_register (frame s') r = Ok updated)"
proof -
  obtain fr where take: "take_register (no_value L) (frame s) root = Ok (fr, original)"
    using operands(4) by (simp add: take_register_def and_then_def)
  let ?s = "s\<lparr>frame := fr\<rparr>"
  note same = take_register_reads [OF take]
  obtain s1 s2 where put: "take_binding L t ?s = (Ok (binding_value ?s t), s1)" "commit_binding L t updated s1 = (Ok (), s2)"
      "binding_value s2 t = Some updated" "others_kept t ?s s2"
    using bindings.take_put [of ?s t L updated] target(2) same(3) by metis
  have len: "length (frame_registers (frame s2)) = length (frame_registers (frame s))"
    using put(4) same(5) by (simp add: others_kept_def)
  obtain s3 where stored: "(write_result res updated :: ('v, 'h, 'l, unit) exec) s2 = (Ok (), s3)" "\<And>p. read_place s3 p = read_place s2 p"
      "\<And>r. res = Some r \<Longrightarrow> read_register (frame s3) r = Ok updated"
  proof (cases res)
    case None then show ?thesis using that by (simp add: write_result_def give_def)
  next
    case (Some r)
    let ?s3 = "s2\<lparr>frame := (frame s2)\<lparr>frame_registers := (frame_registers (frame s2))[unat (reg_get r) := updated]\<rparr>\<rparr>"
    have "read_place ?s3 p = read_place s2 p" for p by (cases p) (simp_all add: read_place_def)
    with Some result_ok [OF Some] len that [of ?s3] show ?thesis
      by (simp add: write_result_def writing_def write_register_def read_register_def ok_or_def get_def slice_get_def)
  qed
  have "exec_assign_binding_place reserve L assign fn res binding root path src mode s = (Ok (), s3)"
    using put(1,2) stored(1) by (simp add: assign_steps target operands take assigned same)
  moreover have "read_place s3 (place_of s t) = Some updated"
    using put(3) others_kept_place [OF put(4), of t] stored(2) by (simp add: binding_value_def same)
  moreover have "read_place s3 p = read_place s p" if "p \<noteq> place_of s t" for p
    using put(4) that by (simp add: stored(2) others_kept_def same_but_def same)
  ultimately show ?thesis using stored(3) by blast
qed

text \<open>A small language of number lists, to evaluate the machine on.\<close>

definition list_language :: "(nat list, 'h, unit) Language" where
  "list_language = \<lparr>no_value = [], empty_double = [], language_copy = (\<lambda>v h. (Ok v, h)), roots_object = (\<lambda>_ _ _. False), shares_storage = (=),
     assign_scalar_in_place = (\<lambda>target index v.
       if hd index < length target then (Ok True, target[hd index := hd v])
       else (Err (InvalidExecutionState ''array operation failed'' (Some (ArrayIndexOutOfBounds 0 (hd index) (length target)))), target)),
     dynamic_field_name = (\<lambda>_. Ok ''f'')\<rparr>"

definition list_frame :: "nat list list \<Rightarrow> nat list list \<Rightarrow> nat list ExecutionFrame" where
  "list_frame regs slots =
     \<lparr>scope_address = Base, frame_function = FunctionId 0, frame_instruction = InstructionIndex 0, frame_registers = regs,
      frame_packs = [], frame_locals = slots, named_bindings = [], dynamic_locals = [], shared_locals = [], call_inputs = [],
      input_count = 0, requested_output_count = 1, caller_class = None, frame_captures = [], imports_list = []\<rparr>"

definition list_machine :: "'h \<Rightarrow> nat list list \<Rightarrow> nat list list \<Rightarrow> (nat list, 'h) Machine" where
  "list_machine h regs slots =
     \<lparr>frame = list_frame regs slots, workspace = [], base_imports = [], persistent_bindings = (\<lambda>_. None), machine_cells = [],
      machine_functions = [], next_function_handle = Some 1, safepoint_flags = safepoints_default, host = h\<rparr>"

lemmas list_samples = list_language_def list_machine_def list_frame_def read_register_def ok_or_def get_def slice_get_def
  resolve_binding_target_def give_def target_ok_def place_of_def read_place_def bt_get_def scalar_operands_def binding_value_def

lemma list_machine_facts:
  "resolve_binding_target sample_function (BindingTarget.Local (LocalSlot 0)) (list_machine () [[10, 20], [n], [30]] [[10, 20]]) =
     (Ok (TargetLocal (LocalSlot 0)), list_machine () [[10, 20], [n], [30]] [[10, 20]])"
  "target_ok (list_machine () [[10, 20], [n], [30]] [[10, 20]]) (TargetLocal (LocalSlot 0))"
  "scalar_operands [Paren [ApplyArgument.Value (Register 1)]] (One (Register 2)) Store = Some (Register 1, Register 2)"
  "read_register (frame (list_machine () [[10, 20], [n], [30]] [[10, 20]])) (Register 1) = Ok [n]"
  "read_register (frame (list_machine () [[10, 20], [n], [30]] [[10, 20]])) (Register 2) = Ok [30]"
  "read_register (frame (list_machine () [[10, 20], [n], [30]] [[10, 20]])) (Register 0) = Ok [10, 20]"
  "place_of (list_machine () [[10, 20], [n], [30]] [[10, 20]]) (TargetLocal (LocalSlot 0)) = LocalPlace 0"
  "read_place (list_machine () [[10, 20], [n], [30]] [[10, 20]]) (LocalPlace 0) = Some [10, 20]"
  "length (frame_registers (frame (list_machine () [[10, 20], [n], [30]] [[10, 20]]))) = 3"
  by (simp_all add: list_samples)


theorem in_place_assignment_binds_witness:
  "\<exists>s'. exec_assign_binding_place (\<lambda>_ _. True) list_language (\<lambda>v _ _ _. give (Ok v)) sample_function (Some (Register 2))
       (BindingTarget.Local (LocalSlot 0)) (Register 0) [Paren [ApplyArgument.Value (Register 1)]] (One (Register 2)) Store
       (list_machine () [[10, 20], [0], [30]] [[10, 20]]) = (Ok (), s') \<and>
     read_place s' (LocalPlace 0) = Some [30, 20] \<and> read_register (frame s') (Register 2) = Ok [30, 20]"
proof -
  have assigned: "assign_scalar_in_place list_language [10, 20] [0] [30] = (Ok True, [30, 20])"
    by (simp add: list_language_def)
  show ?thesis
    using in_place_assignment_binds [OF list_machine_facts(1-6) assigned, where res = "Some (Register 2)" and reserve = "\<lambda>_ _. True" and assign = "\<lambda>v _ _ _. give (Ok v)"]
      list_machine_facts(7,9) by auto
qed

end
