(* ===== verification/Interp_Exec.thy ===== *)
theory Interp_Exec
  imports Interp_Bindings Bytecode_Verify
begin

section \<open>Instructions of the frame loop (openmat-runtime/src/interpreter.rs)\<close>

text \<open>
  The arms of \<open>run_frame\<close> that move values between registers, packs, locals, captures, persistent slots
  and the workspace, that build closures, and that direct control; one definition per arm, composed of
  the operations of the frame and of bindings. An arm yields the values the frame returns, if it
  returns. Arms that call functions, index, concatenate or compute are not here.
\<close>

subsection \<open>Values as instructions see them\<close>

text \<open>
  \<open>number\<close> is a double holding a 32-bit count, \<open>count_of\<close> reads such a double back, \<open>cell_row\<close> packs
  values in a cell row, \<open>constant_of\<close> is the value of a constant other than a function,
  \<open>iteration_index\<close> reads the counter of a loop, \<open>iteration_after\<close> is the next counter and
  \<open>for_iteration\<close> the element of the loop's range.
\<close>

record ('v, 'h, 'l) Operations =
  language :: "('v, 'h, 'l) Language"
  number :: "nat \<Rightarrow> 'v"
  count_of :: "'v \<Rightarrow> nat option"
  cell_row :: "'v list \<Rightarrow> ('l RuntimeErrorKind, 'v) result"
  cell_elements :: "'v \<Rightarrow> 'v list option"
  kind_of :: "'v \<Rightarrow> ValueKind"
  constant_of :: "Constant \<Rightarrow> ('l RuntimeErrorKind, 'v) result"
  function_value :: "32 word \<Rightarrow> 'v"
  condition_of :: "'v \<Rightarrow> ('l RuntimeErrorKind, bool) result"
  iteration_index :: "'v \<Rightarrow> nat option"
  iteration_after :: "'v \<Rightarrow> 'v"
  for_iteration :: "'v \<Rightarrow> nat \<Rightarrow> ('l RuntimeErrorKind, 'v option) result"

abbreviation array_error :: "'l ArrayRuntimeError \<Rightarrow> 'l RuntimeErrorKind" where
  "array_error e \<equiv> InvalidExecutionState ''array operation failed'' (Some e)"

subsection \<open>Operands\<close>

definition value_at :: "Register \<Rightarrow> ('v, 'h, 'l, 'v) exec" where
  "value_at r = reading (\<lambda>fr. read_register fr r)"

definition pack_at :: "PackRegister \<Rightarrow> ('v, 'h, 'l, 'v list) exec" where
  "pack_at p = reading (\<lambda>fr. read_pack_register fr p)"

definition put_value :: "Register \<Rightarrow> 'v \<Rightarrow> ('v, 'h, 'l, unit) exec" where
  "put_value r v = writing (\<lambda>fr. write_register fr r v)"

definition put_pack :: "PackRegister \<Rightarrow> 'v list \<Rightarrow> ('v, 'h, 'l, unit) exec" where
  "put_pack p vs = writing (\<lambda>fr. write_pack_register fr p vs)"

definition change_frame :: "('v ExecutionFrame \<Rightarrow> 'v ExecutionFrame) \<Rightarrow> ('v, 'h, 'l, unit) exec" where
  "change_frame f s = (Ok (), s\<lparr>frame := f (frame s)\<rparr>)"

definition change :: "(('v, 'h) Machine \<Rightarrow> ('v, 'h) Machine) \<Rightarrow> ('v, 'h, 'l, unit) exec" where
  "change f s = (Ok (), f s)"

definition look :: "(('v, 'h) Machine \<Rightarrow> 'a) \<Rightarrow> ('v, 'h, 'l, 'a) exec" where
  "look f s = (Ok (f s), s)"

fun each :: "('a \<Rightarrow> ('v, 'h, 'l, unit) exec) \<Rightarrow> 'a list \<Rightarrow> ('v, 'h, 'l, unit) exec" where
  "each f [] = give (Ok ())"
| "each f (x # xs) = seq (f x) (\<lambda>_. each f xs)"

fun collect :: "('a \<Rightarrow> ('v, 'h, 'l, 'b) exec) \<Rightarrow> 'a list \<Rightarrow> ('v, 'h, 'l, 'b list) exec" where
  "collect f [] = give (Ok [])"
| "collect f (x # xs) = seq (f x) (\<lambda>y. seq (collect f xs) (\<lambda>ys. give (Ok (y # ys))))"

definition read_pack_count :: "('v, 'h, 'l) Operations \<Rightarrow> Register \<Rightarrow> ('v, 'h, 'l, nat) exec" where
  "read_pack_count ops r =
     seq (value_at r) (\<lambda>v.
       give (ok_or (invalid_state ''output pack count must be a nonnegative u32 scalar'') (count_of ops v)))"

subsection \<open>Checks, packs, names and imports\<close>

definition exec_require_single_pack :: "PackRegister \<Rightarrow> ('v, 'h, 'l, unit) exec" where
  "exec_require_single_pack p =
     seq (pack_at p) (\<lambda>vs.
       if length vs \<noteq> 1 then give (Err (array_error (AssignmentSizeMismatch (length vs) 1))) else give (Ok ()))"

definition missing_input :: "Function \<Rightarrow> 'v ExecutionFrame \<Rightarrow> string \<Rightarrow> bool" where
  "missing_input fn fr name =
     (case bt_get (named_bindings fr) name of
        Some (NamedBindingKind.Local slot) \<Rightarrow> local_get slot < parameter_count fn \<and> input_count fr \<le> unat (local_get slot)
      | _ \<Rightarrow> False)"

definition exec_require_defined :: "('v, 'h, 'l) Operations \<Rightarrow> Function \<Rightarrow> Register \<Rightarrow> ConstantId \<Rightarrow> ('v, 'h, 'l, unit) exec" where
  "exec_require_defined ops fn r c =
     seq (value_at r) (\<lambda>v.
       if v = no_value (language ops)
       then seq (named fn ''checked name escaped validation'' c) (\<lambda>name.
            seq (look frame) (\<lambda>fr.
              give (Err (if missing_input fn fr name
                then InputArity (function_name fn) (unat (parameter_count fn)) (input_count fr) else UndefinedGlobal name))))
       else give (Ok ()))"

definition exec_slice_pack :: "('v, 'h, 'l) Operations \<Rightarrow> PackRegister \<Rightarrow> PackRegister \<Rightarrow> Register \<Rightarrow> Register \<Rightarrow> ('v, 'h, 'l, unit) exec" where
  "exec_slice_pack ops dst src start amount =
     seq (read_pack_count ops start) (\<lambda>first.
     seq (read_pack_count ops amount) (\<lambda>n.
     seq (give (ok_or (array_error SizeLimit) (checked_add usize_max first n))) (\<lambda>last.
     seq (pack_at src) (\<lambda>vs.
       if last \<le> length vs then put_pack dst (take (last - first) (drop first vs))
       else give (Err (MissingOutputs last (length vs)))))))"

definition exec_declare_named_bindings :: "Function \<Rightarrow> (ConstantId \<times> NamedBindingKind) list \<Rightarrow> ('v, 'h, 'l, unit) exec" where
  "exec_declare_named_bindings fn =
     each (\<lambda>(c, kind). seq (named fn ''named binding escaped validation'' c) (\<lambda>name.
       change_frame (\<lambda>fr. fr\<lparr>named_bindings := bt_insert name kind (named_bindings fr)\<rparr>)))"

definition exec_declare_imports :: "Function \<Rightarrow> ConstantId list \<Rightarrow> ('v, 'h, 'l, unit) exec" where
  "exec_declare_imports fn cs =
     seq (each (\<lambda>c. seq (named fn ''import name escaped validation'' c) (\<lambda>name.
       change_frame (\<lambda>fr. if name \<in> set (imports_list fr) then fr else fr\<lparr>imports_list := imports_list fr @ [name]\<rparr>))) cs) (\<lambda>_.
     change (\<lambda>s. if scope_address (frame s) = Base then s\<lparr>base_imports := imports_list (frame s)\<rparr> else s))"

definition exec_clear_imports :: "('v, 'h, 'l, unit) exec" where
  "exec_clear_imports =
     seq (look frame) (\<lambda>fr.
       if scope_address fr \<noteq> Base then give (Err (invalid_state ''clear import escaped compiler base-workspace validation''))
       else change (\<lambda>s. s\<lparr>frame := (frame s)\<lparr>imports_list := []\<rparr>, base_imports := []\<rparr>))"

definition exec_move :: "Register \<Rightarrow> Register \<Rightarrow> ('v, 'h, 'l, unit) exec" where
  "exec_move dst src = seq (value_at src) (put_value dst)"

text \<open>Excess values of the pack are dropped.\<close>

definition exec_unpack :: "(nat \<Rightarrow> bool) \<Rightarrow> Register list \<Rightarrow> PackRegister \<Rightarrow> ('v, 'h, 'l, unit) exec" where
  "exec_unpack reserve outputs p =
     seq (pack_at p) (\<lambda>vs.
       if length vs < length outputs then give (Err (MissingOutputs (length outputs) (length vs)))
       else if \<not> reserve (length outputs) then give (Err (array_error SizeLimit))
       else each (\<lambda>(r, v). put_value r v) (zip outputs (take (length outputs) vs)))"

subsection \<open>Inputs of the call\<close>

definition exec_load_call_input_count :: "('v, 'h, 'l) Operations \<Rightarrow> Register \<Rightarrow> ('v, 'h, 'l, unit) exec" where
  "exec_load_call_input_count ops dst = seq (look frame) (\<lambda>fr. put_value dst (number ops (input_count fr)))"

definition exec_load_call_output_count :: "('v, 'h, 'l) Operations \<Rightarrow> Register \<Rightarrow> ('v, 'h, 'l, unit) exec" where
  "exec_load_call_output_count ops dst = seq (look frame) (\<lambda>fr. put_value dst (number ops (requested_output_count fr)))"

text \<open>The inputs beyond the declared parameters; the row is empty when there are none.\<close>

definition exec_load_variadic_inputs :: "('v, 'h, 'l) Operations \<Rightarrow> Function \<Rightarrow> Register \<Rightarrow> ('v, 'h, 'l, unit) exec" where
  "exec_load_variadic_inputs ops fn dst =
     seq (look frame) (\<lambda>fr.
     seq (give (cell_row ops (drop (unat (parameter_count fn)) (call_inputs fr)))) (put_value dst))"

subsection \<open>Locals, captures, the workspace and persistent slots\<close>

definition exec_load_local :: "Register \<Rightarrow> LocalSlot \<Rightarrow> ('v, 'h, 'l, unit) exec" where
  "exec_load_local dst l =
     seq (\<lambda>s. (map_err invalid_state (load_local (machine_cells s) (frame s) l), s)) (put_value dst)"

definition exec_store_local :: "('v, 'h, 'l) Operations \<Rightarrow> LocalSlot \<Rightarrow> Register \<Rightarrow> ('v, 'h, 'l, unit) exec" where
  "exec_store_local ops l src =
     seq (value_at src) (\<lambda>source. seq (copying (language ops) source) (\<lambda>v.
     seq (swap_local l v) (note_removal (language ops))))"

definition exec_clear_local :: "('v, 'h, 'l) Operations \<Rightarrow> LocalSlot list \<Rightarrow> ('v, 'h, 'l, unit) exec" where
  "exec_clear_local ops = each (\<lambda>l. seq (swap_local l (no_value (language ops))) (note_removal (language ops)))"

definition exec_load_capture :: "Function \<Rightarrow> Register \<Rightarrow> ConstantId \<Rightarrow> ('v, 'h, 'l, unit) exec" where
  "exec_load_capture fn dst c =
     seq (named fn ''capture name escaped validation'' c) (\<lambda>name.
     seq (shared_capture ''shared capture is missing'' name) (\<lambda>a.
     seq (\<lambda>s. (ok_or (invalid_state ''shared capture lock is poisoned'') (shared_read (machine_cells s) a), s)) (put_value dst)))"

definition exec_store_capture :: "('v, 'h, 'l) Operations \<Rightarrow> Function \<Rightarrow> ConstantId \<Rightarrow> Register \<Rightarrow> ('v, 'h, 'l, unit) exec" where
  "exec_store_capture ops fn c src =
     seq (named fn ''capture name escaped validation'' c) (\<lambda>name.
     seq (value_at src) (\<lambda>source.
     seq (copying (language ops) source) (\<lambda>v.
     seq (shared_capture ''shared capture is missing'' name) (\<lambda>a.
     seq (swap_shared ''shared capture lock is poisoned'' a v) (note_removal (language ops))))))"

definition exec_clear_capture :: "('v, 'h, 'l) Operations \<Rightarrow> Function \<Rightarrow> ConstantId list \<Rightarrow> ('v, 'h, 'l, unit) exec" where
  "exec_clear_capture ops fn =
     each (\<lambda>c. seq (named fn ''capture clear name escaped validation'' c) (\<lambda>name.
       seq (shared_capture ''shared capture is missing'' name) (\<lambda>a.
       seq (swap_shared ''shared capture lock is poisoned'' a (no_value (language ops))) (note_removal (language ops)))))"

definition exec_load_global_or_nothing :: "('v, 'h, 'l) Operations \<Rightarrow> Function \<Rightarrow> Register \<Rightarrow> ConstantId \<Rightarrow> ('v, 'h, 'l, unit) exec" where
  "exec_load_global_or_nothing ops fn dst c =
     seq (named fn ''global name escaped validation'' c) (\<lambda>name.
     seq (look (\<lambda>s. case bt_get (dynamic_locals (frame s)) name of
            Some v \<Rightarrow> v
          | None \<Rightarrow> (case bt_get (workspace s) name of Some v \<Rightarrow> v | None \<Rightarrow> no_value (language ops)))) (put_value dst))"

definition exec_store_global :: "('v, 'h, 'l) Operations \<Rightarrow> Function \<Rightarrow> ConstantId \<Rightarrow> Register \<Rightarrow> ('v, 'h, 'l, unit) exec" where
  "exec_store_global ops fn c src =
     seq (named fn ''global name escaped validation'' c) (\<lambda>name.
     seq (value_at src) (\<lambda>source.
     seq (copying (language ops) source) (replace_workspace_binding (language ops) name)))"

definition remove_workspace_binding :: "('v, 'h, 'l) Language \<Rightarrow> string \<Rightarrow> ('v, 'h, 'l, unit) exec" where
  "remove_workspace_binding L n s = note_removed L (bt_get (workspace s) n) (s\<lparr>workspace := bt_remove n (workspace s)\<rparr>)"

definition exec_clear_global :: "('v, 'h, 'l) Operations \<Rightarrow> Function \<Rightarrow> ConstantId list \<Rightarrow> ('v, 'h, 'l, unit) exec" where
  "exec_clear_global ops fn =
     each (\<lambda>c. seq (named fn ''clear name escaped validation'' c) (remove_workspace_binding (language ops)))"

definition clear_workspace_bindings :: "('v, 'h, 'l) Language \<Rightarrow> ('v, 'h, 'l, unit) exec" where
  "clear_workspace_bindings L =
     seq (look (\<lambda>s. map snd (workspace s))) (\<lambda>previous.
     seq (change (\<lambda>s. s\<lparr>workspace := []\<rparr>)) (\<lambda>_. each (note_removal L) previous))"

definition exec_declare_global :: "('v, 'h, 'l) Operations \<Rightarrow> Function \<Rightarrow> ConstantId \<Rightarrow> ('v, 'h, 'l, unit) exec" where
  "exec_declare_global ops fn c =
     seq (named fn ''global name escaped validation'' c) (\<lambda>name.
       change (\<lambda>s. if bt_get (workspace s) name \<noteq> None then s
         else s\<lparr>workspace := bt_insert name (empty_double (language ops)) (workspace s)\<rparr>))"

text \<open>A persistent slot read before it is declared holds an empty matrix from then on.\<close>

definition persistent_entry :: "('v, 'h, 'l) Operations \<Rightarrow> Function \<Rightarrow> PersistentSlot \<Rightarrow> ('v, 'h, 'l, 'v) exec" where
  "persistent_entry ops fn slot s =
     (let key = persistent_binding_key fn (frame s) slot
      in case persistent_bindings s key of
           Some v \<Rightarrow> (Ok v, s)
         | None \<Rightarrow> (Ok (empty_double (language ops)),
                    s\<lparr>persistent_bindings := (persistent_bindings s)(key \<mapsto> empty_double (language ops))\<rparr>))"

definition exec_declare_persistent :: "('v, 'h, 'l) Operations \<Rightarrow> Function \<Rightarrow> PersistentSlot \<Rightarrow> ('v, 'h, 'l, unit) exec" where
  "exec_declare_persistent ops fn slot = seq (persistent_entry ops fn slot) (\<lambda>_. give (Ok ()))"

definition exec_load_persistent :: "('v, 'h, 'l) Operations \<Rightarrow> Function \<Rightarrow> Register \<Rightarrow> PersistentSlot \<Rightarrow> ('v, 'h, 'l, unit) exec" where
  "exec_load_persistent ops fn dst slot = seq (persistent_entry ops fn slot) (put_value dst)"

definition exec_store_persistent :: "('v, 'h, 'l) Operations \<Rightarrow> Function \<Rightarrow> PersistentSlot \<Rightarrow> Register \<Rightarrow> ('v, 'h, 'l, unit) exec" where
  "exec_store_persistent ops fn slot src =
     seq (value_at src) (\<lambda>source.
     seq (copying (language ops) source) (\<lambda>v.
     seq (look (\<lambda>s. persistent_binding_key fn (frame s) slot)) (\<lambda>key. insert_persistent (language ops) key v)))"

subsection \<open>Dynamic bindings\<close>

definition note_removals :: "('v, 'h, 'l) Language \<Rightarrow> 'v list \<Rightarrow> ('v, 'h, 'l, unit) exec" where
  "note_removals L vs s =
     (Ok (), if list_ex (roots_object L (machine_cells s) (machine_functions s)) vs
             then s\<lparr>safepoint_flags := note_root_removal (safepoint_flags s)\<rparr> else s)"

definition remove_dynamic :: "('v, 'h, 'l) Language \<Rightarrow> string \<Rightarrow> ('v, 'h, 'l, unit) exec" where
  "remove_dynamic L name =
     seq (look (\<lambda>s. bt_get (dynamic_locals (frame s)) name)) (\<lambda>previous.
     seq (change_frame (\<lambda>fr. fr\<lparr>dynamic_locals := bt_remove name (dynamic_locals fr)\<rparr>)) (\<lambda>_.
       note_removed L previous))"

definition keep_dynamic :: "('v, 'h, 'l) Language \<Rightarrow> (string \<Rightarrow> bool) \<Rightarrow> ('v, 'h, 'l, unit) exec" where
  "keep_dynamic L keeps =
     seq (look (\<lambda>s. map snd (filter (\<lambda>(n, _). \<not> keeps n) (dynamic_locals (frame s))))) (\<lambda>removed.
     seq (change_frame (\<lambda>fr. fr\<lparr>dynamic_locals := filter (\<lambda>(n, _). keeps n) (dynamic_locals fr)\<rparr>)) (\<lambda>_.
       note_removals L removed))"

text \<open>The names form a sorted set: each is removed once, in order.\<close>

definition exec_clear_dynamic_bindings :: "('v, 'h, 'l) Operations \<Rightarrow> Function \<Rightarrow> ConstantId list \<Rightarrow> bool \<Rightarrow> ('v, 'h, 'l, unit) exec" where
  "exec_clear_dynamic_bindings ops fn cs except =
     seq (collect (named fn ''dynamic clear name escaped validation'') cs) (\<lambda>names.
       if except then keep_dynamic (language ops) (\<lambda>n. n \<in> set names)
       else if names = [] then keep_dynamic (language ops) (\<lambda>_. False)
       else each (remove_dynamic (language ops)) (sorted_list_of_set (set names)))"

subsection \<open>Closures\<close>

definition allocate_function_handle :: "('v, 'h, 'l, 32 word) exec" where
  "allocate_function_handle s =
     (case next_function_handle s of
        None \<Rightarrow> (Err (invalid_state ''function-handle registry is exhausted''), s)
      | Some i \<Rightarrow> (Ok i, s\<lparr>next_function_handle := map_option of_nat (checked_add u32_max (unat i) 1)\<rparr>))"

definition register_function_code :: "'v RuntimeFunctionCode \<Rightarrow> ('v, 'h, 'l, 32 word) exec" where
  "register_function_code code =
     seq allocate_function_handle (\<lambda>i.
     seq (change (\<lambda>s. s\<lparr>machine_functions := bt_insert (unat i) code (machine_functions s)\<rparr>)) (\<lambda>_. give (Ok i)))"

text \<open>A function constant reuses the first handle of the same function of this module.\<close>

definition constant_value :: "('v, 'h, 'l) Operations \<Rightarrow> nat \<Rightarrow> Constant \<Rightarrow> ('v, 'h, 'l, 'v) exec" where
  "constant_value ops md c =
     (case c of
        Function f \<Rightarrow>
          seq (look (\<lambda>s. List.find (\<lambda>(_, code). code_function code = f \<and> owner_module code = md) (machine_functions s))) (\<lambda>known.
            case known of
              Some (i, _) \<Rightarrow> give (Ok (function_value ops (of_nat i)))
            | None \<Rightarrow>
                seq (register_function_code \<lparr>owner_module = md, code_function = f, code_captures = [], code_caller_class = None\<rparr>) (\<lambda>i.
                  give (Ok (function_value ops i))))
      | _ \<Rightarrow> give (constant_of ops c))"

definition exec_load_constant :: "('v, 'h, 'l) Operations \<Rightarrow> nat \<Rightarrow> Function \<Rightarrow> Register \<Rightarrow> ConstantId \<Rightarrow> ('v, 'h, 'l, unit) exec" where
  "exec_load_constant ops md fn dst c =
     seq (give (ok_or (invalid_state ''constant index escaped validation'') (get (constants fn) (const_get c)))) (\<lambda>k.
     seq (constant_value ops md k) (put_value dst))"

definition make_closure :: "('v, 'h, 'l) Operations \<Rightarrow> nat \<Rightarrow> Register \<Rightarrow> FunctionId \<Rightarrow> (string, 'v CapturedBinding) btree \<Rightarrow> ('v, 'h, 'l, unit) exec" where
  "make_closure ops md dst f captured =
     seq (look (\<lambda>s. caller_class (frame s))) (\<lambda>cls.
     seq (register_function_code \<lparr>owner_module = md, code_function = f, code_captures = captured, code_caller_class = cls\<rparr>) (\<lambda>i.
       put_value dst (function_value ops i)))"

text \<open>What a closure captures by value: a register, else the enclosing capture, else the workspace.\<close>

definition copied_capture :: "('v, 'h, 'l) Operations \<Rightarrow> 'v \<Rightarrow> ('v, 'h, 'l, 'v CapturedBinding) exec" where
  "copied_capture ops v = seq (copying (language ops) v) (\<lambda>w. give (Ok (CapturedValue w)))"

definition absent_capture :: "bool \<Rightarrow> 'v CapturedBinding" where
  "absent_capture tombstone = (if tombstone then MissingValue else ResolverOnly)"

definition inherited_capture :: "('v, 'h, 'l) Operations \<Rightarrow> 'v CapturedBinding \<Rightarrow> ('v, 'h, 'l, 'v CapturedBinding) exec" where
  "inherited_capture ops b =
     (case b of
        CapturedValue v \<Rightarrow> copied_capture ops v
      | CapturedShared a \<Rightarrow>
          seq (\<lambda>s. (ok_or (invalid_state ''shared capture lock is poisoned'') (shared_read (machine_cells s) a), s)) (copied_capture ops)
      | MissingValue \<Rightarrow> give (Ok MissingValue)
      | ResolverOnly \<Rightarrow> give (Ok ResolverOnly))"

definition capture_binding :: "('v, 'h, 'l) Operations \<Rightarrow> string \<Rightarrow> Register option \<Rightarrow> bool \<Rightarrow> ('v, 'h, 'l, 'v CapturedBinding) exec" where
  "capture_binding ops name source tombstone =
     (case source of
        Some r \<Rightarrow> seq (value_at r) (\<lambda>v.
          if v = no_value (language ops) then give (Ok (absent_capture tombstone)) else copied_capture ops v)
      | None \<Rightarrow>
          seq (look (\<lambda>s. (bt_get (frame_captures (frame s)) name, bt_get (workspace s) name))) (\<lambda>(outer, global).
            case (outer, global) of
              (Some b, _) \<Rightarrow> inherited_capture ops b
            | (None, Some v) \<Rightarrow> copied_capture ops v
            | (None, None) \<Rightarrow> give (Ok (absent_capture tombstone))))"

fun capture_all :: "('v, 'h, 'l) Operations \<Rightarrow> Function \<Rightarrow> (ConstantId \<times> Register option \<times> bool) list \<Rightarrow>
    (string, 'v CapturedBinding) btree \<Rightarrow> ('v, 'h, 'l, (string, 'v CapturedBinding) btree) exec" where
  "capture_all ops fn [] captured = give (Ok captured)"
| "capture_all ops fn ((c, source, tombstone) # rest) captured =
     seq (named fn ''closure name escaped validation'' c) (\<lambda>name.
     seq (capture_binding ops name source tombstone) (\<lambda>b. capture_all ops fn rest (bt_insert name b captured)))"

definition exec_make_closure :: "('v, 'h, 'l) Operations \<Rightarrow> nat \<Rightarrow> Function \<Rightarrow> Register \<Rightarrow> FunctionId \<Rightarrow>
    (ConstantId \<times> Register option \<times> bool) list \<Rightarrow> ('v, 'h, 'l, unit) exec" where
  "exec_make_closure ops md fn dst f cs = seq (capture_all ops fn cs []) (make_closure ops md dst f)"

definition share_capture :: "string \<Rightarrow> SharedCaptureSource \<Rightarrow> ('v, 'h, 'l, nat) exec" where
  "share_capture name source =
     (case source of
        SharedCaptureSource.Local l \<Rightarrow>
          (\<lambda>s. case promote_local (machine_cells s) (frame s) l of
                 Inl m \<Rightarrow> (Err (invalid_state m), s)
               | Inr (h, fr, a) \<Rightarrow> (Ok a, s\<lparr>machine_cells := h, frame := fr\<rparr>))
      | Enclosing \<Rightarrow> shared_capture ''nested closure inherited a non-shared capture'' name)"

fun share_all :: "Function \<Rightarrow> (ConstantId \<times> SharedCaptureSource) list \<Rightarrow>
    (string, 'v CapturedBinding) btree \<Rightarrow> ('v, 'h, 'l, (string, 'v CapturedBinding) btree) exec" where
  "share_all fn [] captured = give (Ok captured)"
| "share_all fn ((c, source) # rest) captured =
     seq (named fn ''shared closure name escaped validation'' c) (\<lambda>name.
     seq (share_capture name source) (\<lambda>a. share_all fn rest (bt_insert name (CapturedShared a) captured)))"

definition exec_make_shared_closure :: "('v, 'h, 'l) Operations \<Rightarrow> nat \<Rightarrow> Function \<Rightarrow> Register \<Rightarrow> FunctionId \<Rightarrow>
    (ConstantId \<times> SharedCaptureSource) list \<Rightarrow> ('v, 'h, 'l, unit) exec" where
  "exec_make_shared_closure ops md fn dst f cs = seq (share_all fn cs []) (make_closure ops md dst f)"

subsection \<open>Control\<close>

definition jump_to :: "InstructionIndex \<Rightarrow> ('v, 'h, 'l, unit) exec" where
  "jump_to t = change_frame (\<lambda>fr. fr\<lparr>frame_instruction := t\<rparr>)"

definition exec_jump_if_false :: "('v, 'h, 'l) Operations \<Rightarrow> Register \<Rightarrow> InstructionIndex \<Rightarrow> ('v, 'h, 'l, unit) exec" where
  "exec_jump_if_false ops r t =
     seq (value_at r) (\<lambda>v. seq (give (condition_of ops v)) (\<lambda>holds. if holds then give (Ok ()) else jump_to t))"

definition exec_for_each :: "('v, 'h, 'l) Operations \<Rightarrow> Register \<Rightarrow> Register \<Rightarrow> Register \<Rightarrow> InstructionIndex \<Rightarrow> ('v, 'h, 'l, unit) exec" where
  "exec_for_each ops iterable index dst past =
     seq (value_at iterable) (\<lambda>range.
     seq (value_at index) (\<lambda>counter.
     seq (give (ok_or (invalid_state ''for index register was corrupted'') (iteration_index ops counter))) (\<lambda>i.
     seq (give (for_iteration ops range i)) (\<lambda>element.
       case element of
         Some v \<Rightarrow> seq (put_value dst v) (\<lambda>_. put_value index (iteration_after ops counter))
       | None \<Rightarrow> jump_to past))))"

definition exec_return :: "Register list \<Rightarrow> ('v, 'h, 'l, 'v list) exec" where
  "exec_return rs = collect value_at rs"

text \<open>The outputs requested beyond the fixed ones come from the cell of variadic outputs, as far as it goes.\<close>

definition exec_return_variadic :: "('v, 'h, 'l) Operations \<Rightarrow> Register list \<Rightarrow> Register \<Rightarrow> ('v, 'h, 'l, 'v list) exec" where
  "exec_return_variadic ops rs variadic =
     seq (collect value_at rs) (\<lambda>returned.
     seq (look (\<lambda>s. requested_output_count (frame s) - length returned)) (\<lambda>extra.
       if 0 < extra
       then seq (value_at variadic) (\<lambda>v.
              case cell_elements ops v of
                Some elements \<Rightarrow> give (Ok (returned @ take extra elements))
              | None \<Rightarrow> give (Err (array_error (InvalidOperand ''varargout return'' (kind_of ops v)))))
       else give (Ok returned)))"

subsection \<open>One instruction\<close>

definition stepping :: "('v, 'h, 'l, unit) exec \<Rightarrow> ('v, 'h, 'l, 'v list option) exec" where
  "stepping m = seq m (\<lambda>_. give (Ok None))"

definition returning :: "('v, 'h, 'l, 'v list) exec \<Rightarrow> ('v, 'h, 'l, 'v list option) exec" where
  "returning m = seq m (\<lambda>vs. give (Ok (Some vs)))"

text \<open>
  The arm of an instruction, where it is modelled. \<open>assign\<close> is the general assignment to a place, which
  may run language code.
\<close>

type_synonym ('v, 'h, 'l) assigner = "'v \<Rightarrow> 'v ResolvedPlaceStep list \<Rightarrow> 'v AssignmentSource \<Rightarrow> AssignmentMode \<Rightarrow> ('v, 'h, 'l, 'v) exec"

definition instruction_arm :: "(nat \<Rightarrow> nat \<Rightarrow> bool) \<Rightarrow> ('v, 'h, 'l) Operations \<Rightarrow> ('v, 'h, 'l) assigner \<Rightarrow> nat \<Rightarrow> Function \<Rightarrow>
    InstructionKind \<Rightarrow> ('v, 'h, 'l, 'v list option) exec option" where
  "instruction_arm reserve ops assign md fn k =
     (case k of
        RequireDefined r c \<Rightarrow> Some (stepping (exec_require_defined ops fn r c))
      | RequireSinglePack p \<Rightarrow> Some (stepping (exec_require_single_pack p))
      | SlicePack dst src start amount \<Rightarrow> Some (stepping (exec_slice_pack ops dst src start amount))
      | DeclareNamedBindings bs \<Rightarrow> Some (stepping (exec_declare_named_bindings fn bs))
      | DeclareImports cs \<Rightarrow> Some (stepping (exec_declare_imports fn cs))
      | ClearImports \<Rightarrow> Some (stepping exec_clear_imports)
      | LoadConstant dst c \<Rightarrow> Some (stepping (exec_load_constant ops md fn dst c))
      | Move dst src \<Rightarrow> Some (stepping (exec_move dst src))
      | LoadLocal dst l \<Rightarrow> Some (stepping (exec_load_local dst l))
      | StoreLocal l src \<Rightarrow> Some (stepping (exec_store_local ops l src))
      | DeclareGlobal c \<Rightarrow> Some (stepping (exec_declare_global ops fn c))
      | DeclarePersistent p \<Rightarrow> Some (stepping (exec_declare_persistent ops fn p))
      | LoadPersistent dst p \<Rightarrow> Some (stepping (exec_load_persistent ops fn dst p))
      | StorePersistent p src \<Rightarrow> Some (stepping (exec_store_persistent ops fn p src))
      | LoadCallInputCount dst \<Rightarrow> Some (stepping (exec_load_call_input_count ops dst))
      | LoadCallOutputCount dst \<Rightarrow> Some (stepping (exec_load_call_output_count ops dst))
      | LoadVariadicInputs dst \<Rightarrow> Some (stepping (exec_load_variadic_inputs ops fn dst))
      | MakeClosure dst f cs \<Rightarrow> Some (stepping (exec_make_closure ops md fn dst f cs))
      | MakeSharedClosure dst f cs \<Rightarrow> Some (stepping (exec_make_shared_closure ops md fn dst f cs))
      | LoadCapture dst c \<Rightarrow> Some (stepping (exec_load_capture fn dst c))
      | StoreCapture c src \<Rightarrow> Some (stepping (exec_store_capture ops fn c src))
      | LoadGlobalOrNothing dst c \<Rightarrow> Some (stepping (exec_load_global_or_nothing ops fn dst c))
      | StoreGlobal c src \<Rightarrow> Some (stepping (exec_store_global ops fn c src))
      | ClearGlobal cs \<Rightarrow> Some (stepping (exec_clear_global ops fn cs))
      | ClearGlobalAll \<Rightarrow> Some (stepping (clear_workspace_bindings (language ops)))
      | ClearLocal ls \<Rightarrow> Some (stepping (exec_clear_local ops ls))
      | ClearCapture cs \<Rightarrow> Some (stepping (exec_clear_capture ops fn cs))
      | ClearDynamicBindings cs except \<Rightarrow> Some (stepping (exec_clear_dynamic_bindings ops fn cs except))
      | AssignBindingPlace res binding root path src mode \<Rightarrow>
          Some (stepping (exec_assign_binding_place reserve (language ops) assign fn res binding root path src mode))
      | Unpack outputs p \<Rightarrow> Some (stepping (exec_unpack (reserve 0) outputs p))
      | Jump t \<Rightarrow> Some (stepping (jump_to t))
      | JumpIfFalse r t \<Rightarrow> Some (stepping (exec_jump_if_false ops r t))
      | ForEach iterable index dst past \<Rightarrow> Some (stepping (exec_for_each ops iterable index dst past))
      | Return rs \<Rightarrow> Some (returning (exec_return rs))
      | ReturnVariadic rs variadic \<Rightarrow> Some (returning (exec_return_variadic ops rs variadic))
      | _ \<Rightarrow> None)"

subsection \<open>One turn of the frame\<close>

text \<open>
  A turn fetches the instruction, advances the pointer, runs the arm and, on an error, unwinds to the
  innermost handler. \<open>collect_garbage\<close> is the work at the safepoint before the instruction and
  \<open>cancelled\<close> the host's request to stop. The error state and the exception object are those of the
  unwinding; the pending built-in scope that the loop resets on an error is part of the host.
\<close>

datatype ('v, 'h, 'l) turn = Continue "('v, 'h) Machine" | Finished "('l RuntimeErrorKind, 'v list) result" "('v, 'h) Machine"

definition fetch_and_run :: "(nat \<Rightarrow> nat \<Rightarrow> bool) \<Rightarrow> ('v, 'h, 'l) Operations \<Rightarrow> ('v, 'h, 'l) assigner \<Rightarrow>
    (('v, 'h) Machine \<Rightarrow> ('v, 'h) Machine) \<Rightarrow> (('v, 'h) Machine \<Rightarrow> bool) \<Rightarrow> nat \<Rightarrow> Function \<Rightarrow> ('v, 'h) Machine \<Rightarrow>
    (('l RuntimeErrorKind, 'v list option) result \<times> ('v, 'h) Machine) option" where
  "fetch_and_run reserve ops assign collect_garbage cancelled md fn s =
     (let s1 = collect_garbage s; pc = frame_instruction (frame s1)
      in case get (instructions fn) (index_get pc) of
           None \<Rightarrow> Some (Err (InstructionPointerOutOfBounds (frame_function (frame s1)) pc), s1)
         | Some ins \<Rightarrow>
             if cancelled s1 then Some (Err Cancelled, s1)
             else map_option (\<lambda>arm. arm (s1\<lparr>frame := (frame s1)\<lparr>frame_instruction := next_index pc\<rparr>\<rparr>))
               (instruction_arm reserve ops assign md fn (instr_kind ins)))"

text \<open>The host holds the error state.\<close>

type_synonym ('v, 'd, 'x, 'l) exception_builder =
  "('d, 'x) ErrorState_scheme \<Rightarrow> 'l RuntimeErrorKind \<Rightarrow> string \<Rightarrow> ('d, 'x) ErrorState_scheme \<times> ('l RuntimeErrorKind, 'v) result"

definition frame_turn :: "('l RuntimeErrorKind \<Rightarrow> 'd) \<Rightarrow> ('v, 'd, 'x, 'l) exception_builder \<Rightarrow>
    (('d, 'x) ErrorState_scheme \<Rightarrow> ('d, 'x) ErrorState_scheme) \<Rightarrow> (nat \<Rightarrow> nat \<Rightarrow> bool) \<Rightarrow>
    ('v, ('d, 'x) ErrorState_scheme, 'l) Operations \<Rightarrow> ('v, ('d, 'x) ErrorState_scheme, 'l) assigner \<Rightarrow>
    (('v, ('d, 'x) ErrorState_scheme) Machine \<Rightarrow> ('v, ('d, 'x) ErrorState_scheme) Machine) \<Rightarrow>
    (('v, ('d, 'x) ErrorState_scheme) Machine \<Rightarrow> bool) \<Rightarrow> nat \<Rightarrow> Function \<Rightarrow> ('v, ('d, 'x) ErrorState_scheme) Machine \<Rightarrow>
    ('v, ('d, 'x) ErrorState_scheme, 'l) turn option" where
  "frame_turn describe exception_object forget_scope reserve ops assign collect_garbage cancelled md fn s =
     map_option (\<lambda>(r, s1). case r of
         Inr None \<Rightarrow> Continue s1
       | Inr (Some vs) \<Rightarrow> Finished (Ok vs) s1
       | Inl e \<Rightarrow>
           let (st, fr, caught) = unwind_frame_error catchable_identifier describe (\<lambda>_ m. invalid_state m) exception_object
                 (no_value (language ops)) (forget_scope (host s1)) fn (frame s1) (failed_instruction (frame_instruction (frame s1))) e;
               s2 = s1\<lparr>frame := fr, host := st\<rparr>
           in (case caught of Inr () \<Rightarrow> Continue s2 | Inl e' \<Rightarrow> Finished (Err e') s2))
       (fetch_and_run reserve ops assign collect_garbage cancelled md fn s)"

subsection \<open>A sample\<close>

text \<open>Operations on the language of number lists: a list is true when it is not empty.\<close>

definition list_operations :: "(nat list, 'h, unit) Operations" where
  "list_operations = \<lparr>language = list_language, number = (\<lambda>n. [n]), count_of = (\<lambda>v. case v of [n] \<Rightarrow> Some n | _ \<Rightarrow> None),
     cell_row = (\<lambda>vs. Ok (concat vs)), cell_elements = (\<lambda>v. Some (map (\<lambda>n. [n]) v)), kind_of = (\<lambda>_. KindArray),
     constant_of = (\<lambda>_. Ok [0]), function_value = (\<lambda>i. [unat i]), condition_of = (\<lambda>v. Ok (v \<noteq> [])),
     iteration_index = (\<lambda>v. case v of [n] \<Rightarrow> Some n | _ \<Rightarrow> None), iteration_after = map Suc,
     for_iteration = (\<lambda>v i. Ok (if i < length v then Some [v ! i] else None))\<rparr>"

end
