(* ===== verification/Interp_Safe.thy ===== *)
theory Interp_Safe
  imports Interp_Exec
begin

section \<open>Type safety of the frame loop\<close>

text \<open>
  What the verifier's checks are worth at run time: an arm run in a frame of the function's dimensions
  keeps the dimensions, never reports that an operand escaped validation, and moves the instruction
  pointer only where the instruction says. The rules follow the combinators arms are built from.
\<close>

named_theorems safe_rules

definition escape_text :: "string \<Rightarrow> bool" where
  "escape_text m \<longleftrightarrow> drop (length m - 18) m = ''escaped validation''"

definition escapes :: "'l RuntimeErrorKind \<Rightarrow> bool" where
  "escapes e = (case e of InvalidExecutionState m None \<Rightarrow> escape_text m | _ \<Rightarrow> False)"

lemma escapes_simps [simp]:
  "escapes (invalid_state m) = escape_text m" "\<not> escapes (array_error x)" "\<not> escapes (MissingOutputs i j)"
  "\<not> escapes (InputArity n i j)" "\<not> escapes (UndefinedGlobal n)" "\<not> escapes Cancelled" "\<not> escapes (InstructionPointerOutOfBounds f pc)"
  by (simp_all add: escapes_def)

lemma other_texts [simp]:
  "\<not> escape_text ''shared capture lock is poisoned''" "\<not> escape_text ''shared local lock is poisoned''"
  "\<not> escape_text ''shared capture is missing''" "\<not> escape_text ''nested closure inherited a non-shared capture''"
  "\<not> escape_text ''output pack count must be a nonnegative u32 scalar''" "\<not> escape_text ''function-handle registry is exhausted''"
  "\<not> escape_text ''clear import escaped compiler base-workspace validation''" "\<not> escape_text ''for index register was corrupted''"
  "\<not> escape_text ''aggregate place path exceeds host capacity''" "\<not> escape_text ''assignment value pack exceeds host capacity''"
  "\<not> escape_text ''apply argument list exceeds host capacity''"
  "\<not> escape_text ''expanded argument list exceeds host capacity''" "\<not> escape_text ''owned frame binding unexpectedly disappeared''"
  by (simp_all add: escape_text_def)

text \<open>\<open>ts\<close> are the instructions the computation may jump to; the results satisfy \<open>P\<close>.\<close>

definition safe :: "Function \<Rightarrow> ('a \<Rightarrow> bool) \<Rightarrow> InstructionIndex set \<Rightarrow> ('v, 'h, 'l, 'a) exec \<Rightarrow> bool" where
  "safe fn P ts m \<longleftrightarrow>
     (\<forall>s r s'. frame_matches fn (frame s) \<longrightarrow> m s = (r, s') \<longrightarrow>
        frame_matches fn (frame s') \<and>
        (case r of
           Inl e \<Rightarrow> \<not> escapes e \<and> frame_instruction (frame s') = frame_instruction (frame s)
         | Inr a \<Rightarrow> P a \<and> (frame_instruction (frame s') = frame_instruction (frame s) \<or> frame_instruction (frame s') \<in> ts)))"

abbreviation any :: "'a \<Rightarrow> bool" where
  "any \<equiv> \<lambda>_. True"

lemma safe_seq:
  assumes "safe fn Q {} m" and "\<And>a. Q a \<Longrightarrow> safe fn P ts (f a)"
  shows "safe fn P ts (seq m f)"
  unfolding safe_def
proof (intro allI impI)
  fix s r s' assume fr: "frame_matches fn (frame s)" and run: "seq m f s = (r, s')"
  obtain r1 s1 where m: "m s = (r1, s1)" by (cases "m s")
  note first = assms(1) [unfolded safe_def, rule_format, OF fr m]
  show "frame_matches fn (frame s') \<and>
      (case r of
         Inl e \<Rightarrow> \<not> escapes e \<and> frame_instruction (frame s') = frame_instruction (frame s)
       | Inr a \<Rightarrow> P a \<and> (frame_instruction (frame s') = frame_instruction (frame s) \<or> frame_instruction (frame s') \<in> ts))"
  proof (cases r1)
    case (Inl e)
    with run m first show ?thesis by (auto simp: seq_def)
  next
    case (Inr a)
    with run m first have "f a s1 = (r, s')" "Q a" "frame_instruction (frame s1) = frame_instruction (frame s)"
      by (auto simp: seq_def)
    with assms(2) [of a] first show ?thesis unfolding safe_def by metis
  qed
qed

lemmas safe_then [safe_rules] = safe_seq [where Q = any]

lemma safe_cases:
  assumes "safe fn P ts m" "frame_matches fn (frame s)" "m s = (r, s')"
  shows "frame_matches fn (frame s')"
    and "r = Err e \<Longrightarrow> \<not> escapes e \<and> frame_instruction (frame s') = frame_instruction (frame s)"
    and "r = Ok a \<Longrightarrow> P a \<and> (frame_instruction (frame s') = frame_instruction (frame s) \<or> frame_instruction (frame s') \<in> ts)"
  using assms(1) [unfolded safe_def, rule_format, OF assms(2,3)] by auto

lemma safeI:
  assumes "\<And>s r s'. frame_matches fn (frame s) \<Longrightarrow> m s = (r, s') \<Longrightarrow> frame_matches fn (frame s')"
    and "\<And>s e s'. frame_matches fn (frame s) \<Longrightarrow> m s = (Err e, s') \<Longrightarrow>
      \<not> escapes e \<and> frame_instruction (frame s') = frame_instruction (frame s)"
    and "\<And>s a s'. frame_matches fn (frame s) \<Longrightarrow> m s = (Ok a, s') \<Longrightarrow>
      P a \<and> (frame_instruction (frame s') = frame_instruction (frame s) \<or> frame_instruction (frame s') \<in> ts)"
  shows "safe fn P ts m"
  unfolding safe_def
proof (intro allI impI)
  fix s r s' assume fr: "frame_matches fn (frame s)" and run: "m s = (r, s')"
  note after = assms(1) [OF fr run]
  show "frame_matches fn (frame s') \<and>
      (case r of
         Inl e \<Rightarrow> \<not> escapes e \<and> frame_instruction (frame s') = frame_instruction (frame s)
       | Inr a \<Rightarrow> P a \<and> (frame_instruction (frame s') = frame_instruction (frame s) \<or> frame_instruction (frame s') \<in> ts))"
  proof (cases r)
    case (Inl e)
    with after assms(2) [OF fr run [unfolded Inl]] show ?thesis by simp
  next
    case (Inr a)
    with after assms(3) [OF fr run [unfolded Inr]] show ?thesis by simp
  qed
qed

lemma safe_mono:
  assumes "safe fn P {} m" "\<And>a. P a \<Longrightarrow> P' a" shows "safe fn P' ts m"
proof (rule safeI)
  fix s r s' assume run: "frame_matches fn (frame s)" "m s = (r, s')"
  note out = safe_cases [OF assms(1) run]
  show "frame_matches fn (frame s')" by (rule out(1))
next
  fix s e s' assume run: "frame_matches fn (frame s)" "m s = (Err e, s')"
  show "\<not> escapes e \<and> frame_instruction (frame s') = frame_instruction (frame s)"
    using safe_cases(2) [OF assms(1) run] by simp
next
  fix s a s' assume run: "frame_matches fn (frame s)" "m s = (Ok a, s')"
  show "P' a \<and> (frame_instruction (frame s') = frame_instruction (frame s) \<or> frame_instruction (frame s') \<in> ts)"
    using safe_cases(3) [OF assms(1) run] assms(2) by simp
qed

lemma safe_give [safe_rules]: "(\<And>a. r = Ok a \<Longrightarrow> P a) \<Longrightarrow> (\<And>e. r = Err e \<Longrightarrow> \<not> escapes e) \<Longrightarrow> safe fn P ts (give r)"
  by (auto simp: safe_def give_def split: sum.splits)

lemma safe_if [safe_rules]: "safe fn P ts m \<Longrightarrow> safe fn P ts m' \<Longrightarrow> safe fn P ts (if b then m else m')"
  by simp

lemma safe_each [safe_rules]:
  assumes "\<And>x. x \<in> set xs \<Longrightarrow> safe fn any {} (f x)" shows "safe fn any {} (each f xs)"
  using assms
proof (induction xs)
  case Nil
  show ?case by (auto intro: safe_give)
next
  case (Cons x xs)
  then show ?case unfolding each.simps by (intro safe_then) simp_all
qed

lemma safe_collect [safe_rules]:
  assumes "\<And>x. x \<in> set xs \<Longrightarrow> safe fn any {} (f x)" shows "safe fn any ts (collect f xs)"
  using assms
proof (induction xs arbitrary: ts)
  case Nil
  show ?case by (auto intro: safe_give)
next
  case (Cons x xs)
  then show ?case unfolding collect.simps by (intro safe_then safe_give) simp_all
qed

lemma safe_look [safe_rules]: "safe fn any ts (look f)"
  by (simp add: safe_def look_def)

lemma safe_change [safe_rules]:
  "(\<And>s. frame_matches fn (frame s) \<Longrightarrow> frame_matches fn (frame (f s))) \<Longrightarrow>
   (\<And>s. frame_instruction (frame (f s)) = frame_instruction (frame s)) \<Longrightarrow> safe fn any ts (change f)"
  by (simp add: safe_def change_def)

lemma safe_change_frame [safe_rules]:
  "(\<And>fr. frame_matches fn fr \<Longrightarrow> frame_matches fn (f fr)) \<Longrightarrow>
   (\<And>fr. frame_instruction (f fr) = frame_instruction fr) \<Longrightarrow> safe fn any ts (change_frame f)"
  by (simp add: safe_def change_frame_def)

lemma safe_jump [safe_rules]: "t \<in> ts \<Longrightarrow> safe fn any ts (jump_to t)"
  by (simp add: safe_def jump_to_def change_frame_def frame_matches_def)

subsection \<open>Operands in range\<close>

lemma safe_value_at [safe_rules]: "operand_in_range fn (RegisterOperand r) \<Longrightarrow> safe fn any ts (value_at r)"
  by (auto simp: safe_def value_at_def reading_def map_err_def frame_access_ok)

lemma safe_pack_at [safe_rules]: "operand_in_range fn (PackOperand p) \<Longrightarrow> safe fn any ts (pack_at p)"
  by (auto simp: safe_def pack_at_def reading_def map_err_def frame_access_ok)

lemma safe_put_value [safe_rules]: "operand_in_range fn (RegisterOperand r) \<Longrightarrow> safe fn any ts (put_value r v)"
  by (auto simp: safe_def put_value_def writing_def frame_access_ok frame_matches_def)

lemma safe_put_pack [safe_rules]: "operand_in_range fn (PackOperand p) \<Longrightarrow> safe fn any ts (put_pack p vs)"
  by (auto simp: safe_def put_pack_def writing_def frame_access_ok frame_matches_def)

lemma safe_named [safe_rules]: "operand_in_range fn (NameOperand c) \<Longrightarrow> safe fn any ts (named fn m c)"
  by (auto simp: safe_def named_def give_def global_name_def operand_in_range_def get_def slice_get_def)

lemma safe_capture [safe_rules]: "\<not> escape_text m \<Longrightarrow> safe fn any ts (shared_capture m name)"
  by (auto simp: safe_def shared_capture_def split: option.splits CapturedBinding.splits)

lemma safe_swap_local [safe_rules]:
  assumes "operand_in_range fn (LocalOperand l)" shows "safe fn any ts (swap_local l v)"
proof -
  have "replace_local h fr l v = Ok (h', fr', w) \<Longrightarrow> frame_instruction fr' = frame_instruction fr" for h h' fr fr' w
    by (auto simp: replace_local_def result_simps split: option.splits if_splits)
  moreover have "\<not> escape_text m"
    if "frame_matches fn fr" "replace_local h fr l v = Err m" for h and fr :: "'a ExecutionFrame" and m
    using that assms
    by (auto simp: replace_local_def frame_matches_def operand_in_range_def and_then_def ok_or_def split: option.splits if_splits)
  ultimately show ?thesis
    by (auto simp: safe_def swap_local_def write_keeps_frame(3) split: sum.splits prod.splits)
qed

lemma safe_swap_shared [safe_rules]: "\<not> escape_text m \<Longrightarrow> safe fn any ts (swap_shared m a v)"
  by (auto simp: safe_def swap_shared_def split: option.splits)

lemma safe_notes [safe_rules]:
  "safe fn any ts (note_removal L v)" "safe fn any ts (note_removed L old)" "safe fn any ts (note_removals L vs)"
  by (auto simp: safe_def note_removal_def note_removed_def note_removals_def give_def split: option.splits)

lemma safe_bindings [safe_rules]:
  "safe fn any ts (replace_workspace_binding L n v)" "safe fn any ts (insert_persistent L k v)"
  "safe fn any ts (remove_workspace_binding L n)" "safe fn any ts (persistent_entry ops fn' slot)"
  by (auto simp: safe_def replace_workspace_binding_def insert_persistent_def remove_workspace_binding_def persistent_entry_def
      note_removed_def note_removal_def give_def Let_def split: option.splits)

subsection \<open>Arms\<close>

text \<open>What the arms rely on in the operations on values: their errors are not those of the verifier's checks.\<close>

definition plain :: "('l RuntimeErrorKind, 'a) result \<Rightarrow> bool" where
  "plain r \<longleftrightarrow> (case r of Inl e \<Rightarrow> \<not> escapes e | Inr _ \<Rightarrow> True)"

definition plain_operations :: "Function \<Rightarrow> ('v, 'h, 'l) Operations \<Rightarrow> ('v, 'h, 'l) assigner \<Rightarrow> bool" where
  "plain_operations fn ops assign \<longleftrightarrow>
     (\<forall>v h. plain (fst (language_copy (language ops) v h))) \<and> (\<forall>v i w. plain (fst (assign_scalar_in_place (language ops) v i w))) \<and>
     (\<forall>v. plain (dynamic_field_name (language ops) v)) \<and> (\<forall>vs. plain (cell_row ops vs)) \<and> (\<forall>c. plain (constant_of ops c)) \<and>
     (\<forall>v. plain (condition_of ops v)) \<and> (\<forall>v i. plain (for_iteration ops v i)) \<and>
     (\<forall>v path src mode. safe fn any {} (assign v path src mode))"

lemma plain_Ok [simp]: "plain (Ok a)"
  by (simp add: plain_def)

lemma plain_ok_or [simp]: "\<not> escapes e \<Longrightarrow> plain (ok_or e x)"
  by (simp add: plain_def ok_or_def split: option.split)

lemma safe_plain [safe_rules]: "plain r \<Longrightarrow> safe fn any ts (give r)"
  by (rule safe_give) (simp_all add: plain_def)

lemma safe_ok_or [safe_rules]: "\<not> escapes e \<Longrightarrow> safe fn any ts (give (ok_or e x))"
  by (rule safe_give) (auto simp: ok_or_def split: option.splits)

lemma safe_done [safe_rules]: "P a \<Longrightarrow> safe fn P ts (give (Ok a))"
  by (rule safe_give) simp_all

lemma safe_fails [safe_rules]: "\<not> escapes e \<Longrightarrow> safe fn P ts (give (Err e))"
  by (rule safe_give) simp_all

lemma safe_copying [safe_rules]:
  assumes "\<And>h. plain (fst (language_copy L v h))" shows "safe fn any ts (copying L v)"
proof (rule safeI)
  fix s e s' assume "copying L v s = (Err e, s')"
  with assms [of "host s"] show "\<not> escapes e \<and> frame_instruction (frame s') = frame_instruction (frame s)"
    by (auto simp: copying_def plain_def split: prod.splits)
qed (auto simp: copying_def split: prod.splits)

lemma safe_reading [safe_rules]:
  assumes "\<And>s m. frame_matches fn (frame s) \<Longrightarrow> f s = Err m \<Longrightarrow> \<not> escape_text m"
  shows "safe fn any ts (\<lambda>s. (map_err invalid_state (f s), s))"
  by (rule safeI) (use assms in \<open>auto simp: map_err_def split: sum.splits\<close>)

lemma safe_load_local [safe_rules]:
  assumes "operand_in_range fn (LocalOperand l)"
  shows "safe fn any ts (\<lambda>s. (map_err invalid_state (load_local (machine_cells s) (frame s) l), s))"
  by (rule safe_reading)
    (auto simp: load_local_def ok_or_def frame_access_ok(5) [OF _ assms] split: option.splits)

lemma safe_read_cell [safe_rules]: "\<not> escapes e \<Longrightarrow> safe fn any ts (\<lambda>s. (ok_or e (shared_read (machine_cells s) a), s))"
  by (rule safeI) (auto simp: ok_or_def split: option.splits)

lemma safe_share_capture [safe_rules]:
  assumes "\<And>x. x \<in> set (shared_operands source) \<Longrightarrow> operand_in_range fn x"
  shows "safe fn any ts (share_capture name source)"
proof (cases source)
  case (Local l)
  have slot: "\<exists>v. get (frame_locals (frame s)) (local_get l) = Some v" if "frame_matches fn (frame s)" for s :: "('v, 'h) Machine"
    using frame_access_ok(5) [OF that] assms Local by auto
  show ?thesis
    unfolding Local share_capture_def
    by (rule safeI)
      (use slot in \<open>force simp: promote_local_def and_then_def ok_or_def frame_matches_def shared_new_def Let_def split: option.splits sum.splits\<close>)+
qed (auto simp: share_capture_def intro: safe_capture)

lemma safe_share_all [safe_rules]:
  assumes "\<And>x. x \<in> set (concat (map (\<lambda>(c, s). NameOperand c # shared_operands s) cs)) \<Longrightarrow> operand_in_range fn x"
  shows "safe fn any ts (share_all fn cs captured)"
  using assms
proof (induction cs arbitrary: captured ts)
  case (Cons x cs)
  obtain c source where x: "x = (c, source)" by (cases x)
  show ?case
    unfolding x share_all.simps
    by (intro safe_then safe_named safe_share_capture Cons.IH) (use Cons.prems x in auto)
qed (simp add: safe_done)

lemma safe_register_code [safe_rules]: "safe fn any ts (register_function_code code)"
proof -
  have "safe fn any {} allocate_function_handle"
    by (rule safeI) (auto simp: allocate_function_handle_def split: option.splits)
  then show ?thesis unfolding register_function_code_def by (intro safe_then safe_change safe_done) simp_all
qed

lemma safe_make_closure [safe_rules]:
  "operand_in_range fn (RegisterOperand dst) \<Longrightarrow> safe fn any ts (make_closure ops md dst f captured)"
  unfolding make_closure_def by (intro safe_then safe_look safe_register_code safe_put_value)

lemma safe_capture_binding [safe_rules]:
  assumes ops: "\<And>v h. plain (fst (language_copy (language ops) v h))"
    and range: "\<And>x. x \<in> set (option_operands source) \<Longrightarrow> operand_in_range fn x"
  shows "safe fn any ts (capture_binding ops name source tombstone)"
proof -
  have copied: "safe fn any ts (copied_capture ops v)" for v ts
    unfolding copied_capture_def by (intro safe_then safe_copying safe_done ops) simp
  have "safe fn any ts (inherited_capture ops b)" for b
    unfolding inherited_capture_def
    by (cases b) (auto intro!: copied safe_then safe_read_cell safe_done)
  then show ?thesis
    using range copied unfolding capture_binding_def
    by (auto simp: option_operands_def intro!: safe_then safe_value_at safe_look safe_done split: option.splits)
qed

lemma safe_capture_all [safe_rules]:
  assumes "\<And>v h. plain (fst (language_copy (language ops) v h))"
    and "\<And>x. x \<in> set (concat (map (\<lambda>(c, r, b). NameOperand c # option_operands r) cs)) \<Longrightarrow> operand_in_range fn x"
  shows "safe fn any ts (capture_all ops fn cs captured)"
  using assms(2)
proof (induction cs arbitrary: captured ts)
  case (Cons x cs)
  obtain c source tombstone where x: "x = (c, source, tombstone)" by (cases x)
  show ?case
    unfolding x capture_all.simps
    by (intro safe_then safe_named safe_capture_binding assms(1) Cons.IH) (use Cons.prems x in auto)
qed (simp add: safe_done)

subsection \<open>The assignment arm\<close>

definition target_in_range :: "Function \<Rightarrow> RuntimeBindingTarget \<Rightarrow> bool" where
  "target_in_range fn t = (case t of TargetLocal l \<Rightarrow> operand_in_range fn (LocalOperand l) | _ \<Rightarrow> True)"

lemma safe_resolve_target:
  assumes "\<And>x. x \<in> set (binding_operands b) \<Longrightarrow> operand_in_range fn x"
  shows "safe fn (target_in_range fn) {} (resolve_binding_target fn b)"
proof (cases b)
  case (Local l)
  with assms show ?thesis by (auto simp: resolve_binding_target_def target_in_range_def intro: safe_done)
next
  case (Persistent p)
  show ?thesis unfolding Persistent resolve_binding_target_def by (rule safeI) (auto simp: target_in_range_def)
next
  case (Capture c)
  with assms show ?thesis
    by (auto simp: resolve_binding_target_def target_in_range_def intro!: safe_then safe_named safe_capture safe_done)
next
  case (Workspace c)
  with assms show ?thesis
    by (auto simp: resolve_binding_target_def target_in_range_def intro!: safe_then safe_named safe_done)
qed

lemma safe_take_register [safe_rules]:
  assumes "operand_in_range fn (RegisterOperand r)"
  shows "safe fn any ts (taking (\<lambda>fr. take_register n fr r))"
  by (rule safeI) (auto simp: taking_def take_register_def and_then_def frame_access_ok(1) [OF _ assms] frame_matches_def)

lemma safe_binding_changes [safe_rules]:
  assumes "target_in_range fn t"
  shows "safe fn any ts (take_binding L t)" "safe fn any ts (commit_binding L t v)" "safe fn any ts (restore_binding L t old)"
proof -
  show commit: "safe fn any ts (commit_binding L t v)" for v ts
    using assms by (cases t) (auto simp: commit_binding_def target_in_range_def intro!: safe_rules)
  show "safe fn any ts (take_binding L t)"
    using assms
    by (cases t) (auto simp: take_binding_def target_in_range_def intro!: safe_then safe_swap_local safe_swap_shared safe_done safeI)
  show "safe fn any ts (restore_binding L t old)"
  proof (cases old)
    case None
    then show ?thesis by (cases t) (auto simp: restore_binding_def intro!: safe_fails safeI)
  next
    case (Some v)
    then show ?thesis using commit by (simp add: restore_binding_def)
  qed
qed

lemma safe_write_result [safe_rules]:
  "(\<And>x. x \<in> set (option_operands res) \<Longrightarrow> operand_in_range fn x) \<Longrightarrow> safe fn any ts (write_result res v)"
  unfolding write_result_def
  by (cases res) (auto simp: option_operands_def intro!: safe_done safe_put_value [unfolded put_value_def])

lemma safe_assign_in_place [safe_rules]:
  assumes "target_in_range fn t" "operand_in_range fn (RegisterOperand root)"
    and res: "\<And>x. x \<in> set (option_operands res) \<Longrightarrow> operand_in_range fn x"
    and assign: "\<And>w i v. plain (fst (assign_scalar_in_place L w i v))"
  shows "safe fn any ts (assign_in_place L res t root index v)"
  unfolding assign_in_place_def Let_def
proof (intro safe_then safe_take_register safe_binding_changes assms(1,2), goal_cases)
  case (1 original taken)
  obtain outcome updated where a: "assign_scalar_in_place L original index v = (outcome, updated)"
    by (cases "assign_scalar_in_place L original index v")
  have failing: "\<not> escapes e" if "outcome = Err e" for e using assign [of original index v] a that by (simp add: plain_def)
  show ?case
  proof (cases outcome)
    case (Inl e)
    with failing assms(1) show ?thesis by (auto simp: a intro!: safe_then safe_binding_changes safe_fails)
  next
    case (Inr ok)
    with res assms(1) show ?thesis
      by (cases ok) (auto simp: a intro!: safe_then safe_binding_changes safe_done safe_write_result)
  qed
qed

lemma read_arguments_texts:
  assumes "frame_matches fn fr" "\<And>x. x \<in> set (arguments_operands args) \<Longrightarrow> operand_in_range fn x"
    and "read_arguments_from reserve fr vs args = Err m"
  shows "\<not> escape_text m"
  using assms(2,3)
proof (induction args arbitrary: vs)
  case (Cons a args)
  note access = frame_access_ok [OF assms(1)]
  show ?case
  proof (cases a)
    case (Value r)
    with Cons show ?thesis by (simp add: access and_then_def)
  next
    case (Expand p)
    with Cons show ?thesis by (auto simp: access and_then_def ensure_def split: if_splits)
  next
    case Colon
    with Cons show ?thesis by (simp add: and_then_def)
  qed
qed simp

lemma safe_read_arguments [safe_rules]:
  assumes "\<And>x. x \<in> set (arguments_operands args) \<Longrightarrow> operand_in_range fn x"
  shows "safe fn any ts (reading (\<lambda>fr. read_apply_arguments reserve fr args))"
proof -
  have "\<not> escape_text m"
    if "frame_matches fn fr" "read_apply_arguments reserve fr args = Err m" for fr :: "'a ExecutionFrame" and m
    using that read_arguments_texts [OF that(1) assms] by (auto simp: read_apply_arguments_def and_then_def ensure_def split: if_splits)
  then show ?thesis unfolding reading_def by (intro safe_reading)
qed

lemma safe_resolve_steps [safe_rules]:
  assumes "\<And>x. x \<in> set (path_operands path) \<Longrightarrow> operand_in_range fn x" "\<And>v. plain (dynamic_field_name L v)"
  shows "safe fn any ts (resolve_steps reserve L fn path)"
  using assms(1)
proof (induction path arbitrary: ts)
  case (Cons st path)
  have field: "safe fn any {} (resolve_field_operand L fn f)"
    if "\<And>x. x \<in> set (field_operands f) \<Longrightarrow> operand_in_range fn x" for f
    using that assms(2)
    by (cases f) (auto simp: resolve_field_operand_def intro!: safe_then safe_named safe_plain safe_value_at [unfolded value_at_def])
  have "safe fn any ts' (resolve_steps reserve L fn path)" for ts' using Cons by simp
  with Cons.prems field show ?case
    by (cases st) (auto intro!: safe_then safe_read_arguments safe_done)
qed (simp add: safe_done)

lemma safe_resolve_path [safe_rules]:
  assumes "\<And>x. x \<in> set (path_operands path) \<Longrightarrow> operand_in_range fn x" "\<And>v. plain (dynamic_field_name L v)"
  shows "safe fn any ts (resolve_place_path reserve L fn path)"
  unfolding resolve_place_path_def using safe_resolve_steps [OF assms] by (auto intro: safe_fails)

lemma safe_read_source [safe_rules]:
  assumes "\<And>x. x \<in> set (source_operands src) \<Longrightarrow> operand_in_range fn x"
  shows "safe fn any ts (read_assignment_source reserve src)"
  using assms unfolding read_assignment_source_def
  by (cases src)
    (auto intro!: safe_then safe_done safe_fails safe_value_at [unfolded value_at_def] safe_pack_at [unfolded pack_at_def])

lemma scalar_operands_range:
  assumes "scalar_operands path src mode = Some (ri, rv)"
  shows "path = [Paren [ApplyArgument.Value ri]]" "src = One rv"
  using assms by (auto simp: scalar_operands_def split: list.splits PlaceStep.splits ApplyArgument.splits ValueSource.splits AssignmentMode.splits)

lemma safe_assign_binding_place [safe_rules]:
  assumes ops: "plain_operations fn ops assign"
    and range: "\<And>x. x \<in> set (operands (AssignBindingPlace res b root path src mode)) \<Longrightarrow> operand_in_range fn x"
  shows "safe fn any ts (exec_assign_binding_place reserve (language ops) assign fn res b root path src mode)"
proof -
  have res: "\<And>x. x \<in> set (option_operands res) \<Longrightarrow> operand_in_range fn x" and root: "operand_in_range fn (RegisterOperand root)"
    using range by auto
  have general: "safe fn any ts' (assign_and_commit (language ops) assign res t mode steps source original)"
    if "target_in_range fn t" for original steps source t ts'
    unfolding assign_and_commit_def
    using ops that res by (intro safe_then safe_copying safe_binding_changes safe_write_result) (auto simp: plain_operations_def)
  show ?thesis
  proof (cases "scalar_operands path src mode")
    case None
    then show ?thesis
      unfolding exec_assign_binding_place_def None option.case
      using general range ops root
      by (intro safe_seq [OF safe_resolve_target] safe_then safe_resolve_path safe_read_source safe_take_register)
        (auto simp: plain_operations_def)
  next
    case (Some rr)
    obtain ri rv where rr: "rr = (ri, rv)" by (cases rr)
    note shape = scalar_operands_range [OF Some [unfolded rr]]
    have "operand_in_range fn (RegisterOperand ri)" "operand_in_range fn (RegisterOperand rv)"
      using range shape by auto
    then show ?thesis
      unfolding exec_assign_binding_place_def Some rr option.case prod.case
      using range ops root res general
      by (intro safe_seq [OF safe_resolve_target] safe_then safe_value_at [unfolded value_at_def] safe_assign_in_place)
        (auto simp: plain_operations_def intro: safe_done split: option.splits)
  qed
qed

subsection \<open>Every arm\<close>

text \<open>Where an instruction may send the pointer by itself.\<close>

definition jumps :: "InstructionKind \<Rightarrow> InstructionIndex set" where
  "jumps k = (case k of Jump t \<Rightarrow> {t} | JumpIfFalse _ t \<Rightarrow> {t} | ForEach _ _ _ past \<Rightarrow> {past} | _ \<Rightarrow> {})"

definition result_matches :: "InstructionKind \<Rightarrow> 'v list option \<Rightarrow> bool" where
  "result_matches k out \<longleftrightarrow> (out = None \<longleftrightarrow> \<not> returns k)"

lemma safe_stepping: "safe fn any ts m \<Longrightarrow> safe fn (\<lambda>out. out = None) ts (stepping m)"
proof (rule safeI)
  assume m: "safe fn any ts m"
  fix s r s' assume run: "frame_matches fn (frame s)" "stepping m s = (r, s')"
  obtain r1 s1 where m1: "m s = (r1, s1)" by (cases "m s")
  with run(2) have "s1 = s'" by (auto simp: stepping_def seq_def give_def split: sum.splits)
  with safe_cases(1) [OF m run(1) m1] show "frame_matches fn (frame s')" by simp
next
  assume m: "safe fn any ts m"
  fix s e s' assume run: "frame_matches fn (frame s)" "stepping m s = (Err e, s')"
  then have "m s = (Err e, s')" by (auto simp: stepping_def seq_def give_def split: prod.splits sum.splits)
  with safe_cases(2) [OF m run(1) this] show "\<not> escapes e \<and> frame_instruction (frame s') = frame_instruction (frame s)" by simp
next
  assume m: "safe fn any ts m"
  fix s out s' assume run: "frame_matches fn (frame s)" "stepping m s = (Ok out, s')"
  then have "m s = (Ok (), s')" "out = None" by (auto simp: stepping_def seq_def give_def split: prod.splits sum.splits)
  with safe_cases(3) [OF m run(1) this(1)]
  show "out = None \<and> (frame_instruction (frame s') = frame_instruction (frame s) \<or> frame_instruction (frame s') \<in> ts)" by simp
qed

lemma safe_returning: "safe fn any {} m \<Longrightarrow> safe fn (\<lambda>out. out \<noteq> None) {} (returning m)"
  unfolding returning_def by (rule safe_seq [where Q = any]) (auto intro: safe_done)

lemma arm_stepping:
  assumes "safe fn any ts m" "\<not> returns k" shows "safe fn (result_matches k) ts (stepping m)"
  unfolding result_matches_def using assms(2) safe_stepping [OF assms(1)] by simp

lemma arm_returning:
  assumes "safe fn any {} m" "returns k" shows "safe fn (result_matches k) {} (returning m)"
  unfolding result_matches_def using assms(2) safe_returning [OF assms(1)] by simp

lemma safe_pack_count [safe_rules]: "operand_in_range fn (RegisterOperand r) \<Longrightarrow> safe fn any ts (read_pack_count ops r)"
  unfolding read_pack_count_def by (intro safe_rules) simp_all

lemma safe_constant_value [safe_rules]:
  assumes "\<And>c. plain (constant_of ops c)" shows "safe fn any ts (constant_value ops md c)"
  unfolding constant_value_def
  by (cases c) (auto intro!: safe_then safe_look safe_register_code safe_done safe_plain assms split: option.splits)

lemma safe_dynamic [safe_rules]: "safe fn any ts (remove_dynamic L name)" "safe fn any ts (keep_dynamic L keeps)"
  unfolding remove_dynamic_def keep_dynamic_def
  by (intro safe_then safe_look safe_change_frame safe_notes; simp add: frame_matches_def)+

lemma frame_matches_fields [simp]:
  "frame_matches fn (fr\<lparr>named_bindings := b\<rparr>) = frame_matches fn fr" "frame_matches fn (fr\<lparr>imports_list := i\<rparr>) = frame_matches fn fr"
  "frame_matches fn (fr\<lparr>frame_instruction := p\<rparr>) = frame_matches fn fr"
  by (simp_all add: frame_matches_def)

lemma safe_arm_checks:
  assumes "\<And>x. x \<in> set (operands k) \<Longrightarrow> operand_in_range fn x"
  shows "k = RequireSinglePack p \<Longrightarrow> safe fn any ts (exec_require_single_pack p)"
    and "k = RequireDefined r c \<Longrightarrow> safe fn any ts (exec_require_defined ops fn r c)"
    and "k = SlicePack dst src start amount \<Longrightarrow> safe fn any ts (exec_slice_pack ops dst src start amount)"
    and "k = DeclareNamedBindings bs \<Longrightarrow> safe fn any {} (exec_declare_named_bindings fn bs)"
    and "k = DeclareImports cs \<Longrightarrow> safe fn any ts (exec_declare_imports fn cs)"
    and "safe fn any ts exec_clear_imports"
    and "k = Move dst' src' \<Longrightarrow> safe fn any ts (exec_move dst' src')"
    and "k = Unpack outputs p \<Longrightarrow> safe fn any {} (exec_unpack reserve' outputs p)"
proof -
  show "safe fn any ts (exec_require_single_pack p)" if "k = RequireSinglePack p"
    using assms that by (auto simp: exec_require_single_pack_def intro!: safe_then safe_pack_at safe_fails safe_done)
  show "safe fn any ts (exec_require_defined ops fn r c)" if "k = RequireDefined r c"
    unfolding exec_require_defined_def using assms that
    by (intro safe_then safe_value_at safe_if safe_named safe_look safe_fails safe_done) simp_all
  show "safe fn any ts (exec_slice_pack ops dst src start amount)" if "k = SlicePack dst src start amount"
    unfolding exec_slice_pack_def using assms that
    by (intro safe_then safe_pack_count safe_ok_or safe_pack_at safe_if safe_put_pack safe_fails) simp_all
  show "safe fn any {} (exec_declare_named_bindings fn bs)" if "k = DeclareNamedBindings bs"
    unfolding exec_declare_named_bindings_def
  proof (rule safe_each)
    fix x assume x: "x \<in> set bs"
    obtain c kind where pair: "x = (c, kind)" by (cases x)
    have "NameOperand c \<in> set (operands k)" using x that pair by (cases kind) force+
    with assms show "safe fn any {} ((\<lambda>(c, kind). seq (named fn ''named binding escaped validation'' c) (\<lambda>name.
        change_frame (\<lambda>fr. fr\<lparr>named_bindings := bt_insert name kind (named_bindings fr)\<rparr>))) x)"
      unfolding pair by (auto intro!: safe_then safe_named safe_change_frame)
  qed
  show "safe fn any ts (exec_declare_imports fn cs)" if "k = DeclareImports cs"
    using assms that by (auto simp: exec_declare_imports_def intro!: safe_then safe_each safe_named safe_change_frame safe_change)
  show "safe fn any ts exec_clear_imports"
    by (auto simp: exec_clear_imports_def intro!: safe_then safe_look safe_fails safe_change)
  show "safe fn any ts (exec_move dst' src')" if "k = Move dst' src'"
    using assms that by (auto simp: exec_move_def intro!: safe_then safe_value_at safe_put_value)
  show "safe fn any {} (exec_unpack reserve' outputs p)" if "k = Unpack outputs p"
    using assms that
    by (auto simp: exec_unpack_def intro!: safe_then safe_pack_at safe_fails safe_each safe_put_value dest!: set_zip_leftD)
qed

lemma safe_arm_names:
  assumes ops: "plain_operations fn ops assign" and range: "\<And>x. x \<in> set (operands k) \<Longrightarrow> operand_in_range fn x"
  shows "k = LoadConstant dst c \<Longrightarrow> safe fn any ts (exec_load_constant ops md fn dst c)"
    and "k = LoadCapture dst c \<Longrightarrow> safe fn any ts (exec_load_capture fn dst c)"
    and "k = StoreCapture c src \<Longrightarrow> safe fn any ts (exec_store_capture ops fn c src)"
    and "k = ClearCapture cs \<Longrightarrow> safe fn any {} (exec_clear_capture ops fn cs)"
    and "k = LoadGlobalOrNothing dst c \<Longrightarrow> safe fn any ts (exec_load_global_or_nothing ops fn dst c)"
    and "k = StoreGlobal c src \<Longrightarrow> safe fn any ts (exec_store_global ops fn c src)"
    and "k = ClearGlobal cs \<Longrightarrow> safe fn any {} (exec_clear_global ops fn cs)"
    and "safe fn any ts (clear_workspace_bindings (language ops))"
    and "k = DeclareGlobal c \<Longrightarrow> safe fn any ts (exec_declare_global ops fn c)"
    and "k = ClearDynamicBindings cs except \<Longrightarrow> safe fn any {} (exec_clear_dynamic_bindings ops fn cs except)"
proof -
  note copy = ops [unfolded plain_operations_def, THEN conjunct1, rule_format]
  have const: "plain (constant_of ops c)" for c using ops by (simp add: plain_operations_def)
  show "safe fn any ts (exec_load_constant ops md fn dst c)" if "k = LoadConstant dst c"
  proof -
    have "get (constants fn) (const_get c) \<noteq> None" "operand_in_range fn (RegisterOperand dst)"
      using range [of "ConstantOperand c"] range [of "RegisterOperand dst"] that by (simp_all add: operand_in_range_def get_def slice_get_def)
    then show ?thesis unfolding exec_load_constant_def
      by (intro safe_then safe_constant_value safe_put_value const safe_give) (auto simp: ok_or_def split: option.splits)
  qed
  show "safe fn any ts (exec_load_capture fn dst c)" if "k = LoadCapture dst c"
    using range that by (auto simp: exec_load_capture_def intro!: safe_then safe_named safe_capture safe_read_cell safe_put_value)
  show "safe fn any ts (exec_store_capture ops fn c src)" if "k = StoreCapture c src"
    using range that copy
    by (auto simp: exec_store_capture_def intro!: safe_then safe_named safe_value_at safe_copying safe_capture safe_swap_shared safe_notes)
  show "safe fn any {} (exec_clear_capture ops fn cs)" if "k = ClearCapture cs"
    using range that
    by (auto simp: exec_clear_capture_def intro!: safe_each safe_then safe_named safe_capture safe_swap_shared safe_notes)
  show "safe fn any ts (exec_load_global_or_nothing ops fn dst c)" if "k = LoadGlobalOrNothing dst c"
    using range that by (auto simp: exec_load_global_or_nothing_def intro!: safe_then safe_named safe_look safe_put_value)
  show "safe fn any ts (exec_store_global ops fn c src)" if "k = StoreGlobal c src"
    using range that copy
    by (auto simp: exec_store_global_def intro!: safe_then safe_named safe_value_at safe_copying safe_bindings)
  show "safe fn any {} (exec_clear_global ops fn cs)" if "k = ClearGlobal cs"
    using range that by (auto simp: exec_clear_global_def intro!: safe_each safe_then safe_named safe_bindings)
  show "safe fn any ts (clear_workspace_bindings (language ops))"
  proof -
    have "safe fn any {} (each (note_removal (language ops)) vs)" for vs by (intro safe_each safe_notes)
    then have "safe fn any ts (each (note_removal (language ops)) vs)" for vs by (rule safe_mono) simp
    then show ?thesis unfolding clear_workspace_bindings_def by (intro safe_then safe_look safe_change) simp_all
  qed
  show "safe fn any ts (exec_declare_global ops fn c)" if "k = DeclareGlobal c"
    using range that by (auto simp: exec_declare_global_def intro!: safe_then safe_named safe_change)
  show "safe fn any {} (exec_clear_dynamic_bindings ops fn cs except)" if "k = ClearDynamicBindings cs except"
    using range that
    by (auto simp: exec_clear_dynamic_bindings_def intro!: safe_then safe_collect safe_named safe_dynamic safe_each)
qed

lemma safe_arm_values:
  assumes ops: "plain_operations fn ops assign" and range: "\<And>x. x \<in> set (operands k) \<Longrightarrow> operand_in_range fn x"
  shows "k = LoadLocal dst l \<Longrightarrow> safe fn any ts (exec_load_local dst l)"
    and "k = StoreLocal l src \<Longrightarrow> safe fn any ts (exec_store_local ops l src)"
    and "k = ClearLocal ls \<Longrightarrow> safe fn any {} (exec_clear_local ops ls)"
    and "safe fn any ts (exec_declare_persistent ops fn slot)"
    and "k = LoadPersistent dst slot \<Longrightarrow> safe fn any ts (exec_load_persistent ops fn dst slot)"
    and "k = StorePersistent slot src \<Longrightarrow> safe fn any ts (exec_store_persistent ops fn slot src)"
    and "k = LoadCallInputCount dst \<Longrightarrow> safe fn any ts (exec_load_call_input_count ops dst)"
    and "k = LoadCallOutputCount dst \<Longrightarrow> safe fn any ts (exec_load_call_output_count ops dst)"
    and "k = LoadVariadicInputs dst \<Longrightarrow> safe fn any ts (exec_load_variadic_inputs ops fn dst)"
    and "k = MakeClosure dst f caps \<Longrightarrow> safe fn any ts (exec_make_closure ops md fn dst f caps)"
    and "k = MakeSharedClosure dst f shares \<Longrightarrow> safe fn any ts (exec_make_shared_closure ops md fn dst f shares)"
    and "k = JumpIfFalse r t \<Longrightarrow> safe fn any {t} (exec_jump_if_false ops r t)"
    and "k = ForEach it ix dst past \<Longrightarrow> safe fn any {past} (exec_for_each ops it ix dst past)"
    and "k = Return rs \<Longrightarrow> safe fn any {} (exec_return rs)"
    and "k = ReturnVariadic rs r \<Longrightarrow> safe fn any {} (exec_return_variadic ops rs r)"
proof -
  note copy = ops [unfolded plain_operations_def, THEN conjunct1, rule_format]
  have plains: "plain (cell_row ops vs)" "plain (condition_of ops v)" "plain (for_iteration ops v i)" for vs v i
    using ops by (simp_all add: plain_operations_def)
  show "safe fn any ts (exec_load_local dst l)" if "k = LoadLocal dst l"
    using range that by (auto simp: exec_load_local_def intro!: safe_then safe_load_local safe_put_value)
  show "safe fn any ts (exec_store_local ops l src)" if "k = StoreLocal l src"
    using range that copy by (auto simp: exec_store_local_def intro!: safe_then safe_value_at safe_copying safe_swap_local safe_notes)
  show "safe fn any {} (exec_clear_local ops ls)" if "k = ClearLocal ls"
    using range that by (auto simp: exec_clear_local_def intro!: safe_each safe_then safe_swap_local safe_notes)
  show "safe fn any ts (exec_declare_persistent ops fn slot)"
    by (auto simp: exec_declare_persistent_def intro!: safe_then safe_bindings safe_done)
  show "safe fn any ts (exec_load_persistent ops fn dst slot)" if "k = LoadPersistent dst slot"
    using range that by (auto simp: exec_load_persistent_def intro!: safe_then safe_bindings safe_put_value)
  show "safe fn any ts (exec_store_persistent ops fn slot src)" if "k = StorePersistent slot src"
    using range that copy by (auto simp: exec_store_persistent_def intro!: safe_then safe_value_at safe_copying safe_look safe_bindings)
  show "safe fn any ts (exec_load_call_input_count ops dst)" if "k = LoadCallInputCount dst"
    using range that by (auto simp: exec_load_call_input_count_def intro!: safe_then safe_look safe_put_value)
  show "safe fn any ts (exec_load_call_output_count ops dst)" if "k = LoadCallOutputCount dst"
    using range that by (auto simp: exec_load_call_output_count_def intro!: safe_then safe_look safe_put_value)
  show "safe fn any ts (exec_load_variadic_inputs ops fn dst)" if "k = LoadVariadicInputs dst"
    using range that plains by (auto simp: exec_load_variadic_inputs_def intro!: safe_then safe_look safe_plain safe_put_value)
  show "safe fn any ts (exec_make_closure ops md fn dst f caps)" if "k = MakeClosure dst f caps"
    unfolding exec_make_closure_def using range that copy by (intro safe_then safe_capture_all safe_make_closure) auto
  show "safe fn any ts (exec_make_shared_closure ops md fn dst f shares)" if "k = MakeSharedClosure dst f shares"
    unfolding exec_make_shared_closure_def using range that by (intro safe_then safe_share_all safe_make_closure) auto
  show "safe fn any {t} (exec_jump_if_false ops r t)" if "k = JumpIfFalse r t"
    using range that plains by (auto simp: exec_jump_if_false_def intro!: safe_then safe_value_at safe_plain safe_done safe_jump)
  show "safe fn any {past} (exec_for_each ops it ix dst past)" if "k = ForEach it ix dst past"
    using range that plains
    by (auto simp: exec_for_each_def intro!: safe_then safe_value_at safe_ok_or safe_plain safe_put_value safe_jump split: option.splits)
  show "safe fn any {} (exec_return rs)" if "k = Return rs"
    using range that by (auto simp: exec_return_def intro!: safe_collect safe_value_at)
  show "safe fn any {} (exec_return_variadic ops rs r)" if "k = ReturnVariadic rs r"
    using range that
    by (auto simp: exec_return_variadic_def intro!: safe_then safe_collect safe_value_at safe_look safe_done safe_fails split: option.splits)
qed

lemma safe_instruction_arm:
  assumes ops: "plain_operations fn ops assign" and range: "\<And>x. x \<in> set (operands k) \<Longrightarrow> operand_in_range fn x"
    and arm: "instruction_arm reserve ops assign md fn k = Some m"
  shows "safe fn (result_matches k) (jumps k) m"
proof -
  note arms = safe_arm_checks(1-5,7,8) [OF _ refl] safe_arm_checks(6) [where k = ClearImports] safe_arm_names(1-7,9,10) [OF ops _ refl]
    safe_arm_names(8) [OF ops, where k = ClearImports] safe_arm_values(1-3,5-15) [OF ops _ refl] safe_arm_values(4) [OF ops, where k = ClearImports]
    safe_assign_binding_place [OF ops]
  have "pred_option (safe fn (result_matches k) (jumps k)) (instruction_arm reserve ops assign md fn k)"
    using range
    by (cases k; simp add: instruction_arm_def jumps_def; intro arm_stepping arm_returning arms safe_jump; simp add: returns_def)
  with arm show ?thesis by simp
qed

subsection \<open>Turns of a verified function\<close>

lemma unwound_uncatchable:
  "catchable_identifier e = None \<Longrightarrow> unwind_frame_error catchable_identifier desc berr ex n st fn fr i e =
     (record_last_error catchable_identifier desc st e, fr, Err e)"
  by (simp add: unwind_frame_error_def)

text \<open>An arm's outcome, for an instruction of the stream.\<close>

lemma fetched_arm:
  assumes run: "fetch_and_run reserve ops assign collect_garbage cancelled md fn s = Some (r, s1)"
    and gc: "frame (collect_garbage s) = frame s"
  obtains "get (instructions fn) (index_get (frame_instruction (frame s))) = None"
      "r = Err (InstructionPointerOutOfBounds (frame_function (frame s)) (frame_instruction (frame s)))" "frame s1 = frame s"
  | "r = Err Cancelled" "frame s1 = frame s"
  | ins arm s0 where "get (instructions fn) (index_get (frame_instruction (frame s))) = Some ins"
      "instruction_arm reserve ops assign md fn (instr_kind ins) = Some arm" "arm s0 = (r, s1)"
      "frame s0 = (frame s)\<lparr>frame_instruction := next_index (frame_instruction (frame s))\<rparr>"
proof (cases "get (instructions fn) (index_get (frame_instruction (frame s)))")
  case None
  with run gc that(1) show ?thesis by (auto simp: fetch_and_run_def Let_def)
next
  case (Some ins)
  show ?thesis
  proof (cases "cancelled (collect_garbage s)")
    case True
    with run gc Some that(2) show ?thesis by (auto simp: fetch_and_run_def Let_def)
  next
    case False
    with run gc Some obtain arm where "instruction_arm reserve ops assign md fn (instr_kind ins) = Some arm"
        "arm (collect_garbage s\<lparr>frame := (frame s)\<lparr>frame_instruction := next_index (frame_instruction (frame s))\<rparr>\<rparr>) = (r, s1)"
      by (auto simp: fetch_and_run_def Let_def)
    from that(3) [OF Some this] show ?thesis by simp
  qed
qed

lemma arm_control:
  assumes ins: "get (instructions fn) (index_get pc) = Some ins" and range: "\<forall>x\<in>set (operands (instr_kind ins)). operand_in_range fn x"
    and ops: "plain_operations fn ops assign"
    and arm: "instruction_arm reserve ops assign md fn (instr_kind ins) = Some arm" "arm s0 = (r, s1)"
    and fr: "frame_matches fn (frame s0)" "frame_instruction (frame s0) = next_index pc"
  shows "frame_matches fn (frame s1)"
    and "r = Err e \<Longrightarrow> \<not> escapes e \<and> frame_instruction (frame s1) = next_index pc"
    and "r = Ok (Some vs) \<Longrightarrow> returns (instr_kind ins)"
    and "r = Ok None \<Longrightarrow> control_step fn pc (frame_instruction (frame s1))"
proof -
  have arm_safe: "safe fn (result_matches (instr_kind ins)) (jumps (instr_kind ins)) arm"
    by (rule safe_instruction_arm [OF ops _ arm(1)]) (use range in blast)
  note safe = safe_cases [OF arm_safe fr(1) arm(2)]
  show "frame_matches fn (frame s1)" by (rule safe(1))
  show "\<not> escapes e \<and> frame_instruction (frame s1) = next_index pc" if "r = Err e" using safe(2) [OF that] fr(2) by simp
  show "returns (instr_kind ins)" if "r = Ok (Some vs)" using safe(3) [OF that] by (simp add: result_matches_def)
  assume ended: "r = Ok None"
  have stays: "\<not> returns (instr_kind ins)" and pointer: "frame_instruction (frame s1) = next_index pc \<or> frame_instruction (frame s1) \<in> jumps (instr_kind ins)"
    using safe(3) [OF ended] fr(2) by (auto simp: result_matches_def)
  show "control_step fn pc (frame_instruction (frame s1))"
  proof (cases "\<exists>t. instr_kind ins = Jump t")
    case True
    then obtain t where t: "instr_kind ins = Jump t" by blast
    with arm have "frame_instruction (frame s1) = t"
      by (auto simp: instruction_arm_def stepping_def seq_def give_def jump_to_def change_frame_def)
    with control_step.jump [OF ins t] show ?thesis by simp
  next
    case False
    show ?thesis
    proof (cases "frame_instruction (frame s1) = next_index pc")
      case True
      with control_step.fall_through [OF ins stays] False show ?thesis by auto
    next
      case pointer': False
      with pointer False ins show ?thesis
        by (cases "instr_kind ins") (auto simp: jumps_def intro: control_step.intros)
    qed
  qed
qed

definition plain_exceptions :: "('v, 'd, 'x, 'l) exception_builder \<Rightarrow> bool" where
  "plain_exceptions ex \<longleftrightarrow> (\<forall>st e identifier. plain (snd (ex st e identifier)))"

lemma plain_exceptionsD: "plain_exceptions ex \<Longrightarrow> ex st e identifier = (st', Err e') \<Longrightarrow> \<not> escapes e'"
  unfolding plain_exceptions_def plain_def by (metis snd_conv sum.case(1))

abbreviation unwound_from where
  "unwound_from describe exception_object forget_scope ops fn s e \<equiv>
     unwind_frame_error catchable_identifier describe (\<lambda>_ m. invalid_state m) exception_object
       (no_value (language ops)) (forget_scope (host s)) fn (frame s) (failed_instruction (frame_instruction (frame s))) e"

text \<open>What a turn of the frame loop makes of the outcome of the fetched instruction.\<close>

lemma frame_turn_run:
  assumes "frame_turn describe exception_object forget_scope reserve ops assign collect_garbage cancelled md fn s = Some t"
  obtains r s1 where "fetch_and_run reserve ops assign collect_garbage cancelled md fn s = Some (r, s1)"
    and "t = (case r of Inr None \<Rightarrow> Continue s1 | Inr (Some vs) \<Rightarrow> Finished (Ok vs) s1
      | Inl e \<Rightarrow> (case unwound_from describe exception_object forget_scope ops fn s1 e of
          (st, fr, Inr ()) \<Rightarrow> Continue (s1\<lparr>frame := fr, host := st\<rparr>)
        | (st, fr, Inl e') \<Rightarrow> Finished (Err e') (s1\<lparr>frame := fr, host := st\<rparr>)))"
proof -
  obtain r s1 where "fetch_and_run reserve ops assign collect_garbage cancelled md fn s = Some (r, s1)"
    using assms by (auto simp: frame_turn_def)
  with assms show thesis
    by (intro that) (auto simp: frame_turn_def Let_def split: sum.splits option.splits prod.splits unit.splits)
qed

text \<open>An error of a verified function's instruction resumes at its innermost handler or leaves the frame hidden.\<close>

lemma unwound_outcome:
  assumes verified: "verify_function module fid fn = Ok ()" and ins: "get (instructions fn) (index_get pc) = Some ins"
    and fr: "frame_matches fn (frame s1)" "frame_instruction (frame s1) = next_index pc"
    and e: "\<not> escapes e" "plain_exceptions exception_object"
    and u: "unwound_from describe exception_object forget_scope ops fn s1 e = (st, fr', caught)"
  shows "frame_matches fn fr' \<and> (case caught of
      Inr _ \<Rightarrow> control_step fn pc (frame_instruction fr') | Inl e' \<Rightarrow> \<not> escapes e')"
proof -
  note unwind = unwind_frame_error_result [OF verify_function_Ok(4) [OF verified] fr(1) u]
  show ?thesis
  proof (cases caught)
    case (Inr x)
    then obtain h where "innermost_exception_handler fn (failed_instruction (next_index pc)) = Some h"
        "frame_instruction fr' = resume_point h" using unwind(1) fr(2) by auto
    with control_step.caught [OF ins] unwind(3) Inr show ?thesis by simp
  next
    case (Inl e')
    then show ?thesis using unwind(3) unwind(5) [OF Inl] e plain_exceptionsD [OF e(2)] by auto
  qed
qed


lemma list_operations_plain: "plain_operations fn list_operations (\<lambda>v _ _ _. give (Ok v))"
  by (simp add: plain_operations_def list_operations_def list_language_def safe_done plain_def)

definition fresh_host :: "string ErrorState" where
  "fresh_host = \<lparr>last_error = None, pending_exception = None\<rparr>"


end
