(* ===== verification/Gc_Trace.thy ===== *)
theory Gc_Trace
  imports Object_Store Interp_Frame
begin

section \<open>Tracing values and closures (openmat-value/src/value.rs, openmat-runtime/src/interpreter.rs)\<close>

text \<open>
  Which objects a language value keeps alive: those nested in it, and those captured by the closures
  nested in it, transitively. Both walks are worklists with the pending items on a stack whose top is
  the end of the list. The walk over closures remembers the closures it has seen in a set that the
  caller keeps from one value to the next, so a later walk reports only what earlier ones did not;
  the locale states that contract and the marking loop of the collector is proved exact over it.
\<close>

subsection \<open>Values\<close>

text \<open>\<open>Plain\<close> stands for the values that hold no handles: scalars, text, arrays, graphics.\<close>

datatype 'p Value =
    Nothing
  | Plain 'p
  | Cell "'p Value list"
  | Struct "'p Value list list"
  | Table "'p Value list"
  | ObjectValue ObjectId
  | ObjectArray "ObjectId list"
  | BytecodeFunction nat
  | OtherFunction 'p

lemma sum_list_size: "sum_list (map size vs) \<le> size_list size (vs :: 'p Value list)"
  by (induction vs) auto

lemma sum_list_sizes: "sum_list (map size (concat vss)) \<le> size_list (size_list size) (vss :: 'p Value list list)"
proof (induction vss)
  case (Cons vs vss)
  with sum_list_size [of vs] show ?case by simp
qed simp

lemma sum_list_last: "xs \<noteq> [] \<Longrightarrow> sum_list (map f xs) = sum_list (map f (butlast xs)) + (f (last xs) :: nat)"
  by (induction xs rule: rev_induct) auto

function trace_values :: "'p Value list \<Rightarrow> ObjectId list \<Rightarrow> nat list \<Rightarrow> ObjectId list \<times> nat list" where
  "trace_values pending objs funs =
     (if pending = [] then (objs, funs)
      else let rest = butlast pending in
        case last pending of
          Cell vs \<Rightarrow> trace_values (rest @ vs) objs funs
        | Struct columns \<Rightarrow> trace_values (rest @ concat columns) objs funs
        | Table vs \<Rightarrow> trace_values (rest @ vs) objs funs
        | ObjectValue h \<Rightarrow> trace_values rest (objs @ [h]) funs
        | ObjectArray hs \<Rightarrow> trace_values rest (objs @ hs) funs
        | BytecodeFunction h \<Rightarrow> trace_values rest objs (funs @ [h])
        | Nothing \<Rightarrow> trace_values rest objs funs
        | Plain _ \<Rightarrow> trace_values rest objs funs
        | OtherFunction _ \<Rightarrow> trace_values rest objs funs)"
  by pat_completeness auto
termination
  by (relation "measure (\<lambda>(pending, _, _). sum_list (map size pending))")
    (auto simp: sum_list_last less_Suc_eq_le sum_list_size sum_list_sizes)

declare trace_values.simps [simp del]

definition trace_handles :: "'p Value \<Rightarrow> ObjectId list \<times> nat list" where
  "trace_handles v = trace_values [v] [] []"

text \<open>What the walk has to find.\<close>

primrec value_objects :: "'p Value \<Rightarrow> ObjectId set" where
  "value_objects Nothing = {}"
| "value_objects (Plain p) = {}"
| "value_objects (Cell vs) = \<Union> (set (map value_objects vs))"
| "value_objects (Struct columns) = \<Union> (set (concat (map (map value_objects) columns)))"
| "value_objects (Table vs) = \<Union> (set (map value_objects vs))"
| "value_objects (ObjectValue h) = {h}"
| "value_objects (ObjectArray hs) = set hs"
| "value_objects (BytecodeFunction h) = {}"
| "value_objects (OtherFunction p) = {}"

primrec value_functions :: "'p Value \<Rightarrow> nat set" where
  "value_functions Nothing = {}"
| "value_functions (Plain p) = {}"
| "value_functions (Cell vs) = \<Union> (set (map value_functions vs))"
| "value_functions (Struct columns) = \<Union> (set (concat (map (map value_functions) columns)))"
| "value_functions (Table vs) = \<Union> (set (map value_functions vs))"
| "value_functions (ObjectValue h) = {}"
| "value_functions (ObjectArray hs) = {}"
| "value_functions (BytecodeFunction h) = {h}"
| "value_functions (OtherFunction p) = {}"

lemma trace_values_exact:
  "set (fst (trace_values pending objs funs)) = set objs \<union> \<Union> (value_objects ` set pending) \<and>
   set (snd (trace_values pending objs funs)) = set funs \<union> \<Union> (value_functions ` set pending)"
proof (induction pending objs funs rule: trace_values.induct)
  case (1 pending objs funs)
  show ?case
  proof (cases "pending = []")
    case True
    then show ?thesis by (simp add: trace_values.simps)
  next
    case False
    note IH = "1.IH" [OF False refl]
    show ?thesis
      unfolding set_stack [OF False]
      by (cases "last pending") (use False IH in \<open>auto simp: trace_values.simps [of pending]\<close>)
  qed
qed

lemma trace_handles_exact:
  "set (fst (trace_handles v)) = value_objects v" "set (snd (trace_handles v)) = value_functions v"
  using trace_values_exact [of "[v]" "[]" "[]"] by (simp_all add: trace_handles_def)

subsection \<open>Closures\<close>

type_synonym 'p function_table = "(nat, 'p Value RuntimeFunctionCode) btree"

text \<open>Tracing reads a shared cell even when its lock is poisoned.\<close>

definition shared_gc_value :: "'v cells \<Rightarrow> nat \<Rightarrow> 'v" where
  "shared_gc_value h a = cell_value (h ! a)"

definition captured_gc_value :: "'v cells \<Rightarrow> 'v CapturedBinding \<Rightarrow> 'v option" where
  "captured_gc_value h b =
     (case b of CapturedValue v \<Rightarrow> Some v | CapturedShared a \<Rightarrow> Some (shared_gc_value h a) | MissingValue \<Rightarrow> None | ResolverOnly \<Rightarrow> None)"

definition captured_values :: "'p Value cells \<Rightarrow> 'p Value RuntimeFunctionCode \<Rightarrow> 'p Value list" where
  "captured_values h code = List.map_filter (\<lambda>(_, b). captured_gc_value h b) (code_captures code)"

lemma unvisited_decreases:
  assumes "bt_get fh f = Some code" and "f \<notin> visited"
  shows "card (dom (bt_get fh) - insert f visited) < card (dom (bt_get fh) - visited)"
proof (rule psubset_card_mono)
  show "finite (dom (bt_get fh) - visited)" unfolding bt_get_def by (simp add: finite_dom_map_of)
  show "dom (bt_get fh) - insert f visited \<subset> dom (bt_get fh) - visited" using assms by blast
qed

lemma unvisited_mono: "card (dom (bt_get fh) - insert f visited) \<le> card (dom (bt_get fh) - visited)"
  unfolding bt_get_def by (intro card_mono) (auto simp: finite_dom_map_of)

function trace_functions :: "'p Value cells \<Rightarrow> 'p function_table \<Rightarrow> nat set \<Rightarrow> nat list \<Rightarrow> ObjectId list \<Rightarrow> nat set \<times> ObjectId list" where
  "trace_functions h fh visited pending objs =
     (if pending = [] then (visited, objs)
      else let f = last pending; rest = butlast pending in
        if f \<in> visited then trace_functions h fh visited rest objs
        else case bt_get fh f of
          None \<Rightarrow> trace_functions h fh (insert f visited) rest objs
        | Some code \<Rightarrow>
            let traced = map trace_handles (captured_values h code)
            in trace_functions h fh (insert f visited) (rest @ concat (map snd traced)) (objs @ concat (map fst traced)))"
  by pat_completeness auto
termination
proof (relation "inv_image (less_than <*lex*> less_than)
    (\<lambda>(_, fh, visited, pending, _). (card (dom (bt_get fh) - visited), length pending))", goal_cases)
  case (3 h fh visited pending objs f rest)
  then show ?case using unvisited_mono [of fh f visited] by (auto simp: le_less)
qed (auto simp: unvisited_decreases)

declare trace_functions.simps [simp del]

definition trace_gc_value :: "'p Value cells \<Rightarrow> 'p function_table \<Rightarrow> nat set \<Rightarrow> 'p Value \<Rightarrow> nat set \<times> ObjectId list" where
  "trace_gc_value h fh visited v = (let (objs, funs) = trace_handles v in trace_functions h fh visited funs objs)"

subsection \<open>What tracing must report\<close>

definition captures_of :: "'p Value cells \<Rightarrow> 'p function_table \<Rightarrow> nat \<Rightarrow> 'p Value set" where
  "captures_of h fh f = (case bt_get fh f of None \<Rightarrow> {} | Some code \<Rightarrow> set (captured_values h code))"

definition closure_edge :: "'p Value cells \<Rightarrow> 'p function_table \<Rightarrow> nat \<Rightarrow> nat \<Rightarrow> bool" where
  "closure_edge h fh f g \<longleftrightarrow> (\<exists>v \<in> captures_of h fh f. g \<in> value_functions v)"

definition captured_objects :: "'p Value cells \<Rightarrow> 'p function_table \<Rightarrow> nat set \<Rightarrow> ObjectId set" where
  "captured_objects h fh fs = (\<Union>f \<in> fs. \<Union> (value_objects ` captures_of h fh f))"

text \<open>The objects a value keeps alive.\<close>

definition holds :: "'p Value cells \<Rightarrow> 'p function_table \<Rightarrow> 'p Value \<Rightarrow> ObjectId set" where
  "holds h fh v = value_objects v \<union> captured_objects h fh {g. \<exists>f \<in> value_functions v. (closure_edge h fh)\<^sup>*\<^sup>* f g}"

text \<open>A set of closures all of whose captured closures are in the set or still to be walked.\<close>

definition closed_but :: "'p Value cells \<Rightarrow> 'p function_table \<Rightarrow> nat set \<Rightarrow> nat set \<Rightarrow> bool" where
  "closed_but h fh todo fs \<longleftrightarrow> (\<forall>f \<in> fs. \<forall>g. closure_edge h fh f g \<longrightarrow> g \<in> fs \<union> todo)"

lemma traced_captures:
  assumes "bt_get fh f = Some code"
  shows "set (concat (map snd (map trace_handles (captured_values h code)))) = {g. closure_edge h fh f g}"
    and "set (concat (map fst (map trace_handles (captured_values h code)))) = captured_objects h fh {f}"
  using assms by (auto simp: closure_edge_def captures_of_def captured_objects_def trace_handles_exact)

text \<open>What a walk from \<open>todo\<close> with \<open>visited\<close> behind it has to deliver.\<close>

definition walked :: "'p Value cells \<Rightarrow> 'p function_table \<Rightarrow> nat set \<Rightarrow> nat set \<Rightarrow> ObjectId set \<Rightarrow> nat set \<Rightarrow> ObjectId set \<Rightarrow> bool" where
  "walked h fh visited todo objs visited' objs' \<longleftrightarrow>
     visited \<union> todo \<subseteq> visited' \<and> visited' \<subseteq> visited \<union> {g. \<exists>f \<in> todo. (closure_edge h fh)\<^sup>*\<^sup>* f g} \<and>
     objs' = objs \<union> captured_objects h fh (visited' - visited) \<and>
     (closed_but h fh todo visited \<longrightarrow> closed_but h fh {} visited')"

lemma captured_objects_insert: "captured_objects h fh (insert f fs) = captured_objects h fh {f} \<union> captured_objects h fh fs"
  by (simp add: captured_objects_def)

lemma walked_seen: "f \<in> visited \<Longrightarrow> walked h fh visited todo objs visited' objs' \<Longrightarrow> walked h fh visited (insert f todo) objs visited' objs'"
  by (auto simp: walked_def closed_but_def)

lemma walked_step:
  assumes new: "f \<notin> visited"
    and rest: "walked h fh (insert f visited) (todo \<union> {g. closure_edge h fh f g}) (objs \<union> captured_objects h fh {f}) visited' objs'"
  shows "walked h fh visited (insert f todo) objs visited' objs'"
proof -
  have "visited' - visited = insert f (visited' - insert f visited)" using new rest by (auto simp: walked_def)
  then have objs: "objs' = objs \<union> captured_objects h fh (visited' - visited)"
    using rest captured_objects_insert [of h fh f "visited' - insert f visited"] by (simp add: walked_def Un_assoc)
  have "visited' \<subseteq> insert f visited \<union> {g. \<exists>e \<in> todo \<union> {g. closure_edge h fh f g}. (closure_edge h fh)\<^sup>*\<^sup>* e g}"
    using rest by (simp add: walked_def)
  then have reach: "visited' \<subseteq> visited \<union> {g. \<exists>e \<in> insert f todo. (closure_edge h fh)\<^sup>*\<^sup>* e g}"
    by (auto intro: converse_rtranclp_into_rtranclp)
  have "closed_but h fh {} visited'" if "closed_but h fh (insert f todo) visited"
    using that rest by (auto simp: walked_def closed_but_def)
  with objs reach rest show ?thesis by (auto simp: walked_def)
qed

lemma trace_functions_walked:
  "walked h fh visited (set pending) (set objs) (fst (trace_functions h fh visited pending objs))
     (set (snd (trace_functions h fh visited pending objs)))"
proof (induction h fh visited pending objs rule: trace_functions.induct)
  case (1 h fh visited pending objs)
  show ?case
  proof (cases "pending = []")
    case True
    then show ?thesis by (simp add: trace_functions.simps walked_def captured_objects_def)
  next
    case False
    let ?f = "last pending" and ?rest = "butlast pending"
    show ?thesis
    proof (cases "?f \<in> visited")
      case True
      with False "1.IH"(1) [OF False refl refl True] show ?thesis
        unfolding set_stack [OF False] by (simp add: trace_functions.simps [of h fh visited pending] walked_seen)
    next
      case unseen: False
      show ?thesis
      proof (cases "bt_get fh ?f")
        case None
        then have none: "set ?rest \<union> {g. closure_edge h fh ?f g} = set ?rest" "set objs \<union> captured_objects h fh {?f} = set objs"
          by (simp_all add: captured_objects_def captures_of_def closure_edge_def)
        have "trace_functions h fh visited pending objs = trace_functions h fh (insert ?f visited) ?rest objs"
          using None unseen False by (simp add: trace_functions.simps [of h fh visited pending])
        with "1.IH"(2) [OF False refl refl unseen None] show ?thesis
          unfolding set_stack [OF False] by (intro walked_step [OF unseen]) (simp only: none)
      next
        case (Some code)
        from "1.IH"(3) [OF False refl refl unseen Some refl] unseen False Some show ?thesis
          unfolding set_stack [OF False]
          by (intro walked_step) (simp_all add: trace_functions.simps [of h fh visited pending] Let_def traced_captures [OF Some, of h, simplified])
      qed
    qed
  qed
qed

text \<open>The memory of a walk: its closures are closed under capture and their objects have been reported.\<close>

definition walk_known :: "'p Value cells \<Rightarrow> 'p function_table \<Rightarrow> nat set \<Rightarrow> ObjectId set \<Rightarrow> bool" where
  "walk_known h fh visited reported \<longleftrightarrow> closed_but h fh {} visited \<and> captured_objects h fh visited \<subseteq> reported"

definition full_trace :: "'p Value cells \<Rightarrow> 'p function_table \<Rightarrow> 'p Value \<Rightarrow> ObjectId list" where
  "full_trace h fh v = snd (trace_gc_value h fh {} v)"

lemma captured_objects_mono: "fs \<subseteq> gs \<Longrightarrow> captured_objects h fh fs \<subseteq> captured_objects h fh gs"
  by (auto simp: captured_objects_def)

lemma captured_objects_Un: "captured_objects h fh (fs \<union> gs) = captured_objects h fh fs \<union> captured_objects h fh gs"
  by (auto simp: captured_objects_def)

lemma closed_reach:
  assumes "closed_but h fh {} fs" and "(closure_edge h fh)\<^sup>*\<^sup>* f g" and "f \<in> fs"
  shows "g \<in> fs"
  using assms(2,3) by (induction rule: rtranclp_induct) (use assms(1) in \<open>auto simp: closed_but_def\<close>)

lemma trace_gc_value_reports:
  assumes known: "walk_known h fh visited D" and trace: "trace_gc_value h fh visited v = (visited', out)"
  shows "set out \<subseteq> holds h fh v" and "holds h fh v \<subseteq> D \<union> set out" and "walk_known h fh visited' (D \<union> set out)"
proof -
  have w: "walked h fh visited (value_functions v) (value_objects v) visited' (set out)"
    using trace_functions_walked [of h fh visited "snd (trace_handles v)" "fst (trace_handles v)"] trace
    by (simp add: trace_gc_value_def case_prod_beta trace_handles_exact)
  have closed: "closed_but h fh {} visited'"
    using w known by (auto simp: walked_def walk_known_def closed_but_def)
  have out: "set out = value_objects v \<union> captured_objects h fh (visited' - visited)" using w by (simp add: walked_def)
  show "set out \<subseteq> holds h fh v"
    unfolding out holds_def using w by (intro Un_mono captured_objects_mono) (auto simp: walked_def)
  have covered: "captured_objects h fh visited' \<subseteq> D \<union> set out"
  proof -
    have "captured_objects h fh visited' \<subseteq> captured_objects h fh (visited \<union> (visited' - visited))"
      by (rule captured_objects_mono) auto
    then show ?thesis unfolding captured_objects_Un out using known by (auto simp: walk_known_def)
  qed
  show "walk_known h fh visited' (D \<union> set out)" using closed covered by (simp add: walk_known_def)
  have "{g. \<exists>f \<in> value_functions v. (closure_edge h fh)\<^sup>*\<^sup>* f g} \<subseteq> visited'"
    using closed_reach [OF closed] w by (auto simp: walked_def)
  from captured_objects_mono [OF this, of h fh] covered show "holds h fh v \<subseteq> D \<union> set out" by (auto simp: holds_def out)
qed

lemma full_trace_exact: "set (full_trace h fh v) = holds h fh v"
proof -
  have "walk_known h fh {} {}" by (simp add: walk_known_def closed_but_def captured_objects_def)
  from trace_gc_value_reports(1,2) [OF this] show ?thesis
    unfolding full_trace_def by (metis Un_empty_left subset_antisym surjective_pairing)
qed

subsection \<open>Memoising tracers\<close>

text \<open>
  The callback given to the collector may keep state between calls. What the marking loop needs of it:
  relative to a set of objects reported so far, each call reports only objects of its argument and
  leaves out none but those.
\<close>

primrec trace_all :: "('c \<Rightarrow> 's \<Rightarrow> 'c \<times> ObjectId list) \<Rightarrow> 'c \<Rightarrow> 's list \<Rightarrow> 'c \<times> ObjectId list" where
  "trace_all tr c [] = (c, [])"
| "trace_all tr c (v # vs) = (let (c1, out) = tr c v; (c2, more) = trace_all tr c1 vs in (c2, out @ more))"

text \<open>The marking loop of the collector with the state of its callback made explicit.\<close>

function mark_loop_with :: "('c \<Rightarrow> 's \<Rightarrow> 'c \<times> ObjectId list) \<Rightarrow> (ObjectId, 's ObjectRecord) btree \<Rightarrow> 'c \<Rightarrow> ObjectId list \<Rightarrow> ObjectId set \<Rightarrow>
    'c \<times> ObjectId set" where
  "mark_loop_with tr objs c pending marked =
     (if pending = [] then (c, marked)
      else let i = last pending; rest = butlast pending in
        if i \<in> marked then mark_loop_with tr objs c rest marked
        else case bt_get objs i of
          None \<Rightarrow> mark_loop_with tr objs c rest marked
        | Some r \<Rightarrow>
            if not_alive_handle r then mark_loop_with tr objs c rest marked
            else let (c', outgoing) = trace_all tr c (map snd (rec_slots r))
                 in mark_loop_with tr objs c' (rest @ outgoing) (insert i marked))"
  by pat_completeness auto
termination
  by (relation "inv_image (less_than <*lex*> less_than)
       (\<lambda>(_, objs, _, pending, marked). (card (dom (bt_get objs) - marked), length pending))")
     (auto simp: mark_measure_decreases)

declare mark_loop_with.simps [simp del]

locale memo_tracer =
  fixes tr :: "'c \<Rightarrow> 's \<Rightarrow> 'c \<times> ObjectId list" and pure :: "'s \<Rightarrow> ObjectId list" and known :: "'c \<Rightarrow> ObjectId set \<Rightarrow> bool"
  assumes reports: "known c D \<Longrightarrow> tr c s = (c', out) \<Longrightarrow>
    set out \<subseteq> set (pure s) \<and> set (pure s) \<subseteq> D \<union> set out \<and> known c' (D \<union> set out)"
    and reported_more: "known c D \<Longrightarrow> D \<subseteq> D' \<Longrightarrow> known c D'"
begin

lemma all_reports:
  "known c D \<Longrightarrow> trace_all tr c vs = (c', out) \<Longrightarrow>
    set out \<subseteq> set (concat (map pure vs)) \<and> set (concat (map pure vs)) \<subseteq> D \<union> set out \<and> known c' (D \<union> set out)"
proof (induction vs arbitrary: c D out)
  case (Cons v vs)
  obtain c1 a b where t: "tr c v = (c1, a)" "trace_all tr c1 vs = (c', b)" "out = a @ b"
    using Cons.prems(2) by (auto simp: Let_def split: prod.splits)
  from reports [OF Cons.prems(1) t(1)] Cons.IH [OF _ t(2), of "D \<union> set a"] show ?case
    by (auto simp: t(3) Un_assoc)
qed simp

lemma edges:
  "slot_edge (\<lambda>s. Ok (pure s) :: (unit, _) result) objs i j \<longleftrightarrow>
    (\<exists>r. bt_get objs i = Some r \<and> j \<in> set (concat (map pure (map snd (rec_slots r)))))"
proof -
  have "fold_result (\<lambda>outgoing (key, v). and_then (Ok (pure v)) (\<lambda>hs. Ok (outgoing @ hs))) acc xs =
      (Ok (acc @ concat (map pure (map snd xs))) :: (unit, _) result)" for acc and xs :: "(PropertyKey \<times> 's) list"
    by (induction xs arbitrary: acc) auto
  then show ?thesis by (auto simp: slot_edge_def trace_record_def split: option.splits)
qed

end

text \<open>Marking is exact when everything the tracer has reported so far is marked, pending or no live record.\<close>

lemma marks_with:
  assumes "memo_tracer tr pure known" and "known c D" and "D \<subseteq> marked \<union> set pending \<union> {i. \<not> traceable objs i}"
  shows "marks (\<lambda>s. Ok (pure s) :: (unit, _) result) objs (set pending) marked (snd (mark_loop_with tr objs c pending marked))"
  using assms
proof (induction tr objs c pending marked arbitrary: D rule: mark_loop_with.induct)
  case (1 tr objs c pending marked)
  let ?tr = "\<lambda>s. Ok (pure s) :: (unit, _) result"
  show ?case
  proof (cases "pending = []")
    case True
    then show ?thesis by (simp add: mark_loop_with.simps marks_none)
  next
    case False
    let ?i = "last pending" and ?rest = "butlast pending"
    consider (skip) "?i \<in> marked \<or> \<not> traceable objs ?i"
      | (visit) r where "?i \<notin> marked" "bt_get objs ?i = Some r" "\<not> not_alive_handle r"
      by (cases "bt_get objs ?i") (auto simp: traceable_simps)
    then show ?thesis
    proof cases
      case skip
      have "D \<subseteq> marked \<union> set ?rest \<union> {i. \<not> traceable objs i}" using "1.prems"(3) skip by (auto simp: set_stack [OF False])
      note IH = "1.IH"(1) [OF False refl refl _ "1.prems"(1,2) this] "1.IH"(2) [OF False refl refl _ _ "1.prems"(1,2) this]
        "1.IH"(3) [OF False refl refl _ _ _ "1.prems"(1,2) this]
      have "marks ?tr objs (set ?rest) marked (snd (mark_loop_with tr objs c pending marked))"
        using IH skip False
        by (auto simp: mark_loop_with.simps [of tr objs c pending] Let_def traceable_def split: if_splits option.splits)
      with skip show ?thesis unfolding set_stack [OF False] by (rule marks_skip)
    next
      case visit
      obtain c' out where t: "trace_all tr c (map snd (rec_slots r)) = (c', out)" by fastforce
      note rep = memo_tracer.all_reports [OF "1.prems"(1,2) t]
      have edges: "slot_edge ?tr objs ?i j \<longleftrightarrow> j \<in> set (concat (map pure (map snd (rec_slots r))))" for j
        using memo_tracer.edges [OF "1.prems"(1), of objs ?i j] visit by simp
      have D: "D \<union> set out \<subseteq> insert ?i marked \<union> set (?rest @ out) \<union> {i. \<not> traceable objs i}"
        using "1.prems"(3) by (auto simp: set_stack [OF False])
      have "marks ?tr objs (set ?rest \<union> set out) (insert ?i marked) (snd (mark_loop_with tr objs c pending marked))"
        using "1.IH"(4) [OF False refl refl visit refl t [symmetric] "1.prems"(1) _ D] rep visit False t
        by (simp add: mark_loop_with.simps [of tr objs c pending] Let_def)
      then show ?thesis
        unfolding set_stack [OF False]
        by (rule marks_visit [rotated 3]) (use visit edges rep D in \<open>auto simp: traceable_simps\<close>)
    qed
  qed
qed

lemma mark_loop_total: "\<exists>m. mark_loop (\<lambda>s. Ok (pure s)) objs pending marked = (Ok m :: (unit, _) result)"
proof -
  let ?tr = "\<lambda>s. Ok (pure s) :: (unit, _) result"
  have "\<exists>out. fold_result (\<lambda>outgoing (key, v). and_then (Ok (pure v)) (\<lambda>hs. Ok (outgoing @ hs))) acc xs = (Ok out :: (unit, _) result)"
    for acc and xs :: "(PropertyKey \<times> 'a) list"
    by (induction xs arbitrary: acc) auto
  then have total: "\<exists>out. trace_record ?tr r = Ok out" for r by (simp add: trace_record_def)
  have "tr = ?tr \<Longrightarrow> \<exists>m. mark_loop tr objs pending marked = Ok m" for tr
  proof (induction tr objs pending marked rule: mark_loop.induct)
    case (1 tr objs pending marked)
    show ?case
    proof (cases "bt_get objs (last pending)")
      case None
      with 1 show ?thesis by (subst mark_loop.simps) (simp add: Let_def)
    next
      case (Some r)
      obtain out where "trace_record tr r = Ok out" using total [of r] "1.prems" by auto
      with 1 Some show ?thesis by (subst mark_loop.simps) (simp add: Let_def)
    qed
  qed
  then show ?thesis by simp
qed

text \<open>With a memoising tracer and all of its reports among the roots, marking agrees with the stateless loop.\<close>

lemma mark_loop_with_agrees:
  assumes memo: "memo_tracer tr pure known" and known: "known c D" "D \<subseteq> set roots" and same: "set roots = set roots'"
  shows "mark_loop (\<lambda>s. Ok (pure s)) objs roots' {} = (Ok (snd (mark_loop_with tr objs c roots {})) :: (unit, _) result)"
proof -
  obtain m where m: "mark_loop (\<lambda>s. Ok (pure s)) objs roots' {} = (Ok m :: (unit, _) result)" using mark_loop_total by blast
  have "marks (\<lambda>s. Ok (pure s) :: (unit, _) result) objs (set roots) {} (snd (mark_loop_with tr objs c roots {}))"
    using known by (intro marks_with [OF memo known(1)]) auto
  from marks_exact [OF this] mark_loop_exact [OF m] same m show ?thesis by simp
qed

interpretation closure_walk: memo_tracer "trace_gc_value h fh" "full_trace h fh" "walk_known h fh" for h fh
proof
  fix c c' :: "nat set" and D D' :: "ObjectId set" and v :: "'a Value" and out :: "ObjectId list"
  assume known: "walk_known h fh c D"
  show "set out \<subseteq> set (full_trace h fh v) \<and> set (full_trace h fh v) \<subseteq> D \<union> set out \<and> walk_known h fh c' (D \<union> set out)"
    if "trace_gc_value h fh c v = (c', out)"
    using trace_gc_value_reports [OF known that] by (simp add: full_trace_exact)
  show "walk_known h fh c D'" if "D \<subseteq> D'" using known that by (auto simp: walk_known_def)
qed

end
