(* ===== verification/Gc_Safepoint.thy ===== *)
theory Gc_Safepoint
  imports Gc_Trace Finalizer_Queue
begin

section \<open>Garbage collection at safepoints (openmat-runtime/src/interpreter.rs)\<close>

text \<open>
  How the interpreter collects: it traces the roots it knows (workspaces, persistent and default values,
  frames, scope changes, temporaries), lets the object store mark and sweep with the same memory of
  closures seen, queues the candidates, runs their finalizers and reclaims. The finalizer of a
  candidate is language code and is an argument; so are the tables of foreign objects left out.
\<close>

subsection \<open>Roots\<close>

definition gc_roots :: "'p Value cells \<Rightarrow> 'p Value ExecutionFrame \<Rightarrow> 'p Value list" where
  "gc_roots h fr =
     frame_registers fr @ concat (frame_packs fr) @ frame_locals fr @ map snd (dynamic_locals fr) @ call_inputs fr @
     map (\<lambda>(_, a). shared_gc_value h a) (shared_locals fr) @ List.map_filter (\<lambda>(_, b). captured_gc_value h b) (frame_captures fr)"

definition language_gc_roots :: "'p Value cells \<Rightarrow> 'p Value ExecutionFrame \<Rightarrow> 'p Value list" where
  "language_gc_roots h fr =
     frame_locals fr @ map snd (dynamic_locals fr) @
     map (\<lambda>(_, a). shared_gc_value h a) (shared_locals fr) @ List.map_filter (\<lambda>(_, b). captured_gc_value h b) (frame_captures fr)"

text \<open>The values of expression temporaries: they do not keep handle objects alive.\<close>

definition temporary_values :: "'p Value ExecutionFrame \<Rightarrow> 'p Value list" where
  "temporary_values fr = frame_registers fr @ concat (frame_packs fr) @ call_inputs fr"

text \<open>The part of the interpreter's state a collection reads and writes; maps as their values in iteration order.\<close>

record 'p GcHost =
  host_workspace :: "(string, 'p Value) btree"
  displaced_workspaces :: "(string, 'p Value) btree list"
  persistent_values :: "'p Value list"
  default_values :: "'p Value list"
  enumeration_values :: "'p Value list"
  host_pending_exception :: "ObjectId option"
  active_frame_roots :: "'p Value list list"
  builtin_workspace :: "(string, 'p Value) btree option"
  pending_scope_values :: "'p Value list"
  object_references :: "(ObjectId, ObjectRef) btree"
  exception_errors :: "ObjectId list"
  function_handles :: "'p function_table"
  shared_cells :: "'p Value cells"
  host_objects :: "'p Value ObjectStore"
  finalization_safepoints :: FinalizationSafepoints
  finalizer_queue :: "FinalizationCandidate FinalizerQueue"

definition refresh_current_frame_roots :: "'p GcHost \<Rightarrow> 'p Value ExecutionFrame \<Rightarrow> 'p GcHost" where
  "refresh_current_frame_roots host fr =
     (if active_frame_roots host = [] then host
      else host\<lparr>active_frame_roots := butlast (active_frame_roots host) @ [gc_roots (shared_cells host) fr]\<rparr>)"

definition host_trace :: "'p GcHost \<Rightarrow> nat set \<Rightarrow> 'p Value \<Rightarrow> nat set \<times> ObjectId list" where
  "host_trace host = trace_gc_value (shared_cells host) (function_handles host)"

definition handle_semantics :: "'p GcHost \<Rightarrow> ObjectId \<Rightarrow> bool" where
  "handle_semantics host i =
     (case bt_get (object_references host) i of None \<Rightarrow> False | Some ref \<Rightarrow> ref_semantics ref = Object_Store.Handle)"

definition early_values :: "'p GcHost \<Rightarrow> 'p Value list" where
  "early_values host =
     map snd (host_workspace host) @ concat (map (map snd) (displaced_workspaces host)) @ persistent_values host @
     default_values host @ enumeration_values host"

definition frame_values :: "'p GcHost \<Rightarrow> 'p Value ExecutionFrame option \<Rightarrow> 'p Value list" where
  "frame_values host current =
     concat (take (length (active_frame_roots host) - (if current = None then 0 else 1)) (active_frame_roots host))"

definition late_values :: "'p GcHost \<Rightarrow> 'p Value list \<Rightarrow> 'p Value list" where
  "late_values host temporaries =
     (case builtin_workspace host of None \<Rightarrow> [] | Some w \<Rightarrow> map snd w) @ pending_scope_values host @ temporaries"

text \<open>The frame that is running: its language values, then its temporaries without the handle objects.\<close>

definition current_frame_roots :: "'p GcHost \<Rightarrow> nat set \<Rightarrow> 'p Value ExecutionFrame option \<Rightarrow> nat set \<times> ObjectId list" where
  "current_frame_roots host c current =
     (case current of
        None \<Rightarrow> (c, [])
      | Some fr \<Rightarrow>
          let (c1, roots) = trace_all (host_trace host) c (language_gc_roots (shared_cells host) fr);
              (c2, temps) = trace_all (host_trace host) c1 (temporary_values fr)
          in (c2, roots @ filter (\<lambda>i. \<not> handle_semantics host i) temps))"

definition collect_roots :: "'p GcHost \<Rightarrow> 'p Value list \<Rightarrow> 'p Value ExecutionFrame option \<Rightarrow> nat set \<times> ObjectId list" where
  "collect_roots host temporaries current =
     (let tr = host_trace host;
          (c1, r1) = trace_all tr {} (early_values host);
          r2 = (case host_pending_exception host of None \<Rightarrow> [] | Some i \<Rightarrow> [i]);
          (c2, r3) = trace_all tr c1 (frame_values host current);
          (c3, r4) = current_frame_roots host c2 current;
          (c4, r5) = trace_all tr c3 (late_values host temporaries)
      in (c4, r1 @ r2 @ r3 @ r4 @ r5))"

subsection \<open>Collection\<close>

definition gc_allocation_threshold :: nat where
  "gc_allocation_threshold = 256"

text \<open>Mark from the roots with the closures already walked, then plan the sweep; every class needs finalization.\<close>

definition begin_host_collection :: "'p GcHost \<Rightarrow> 'p Value list \<Rightarrow> 'p Value ExecutionFrame option \<Rightarrow>
    ('p Value ObjectStore \<times> GcPlan) option" where
  "begin_host_collection host temporaries current =
     (let (visited, roots) = collect_roots host temporaries current;
          marked = snd (mark_loop_with (host_trace host) (objects (host_objects host)) visited roots {})
      in case plan_collection (\<lambda>_. Ok True) (host_objects host) marked of Inl (_ :: unit) \<Rightarrow> None | Inr x \<Rightarrow> Some x)"

text \<open>\<open>execute\<close> runs the finalizer of a candidate; it may do anything to the interpreter, so draining may not end.\<close>

partial_function (option) drain_finalizer_queue :: "('p GcHost \<Rightarrow> FinalizationCandidate \<Rightarrow> 'p GcHost) \<Rightarrow> 'p GcHost \<Rightarrow> 'p GcHost option" where
  "drain_finalizer_queue execute host =
     (case pop_front (finalizer_queue host) of
        (None, q) \<Rightarrow> Some (host\<lparr>finalizer_queue := q\<rparr>)
      | (Some candidate, q) \<Rightarrow>
          let host' = execute (host\<lparr>finalizer_queue := q\<rparr>) candidate;
              store = (case finish_finalization (host_objects host') candidate of Inl _ \<Rightarrow> host_objects host' | Inr (st, _) \<Rightarrow> st)
          in drain_finalizer_queue execute (host'\<lparr>host_objects := store\<rparr>))"

text \<open>After reclaiming, references and recorded exceptions of objects that are gone are dropped.\<close>

definition reference_live :: "'p Value ObjectStore \<Rightarrow> ObjectRef \<Rightarrow> bool" where
  "reference_live st ref \<longleftrightarrow> ref_semantics ref = Object_Store.Handle \<or> (\<exists>s. state_of st ref = Ok s)"

definition exception_live :: "'p Value ObjectStore \<Rightarrow> (ObjectId, ObjectRef) btree \<Rightarrow> ObjectId \<Rightarrow> bool" where
  "exception_live st refs i =
     (case bt_get refs i of
        None \<Rightarrow> False
      | Some ref \<Rightarrow>
          if ref_semantics ref = Object_Store.Handle then handle_state_of st ref = Ok Alive else (\<exists>s. state_of st ref = Ok s))"

definition retain_live :: "'p GcHost \<Rightarrow> 'p GcHost" where
  "retain_live host =
     (let st = host_objects host; refs = filter (\<lambda>(_, ref). reference_live st ref) (object_references host)
      in host\<lparr>object_references := refs, exception_errors := filter (exception_live st refs) (exception_errors host)\<rparr>)"

definition collect_garbage_at_safepoint :: "('p GcHost \<Rightarrow> FinalizationCandidate \<Rightarrow> 'p GcHost) \<Rightarrow> 'p GcHost \<Rightarrow> 'p Value list \<Rightarrow>
    SafepointReason \<Rightarrow> 'p Value ExecutionFrame option \<Rightarrow> ('p GcHost \<times> GcCollection option) option" where
  "collect_garbage_at_safepoint execute host temporaries reason current =
     (let force = (reason \<noteq> AllocationDebt)
      in if \<not> force \<and> \<not> collection_due (host_objects host) gc_allocation_threshold then Some (host, None)
         else let (entered, flags) = begin_drain (finalization_safepoints host)
         in if \<not> entered then Some (host, None)
         else let flags' = (if force then snd (take_root_removal flags) else flags);
                  host1 = host\<lparr>finalization_safepoints := flags'\<rparr>
         in Option.bind (begin_host_collection host1 temporaries current) (\<lambda>(store, plan).
            Option.bind (drain_finalizer_queue execute
                (host1\<lparr>host_objects := store, finalizer_queue := enqueue_all candidate_id (candidates plan) (finalizer_queue host1)\<rparr>)) (\<lambda>host2.
              let (store', collection) = finish_collection (host_objects host2) plan;
                  host3 = retain_live (host2\<lparr>host_objects := store'\<rparr>)
              in Some (host3\<lparr>finalization_safepoints := end_drain (finalization_safepoints host3)\<rparr>, Some collection))))"

subsection \<open>Roots are complete\<close>

text \<open>The values that keep everything they hold alive.\<close>

definition language_values :: "'p GcHost \<Rightarrow> 'p Value ExecutionFrame option \<Rightarrow> 'p Value list" where
  "language_values host current = (case current of None \<Rightarrow> [] | Some fr \<Rightarrow> language_gc_roots (shared_cells host) fr)"

definition strong_values :: "'p GcHost \<Rightarrow> 'p Value list \<Rightarrow> 'p Value ExecutionFrame option \<Rightarrow> 'p Value list" where
  "strong_values host temporaries current =
     early_values host @ frame_values host current @
     language_values host current @ late_values host temporaries"

text \<open>The roots a collection should mark from: what those hold, the pending exception, and the value objects in temporaries.\<close>

definition host_holds :: "'p GcHost \<Rightarrow> 'p Value \<Rightarrow> ObjectId list" where
  "host_holds host = full_trace (shared_cells host) (function_handles host)"

definition value_temporaries :: "'p GcHost \<Rightarrow> 'p Value ExecutionFrame option \<Rightarrow> ObjectId list" where
  "value_temporaries host current =
     (case current of None \<Rightarrow> []
      | Some fr \<Rightarrow> filter (\<lambda>i. \<not> handle_semantics host i) (concat (map (\<lambda>v. fst (trace_handles v)) (temporary_values fr))))"

definition wanted_roots :: "'p GcHost \<Rightarrow> 'p Value list \<Rightarrow> 'p Value ExecutionFrame option \<Rightarrow> ObjectId list" where
  "wanted_roots host temporaries current =
     concat (map (host_holds host) (strong_values host temporaries current)) @
     (case host_pending_exception host of None \<Rightarrow> [] | Some i \<Rightarrow> [i]) @ value_temporaries host current"

definition closure_free :: "'p Value ExecutionFrame option \<Rightarrow> bool" where
  "closure_free current = (case current of None \<Rightarrow> True | Some fr \<Rightarrow> list_all (\<lambda>v. value_functions v = {}) (temporary_values fr))"

abbreviation host_known :: "'p GcHost \<Rightarrow> nat set \<Rightarrow> ObjectId set \<Rightarrow> bool" where
  "host_known host \<equiv> walk_known (shared_cells host) (function_handles host)"

lemma phase:
  assumes "host_known host c D" and "trace_all (host_trace host) c vs = (c', out)"
  shows "host_known host c' (D \<union> set out)" and "D \<union> set out = D \<union> set (concat (map (host_holds host) vs))"
  using closure_walk.all_reports [OF assms [unfolded host_trace_def]] by (auto simp: host_holds_def)

lemma trace_closure_free:
  "list_all (\<lambda>v. value_functions v = {}) vs \<Longrightarrow> trace_all (host_trace host) c vs = (c, concat (map (\<lambda>v. fst (trace_handles v)) vs))"
proof (induction vs)
  case (Cons v vs)
  then have "snd (trace_handles v) = []" using trace_handles_exact(2) [of v] by simp
  then have "host_trace host c v = (c, fst (trace_handles v))"
    by (simp add: host_trace_def trace_gc_value_def case_prod_beta trace_functions.simps)
  with Cons show ?case by simp
qed simp

lemma known_more: "host_known host c D \<Longrightarrow> D \<subseteq> D' \<Longrightarrow> host_known host c D'"
  by (rule closure_walk.reported_more)

lemma current_frame_phase:
  assumes known: "host_known host c D" and free: "closure_free current" and roots: "current_frame_roots host c current = (c', out)"
  shows "host_known host c' (D \<union> set out)"
    and "D \<union> set out = D \<union> set (concat (map (host_holds host) (language_values host current))) \<union> set (value_temporaries host current)"
proof -
  have "host_known host c' (D \<union> set out) \<and>
    D \<union> set out = D \<union> set (concat (map (host_holds host) (language_values host current))) \<union> set (value_temporaries host current)"
  proof (cases current)
    case None
    with known roots show ?thesis by (simp add: current_frame_roots_def language_values_def value_temporaries_def)
  next
    case (Some fr)
    obtain c1 r where r: "trace_all (host_trace host) c (language_gc_roots (shared_cells host) fr) = (c1, r)" by fastforce
    have temps: "list_all (\<lambda>v. value_functions v = {}) (temporary_values fr)" using free Some by (simp add: closure_free_def)
    have out: "c' = c1" "out = r @ value_temporaries host current"
      using roots Some by (simp_all add: current_frame_roots_def r trace_closure_free [OF temps] value_temporaries_def)
    note ph = phase [OF known r]
    have "host_known host c' (D \<union> set out)" unfolding out(1) by (rule known_more [OF ph(1)]) (auto simp: out(2))
    moreover have "language_values host current = language_gc_roots (shared_cells host) fr" by (simp add: language_values_def Some)
    ultimately show ?thesis using ph(2) by (simp only: out(2) set_append Un_assoc [symmetric])
  qed
  then show "host_known host c' (D \<union> set out)"
    and "D \<union> set out = D \<union> set (concat (map (host_holds host) (language_values host current))) \<union> set (value_temporaries host current)"
    by blast+
qed

lemma collect_roots_complete:
  assumes free: "closure_free current" and roots: "collect_roots host temporaries current = (visited, roots)"
  shows "host_known host visited (set roots)" and "set roots = set (wanted_roots host temporaries current)"
proof -
  let ?e = "case host_pending_exception host of None \<Rightarrow> [] | Some i \<Rightarrow> [i]"
  obtain c1 r1 where p1: "trace_all (host_trace host) {} (early_values host) = (c1, r1)" by fastforce
  obtain c2 r3 where p3: "trace_all (host_trace host) c1 (frame_values host current) = (c2, r3)" by fastforce
  obtain c3 r4 where p4: "current_frame_roots host c2 current = (c3, r4)" by fastforce
  obtain c4 r5 where p5: "trace_all (host_trace host) c3 (late_values host temporaries) = (c4, r5)" by fastforce
  have eq: "visited = c4" "roots = r1 @ ?e @ r3 @ r4 @ r5" using roots by (simp_all add: collect_roots_def p1 p3 p4 p5)
  have "host_known host {} {}" by (simp add: walk_known_def closed_but_def captured_objects_def)
  note k1 = phase [OF this p1, unfolded Un_empty_left]
  have "host_known host c1 (set r1 \<union> set ?e)" by (rule known_more [OF k1(1)]) simp
  note k3 = phase [OF this p3]
  note k4 = current_frame_phase [OF k3(1) free p4]
  note k5 = phase [OF k4(1) p5]
  have all: "set roots = set r1 \<union> set ?e \<union> set r3 \<union> set r4 \<union> set r5" unfolding eq by auto
  show "host_known host visited (set roots)" unfolding all eq(1) by (rule k5(1))
  have "set roots = set (concat (map (host_holds host) (early_values host))) \<union> set ?e \<union>
      set (concat (map (host_holds host) (frame_values host current))) \<union>
      set (concat (map (host_holds host) (language_values host current))) \<union> set (value_temporaries host current) \<union>
      set (concat (map (host_holds host) (late_values host temporaries)))"
    unfolding all unfolding k5(2) unfolding k4(2) unfolding k3(2) unfolding k1(2) by (rule refl)
  then show "set roots = set (wanted_roots host temporaries current)"
    unfolding wanted_roots_def strong_values_def map_append concat_append set_append by blast
qed

subsection \<open>Finalizers that leave the heap alone\<close>

text \<open>A finalizer that neither queues further finalizers nor touches the object store.\<close>

definition quiet_finalizer :: "('p GcHost \<Rightarrow> FinalizationCandidate \<Rightarrow> 'p GcHost) \<Rightarrow> bool" where
  "quiet_finalizer execute \<longleftrightarrow>
     (\<forall>h c. finalizer_queue (execute h c) = finalizer_queue h \<and> host_objects (execute h c) = host_objects h)"

text \<open>What reclaiming the candidates \<open>ids\<close> may do to a store.\<close>

definition reclaims :: "ObjectId set \<Rightarrow> 's ObjectStore \<Rightarrow> 's ObjectStore \<Rightarrow> bool" where
  "reclaims ids st st' \<longleftrightarrow> (\<forall>j. bt_get (objects st') j = bt_get (objects st) j \<or> j \<in> ids \<and> bt_get (objects st') j = None)"

lemma reclaims_trans: "reclaims a st st1 \<Longrightarrow> reclaims b st1 st2 \<Longrightarrow> reclaims (a \<union> b) st st2"
  unfolding reclaims_def by (metis UnI1 UnI2)

lemma finish_finalization_reclaims:
  assumes "store_inv st" and "finish_finalization st c = Ok (st', b)"
  shows "store_inv st'" and "reclaims {candidate_id c} st st'"
  using assms remove_and_reclaim_inv [of st "candidate_id c"]
  by (auto simp: finish_finalization_def reclaims_def result_simps split: option.splits if_splits)

lemma drain_quiet:
  assumes quiet: "quiet_finalizer execute" and inv: "store_inv (host_objects host)"
    and queue: "queue_pending (finalizer_queue host) = map (\<lambda>c. (candidate_id c, c)) cs"
  shows "\<exists>host'. drain_finalizer_queue execute host = Some host' \<and> queue_pending (finalizer_queue host') = [] \<and>
    store_inv (host_objects host') \<and> reclaims (candidate_id ` set cs) (host_objects host) (host_objects host')"
  using inv queue
proof (induction cs arbitrary: host)
  case Nil
  then show ?case by (simp add: drain_finalizer_queue.simps pop_front_def reclaims_def)
next
  case (Cons c cs)
  define q where "q = snd (pop_front (finalizer_queue host))"
  have pop: "pop_front (finalizer_queue host) = (Some c, q)" "queue_pending q = map (\<lambda>c. (candidate_id c, c)) cs"
    using Cons.prems(2) by (simp_all add: pop_front_def q_def)
  define host1 where "host1 = execute (host\<lparr>finalizer_queue := q\<rparr>) c"
  have host1: "finalizer_queue host1 = q" "host_objects host1 = host_objects host"
    using quiet by (simp_all add: quiet_finalizer_def host1_def)
  define st where "st = (case finish_finalization (host_objects host1) c of Inl _ \<Rightarrow> host_objects host1 | Inr (st, _) \<Rightarrow> st)"
  have st: "store_inv st \<and> reclaims {candidate_id c} (host_objects host) st"
  proof (cases "finish_finalization (host_objects host) c")
    case (Inl e)
    then show ?thesis using Cons.prems(1) by (simp add: st_def host1 reclaims_def)
  next
    case (Inr x)
    then show ?thesis
      using finish_finalization_reclaims [OF Cons.prems(1), of c "fst x" "snd x"] by (simp add: st_def host1 case_prod_beta)
  qed
  have "drain_finalizer_queue execute host = drain_finalizer_queue execute (host1\<lparr>host_objects := st\<rparr>)"
    unfolding st_def host1_def by (subst drain_finalizer_queue.simps) (simp add: pop(1) Let_def)
  with Cons.IH [of "host1\<lparr>host_objects := st\<rparr>"] st pop(2) host1 show ?case
    by (auto dest: reclaims_trans)
qed

lemma flags_irrelevant:
  "begin_host_collection (host\<lparr>finalization_safepoints := f\<rparr>) temporaries current = begin_host_collection host temporaries current"
proof -
  let ?h = "host\<lparr>finalization_safepoints := f\<rparr>"
  have parts: "host_trace ?h = host_trace host" "handle_semantics ?h = handle_semantics host"
    "early_values ?h = early_values host" "frame_values ?h = frame_values host" "late_values ?h = late_values host"
    "host_pending_exception ?h = host_pending_exception host" "host_objects ?h = host_objects host" "shared_cells ?h = shared_cells host"
    by (rule ext | simp add: host_trace_def handle_semantics_def early_values_def frame_values_def late_values_def)+
  have frame: "current_frame_roots ?h = current_frame_roots host"
    by (intro ext) (simp only: current_frame_roots_def parts)
  show ?thesis unfolding begin_host_collection_def collect_roots_def parts frame by (rule refl)
qed

text \<open>The object's record after a collection that keeps exactly what the roots reach.\<close>

definition survives :: "'p GcHost \<Rightarrow> 'p Value list \<Rightarrow> 'p Value ExecutionFrame option \<Rightarrow> ObjectId \<Rightarrow> bool" where
  "survives host temporaries current i \<longleftrightarrow>
     traceable (objects (host_objects host)) i \<longrightarrow>
     gc_reach (\<lambda>v. Ok (host_holds host v) :: (unit, _) result) (objects (host_objects host)) (set (wanted_roots host temporaries current)) i"

lemma host_plan_eq:
  assumes "closure_free current"
  shows "begin_host_collection host temporaries current =
    begin_collection_with (host_holds host) (\<lambda>_. True) (host_objects host) (wanted_roots host temporaries current)"
proof -
  obtain visited roots where r: "collect_roots host temporaries current = (visited, roots)" by fastforce
  note c = collect_roots_complete [OF assms r]
  have "mark_loop (\<lambda>s. Ok (host_holds host s)) (objects (host_objects host)) (wanted_roots host temporaries current) {} =
      (Ok (snd (mark_loop_with (host_trace host) (objects (host_objects host)) visited roots {})) :: (unit, _) result)"
    unfolding host_holds_def host_trace_def
    by (rule mark_loop_with_agrees [OF closure_walk.memo_tracer_axioms c(1) subset_refl c(2)])
  then show ?thesis
    by (simp add: begin_host_collection_def begin_collection_with_def try_begin_collection_with_def r)
qed

lemma sweep_total: "\<exists>acc'. fold_result (sweep_record (\<lambda>_. Ok True) marked) acc es = (Ok acc' :: (unit, _) result)"
proof (induction es arbitrary: acc)
  case (Cons e es)
  have "\<exists>acc'. sweep_record (\<lambda>_. Ok True) marked acc e = (Ok acc' :: (unit, _) result)"
    by (cases acc; cases e) (simp add: sweep_record_def)
  with Cons show ?case by auto
qed simp

lemma try_begin_total:
  "\<exists>x. try_begin_collection_with (\<lambda>v. Ok (pure v)) (\<lambda>_. Ok True) st roots = (Ok x :: (unit, _) result)"
proof -
  obtain m where m: "mark_loop (\<lambda>v. Ok (pure v)) (objects st) roots {} = (Ok m :: (unit, _) result)" using mark_loop_total by blast
  obtain acc where "fold_result (sweep_record (\<lambda>_. Ok True) m) ([], []) (rev (objects st)) = (Ok acc :: (unit, _) result)"
    using sweep_total by blast
  then show ?thesis by (cases acc) (simp add: try_begin_collection_with_def plan_collection_def m Let_def)
qed

lemma host_plan:
  assumes inv: "store_inv (host_objects host)" and free: "closure_free current"
  obtains st plan where "begin_host_collection host temporaries current = Some (st, plan)" "store_inv st"
    "set (unreachable plan) = {i. \<not> survives host temporaries current i}"
    "candidate_id ` set (candidates plan) \<subseteq> set (unreachable plan)" "distinct (map candidate_id (candidates plan))"
    "\<And>j. j \<notin> set (unreachable plan) \<Longrightarrow> bt_get (objects st) j = bt_get (objects (host_objects host)) j"
proof -
  let ?tr = "\<lambda>v. Ok (host_holds host v) :: (unit, _) result"
  obtain x where x: "try_begin_collection_with ?tr (\<lambda>_. Ok True) (host_objects host) (wanted_roots host temporaries current) = Ok x"
    using try_begin_total by blast
  obtain st plan where sp: "x = (st, plan)" by fastforce
  have begun: "begin_host_collection host temporaries current = Some (st, plan)"
    unfolding host_plan_eq [OF free] begin_collection_with_def x sp by simp
  note facts = begin_collection_Ok [OF inv x [unfolded sp]]
  show thesis
  proof (rule that [OF begun facts(9)])
    show "set (unreachable plan) = {i. \<not> survives host temporaries current i}" using facts(1) by (auto simp: survives_def)
    show "candidate_id ` set (candidates plan) \<subseteq> set (unreachable plan)" using facts(3) by auto
    show "distinct (map candidate_id (candidates plan))" by (rule facts(4))
    show "bt_get (objects st) j = bt_get (objects (host_objects host)) j" if "j \<notin> set (unreachable plan)" for j
      using that by (simp add: facts(5))
  qed
qed

subsection \<open>Properties\<close>

text \<open>
  while the temporaries of the running frame mention no closures, a collection at a safepoint plans
  exactly what the object store plans with a stateless tracer that follows closures completely: the
  memory of walked closures, shared by all roots and all slots, changes nothing.
\<close>

theorem safepoint_plan_refines:
  assumes "closure_free current"
  shows "begin_host_collection host temporaries current =
    begin_collection_with (host_holds host) (\<lambda>_. True) (host_objects host) (wanted_roots host temporaries current)"
  using assms by (rule host_plan_eq)


definition plain_record :: "nat Value \<Rightarrow> nat Value ObjectRecord" where
  "plain_record v = \<lparr>rec_class = 0, rec_semantics = Object_Store.Handle, rec_state = Constructed, rec_handle_state = Alive,
     rec_slots = [(PropertyKey 0 ''Callback'', v)]\<rparr>"

text \<open>A workspace object whose property holds a closure over a second handle object.\<close>

definition callback_host :: "nat GcHost" where
  "callback_host =
     \<lparr>host_workspace = [(''o'', ObjectValue 7)], displaced_workspaces = [], persistent_values = [], default_values = [],
      enumeration_values = [], host_pending_exception = None, active_frame_roots = [[]], builtin_workspace = None,
      pending_scope_values = [], object_references = [(2, \<lparr>ref_id = 2, ref_class = 0, ref_semantics = Object_Store.Handle\<rparr>),
        (7, \<lparr>ref_id = 7, ref_class = 0, ref_semantics = Object_Store.Handle\<rparr>)], exception_errors = [],
      function_handles = [(5, \<lparr>owner_module = 0, code_function = FunctionId 0, code_captures = [(''h'', CapturedValue (ObjectValue 2))],
        code_caller_class = None\<rparr>)],
      shared_cells = [],
      host_objects = store_new\<lparr>metrics := (metrics (store_new :: nat Value ObjectStore))\<lparr>live_objects := 2, live_slots := 2\<rparr>, objects := [(2, plain_record Nothing), (7, plain_record (BytecodeFunction 5))], next_id := 8\<rparr>,
      finalization_safepoints = safepoints_default, finalizer_queue = queue_default\<rparr>"

text \<open>The frame that has just stored the closure: a register still holds it.\<close>

definition callback_frame :: "nat Value ExecutionFrame" where
  "callback_frame =
     \<lparr>scope_address = Base, frame_function = FunctionId 0, frame_instruction = InstructionIndex 1,
      frame_registers = [BytecodeFunction 5], frame_packs = [], frame_locals = [], named_bindings = [], dynamic_locals = [],
      shared_locals = [], call_inputs = [], input_count = 0, requested_output_count = 0, caller_class = None,
      frame_captures = [], imports_list = []\<rparr>"

lemma callback_traces:
  "host_trace callback_host {} (ObjectValue 7) = ({}, [7])"
  "host_trace callback_host {} (BytecodeFunction 5) = ({5}, [2])"
  "host_trace callback_host {5} (BytecodeFunction 5) = ({5}, [])"
  "host_trace callback_host {5} Nothing = ({5}, [])" "host_trace callback_host {} Nothing = ({}, [])"
  by (simp_all add: host_trace_def callback_host_def trace_gc_value_def trace_handles_def trace_values.simps Let_def
      trace_functions.simps bt_get_def captured_values_def map_filter_simps captured_gc_value_def)

lemma callback_simps:
  "objects (host_objects callback_host) = [(2, plain_record Nothing), (7, plain_record (BytecodeFunction 5))]"
  "bt_get [(2, plain_record Nothing), (7, plain_record (BytecodeFunction 5))] (7 :: ObjectId) = Some (plain_record (BytecodeFunction 5))"
  "bt_get [(2, plain_record Nothing), (7, plain_record (BytecodeFunction 5))] (2 :: ObjectId) = Some (plain_record Nothing)"
  "\<not> not_alive_handle (plain_record v)" "map snd (rec_slots (plain_record v)) = [v]" "rec_semantics (plain_record v) = Object_Store.Handle"
  by (simp_all add: callback_host_def bt_get_def plain_record_def not_alive_handle_def)

lemma callback_roots:
  "collect_roots callback_host [] None = ({}, [7])" "collect_roots callback_host [] (Some callback_frame) = ({5}, [7])"
proof -
  have vals: "early_values callback_host = [ObjectValue 7]" "frame_values callback_host None = []"
    "frame_values callback_host (Some callback_frame) = []" "late_values callback_host [] = []"
    "language_gc_roots h callback_frame = []" "temporary_values callback_frame = [BytecodeFunction 5]"
    "host_pending_exception callback_host = None" "handle_semantics callback_host 2" for h
    by (simp_all add: early_values_def frame_values_def late_values_def language_gc_roots_def temporary_values_def callback_host_def
        callback_frame_def handle_semantics_def map_filter_simps bt_get_def)
  show "collect_roots callback_host [] None = ({}, [7])" "collect_roots callback_host [] (Some callback_frame) = ({5}, [7])"
    by (simp_all add: collect_roots_def current_frame_roots_def vals callback_traces)
qed

lemma callback_marks:
  "snd (mark_loop_with (host_trace callback_host) (objects (host_objects callback_host)) {} [7] {}) = {7, 2}"
  "snd (mark_loop_with (host_trace callback_host) (objects (host_objects callback_host)) {5} [7] {}) = {7}"
  by (simp_all add: mark_loop_with.simps callback_simps callback_traces Let_def insert_commute)

lemma callback_plans:
  "\<exists>st plan. begin_host_collection callback_host [] None = Some (st, plan) \<and> unreachable plan = []"
  "\<exists>st plan. begin_host_collection callback_host [] (Some callback_frame) = Some (st, plan) \<and> unreachable plan = [2]"
  by (simp_all add: begin_host_collection_def callback_roots callback_marks [unfolded callback_simps(1)] plan_collection_def callback_simps sweep_record_def Let_def)

theorem safepoint_plan_refines_witness:
  "\<exists>st plan. begin_collection_with (host_holds callback_host) (\<lambda>_. True) (host_objects callback_host)
     (wanted_roots callback_host [] None) = Some (st, plan) \<and> unreachable plan = []"
  using safepoint_plan_refines [of None callback_host "[]"] callback_plans(1) by (simp add: closure_free_def)

lemma callback_inv: "store_inv (host_objects callback_host)"
  by (auto simp: callback_host_def store_inv_def bt_wf_def bt_get_def wf_record_def plain_record_def store_new_def u64_max_def
      split: if_splits)

lemma callback_idle: "\<not> is_draining (finalization_safepoints callback_host)" "finalizer_queue callback_host = queue_default"
  by (simp_all add: callback_host_def safepoints_default_def)

lemma callback_holds:
  "early_values callback_host = [ObjectValue 7]" "host_holds callback_host (ObjectValue 7) = [7]"
  "host_holds callback_host (BytecodeFunction 5) = [2]" "wanted_roots callback_host [] None = [7]"
proof -
  show early: "early_values callback_host = [ObjectValue 7]" by (simp add: early_values_def callback_host_def)
  show holds: "host_holds callback_host (ObjectValue 7) = [7]" "host_holds callback_host (BytecodeFunction 5) = [2]"
    using callback_traces by (simp_all add: host_holds_def full_trace_def host_trace_def)
  have "frame_values callback_host None = []" "late_values callback_host [] = []" "host_pending_exception callback_host = None"
    by (simp_all add: frame_values_def late_values_def callback_host_def)
  then show "wanted_roots callback_host [] None = [7]"
    by (simp add: wanted_roots_def strong_values_def language_values_def value_temporaries_def early holds)
qed

lemma callback_reach:
  "gc_reach (\<lambda>v. Ok (host_holds callback_host v) :: (unit, _) result) (objects (host_objects callback_host)) {7} 2"
proof -
  let ?tr = "\<lambda>v. Ok (host_holds callback_host v) :: (unit, _) result"
  let ?objs = "objects (host_objects callback_host)"
  have "gc_reach ?tr ?objs {7} 7" by (rule reach_root) (simp_all add: traceable_def callback_simps)
  then show ?thesis
    by (rule reach_edge)
      (simp_all add: slot_edge_def traceable_def callback_simps trace_record_def plain_record_def callback_holds bt_get_def not_alive_handle_def)
qed



end
