(* ===== verification/Random_Twister.thy ===== *)
theory Random_Twister
  imports Complex_Main "HOL-Library.Word"
begin

section \<open>The session random stream (openmat-runtime/src/random.rs)\<close>

text \<open>
  The MT19937 generator a session draws from. Words are 32-bit with wrapping arithmetic, the state array
  is a list updated in place by index, and the twist overwrites it from left to right, reading words it
  has already replaced. The lemmas show that the draws of a reseeded session are the tempered terms of
  the generator's linear recurrence, whatever the session did before, and that a uniform draw lies in
  [0, 1). A floating-point uniform is the exact quotient of a 53-bit integer by a power of two; the
  transcendental functions of the normal draw are an argument.
\<close>

unbundle bit_operations_syntax

subsection \<open>State\<close>

abbreviation state_words :: nat where
  "state_words \<equiv> 624"

definition matrix_a :: "32 word" where
  "matrix_a = 0x9908b0df"

definition upper_mask :: "32 word" where
  "upper_mask = 0x80000000"

definition lower_mask :: "32 word" where
  "lower_mask = 0x7fffffff"

record RandomSnapshot =
  snapshot_seed :: "32 word"
  snapshot_state :: "32 word list"

record 'f RandomSession =
  session_seed :: "32 word"
  session_state :: "32 word list"
  session_index :: nat
  spare_normal :: "'f option"

subsection \<open>Operations\<close>

definition seed_word :: "32 word \<Rightarrow> 32 word" where
  "seed_word seed = (if seed = 0 then 5489 else seed)"

definition seed_next :: "nat \<Rightarrow> 32 word \<Rightarrow> 32 word" where
  "seed_next index previous = 1812433253 * (previous XOR drop_bit 30 previous) + of_nat index"

definition reseed :: "32 word \<Rightarrow> 'f RandomSession \<Rightarrow> 'f RandomSession" where
  "reseed seed s =
     s\<lparr>session_seed := seed,
       session_state := fold (\<lambda>index st. st[index := seed_next index (st ! (index - 1))]) [1..<state_words]
         ((session_state s)[0 := seed_word seed]),
       session_index := state_words, spare_normal := None\<rparr>"

definition session_new :: "'f RandomSession" where
  "session_new = reseed 0 \<lparr>session_seed = 0, session_state = replicate state_words 0, session_index = state_words, spare_normal = None\<rparr>"

text \<open>One word of the next block from the words at distances 0, 1 and 397.\<close>

definition twist_word :: "32 word \<Rightarrow> 32 word \<Rightarrow> 32 word \<Rightarrow> 32 word" where
  "twist_word here following far =
     (let combined = (here AND upper_mask) OR (following AND lower_mask);
          value = far XOR drop_bit 1 combined
      in if combined mod 2 \<noteq> 0 then value XOR matrix_a else value)"

definition twist_at :: "nat \<Rightarrow> 32 word list \<Rightarrow> 32 word list" where
  "twist_at index st =
     st[index := twist_word (st ! index) (st ! ((index + 1) mod state_words)) (st ! ((index + 397) mod state_words))]"

definition twist :: "'f RandomSession \<Rightarrow> 'f RandomSession" where
  "twist s = s\<lparr>session_state := fold twist_at [0..<state_words] (session_state s), session_index := 0\<rparr>"

definition temper :: "32 word \<Rightarrow> 32 word" where
  "temper v =
     (let v1 = v XOR drop_bit 11 v;
          v2 = v1 XOR (push_bit 7 v1 AND 0x9d2c5680);
          v3 = v2 XOR (push_bit 15 v2 AND 0xefc60000)
      in v3 XOR drop_bit 18 v3)"

definition next_u32 :: "'f RandomSession \<Rightarrow> 32 word \<times> 'f RandomSession" where
  "next_u32 s =
     (let s' = (if state_words \<le> session_index s then twist s else s)
      in (temper (session_state s' ! session_index s'), s'\<lparr>session_index := session_index s' + 1\<rparr>))"

text \<open>The integer behind a uniform draw: 27 high bits of one word and 26 of the next.\<close>

definition next_uniform_bits :: "'f RandomSession \<Rightarrow> 64 word \<times> 'f RandomSession" where
  "next_uniform_bits s =
     (let (a, s1) = next_u32 s; (b, s2) = next_u32 s1
      in (push_bit 26 (ucast (drop_bit 5 a)) + ucast (drop_bit 6 b), s2))"

definition next_uniform :: "'f RandomSession \<Rightarrow> real \<times> 'f RandomSession" where
  "next_uniform s = (let (n, s') = next_uniform_bits s in (real (unat n) * (1 / 9007199254740992), s'))"

text \<open>\<open>polar\<close> maps two uniforms to the cosine and the sine component of the normal pair.\<close>

definition next_normal :: "(real \<Rightarrow> real \<Rightarrow> 'f \<times> 'f) \<Rightarrow> 'f RandomSession \<Rightarrow> 'f \<times> 'f RandomSession" where
  "next_normal polar s =
     (case spare_normal s of
        Some v \<Rightarrow> (v, s\<lparr>spare_normal := None\<rparr>)
      | None \<Rightarrow>
          let (u, s1) = next_uniform s; (w, s2) = next_uniform s1; (c, d) = polar u w
          in (c, s2\<lparr>spare_normal := Some d\<rparr>))"

text \<open>The clock reading is split into whole seconds and nanoseconds.\<close>

definition shuffle :: "64 word \<Rightarrow> 32 word \<Rightarrow> 'f RandomSession \<Rightarrow> 'f RandomSession" where
  "shuffle seconds nanos s =
     reseed (nanos XOR word_rotl 13 (ucast seconds XOR ucast (drop_bit 32 seconds))) s"

definition snapshot :: "'f RandomSession \<Rightarrow> RandomSnapshot" where
  "snapshot s = \<lparr>snapshot_seed = session_seed s, snapshot_state = session_state s @ [of_nat (session_index s + 1)]\<rparr>"

subsection \<open>The recurrence\<close>

text \<open>The generator's definition: seeding for one block, then the linear recurrence of degree 624.\<close>

function mt :: "32 word \<Rightarrow> nat \<Rightarrow> 32 word" where
  "mt seed k =
     (if k = 0 then seed_word seed
      else if k < state_words then seed_next k (mt seed (k - 1))
      else twist_word (mt seed (k - 624)) (mt seed (k - 623)) (mt seed (k - 227)))"
  by pat_completeness auto
termination
  by (relation "measure snd") auto

declare mt.simps [simp del]

lemma mt_seed: "mt seed 0 = seed_word seed" "0 < k \<Longrightarrow> k < state_words \<Longrightarrow> mt seed k = seed_next k (mt seed (k - 1))"
  by (simp_all add: mt.simps)

lemma mt_twist: "mt seed (k + 624) = twist_word (mt seed k) (mt seed (k + 1)) (mt seed (k + 397))"
  by (subst mt.simps) (simp add: add.commute)

text \<open>A state list holds one block of the sequence.\<close>

definition block :: "32 word \<Rightarrow> nat \<Rightarrow> 32 word list" where
  "block seed b = map (\<lambda>j. mt seed (624 * b + j)) [0..<state_words]"

lemma block_length [simp]: "length (block seed b) = state_words"
  by (simp add: block_def)

lemma block_nth [simp]: "j < state_words \<Longrightarrow> block seed b ! j = mt seed (624 * b + j)"
  by (simp add: block_def)

lemma seeding_prefix:
  assumes "length st = state_words" "n < state_words"
  shows "fold (\<lambda>index st. st[index := seed_next index (st ! (index - 1))]) [1..<Suc n] (st[0 := seed_word seed]) =
    map (mt seed) [0..<Suc n] @ drop (Suc n) st"
  using assms(2)
proof (induction n)
  case 0
  with assms(1) show ?case by (cases st) (simp_all add: mt_seed)
next
  case (Suc n)
  let ?st = "map (mt seed) [0..<Suc n] @ drop (Suc n) st"
  have "drop (Suc n) st = st ! Suc n # drop (Suc (Suc n)) st" using Suc.prems assms(1) by (simp add: Cons_nth_drop_Suc)
  moreover have "?st ! n = mt seed n" by (simp add: nth_append del: upt_Suc)
  ultimately have "?st[Suc n := seed_next (Suc n) (?st ! (Suc n - 1))] = map (mt seed) [0..<Suc (Suc n)] @ drop (Suc (Suc n)) st"
    using mt_seed(2) [of "Suc n" seed] Suc.prems by (simp add: list_update_append)
  with Suc.IH Suc.prems show ?case by (simp add: upt_Suc_append del: upt_Suc)
qed

lemma reseed_block: "length (session_state s) = state_words \<Longrightarrow> session_state (reseed seed s) = block seed 0"
  using seeding_prefix [of "session_state s" 623 seed] by (simp add: reseed_def block_def del: upt_Suc)

text \<open>Halfway through a twist the left part is the next block and the right part still the old one.\<close>

definition half_twisted :: "32 word \<Rightarrow> nat \<Rightarrow> nat \<Rightarrow> 32 word list" where
  "half_twisted seed b i = take i (block seed (Suc b)) @ drop i (block seed b)"

lemma half_twisted_length [simp]: "i \<le> state_words \<Longrightarrow> length (half_twisted seed b i) = state_words"
  by (simp add: half_twisted_def)

lemma half_twisted_nth:
  "j < state_words \<Longrightarrow> half_twisted seed b i ! j = (if j < i then mt seed (624 * b + j + 624) else mt seed (624 * b + j))"
  by (auto simp: half_twisted_def nth_append algebra_simps)

lemma half_twisted_word:
  assumes "i < state_words"
  shows "half_twisted seed b i ! ((i + 1) mod state_words) = mt seed (624 * b + i + 1)"
    and "half_twisted seed b i ! ((i + 397) mod state_words) = mt seed (624 * b + i + 397)"
proof -
  show "half_twisted seed b i ! ((i + 1) mod state_words) = mt seed (624 * b + i + 1)"
    using assms by (cases "i = 623") (simp_all add: half_twisted_nth add.commute)
  show "half_twisted seed b i ! ((i + 397) mod state_words) = mt seed (624 * b + i + 397)"
  proof (cases "i < 227")
    case False
    then have "(i + 397) mod 624 = i - 227" using assms by (simp add: mod_if)
    with False assms show ?thesis by (simp add: half_twisted_nth add.commute)
  qed (simp add: half_twisted_nth add.assoc)
qed

lemma twist_at_half:
  assumes "i < state_words"
  shows "twist_at i (half_twisted seed b i) = half_twisted seed b (Suc i)"
proof -
  have "twist_at i (half_twisted seed b i) = (half_twisted seed b i)[i := mt seed (624 * b + i + 624)]"
    using assms half_twisted_word [OF assms, of seed b] mt_twist [of seed "624 * b + i"]
    by (simp add: twist_at_def half_twisted_nth)
  also have "\<dots> = half_twisted seed b (Suc i)"
    by (rule nth_equalityI) (use assms in \<open>auto simp: half_twisted_nth nth_list_update less_Suc_eq\<close>)
  finally show ?thesis .
qed

lemma twist_prefix: "i \<le> state_words \<Longrightarrow> fold twist_at [0..<i] (block seed b) = half_twisted seed b i"
proof (induction i)
  case 0
  then show ?case by (simp add: half_twisted_def)
next
  case (Suc i)
  then show ?case using twist_at_half [of i seed b] by simp
qed

lemma twist_block: "session_state s = block seed b \<Longrightarrow> session_state (twist s) = block seed (Suc b)"
  using twist_prefix [of 624 seed b] by (simp add: twist_def half_twisted_def)

subsection \<open>Streams of a random service\<close>

primrec draws :: "('s \<Rightarrow> 'v \<times> 's) \<Rightarrow> nat \<Rightarrow> 's \<Rightarrow> 'v list \<times> 's" where
  "draws draw 0 s = ([], s)"
| "draws draw (Suc n) s = (let (v, s1) = draw s; (vs, s2) = draws draw n s1 in (v # vs, s2))"

text \<open>
  What built-ins rely on: a draw keeps the service usable, and reseeding forgets everything that was
  drawn before, a pending normal included.
\<close>

locale random_service =
  fixes draw :: "'s \<Rightarrow> 'v \<times> 's" and seed_with :: "'k \<Rightarrow> 's \<Rightarrow> 's" and ready :: "'s \<Rightarrow> bool"
  assumes draw_ready: "ready s \<Longrightarrow> ready (snd (draw s))"
    and seed_ready: "ready s \<Longrightarrow> ready (seed_with k s)"
    and seed_forgets: "ready s \<Longrightarrow> ready s' \<Longrightarrow> seed_with k s = seed_with k s'"
begin

lemma draws_ready: "ready s \<Longrightarrow> ready (snd (draws draw n s))"
  by (induction n arbitrary: s) (simp_all add: Let_def case_prod_beta draw_ready)

lemma replay: "ready s \<Longrightarrow> draws draw n (seed_with k (snd (draws draw m s))) = draws draw n (seed_with k s)"
  using seed_forgets [OF draws_ready] by simp

end

definition session_ready :: "'f RandomSession \<Rightarrow> bool" where
  "session_ready s \<longleftrightarrow> length (session_state s) = state_words"

lemma fold_update_length:
  "(\<And>i st. length (f i st) = length st) \<Longrightarrow> length (fold f is st) = length (st :: 'a list)"
  by (induction "is" arbitrary: st) auto

lemma reseed_ready: "session_ready s \<Longrightarrow> session_ready (reseed seed s)"
  by (simp add: session_ready_def reseed_block)

lemma reseed_forgets:
  "session_ready s \<Longrightarrow> session_ready s' \<Longrightarrow> reseed seed s = reseed seed (s' :: 'f RandomSession)"
  using reseed_block [of s seed] reseed_block [of s' seed]
  by (cases s; cases s') (simp add: session_ready_def reseed_def)

lemma next_u32_ready: "session_ready s \<Longrightarrow> session_ready (snd (next_u32 s))"
  by (simp add: next_u32_def session_ready_def twist_def Let_def fold_update_length twist_at_def)

lemma next_uniform_ready: "session_ready s \<Longrightarrow> session_ready (snd (next_uniform s))"
  using next_u32_ready [of s] next_u32_ready [of "snd (next_u32 s)"]
  by (simp add: next_uniform_def next_uniform_bits_def Let_def case_prod_beta)

lemma next_normal_ready: "session_ready s \<Longrightarrow> session_ready (snd (next_normal polar s))"
  using next_uniform_ready [of s] next_uniform_ready [of "snd (next_uniform s)"]
  by (auto simp: next_normal_def Let_def session_ready_def case_prod_beta split: option.splits)

interpretation words: random_service next_u32 reseed session_ready
  by unfold_locales (fact next_u32_ready reseed_ready reseed_forgets)+

interpretation uniforms: random_service next_uniform reseed session_ready
  by unfold_locales (fact next_uniform_ready reseed_ready reseed_forgets)+

interpretation normals: random_service "next_normal polar" reseed session_ready
  by unfold_locales (fact next_normal_ready reseed_ready reseed_forgets)+

subsection \<open>Draws\<close>

text \<open>The session stands at term \<open>k\<close> of the sequence of \<open>seed\<close>.\<close>

definition stands_at :: "32 word \<Rightarrow> nat \<Rightarrow> 'f RandomSession \<Rightarrow> bool" where
  "stands_at seed k s \<longleftrightarrow> (\<exists>b. session_state s = block seed b \<and> k = 624 * b + session_index s \<and> session_index s \<le> state_words)"

lemma next_u32_term:
  assumes "stands_at seed k s"
  shows "fst (next_u32 s) = temper (mt seed k)" and "stands_at seed (Suc k) (snd (next_u32 s))"
proof -
  obtain b where b: "session_state s = block seed b" "k = 624 * b + session_index s" "session_index s \<le> state_words"
    using assms by (auto simp: stands_at_def)
  have full: "session_state (twist s) = block seed (Suc b)" by (rule twist_block [OF b(1)])
  show "fst (next_u32 s) = temper (mt seed k)"
    using b full by (auto simp: next_u32_def Let_def twist_def add.commute)
  show "stands_at seed (Suc k) (snd (next_u32 s))"
  proof (cases "session_index s < state_words")
    case True
    with b show ?thesis by (auto simp: stands_at_def next_u32_def intro!: exI [of _ b])
  next
    case False
    with b full show ?thesis by (auto simp: stands_at_def next_u32_def twist_def intro!: exI [of _ "Suc b"])
  qed
qed

lemma draws_terms: "stands_at seed k s \<Longrightarrow> fst (draws next_u32 n s) = map (\<lambda>j. temper (mt seed (k + j))) [0..<n]"
proof (induction n arbitrary: k s)
  case (Suc n)
  have "map (\<lambda>j. temper (mt seed (k + j))) [0..<Suc n] = temper (mt seed k) # map (\<lambda>j. temper (mt seed (Suc k + j))) [0..<n]"
    by (simp add: map_upt_Suc del: upt_Suc)
  then show ?case
    using next_u32_term [OF Suc.prems] Suc.IH [of "Suc k" "snd (next_u32 s)"] by (simp add: Let_def case_prod_beta del: upt_Suc)
qed simp

lemma reseed_stands: "session_ready s \<Longrightarrow> stands_at seed 624 (reseed seed s)"
  using reseed_block [of s seed] by (auto simp: stands_at_def session_ready_def reseed_def intro!: exI [of _ 0])

lemma session_new_ready: "session_ready session_new"
  unfolding session_new_def by (rule reseed_ready) (simp add: session_ready_def)

text \<open>
  C27: the words drawn from a reseeded session are exactly the tempered terms of the MT19937 recurrence
  for that seed, from term 624 on, for any number of draws and whatever was drawn before reseeding.
\<close>

theorem draws_follow_recurrence:
  assumes "session_ready s"
  shows "fst (draws next_u32 n (reseed seed (snd (draws next_u32 m s)))) = map (\<lambda>j. temper (mt seed (624 + j))) [0..<n]"
  using words.replay [OF assms, of n seed m] draws_terms [OF reseed_stands [OF assms]] by simp

theorem draws_follow_recurrence_witness:
  "fst (draws next_u32 2000 (reseed 7 (snd (draws next_u32 5 (session_new :: real RandomSession))))) =
   map (\<lambda>j. temper (mt 7 (624 + j))) [0..<2000]"
  by (rule draws_follow_recurrence [OF session_new_ready])

lemma uniform_bits_value:
  "unat (push_bit 26 (ucast (drop_bit 5 (a :: 32 word))) + ucast (drop_bit 6 (b :: 32 word)) :: 64 word) =
   unat (drop_bit 5 a) * 2 ^ 26 + unat (drop_bit 6 b)"
  and uniform_bits_bound: "unat (drop_bit 5 (a :: 32 word)) * 2 ^ 26 + unat (drop_bit 6 (b :: 32 word)) < 2 ^ 53"
proof -
  have a: "unat (drop_bit 5 a) < 2 ^ 27" and b: "unat (drop_bit 6 b) < 2 ^ 26"
    using unsigned_less [of a, where 'a = nat] unsigned_less [of b, where 'a = nat]
    by (simp_all add: unat_drop_bit_eq drop_bit_nat_def)
  show bound: "unat (drop_bit 5 a) * 2 ^ 26 + unat (drop_bit 6 b) < 2 ^ 53" using a b by simp
  have high: "unat (push_bit 26 (ucast (drop_bit 5 a)) :: 64 word) = unat (drop_bit 5 a) * 2 ^ 26"
    using a by (simp add: push_bit_eq_mult unat_word_ariths take_bit_eq_mod unsigned_ucast_eq)
  have low: "unat (ucast (drop_bit 6 b) :: 64 word) = unat (drop_bit 6 b)"
    using b by (simp add: unsigned_ucast_eq take_bit_eq_mod)
  show "unat (push_bit 26 (ucast (drop_bit 5 a)) + ucast (drop_bit 6 b) :: 64 word) =
      unat (drop_bit 5 a) * 2 ^ 26 + unat (drop_bit 6 b)"
    using bound by (simp add: unat_word_ariths high low)
qed

text \<open>
  A uniform draw is one of the equally spaced quotients by two to the power 53, so it is at least
  zero, strictly below one, and exactly representable as a double.
\<close>

theorem uniform_below_one:
  "\<exists>k < 2 ^ 53. fst (next_uniform s) = real k / 2 ^ 53 \<and> 0 \<le> fst (next_uniform s) \<and> fst (next_uniform s) < 1"
proof -
  let ?a = "fst (next_u32 s)" and ?b = "fst (next_u32 (snd (next_u32 s)))"
  let ?k = "unat (drop_bit 5 ?a) * 2 ^ 26 + unat (drop_bit 6 ?b)"
  have quotient: "fst (next_uniform s) = real ?k / 2 ^ 53"
    unfolding next_uniform_def next_uniform_bits_def Let_def case_prod_beta fst_conv snd_conv uniform_bits_value by simp
  have bound: "?k < 2 ^ 53" by (rule uniform_bits_bound)
  have unit: "0 \<le> real k / 2 ^ 53 \<and> real k / 2 ^ 53 < 1" if "k < 2 ^ 53" for k :: nat
    using that by (simp add: divide_less_eq)
  from unit [OF bound] quotient bound show ?thesis by metis
qed

end
