(* ===== verification/Class_Model.thy ===== *)
theory Class_Model
  imports Object_Store
begin

section \<open>Class declarations (openmat-object/src/descriptor.rs)\<close>

text \<open>
  Declarations of classes, properties, methods, enumeration members and events as they are handed to
  the class registry, their check, and the validated descriptor the registry keeps. The type of
  default values is a parameter. Reserving capacity ahead of the members is left out.
\<close>

subsection \<open>Members\<close>

datatype Superclass = SuperId ClassId | SuperName string

datatype PropertyKind = Stored | Constant | Dependent

record 's PropertyDescriptor =
  property_name :: string
  property_kind :: PropertyKind
  get_access :: "Access option"
  set_access :: "Access option"
  default_value :: "'s option"
  property_abstract :: bool
  property_unsupported :: "string list"

definition stored :: "string \<Rightarrow> 's option \<Rightarrow> 's PropertyDescriptor" where
  "stored n d = \<lparr>property_name = n, property_kind = Stored, get_access = Some Public, set_access = Some Public,
     default_value = d, property_abstract = False, property_unsupported = []\<rparr>"

definition constant_property :: "string \<Rightarrow> 's \<Rightarrow> 's PropertyDescriptor" where
  "constant_property n v = \<lparr>property_name = n, property_kind = Constant, get_access = Some Public, set_access = None,
     default_value = Some v, property_abstract = False, property_unsupported = []\<rparr>"

definition dependent :: "string \<Rightarrow> 's PropertyDescriptor" where
  "dependent n = \<lparr>property_name = n, property_kind = Dependent, get_access = Some Public, set_access = Some Public,
     default_value = None, property_abstract = False, property_unsupported = []\<rparr>"

definition abstract_property :: "string \<Rightarrow> 's PropertyDescriptor" where
  "abstract_property n = \<lparr>property_name = n, property_kind = Stored, get_access = Some Public, set_access = Some Public,
     default_value = None, property_abstract = True, property_unsupported = []\<rparr>"

definition abstract_constant :: "string \<Rightarrow> 's PropertyDescriptor" where
  "abstract_constant n = \<lparr>property_name = n, property_kind = Constant, get_access = Some Public, set_access = None,
     default_value = None, property_abstract = True, property_unsupported = []\<rparr>"

definition abstract_dependent :: "string \<Rightarrow> 's PropertyDescriptor" where
  "abstract_dependent n = \<lparr>property_name = n, property_kind = Dependent, get_access = Some Public, set_access = Some Public,
     default_value = None, property_abstract = True, property_unsupported = []\<rparr>"

definition abstract_slot :: "'s PropertyDescriptor \<Rightarrow> 's PropertyDescriptor" where
  "abstract_slot p = p\<lparr>property_abstract := True, default_value := None\<rparr>"

definition read_only :: "'s PropertyDescriptor \<Rightarrow> 's PropertyDescriptor" where
  "read_only p = p\<lparr>set_access := None\<rparr>"

definition write_only :: "'s PropertyDescriptor \<Rightarrow> 's PropertyDescriptor" where
  "write_only p = p\<lparr>get_access := None\<rparr>"

record MethodDescriptor =
  method_name :: string
  method_kind :: MethodKind
  method_access :: Access
  method_abstract :: bool
  method_sealed :: bool
  method_unsupported :: "string list"

definition instance_method :: "string \<Rightarrow> MethodDescriptor" where
  "instance_method n = \<lparr>method_name = n, method_kind = Instance, method_access = Public, method_abstract = False,
     method_sealed = False, method_unsupported = []\<rparr>"

definition static_method :: "string \<Rightarrow> MethodDescriptor" where
  "static_method n = \<lparr>method_name = n, method_kind = Static, method_access = Public, method_abstract = False,
     method_sealed = False, method_unsupported = []\<rparr>"

record 's EnumerationMemberDescriptor =
  member_name :: string
  constructor_arguments :: "'s list"

record EventDescriptor =
  event_name :: string
  listen_access :: Access
  notify_access :: Access
  event_hidden :: bool

definition event_new :: "string \<Rightarrow> EventDescriptor" where
  "event_new n = \<lparr>event_name = n, listen_access = Public, notify_access = Public, event_hidden = False\<rparr>"

subsection \<open>Classes\<close>

record 's ClassDefinition =
  definition_name :: string
  definition_superclass :: "Superclass option"
  definition_additional :: "ClassId list"
  definition_semantics :: ClassSemantics
  definition_abstract :: "bool option"
  definition_sealed :: bool
  definition_enumeration :: bool
  definition_base :: "string option"
  definition_members :: "'s EnumerationMemberDescriptor list"
  definition_events :: "EventDescriptor list"
  definition_properties :: "'s PropertyDescriptor list"
  definition_methods :: "MethodDescriptor list"
  definition_unsupported :: "string list"

definition class_definition :: "string \<Rightarrow> ClassSemantics \<Rightarrow> 's ClassDefinition" where
  "class_definition n sem =
     \<lparr>definition_name = n, definition_superclass = None, definition_additional = [], definition_semantics = sem,
      definition_abstract = None, definition_sealed = False, definition_enumeration = False, definition_base = None,
      definition_members = [], definition_events = [], definition_properties = [], definition_methods = [],
      definition_unsupported = []\<rparr>"

definition value_class :: "string \<Rightarrow> 's ClassDefinition" where
  "value_class n = class_definition n ClassSemantics.Value"

definition handle_class :: "string \<Rightarrow> 's ClassDefinition" where
  "handle_class n = class_definition n ClassSemantics.Handle"

definition enumeration_class :: "string \<Rightarrow> 's ClassDefinition" where
  "enumeration_class n = (class_definition n ClassSemantics.Value)\<lparr>definition_enumeration := True\<rparr>"

definition with_superclass :: "Superclass \<Rightarrow> 's ClassDefinition \<Rightarrow> 's ClassDefinition" where
  "with_superclass i d = d\<lparr>definition_superclass := Some i\<rparr>"

definition with_additional_superclass :: "ClassId \<Rightarrow> 's ClassDefinition \<Rightarrow> 's ClassDefinition" where
  "with_additional_superclass i d = d\<lparr>definition_additional := definition_additional d @ [i]\<rparr>"

definition with_abstract :: "bool \<Rightarrow> 's ClassDefinition \<Rightarrow> 's ClassDefinition" where
  "with_abstract b d = d\<lparr>definition_abstract := Some b\<rparr>"

definition with_enumeration_base :: "string \<Rightarrow> 's ClassDefinition \<Rightarrow> 's ClassDefinition" where
  "with_enumeration_base n d = d\<lparr>definition_enumeration := True, definition_base := Some n\<rparr>"

definition with_enumeration_member :: "'s EnumerationMemberDescriptor \<Rightarrow> 's ClassDefinition \<Rightarrow> 's ClassDefinition" where
  "with_enumeration_member m d = d\<lparr>definition_enumeration := True, definition_members := definition_members d @ [m]\<rparr>"

definition with_event :: "EventDescriptor \<Rightarrow> 's ClassDefinition \<Rightarrow> 's ClassDefinition" where
  "with_event e d = d\<lparr>definition_events := definition_events d @ [e]\<rparr>"

definition with_property :: "'s PropertyDescriptor \<Rightarrow> 's ClassDefinition \<Rightarrow> 's ClassDefinition" where
  "with_property p d = d\<lparr>definition_properties := definition_properties d @ [p]\<rparr>"

definition with_method :: "MethodDescriptor \<Rightarrow> 's ClassDefinition \<Rightarrow> 's ClassDefinition" where
  "with_method m d = d\<lparr>definition_methods := definition_methods d @ [m]\<rparr>"

record 's ClassDescriptor =
  class_ident :: ClassId
  class_label :: string
  superclass :: "ClassId option"
  additional_superclasses :: "ClassId list"
  declared_semantics :: ClassSemantics
  effective_semantics :: ClassSemantics
  declared_abstract :: "bool option"
  effective_abstract :: bool
  class_sealed :: bool
  class_enumeration :: bool
  class_base :: "string option"
  class_members :: "'s EnumerationMemberDescriptor list"
  class_events :: "EventDescriptor list"
  class_properties :: "'s PropertyDescriptor list"
  class_methods :: "MethodDescriptor list"

definition from_definition :: "ClassId \<Rightarrow> 's ClassDefinition \<Rightarrow> ClassId option \<Rightarrow> ClassId list \<Rightarrow> ClassSemantics \<Rightarrow> bool \<Rightarrow> 's ClassDescriptor" where
  "from_definition i d parent additional sem is_abstract =
     \<lparr>class_ident = i, class_label = definition_name d, superclass = parent, additional_superclasses = additional,
      declared_semantics = definition_semantics d, effective_semantics = sem, declared_abstract = definition_abstract d,
      effective_abstract = is_abstract, class_sealed = definition_sealed d, class_enumeration = definition_enumeration d,
      class_base = definition_base d, class_members = definition_members d, class_events = definition_events d,
      class_properties = definition_properties d, class_methods = definition_methods d\<rparr>"

text \<open>The direct superclasses in precedence order.\<close>

definition superclasses :: "'s ClassDescriptor \<Rightarrow> ClassId list" where
  "superclasses c = (case superclass c of None \<Rightarrow> [] | Some i \<Rightarrow> [i]) @ additional_superclasses c"

definition local_property :: "'s ClassDescriptor \<Rightarrow> string \<Rightarrow> 's PropertyDescriptor option" where
  "local_property c n = List.find (\<lambda>p. property_name p = n) (class_properties c)"

definition local_method :: "'s ClassDescriptor \<Rightarrow> string \<Rightarrow> MethodDescriptor option" where
  "local_method c n = List.find (\<lambda>m. method_name m = n) (class_methods c)"

subsection \<open>The check of a declaration\<close>

text \<open>A loop over member names against the set of names seen so far.\<close>

fun distinct_names :: "(string \<Rightarrow> 'e) \<Rightarrow> string set \<Rightarrow> string list \<Rightarrow> ('e, string set) result" where
  "distinct_names err seen [] = Ok seen"
| "distinct_names err seen (n # ns) =
     (if n = '''' \<or> n \<in> seen then Err (err n) else distinct_names err (insert n seen) ns)"

definition access_fits_kind :: "PropertyKind \<Rightarrow> Access option \<Rightarrow> Access option \<Rightarrow> bool" where
  "access_fits_kind k g s =
     (case k of Stored \<Rightarrow> g \<noteq> None \<and> s \<noteq> None | Constant \<Rightarrow> g \<noteq> None \<and> s = None | Dependent \<Rightarrow> g \<noteq> None \<or> s \<noteq> None)"

definition reject_unsupported :: "AttributeOwner \<Rightarrow> string list \<Rightarrow> unit ObjectResult" where
  "reject_unsupported owner attributes =
     (case attributes of [] \<Rightarrow> Ok () | a # _ \<Rightarrow> Err (UnsupportedAttribute owner a))"

fun validate_properties :: "string \<Rightarrow> string set \<Rightarrow> string set \<Rightarrow> 's PropertyDescriptor list \<Rightarrow> unit ObjectResult" where
  "validate_properties cls features seen [] = Ok ()"
| "validate_properties cls features seen (p # ps) =
     and_then (all_checks
       [ensure (property_name p \<noteq> '''') (EmptyName ''property''),
        ensure (property_name p \<notin> seen) (DuplicateProperty cls (property_name p)),
        ensure (property_name p \<notin> features)
          (InvalidPropertyDefinition cls (property_name p) ''property name conflicts with an enumeration member or event''),
        ensure (\<not> (property_abstract p \<and> default_value p \<noteq> None))
          (InvalidPropertyDefinition cls (property_name p) ''abstract property cannot carry a default value''),
        ensure (access_fits_kind (property_kind p) (get_access p) (set_access p))
          (InvalidPropertyDefinition cls (property_name p) ''property kind and readable/writable access metadata disagree''),
        reject_unsupported (OwnerProperty (property_name p)) (property_unsupported p)])
       (\<lambda>_. validate_properties cls features (insert (property_name p) seen) ps)"

fun validate_methods :: "string \<Rightarrow> string set \<Rightarrow> string set \<Rightarrow> MethodDescriptor list \<Rightarrow> unit ObjectResult" where
  "validate_methods cls features seen [] = Ok ()"
| "validate_methods cls features seen (m # ms) =
     and_then (all_checks
       [ensure (method_name m \<noteq> '''') (EmptyName ''method''),
        ensure (method_name m \<notin> seen) (DuplicateMethod cls (method_name m)),
        ensure (method_name m \<notin> features) (DuplicateMethod cls (method_name m)),
        reject_unsupported (OwnerMethod (method_name m)) (method_unsupported m)])
       (\<lambda>_. validate_methods cls features (insert (method_name m) seen) ms)"

definition validate_definition :: "'s ClassDefinition \<Rightarrow> unit ObjectResult" where
  "validate_definition d =
     (let cls = definition_name d in
      and_then (all_checks
        [ensure (cls \<noteq> '''') (EmptyName ''class''),
         reject_unsupported (OwnerClass cls) (definition_unsupported d),
         ensure (\<not> (definition_enumeration d \<and>
             (definition_abstract d = Some True \<or> list_ex property_abstract (definition_properties d) \<or>
              list_ex method_abstract (definition_methods d))))
           (InvalidEnumerationDefinition cls ''enumeration classes cannot be abstract''),
         ensure (\<not> (definition_enumeration d \<and> definition_members d = []))
           (InvalidEnumerationDefinition cls ''enumeration classes must declare at least one member''),
         ensure (definition_base d \<noteq> Some '''') (InvalidEnumerationDefinition cls ''enumeration base name cannot be empty'')]) (\<lambda>_.
      and_then (distinct_names (DuplicateEnumerationMember cls) {} (map member_name (definition_members d))) (\<lambda>members.
      and_then (distinct_names (DuplicateEvent cls) members (map event_name (definition_events d))) (\<lambda>features.
      and_then (validate_properties cls features {} (definition_properties d)) (\<lambda>_.
        validate_methods cls features {} (definition_methods d))))))"

subsection \<open>What a checked declaration satisfies\<close>

lemma distinct_names_Ok:
  "distinct_names err seen ns = Ok s \<longleftrightarrow> distinct ns \<and> '''' \<notin> set ns \<and> set ns \<inter> seen = {} \<and> s = seen \<union> set ns"
  by (induction err seen ns rule: distinct_names.induct) auto

lemma reject_unsupported_Ok [result_simps]: "reject_unsupported o' as = Ok u \<longleftrightarrow> as = []"
  by (simp add: reject_unsupported_def split: list.split)

lemma validate_properties_Ok:
  "validate_properties cls features seen ps = Ok u \<longleftrightarrow>
     distinct (map property_name ps) \<and> property_name ` set ps \<inter> (seen \<union> features) = {} \<and>
     (\<forall>p\<in>set ps. property_name p \<noteq> '''' \<and> \<not> (property_abstract p \<and> default_value p \<noteq> None) \<and>
        access_fits_kind (property_kind p) (get_access p) (set_access p) \<and> property_unsupported p = [])"
  by (induction ps arbitrary: seen) (auto simp: result_simps)

lemma validate_methods_Ok:
  "validate_methods cls features seen ms = Ok u \<longleftrightarrow>
     distinct (map method_name ms) \<and> method_name ` set ms \<inter> (seen \<union> features) = {} \<and>
     (\<forall>m\<in>set ms. method_name m \<noteq> '''' \<and> method_unsupported m = [])"
  by (induction ms arbitrary: seen) (auto simp: result_simps)

text \<open>A declaration whose members have distinct names apart from its enumeration members and events.\<close>

definition feature_names :: "'s ClassDefinition \<Rightarrow> string set" where
  "feature_names d = member_name ` set (definition_members d) \<union> event_name ` set (definition_events d)"

definition well_declared :: "'s ClassDefinition \<Rightarrow> bool" where
  "well_declared d \<longleftrightarrow>
     definition_name d \<noteq> '''' \<and> definition_unsupported d = [] \<and>
     \<not> (definition_enumeration d \<and>
        (definition_abstract d = Some True \<or> list_ex property_abstract (definition_properties d) \<or> list_ex method_abstract (definition_methods d))) \<and>
     \<not> (definition_enumeration d \<and> definition_members d = []) \<and> definition_base d \<noteq> Some '''' \<and>
     distinct (map member_name (definition_members d)) \<and> '''' \<notin> member_name ` set (definition_members d) \<and>
     distinct (map event_name (definition_events d)) \<and> '''' \<notin> event_name ` set (definition_events d) \<and>
     event_name ` set (definition_events d) \<inter> member_name ` set (definition_members d) = {} \<and>
     distinct (map property_name (definition_properties d)) \<and> property_name ` set (definition_properties d) \<inter> feature_names d = {} \<and>
     (\<forall>p\<in>set (definition_properties d). property_name p \<noteq> '''' \<and> \<not> (property_abstract p \<and> default_value p \<noteq> None) \<and>
        access_fits_kind (property_kind p) (get_access p) (set_access p) \<and> property_unsupported p = []) \<and>
     distinct (map method_name (definition_methods d)) \<and> method_name ` set (definition_methods d) \<inter> feature_names d = {} \<and>
     (\<forall>m\<in>set (definition_methods d). method_name m \<noteq> '''' \<and> method_unsupported m = [])"

lemma validate_definition_iff: "validate_definition d = Ok u \<longleftrightarrow> well_declared d"
proof -
  let ?features = "{} \<union> set (map member_name (definition_members d)) \<union> set (map event_name (definition_events d))"
  have features: "?features = feature_names d" by (auto simp: feature_names_def)
  note properties = validate_properties_Ok [of _ "feature_names d" "{}" "definition_properties d"]
  note methods = validate_methods_Ok [of _ "feature_names d" "{}" "definition_methods d"]
  show ?thesis
    unfolding validate_definition_def well_declared_def Let_def and_then_eq_Ok all_checks_eq_Ok distinct_names_Ok
    by (simp add: result_simps features [simplified] properties methods)
qed

end
