(* ===== verification/Class_Registry.thy ===== *)
theory Class_Registry
  imports Class_Model
begin

section \<open>The class registry (openmat-object/src/registry.rs)\<close>

text \<open>
  Registration of groups of classes and the queries on registered classes. A registration names the
  classes of a group, links their superclasses, which may be other members of the group, and checks
  the group before anything is recorded. Walks along the primary superclasses are loops that end
  because the group has been checked for cycles, so they are partial functions here and their end is
  a theorem; the walks over all superclasses remember what they have visited.
\<close>

subsection \<open>State\<close>

record 's ClassRegistry =
  reg_classes :: "(ClassId, 's ClassDescriptor) btree"
  reg_names :: "(string, ClassId) btree"
  reg_next :: nat

definition registry_new :: "'s ClassRegistry" where
  "registry_new = \<lparr>reg_classes = [], reg_names = [], reg_next = 1\<rparr>"

datatype PropertyAccess = Get | Set

datatype EventAccess = Listen | Notify

type_synonym AccessContext = "ClassId option"

record EventSelection =
  event_receiver :: ClassId
  event_declaring :: ClassId
  event_descriptor :: EventDescriptor

record MethodSelection =
  receiver_class :: ClassId
  method_declaring :: ClassId
  method_descriptor :: MethodDescriptor

datatype 's PropertyResolution =
    ResolvedStored PropertyKey "'s PropertyDescriptor"
  | ResolvedConstant "'s PropertyDescriptor"
  | ResolvedAccessor "'s PropertyDescriptor" MethodSelection

subsection \<open>Loops that may not end\<close>

type_synonym 'a looping = "'a ObjectResult option"

definition loop_then :: "'a looping \<Rightarrow> ('a \<Rightarrow> 'b looping) \<Rightarrow> 'b looping" where
  "loop_then m f = (case m of None \<Rightarrow> None | Some (Inl e) \<Rightarrow> Some (Err e) | Some (Inr a) \<Rightarrow> f a)"

lemma loop_then_simps [simp]:
  "loop_then (Some (Ok a)) f = f a" "loop_then (Some (Err e)) f = Some (Err e)" "loop_then None f = None"
  by (simp_all add: loop_then_def)

lemma loop_then_Ok [result_simps]: "loop_then m f = Some (Ok b) \<longleftrightarrow> (\<exists>a. m = Some (Ok a) \<and> f a = Some (Ok b))"
  by (simp add: loop_then_def split: option.split sum.split)

definition returns :: "'a looping \<Rightarrow> bool" where
  "returns m \<longleftrightarrow> m \<noteq> None"

lemma returns_Some [simp]: "returns (Some r)"
  by (simp add: returns_def)

lemma returns_then: "returns m \<Longrightarrow> (\<And>a. m = Some (Ok a) \<Longrightarrow> returns (f a)) \<Longrightarrow> returns (loop_then m f)"
  by (auto simp: returns_def loop_then_def split: option.split sum.split)

fun loop_map :: "('a \<Rightarrow> 'b looping) \<Rightarrow> 'a list \<Rightarrow> 'b list looping" where
  "loop_map f [] = Some (Ok [])"
| "loop_map f (x # xs) = loop_then (f x) (\<lambda>y. loop_then (loop_map f xs) (\<lambda>ys. Some (Ok (y # ys))))"

subsection \<open>Queries of one class\<close>

definition class_at :: "'s ClassRegistry \<Rightarrow> ClassId \<Rightarrow> 's ClassDescriptor ObjectResult" where
  "class_at reg i = ok_or (UnknownClass i) (bt_get (reg_classes reg) i)"

definition class_id :: "'s ClassRegistry \<Rightarrow> string \<Rightarrow> ClassId ObjectResult" where
  "class_id reg n = ok_or (UnknownClassName n) (bt_get (reg_names reg) n)"

definition class_named :: "'s ClassRegistry \<Rightarrow> string \<Rightarrow> 's ClassDescriptor ObjectResult" where
  "class_named reg n = and_then (class_id reg n) (class_at reg)"

definition semantics :: "'s ClassRegistry \<Rightarrow> ClassId \<Rightarrow> ClassSemantics ObjectResult" where
  "semantics reg i = and_then (class_at reg i) (\<lambda>c. Ok (effective_semantics c))"

definition ensure_instantiable :: "'s ClassRegistry \<Rightarrow> ClassId \<Rightarrow> unit ObjectResult" where
  "ensure_instantiable reg i =
     and_then (class_at reg i) (\<lambda>c.
       if class_enumeration c then Err (EnumerationDirectConstruction (class_label c))
       else if effective_abstract c then Err (AbstractClassInstantiation (class_label c)) else Ok ())"

definition default_values :: "'s ClassRegistry \<Rightarrow> 's list" where
  "default_values reg = concat (map (\<lambda>(_, c). List.map_filter default_value (class_properties c)) (reg_classes reg))"

subsection \<open>Naming and linking a group\<close>

fun name_batch :: "'s ClassRegistry \<Rightarrow> (string, ClassId) btree \<Rightarrow> ClassId list \<Rightarrow> nat \<Rightarrow> 's ClassDefinition list \<Rightarrow>
    ((string, ClassId) btree \<times> ClassId list \<times> nat) ObjectResult" where
  "name_batch reg batch_names ids nxt [] = Ok (batch_names, ids, nxt)"
| "name_batch reg batch_names ids nxt (d # ds) =
     and_then (validate_definition d) (\<lambda>_.
     and_then (ensure (bt_get (reg_names reg) (definition_name d) = None \<and> bt_get batch_names (definition_name d) = None)
       (DuplicateClass (definition_name d))) (\<lambda>_.
     and_then (ok_or (IdExhausted ''class'') (checked_add u64_max nxt 1)) (\<lambda>nxt'.
       name_batch reg (bt_insert (definition_name d) nxt batch_names) (ids @ [nxt]) nxt' ds)))"

definition batch_indices :: "ClassId list \<Rightarrow> (ClassId, nat) btree" where
  "batch_indices ids = fold (\<lambda>(k, i) m. bt_insert i k m) (enumerate 0 ids) []"

definition link_superclass :: "'s ClassRegistry \<Rightarrow> (string, ClassId) btree \<Rightarrow> (ClassId, nat) btree \<Rightarrow> 's ClassDefinition \<Rightarrow>
    ClassId option ObjectResult" where
  "link_superclass reg batch_names ix d =
     (case definition_superclass d of
        None \<Rightarrow> Ok None
      | Some (SuperId i) \<Rightarrow>
          if bt_get (reg_classes reg) i \<noteq> None \<or> bt_get ix i \<noteq> None then Ok (Some i) else Err (UnknownClass i)
      | Some (SuperName n) \<Rightarrow>
          (case bt_get (reg_names reg) n of
             Some i \<Rightarrow> Ok (Some i)
           | None \<Rightarrow> (case bt_get batch_names n of Some i \<Rightarrow> Ok (Some i) | None \<Rightarrow> Err (UnknownClassName n))))"

fun link_additional :: "'s ClassRegistry \<Rightarrow> string \<Rightarrow> ClassId set \<Rightarrow> ClassId list \<Rightarrow> unit ObjectResult" where
  "link_additional reg cls seen [] = Ok ()"
| "link_additional reg cls seen (i # is) =
     and_then (ensure (bt_get (reg_classes reg) i \<noteq> None) (UnknownClass i)) (\<lambda>_.
     and_then (ensure (i \<notin> seen) (DuplicateSuperclass cls i)) (\<lambda>_. link_additional reg cls (insert i seen) is))"

text \<open>The linked superclass of each definition of the group.\<close>

fun link_batch :: "(nat \<Rightarrow> bool) \<Rightarrow> 's ClassRegistry \<Rightarrow> (string, ClassId) btree \<Rightarrow> (ClassId, nat) btree \<Rightarrow> 's ClassDefinition list \<Rightarrow>
    ClassId option list ObjectResult" where
  "link_batch reserve reg batch_names ix [] = Ok []"
| "link_batch reserve reg batch_names ix (d # ds) =
     and_then (link_superclass reg batch_names ix d) (\<lambda>parent.
     and_then (ensure (reserve (length (definition_additional d))) (CapacityExceeded ''direct superclasses'')) (\<lambda>_.
     and_then (link_additional reg (definition_name d) (set_option parent) (definition_additional d)) (\<lambda>_.
     and_then (link_batch reserve reg batch_names ix ds) (\<lambda>parents. Ok (parent # parents)))))"

subsection \<open>A group together with the registry\<close>

text \<open>The group under registration: its definitions, where each identity is, and the linked superclasses.\<close>

record 's Batch =
  batch_definitions :: "'s ClassDefinition list"
  batch_index :: "(ClassId, nat) btree"
  batch_superclasses :: "ClassId option list"

text \<open>What a class is, seen by walks that mix the group with the registry.\<close>

definition combined :: "'s ClassRegistry \<Rightarrow> 's Batch \<Rightarrow> ('s ClassDefinition \<Rightarrow> 'a) \<Rightarrow> ('s ClassDescriptor \<Rightarrow> 'a) \<Rightarrow> ClassId \<Rightarrow> 'a ObjectResult" where
  "combined reg b in_batch in_registry i =
     (case bt_get (batch_index b) i of
        Some k \<Rightarrow> and_then (ok_or (UnknownClass i) (slice_get (batch_definitions b) k)) (\<lambda>d. Ok (in_batch d))
      | None \<Rightarrow> and_then (class_at reg i) (\<lambda>c. Ok (in_registry c)))"

definition combined_superclass :: "'s ClassRegistry \<Rightarrow> 's Batch \<Rightarrow> ClassId \<Rightarrow> ClassId option ObjectResult" where
  "combined_superclass reg b i =
     (case bt_get (batch_index b) i of
        Some k \<Rightarrow> ok_or (UnknownClass i) (slice_get (batch_superclasses b) k)
      | None \<Rightarrow> and_then (class_at reg i) (\<lambda>c. Ok (superclass c)))"

definition combined_class_sealed :: "'s ClassRegistry \<Rightarrow> 's Batch \<Rightarrow> ClassId \<Rightarrow> bool ObjectResult" where
  "combined_class_sealed reg b =
     combined reg b (\<lambda>d. definition_sealed d \<or> definition_enumeration d) (\<lambda>c. class_sealed c \<or> class_enumeration c)"

lemma combined_known:
  "combined_superclass reg b i = Ok p \<Longrightarrow> i \<in> dom (bt_get (batch_index b)) \<union> dom (bt_get (reg_classes reg))"
  by (auto simp: combined_superclass_def class_at_def result_simps split: option.splits)

function check_combined_cycle :: "'s ClassRegistry \<Rightarrow> 's Batch \<Rightarrow> ClassId set \<Rightarrow> ClassId option \<Rightarrow> unit ObjectResult" where
  "check_combined_cycle reg b visited current =
     (case current of
        None \<Rightarrow> Ok ()
      | Some i \<Rightarrow>
          if i \<in> visited then Err (InheritanceCycle i)
          else (case combined_superclass reg b i of
                  Inl e \<Rightarrow> Err e
                | Inr nxt \<Rightarrow> check_combined_cycle reg b (insert i visited) nxt))"
  by pat_completeness auto
termination
proof (relation "measure (\<lambda>(reg, b, visited, _). card ((dom (bt_get (batch_index b)) \<union> dom (bt_get (reg_classes reg))) - visited))")
  fix reg :: "'s ClassRegistry" and b visited and current :: "ClassId option" and i nxt
  assume "current = Some i" "i \<notin> visited" "combined_superclass reg b i = Inr nxt"
  then have "i \<in> (dom (bt_get (batch_index b)) \<union> dom (bt_get (reg_classes reg))) - visited" using combined_known by fastforce
  then have "card ((dom (bt_get (batch_index b)) \<union> dom (bt_get (reg_classes reg))) - insert i visited) <
      card ((dom (bt_get (batch_index b)) \<union> dom (bt_get (reg_classes reg))) - visited)"
    by (intro psubset_card_mono finite_Diff finite_UnI bt.finite_dom) auto
  then show "((reg, b, insert i visited, nxt), (reg, b, visited, current)) \<in>
      measure (\<lambda>(reg, b, visited, _). card ((dom (bt_get (batch_index b)) \<union> dom (bt_get (reg_classes reg))) - visited))"
    by simp
qed simp

declare check_combined_cycle.simps [simp del]

subsection \<open>Walks along the primary superclasses\<close>

text \<open>
  The loops of \<open>inherited_semantics\<close>, \<open>find_combined_property\<close> and \<open>find_combined_method\<close>: each looks
  at a class, of the group or of the registry, returns what it finds there and otherwise goes on with
  the superclass.
\<close>

partial_function (option) chain_find :: "'s ClassRegistry \<Rightarrow> 's Batch \<Rightarrow> (ClassId \<Rightarrow> 'a option ObjectResult) \<Rightarrow> ClassId option \<Rightarrow> 'a option looping" where
  "chain_find reg b look current =
     (case current of
        None \<Rightarrow> Some (Ok None)
      | Some i \<Rightarrow>
          (case look i of
             Inl e \<Rightarrow> Some (Err e)
           | Inr (Some a) \<Rightarrow> Some (Ok (Some a))
           | Inr None \<Rightarrow>
               (case combined_superclass reg b i of
                  Inl e \<Rightarrow> Some (Err e)
                | Inr nxt \<Rightarrow> chain_find reg b look nxt)))"

definition inherited_semantics :: "'s ClassRegistry \<Rightarrow> 's Batch \<Rightarrow> ClassId option \<Rightarrow> ClassSemantics looping" where
  "inherited_semantics reg b start =
     loop_then
       (chain_find reg b
          (\<lambda>i. and_then (combined reg b definition_semantics effective_semantics i)
                (\<lambda>s. Ok (if s = ClassSemantics.Handle then Some ClassSemantics.Handle else None))) start)
       (\<lambda>found. Some (Ok (case found of Some s \<Rightarrow> s | None \<Rightarrow> ClassSemantics.Value)))"

definition find_combined_property :: "'s ClassRegistry \<Rightarrow> 's Batch \<Rightarrow> string \<Rightarrow> ClassId option \<Rightarrow> (ClassId \<times> 's PropertyDescriptor) option looping" where
  "find_combined_property reg b n =
     chain_find reg b
       (\<lambda>i. and_then (combined reg b (\<lambda>d. List.find (\<lambda>p. property_name p = n) (definition_properties d)) (\<lambda>c. local_property c n) i)
             (\<lambda>p. Ok (map_option (Pair i) p)))"

definition find_combined_method :: "'s ClassRegistry \<Rightarrow> 's Batch \<Rightarrow> string \<Rightarrow> ClassId option \<Rightarrow> (ClassId \<times> MethodDescriptor) option looping" where
  "find_combined_method reg b n =
     chain_find reg b
       (\<lambda>i. and_then (combined reg b (\<lambda>d. List.find (\<lambda>m. method_name m = n) (definition_methods d)) (\<lambda>c. local_method c n) i)
             (\<lambda>m. Ok (map_option (Pair i) m)))"

text \<open>The class and its primary superclasses, the most derived first.\<close>

partial_function (option) combined_ancestry :: "'s ClassRegistry \<Rightarrow> 's Batch \<Rightarrow> ClassId list \<Rightarrow> ClassId option \<Rightarrow> ClassId list looping" where
  "combined_ancestry reg b ancestry current =
     (case current of
        None \<Rightarrow> Some (Ok ancestry)
      | Some i \<Rightarrow>
          (case combined_superclass reg b i of
             Inl e \<Rightarrow> Some (Err e)
           | Inr nxt \<Rightarrow> combined_ancestry reg b (ancestry @ [i]) nxt))"

declare chain_find.simps [code] combined_ancestry.simps [code]

subsection \<open>Checks of a group\<close>

definition validate_sealed_superclasses :: "'s ClassRegistry \<Rightarrow> 's Batch \<Rightarrow> unit ObjectResult" where
  "validate_sealed_superclasses reg b =
     for_each (\<lambda>(d, parent).
       case parent of
         None \<Rightarrow> Ok ()
       | Some i \<Rightarrow>
           and_then (combined_class_sealed reg b i) (\<lambda>is_sealed.
             ensure (\<not> is_sealed) (SealedSuperclass (definition_name d) i)))
       (zip (batch_definitions b) (batch_superclasses b))"

definition validate_additional_sealed :: "'s ClassRegistry \<Rightarrow> 's Batch \<Rightarrow> unit ObjectResult" where
  "validate_additional_sealed reg b =
     for_each (\<lambda>d.
       for_each (\<lambda>i. and_then (combined_class_sealed reg b i) (\<lambda>is_sealed.
         ensure (\<not> is_sealed) (SealedSuperclass (definition_name d) i))) (definition_additional d))
       (batch_definitions b)"

definition effective_semantics_of :: "'s ClassRegistry \<Rightarrow> 's Batch \<Rightarrow> 's ClassDefinition \<times> ClassId option \<Rightarrow> ClassSemantics looping" where
  "effective_semantics_of reg b = (\<lambda>(d, parent).
     if definition_semantics d = ClassSemantics.Handle \<or>
        list_ex (\<lambda>i. semantics reg i = Ok ClassSemantics.Handle) (definition_additional d)
     then Some (Ok ClassSemantics.Handle) else inherited_semantics reg b parent)"

definition settle_method :: "string \<Rightarrow> ClassId \<Rightarrow> (string, Access \<times> ClassId) btree \<Rightarrow> MethodDescriptor \<Rightarrow>
    (string, Access \<times> ClassId) btree ObjectResult" where
  "settle_method cls i unresolved m =
     (case bt_get unresolved (method_name m) of
        Some (inherited, _) \<Rightarrow>
          if inherited \<noteq> method_access m then Err (AbstractOverrideAccessMismatch cls (method_name m) inherited (method_access m))
          else Ok (if method_abstract m then bt_insert (method_name m) (method_access m, i) unresolved
                   else bt_remove (method_name m) unresolved)
      | None \<Rightarrow>
          Ok (if method_abstract m then bt_insert (method_name m) (method_access m, i) unresolved
              else bt_remove (method_name m) unresolved))"

definition combined_abstract_methods :: "'s ClassRegistry \<Rightarrow> 's Batch \<Rightarrow> ClassId \<Rightarrow> (string, Access \<times> ClassId) btree looping" where
  "combined_abstract_methods reg b i =
     loop_then (combined_ancestry reg b [] (Some i)) (\<lambda>ancestry.
       Some (fold_result (\<lambda>unresolved j.
         and_then (combined reg b (\<lambda>d. (definition_name d, definition_methods d)) (\<lambda>c. (class_label c, class_methods c)) j)
           (\<lambda>(cls, methods). fold_result (settle_method cls j) unresolved methods))
         [] (rev ancestry)))"

definition settle_property :: "string \<Rightarrow> (string, Access option \<times> Access option) btree \<Rightarrow> 's PropertyDescriptor \<Rightarrow>
    (string, Access option \<times> Access option) btree ObjectResult" where
  "settle_property cls unresolved p =
     (if bt_get unresolved (property_name p) \<notin> {None, Some (get_access p, set_access p)}
      then Err (AbstractPropertyOverrideAccessMismatch cls (property_name p))
      else Ok (if property_abstract p then bt_insert (property_name p) (get_access p, set_access p) unresolved
               else bt_remove (property_name p) unresolved))"

definition combined_abstract_properties :: "'s ClassRegistry \<Rightarrow> 's Batch \<Rightarrow> ClassId \<Rightarrow> (string, Access option \<times> Access option) btree looping" where
  "combined_abstract_properties reg b i =
     loop_then (combined_ancestry reg b [] (Some i)) (\<lambda>ancestry.
       Some (fold_result (\<lambda>unresolved j.
         and_then (combined reg b (\<lambda>d. (definition_name d, definition_properties d)) (\<lambda>c. (class_label c, class_properties c)) j)
           (\<lambda>(cls, properties). fold_result (settle_property cls) unresolved properties))
         [] (rev ancestry)))"

definition effective_abstractness :: "'s ClassRegistry \<Rightarrow> 's Batch \<Rightarrow> ClassId list \<Rightarrow> bool list looping" where
  "effective_abstractness reg b ids =
     loop_map (\<lambda>(d, i).
       loop_then (combined_abstract_methods reg b i) (\<lambda>unresolved.
       loop_then (combined_abstract_properties reg b i) (\<lambda>unresolved_properties.
         if definition_abstract d = Some False \<and> (unresolved \<noteq> [] \<or> unresolved_properties \<noteq> [])
         then Some (Err (ExplicitConcreteWithAbstractMethods (definition_name d)
                (sort (map fst unresolved @ map fst unresolved_properties))))
         else Some (Ok (definition_abstract d = Some True \<or> unresolved \<noteq> [] \<or> unresolved_properties \<noteq> [])))))
       (zip (batch_definitions b) ids)"

definition check_inherited_property :: "'s ClassDefinition \<Rightarrow> 's PropertyDescriptor \<Rightarrow> (ClassId \<times> 's PropertyDescriptor) option \<Rightarrow> unit ObjectResult" where
  "check_inherited_property d p found =
     (case found of
        None \<Rightarrow> Ok ()
      | Some (i, inherited) \<Rightarrow>
          if property_abstract inherited
          then ensure (get_access inherited = get_access p \<and> set_access inherited = set_access p)
                 (AbstractPropertyOverrideAccessMismatch (definition_name d) (property_name p))
          else Err (InheritedPropertyConflict (definition_name d) (property_name p) i))"

definition check_inherited_method :: "'s ClassDefinition \<Rightarrow> MethodDescriptor \<Rightarrow> (ClassId \<times> MethodDescriptor) option \<Rightarrow> unit ObjectResult" where
  "check_inherited_method d m found =
     (case found of
        None \<Rightarrow> Ok ()
      | Some (_, inherited) \<Rightarrow> all_checks
          [ensure (\<not> method_sealed inherited) (SealedMethodOverride (definition_name d) (method_name m)),
           ensure (\<not> (method_kind inherited \<noteq> method_kind m \<and> \<not> method_abstract inherited))
             (OverrideKindMismatch (definition_name d) (method_name m) (method_kind inherited) (method_kind m))])"

definition check_declared_constructor :: "'s ClassDefinition \<Rightarrow> unit ObjectResult" where
  "check_declared_constructor d =
     (case List.find (\<lambda>m. method_name m = definition_name d) (definition_methods d) of
        None \<Rightarrow> Ok ()
      | Some c \<Rightarrow> ensure (method_kind c = Instance) (InvalidConstructorKind (definition_name d)))"

definition validate_inherited_members :: "'s ClassRegistry \<Rightarrow> 's Batch \<Rightarrow> 's ClassDefinition \<times> ClassId option \<Rightarrow> unit looping" where
  "validate_inherited_members reg b = (\<lambda>(d, parent).
     loop_then (Some (check_declared_constructor d)) (\<lambda>_.
     loop_then (loop_map (\<lambda>p. loop_then (find_combined_property reg b (property_name p) parent) (\<lambda>found.
         Some (check_inherited_property d p found))) (definition_properties d)) (\<lambda>_.
     loop_then (loop_map (\<lambda>m. loop_then (find_combined_method reg b (method_name m) parent) (\<lambda>found.
         Some (check_inherited_method d m found))) (definition_methods d)) (\<lambda>_.
       Some (Ok ())))))"

subsection \<open>Registration\<close>

definition check_enumeration_base :: "'s Batch \<Rightarrow> unit ObjectResult" where
  "check_enumeration_base b =
     for_each (\<lambda>(d, parent). ensure (\<not> (definition_enumeration d \<and> parent \<noteq> None))
       (InvalidEnumerationDefinition (definition_name d) ''enumeration base metadata cannot be a linked user superclass''))
       (zip (batch_definitions b) (batch_superclasses b))"

definition check_event_semantics :: "'s Batch \<Rightarrow> ClassSemantics list \<Rightarrow> unit ObjectResult" where
  "check_event_semantics b sems =
     for_each (\<lambda>(d, sem). ensure (\<not> (definition_events d \<noteq> [] \<and> sem \<noteq> ClassSemantics.Handle))
       (InvalidPropertyDefinition (definition_name d) ''<events>'' ''events require handle-class semantics''))
       (zip (batch_definitions b) sems)"

text \<open>What a checked group is recorded as: identity, definition, superclass, semantics, abstractness.\<close>

type_synonym 's settled = "'s ClassDefinition \<times> ClassId \<times> ClassId option \<times> ClassSemantics \<times> bool"

definition insert_class :: "'s settled \<Rightarrow> 's ClassRegistry \<Rightarrow> 's ClassRegistry" where
  "insert_class = (\<lambda>(d, i, parent, sem, is_abstract) reg.
     reg\<lparr>reg_names := bt_insert (definition_name d) i (reg_names reg),
         reg_classes := bt_insert i (from_definition i d parent (definition_additional d) sem is_abstract) (reg_classes reg)\<rparr>)"

text \<open>The checks of a linked group, in their order; the registry is not touched before they are over.\<close>

definition settle_batch :: "'s ClassRegistry \<Rightarrow> 's Batch \<Rightarrow> ClassId list \<Rightarrow> 's settled list looping" where
  "settle_batch reg b ids =
     loop_then (Some (check_enumeration_base b)) (\<lambda>_.
     loop_then (Some (validate_sealed_superclasses reg b)) (\<lambda>_.
     loop_then (Some (validate_additional_sealed reg b)) (\<lambda>_.
     loop_then (Some (for_each (\<lambda>i. check_combined_cycle reg b {} (Some i)) ids)) (\<lambda>_.
     loop_then (loop_map (effective_semantics_of reg b) (zip (batch_definitions b) (batch_superclasses b))) (\<lambda>sems.
     loop_then (effective_abstractness reg b ids) (\<lambda>abstracts.
     loop_then (Some (check_event_semantics b sems)) (\<lambda>_.
     loop_then (loop_map (validate_inherited_members reg b) (zip (batch_definitions b) (batch_superclasses b))) (\<lambda>_.
       Some (Ok (zip (batch_definitions b) (zip ids (zip (batch_superclasses b) (zip sems abstracts)))))))))))))"

definition register_classes :: "(nat \<Rightarrow> bool) \<Rightarrow> 's ClassDefinition list \<Rightarrow> 's ClassRegistry \<Rightarrow> (ClassId list \<times> 's ClassRegistry) looping" where
  "register_classes reserve ds reg =
     (if ds = [] then Some (Ok ([], reg))
      else
        loop_then (Some (name_batch reg [] [] (reg_next reg) ds)) (\<lambda>(names, ids, nxt).
        loop_then (Some (link_batch reserve reg names (batch_indices ids) ds)) (\<lambda>parents.
        loop_then (settle_batch reg \<lparr>batch_definitions = ds, batch_index = batch_indices ids, batch_superclasses = parents\<rparr> ids)
          (\<lambda>rows. Some (Ok (ids, (fold insert_class rows reg)\<lparr>reg_next := nxt\<rparr>))))))"

definition register_class :: "(nat \<Rightarrow> bool) \<Rightarrow> 's ClassDefinition \<Rightarrow> 's ClassRegistry \<Rightarrow> (ClassId \<times> 's ClassRegistry) looping" where
  "register_class reserve d reg =
     loop_then (register_classes reserve [d] reg) (\<lambda>(ids, reg').
       Some (and_then (ok_or (IdExhausted ''class'') (if ids = [] then None else Some (last ids))) (\<lambda>i. Ok (i, reg'))))"

subsection \<open>Registration ends\<close>

lemma check_combined_cycle_step [simp]:
  "check_combined_cycle reg b visited None = Ok ()"
  "check_combined_cycle reg b visited (Some i) =
     (if i \<in> visited then Err (InheritanceCycle i)
      else and_then (combined_superclass reg b i) (check_combined_cycle reg b (insert i visited)))"
  by (simp_all add: check_combined_cycle.simps [of reg b visited "Some i"] check_combined_cycle.simps [of reg b visited None]
      and_then_def split: sum.split)

text \<open>The superclass links a group and the registry form together.\<close>

definition combined_parent :: "'s ClassRegistry \<Rightarrow> 's Batch \<Rightarrow> (ClassId \<times> ClassId) set" where
  "combined_parent reg b = {(j, i). combined_superclass reg b i = Ok (Some j)}"

lemma accI_chain:
  "(\<And>j. combined_superclass reg b i = Ok (Some j) \<Longrightarrow> j \<in> Wellfounded.acc (combined_parent reg b)) \<Longrightarrow>
     i \<in> Wellfounded.acc (combined_parent reg b)"
  by (rule accI) (auto simp: combined_parent_def)

lemma cycle_check_acc:
  "check_combined_cycle reg b visited current = Ok () \<Longrightarrow> current = Some i \<Longrightarrow> i \<in> Wellfounded.acc (combined_parent reg b)"
proof (induction reg b visited current arbitrary: i rule: check_combined_cycle.induct)
  case (1 reg b visited current)
  show ?case
  proof (rule accI_chain)
    fix j assume parent: "combined_superclass reg b i = Ok (Some j)"
    with 1(2,3) have "i \<notin> visited" "check_combined_cycle reg b (insert i visited) (Some j) = Ok ()"
      by (simp_all split: if_splits)
    with 1(1) [OF 1(3) _ parent _ refl] show "j \<in> Wellfounded.acc (combined_parent reg b)" by simp
  qed
qed

lemma acc_superclass:
  "i \<in> Wellfounded.acc (combined_parent reg b) \<Longrightarrow> combined_superclass reg b i = Ok (Some j) \<Longrightarrow>
     j \<in> Wellfounded.acc (combined_parent reg b)"
  by (rule acc_downward) (simp_all add: combined_parent_def)

lemma returns_chain_find:
  assumes "set_option start \<subseteq> Wellfounded.acc (combined_parent reg b)"
  shows "returns (chain_find reg b look start)"
proof -
  have "returns (chain_find reg b look (Some i))" if "i \<in> Wellfounded.acc (combined_parent reg b)" for i
    using that
  proof (induction rule: acc_induct_rule)
    case (1 i)
    have "returns (chain_find reg b look nxt)" if "combined_superclass reg b i = Ok nxt" for nxt
      using that 1 by (cases nxt) (simp_all add: chain_find.simps [of reg b look None] combined_parent_def)
    then show ?case
      by (simp add: chain_find.simps [of reg b look "Some i"] split: sum.split option.split)
  qed
  with assms show ?thesis by (cases start) (simp_all add: chain_find.simps [of reg b look None])
qed

lemma returns_combined_ancestry:
  assumes "set_option start \<subseteq> Wellfounded.acc (combined_parent reg b)"
  shows "returns (combined_ancestry reg b ancestry start)"
proof -
  have "returns (combined_ancestry reg b ancestry (Some i))" if "i \<in> Wellfounded.acc (combined_parent reg b)" for i ancestry
    using that
  proof (induction arbitrary: ancestry rule: acc_induct_rule)
    case (1 i)
    have "returns (combined_ancestry reg b (ancestry @ [i]) nxt)" if "combined_superclass reg b i = Ok nxt" for nxt
      using that 1 by (cases nxt) (simp_all add: combined_ancestry.simps [of reg b _ None] combined_parent_def)
    then show ?case
      by (simp add: combined_ancestry.simps [of reg b ancestry "Some i"] split: sum.split)
  qed
  with assms show ?thesis by (cases start) (simp_all add: combined_ancestry.simps [of reg b ancestry None])
qed

lemma returns_map: "(\<And>x. x \<in> set xs \<Longrightarrow> returns (f x)) \<Longrightarrow> returns (loop_map f xs)"
  by (induction xs) (auto intro!: returns_then)

lemma loop_map_Ok: "loop_map f xs = Some (Ok ys) \<longleftrightarrow> list_all2 (\<lambda>x y. f x = Some (Ok y)) xs ys"
  by (induction xs arbitrary: ys) (auto simp: result_simps list_all2_Cons1)

lemma name_batch_ids:
  assumes "name_batch reg names ids n ds = Ok (names', ids', n')"
  shows "ids' = ids @ [n..<n + length ds] \<and> n' = n + length ds"
  using assms
proof (induction ds arbitrary: names ids n)
  case (Cons d ds)
  then have "name_batch reg (bt_insert (definition_name d) n names) (ids @ [n]) (Suc n) ds = Ok (names', ids', n')"
    by (simp add: result_simps checked_simps)
  from Cons.IH [OF this] show ?case by (simp add: upt_conv_Cons del: upt_Suc)
qed simp

lemma batch_indices_fold:
  "bt_get (fold (\<lambda>(k, i) m. bt_insert i k m) (enumerate a [n..<n + len]) m) i =
     (if n \<le> i \<and> i < n + len then Some (a + (i - n)) else bt_get m i)"
proof (induction len arbitrary: m)
  case (Suc len)
  then show ?case by (auto simp: enumerate_append_eq bt_insert_get)
qed auto

lemma batch_indices_range: "bt_get (batch_indices [n..<n + len]) i = (if n \<le> i \<and> i < n + len then Some (i - n) else None)"
  by (simp add: batch_indices_def batch_indices_fold)

lemma link_batch_list:
  "link_batch reserve reg names ix ds = Ok parents \<longleftrightarrow>
     list_all2 (\<lambda>d parent. link_superclass reg names ix d = Ok parent \<and> reserve (length (definition_additional d)) \<and>
        link_additional reg (definition_name d) (set_option parent) (definition_additional d) = Ok ()) ds parents"
  by (induction ds arbitrary: parents) (auto simp: result_simps list_all2_Cons1)

lemma link_additional_Ok:
  "link_additional reg cls seen is = Ok u \<longleftrightarrow>
     distinct is \<and> set is \<inter> seen = {} \<and> set is \<subseteq> dom (bt_get (reg_classes reg))"
  by (induction "is" arbitrary: seen) (auto simp: result_simps)

text \<open>The group is indexed by its own identities, from the registry's next identity on.\<close>

definition batch_of :: "'s ClassRegistry \<Rightarrow> 's Batch \<Rightarrow> ClassId list \<Rightarrow> bool" where
  "batch_of reg b ids \<longleftrightarrow>
     ids = [reg_next reg..<reg_next reg + length (batch_definitions b)] \<and> batch_index b = batch_indices ids \<and>
     length (batch_superclasses b) = length (batch_definitions b)"

lemma batch_of_index:
  "batch_of reg b ids \<Longrightarrow> bt_get (batch_index b) i =
     (if reg_next reg \<le> i \<and> i < reg_next reg + length (batch_definitions b) then Some (i - reg_next reg) else None)"
  by (simp add: batch_of_def batch_indices_range)

lemma batch_superclass_of:
  assumes "batch_of reg b ids" and "k < length (batch_definitions b)"
  shows "combined_superclass reg b (reg_next reg + k) = Ok (batch_superclasses b ! k)"
  using assms by (simp add: combined_superclass_def batch_of_index) (simp add: batch_of_def slice_get_def)

lemma returns_settle_batch:
  assumes "batch_of reg b ids"
  shows "returns (settle_batch reg b ids)"
proof -
  let ?acc = "Wellfounded.acc (combined_parent reg b)"
  let ?rows = "set (zip (batch_definitions b) (batch_superclasses b))"
  have ids: "set ids = {reg_next reg..<reg_next reg + length (batch_definitions b)}" using assms by (simp add: batch_of_def)
  have rows: "set_option (snd row) \<subseteq> ?acc" if "\<forall>i\<in>set ids. i \<in> ?acc" "row \<in> ?rows" for row
  proof -
    from that(2) obtain k where k: "k < length (batch_definitions b)" "snd row = batch_superclasses b ! k"
      by (auto simp: set_zip)
    from that(1) k(1) have "reg_next reg + k \<in> ?acc" by (simp add: ids)
    with batch_superclass_of [OF assms k(1)] acc_superclass show ?thesis by (auto simp: k(2))
  qed
  have acc: "\<forall>i\<in>set ids. i \<in> ?acc" if "\<forall>i\<in>set ids. check_combined_cycle reg b {} (Some i) = Ok ()"
    using that cycle_check_acc by blast
  have semantics: "returns (effective_semantics_of reg b row)" if "\<forall>i\<in>set ids. i \<in> ?acc" "row \<in> ?rows" for row
    using rows [OF that]
    by (auto simp: effective_semantics_of_def inherited_semantics_def case_prod_beta intro!: returns_then returns_chain_find)
  have abstracts: "returns (effective_abstractness reg b ids)" if "\<forall>i\<in>set ids. i \<in> ?acc"
    using that unfolding effective_abstractness_def combined_abstract_methods_def combined_abstract_properties_def
    by (intro returns_map) (auto dest!: set_zip_rightD intro!: returns_then returns_combined_ancestry)
  have members: "returns (validate_inherited_members reg b row)" if "\<forall>i\<in>set ids. i \<in> ?acc" "row \<in> ?rows" for row
    using rows [OF that]
    by (auto simp: validate_inherited_members_def find_combined_property_def find_combined_method_def case_prod_beta
        intro!: returns_then returns_map returns_chain_find)
  show ?thesis
    unfolding settle_batch_def
    by (intro returns_then returns_map semantics abstracts members acc) (simp_all add: result_simps)
qed

lemma linked_batch_of:
  assumes "name_batch reg [] [] (reg_next reg) ds = Ok (names, ids, nxt)"
    and "link_batch reserve reg names (batch_indices ids) ds = Ok parents"
  shows "batch_of reg \<lparr>batch_definitions = ds, batch_index = batch_indices ids, batch_superclasses = parents\<rparr> ids"
  using name_batch_ids [OF assms(1)] assms(2) by (simp add: batch_of_def link_batch_list list_all2_lengthD [symmetric] del: upt_Suc)

lemma registration_returns: "returns (register_classes reserve ds reg)"
  unfolding register_classes_def
  by (auto intro!: returns_then returns_settle_batch linked_batch_of)

end
