(* ===== verification/Class_Invariant.thy ===== *)
theory Class_Invariant
  imports Class_Registry
begin

section \<open>What the class registry keeps\<close>

text \<open>
  The invariant of the class registry and its preservation by every registration, together with the
  end of registration. Registration checks a whole group before it records anything, so the proof
  first collects what the checks establish for each member of the group and then follows the
  insertions.
\<close>

subsection \<open>The invariant\<close>

definition class_parents :: "'s ClassRegistry \<Rightarrow> (ClassId \<times> ClassId) set" where
  "class_parents reg = {(j, i). \<exists>c. bt_get (reg_classes reg) i = Some c \<and> j \<in> set (superclasses c)}"

text \<open>A registered class: its superclasses are registered, distinct and open to inheritance, its
  members have distinct names, and its semantics is that of a handle as soon as its own declaration,
  the declaration of its primary superclass or one of its additional superclasses says so.\<close>

definition class_ok :: "'s ClassRegistry \<Rightarrow> ClassId \<Rightarrow> 's ClassDescriptor \<Rightarrow> bool" where
  "class_ok reg i c \<longleftrightarrow>
     class_ident c = i \<and> i < reg_next reg \<and> bt_get (reg_names reg) (class_label c) = Some i \<and> class_label c \<noteq> '''' \<and>
     distinct (superclasses c) \<and>
     (\<forall>j\<in>set (superclasses c). \<exists>p. bt_get (reg_classes reg) j = Some p \<and> \<not> class_sealed p \<and> \<not> class_enumeration p) \<and>
     distinct (map property_name (class_properties c)) \<and> distinct (map method_name (class_methods c)) \<and>
     distinct (map event_name (class_events c)) \<and> distinct (map member_name (class_members c)) \<and>
     (class_enumeration c \<longrightarrow> superclass c = None \<and> class_members c \<noteq> []) \<and>
     (class_events c \<noteq> [] \<longrightarrow> effective_semantics c = ClassSemantics.Handle) \<and>
     (effective_semantics c = ClassSemantics.Value \<longrightarrow>
        declared_semantics c = ClassSemantics.Value \<and>
        (\<forall>j\<in>set_option (superclass c). \<forall>p. bt_get (reg_classes reg) j = Some p \<longrightarrow> declared_semantics p = ClassSemantics.Value) \<and>
        (\<forall>j\<in>set (additional_superclasses c). semantics reg j = Ok ClassSemantics.Value))"

definition registry_ok :: "'s ClassRegistry \<Rightarrow> bool" where
  "registry_ok reg \<longleftrightarrow>
     bt_wf (reg_classes reg) \<and> bt_wf (reg_names reg) \<and> reg_next reg \<le> u64_max \<and>
     (\<forall>i c. bt_get (reg_classes reg) i = Some c \<longrightarrow> class_ok reg i c) \<and>
     (\<forall>n i. bt_get (reg_names reg) n = Some i \<longrightarrow> (\<exists>c. bt_get (reg_classes reg) i = Some c \<and> class_label c = n)) \<and>
     wf (class_parents reg)"

lemma registry_ok_new: "registry_ok registry_new"
  by (simp add: registry_ok_def registry_new_def class_parents_def u64_max_def)

subsection \<open>What naming and linking establish\<close>

lemma name_batch_Cons:
  assumes "name_batch reg names ids n (d # ds) = Ok (names', ids', n')"
  shows "well_declared d" and "bt_get (reg_names reg) (definition_name d) = None" and "bt_get names (definition_name d) = None"
    and "Suc n \<le> u64_max"
    and "name_batch reg (bt_insert (definition_name d) n names) (ids @ [n]) (Suc n) ds = Ok (names', ids', n')"
  using assms by (auto simp: result_simps checked_simps validate_definition_iff)

lemma name_batch_declared:
  assumes "name_batch reg names ids n ds = Ok (names', ids', n')"
  shows "distinct (map definition_name ds) \<and>
     (\<forall>d\<in>set ds. well_declared d \<and> bt_get (reg_names reg) (definition_name d) = None \<and> bt_get names (definition_name d) = None)"
  using assms
proof (induction ds arbitrary: names ids n)
  case (Cons d ds)
  note IH = Cons.IH [OF name_batch_Cons(5) [OF Cons.prems]]
  then have "\<forall>e\<in>set ds. definition_name e \<noteq> definition_name d \<and> bt_get names (definition_name e) = None"
    by (force simp: bt_insert_get split: if_splits)
  with IH name_batch_Cons(1-3) [OF Cons.prems] show ?case by force
qed simp

lemma name_batch_bound:
  "name_batch reg names ids n ds = Ok (names', ids', n') \<Longrightarrow> n \<le> u64_max \<Longrightarrow> n' \<le> u64_max"
  by (induction ds arbitrary: names ids n) (simp, metis name_batch_Cons(4,5))

lemma name_batch_names:
  assumes "name_batch reg names ids n ds = Ok (names', ids', n')" and "bt_get names' m = Some i"
  shows "bt_get names m = Some i \<or> n \<le> i \<and> i < n + length ds"
  using assms
proof (induction ds arbitrary: names ids n)
  case (Cons d ds)
  from Cons.IH [OF name_batch_Cons(5) [OF Cons.prems(1)] Cons.prems(2)]
  show ?case by (auto simp: bt_insert_get split: if_splits)
qed simp

lemma link_superclass_known:
  assumes "link_superclass reg names ix d = Ok (Some j)"
    and "\<And>n i. bt_get (reg_names reg) n = Some i \<Longrightarrow> bt_get (reg_classes reg) i \<noteq> None"
    and "\<And>n i. bt_get names n = Some i \<Longrightarrow> bt_get ix i \<noteq> None"
  shows "bt_get (reg_classes reg) j \<noteq> None \<or> bt_get ix j \<noteq> None"
  using assms by (auto simp: link_superclass_def split: option.splits Superclass.splits if_splits)

subsection \<open>What the checks of a group establish\<close>

lemma settle_batch_Ok:
  "settle_batch reg b ids = Some (Ok rows) \<longleftrightarrow>
     (\<exists>sems abstracts.
        check_enumeration_base b = Ok () \<and> validate_sealed_superclasses reg b = Ok () \<and> validate_additional_sealed reg b = Ok () \<and>
        (\<forall>i\<in>set ids. check_combined_cycle reg b {} (Some i) = Ok ()) \<and>
        loop_map (effective_semantics_of reg b) (zip (batch_definitions b) (batch_superclasses b)) = Some (Ok sems) \<and>
        effective_abstractness reg b ids = Some (Ok abstracts) \<and> check_event_semantics b sems = Ok () \<and>
        (\<exists>us. loop_map (validate_inherited_members reg b) (zip (batch_definitions b) (batch_superclasses b)) = Some (Ok us)) \<and>
        rows = zip (batch_definitions b) (zip ids (zip (batch_superclasses b) (zip sems abstracts))))"
  unfolding settle_batch_def by (auto simp: loop_then_Ok result_simps)

lemma inherited_semantics_Value:
  assumes "inherited_semantics reg b (Some i) = Some (Ok ClassSemantics.Value)"
  shows "combined reg b definition_semantics effective_semantics i = Ok ClassSemantics.Value"
proof -
  let ?look = "\<lambda>i. and_then (combined reg b definition_semantics effective_semantics i)
        (\<lambda>s. Ok (if s = ClassSemantics.Handle then Some ClassSemantics.Handle else None))"
  from assms obtain found where
      found: "chain_find reg b ?look (Some i) = Some (Ok found)" "(case found of Some s \<Rightarrow> s | None \<Rightarrow> ClassSemantics.Value) = ClassSemantics.Value"
    by (auto simp: inherited_semantics_def loop_then_Ok)
  show ?thesis
  proof (cases "combined reg b definition_semantics effective_semantics i")
    case (Inr s)
    with found show ?thesis
      by (cases s) (auto simp: chain_find.simps [of reg b ?look "Some i"] split: option.splits)
  qed (use found in \<open>simp add: chain_find.simps [of reg b ?look "Some i"]\<close>)
qed

text \<open>The facts about the \<open>k\<close>-th member of a group that has passed the checks.\<close>

definition member_checked :: "'s ClassRegistry \<Rightarrow> 's Batch \<Rightarrow> nat \<Rightarrow> ClassSemantics \<Rightarrow> bool" where
  "member_checked reg b k sem \<longleftrightarrow>
     (let d = batch_definitions b ! k; parent = batch_superclasses b ! k in
      (definition_enumeration d \<longrightarrow> parent = None) \<and>
      (\<forall>j\<in>set_option parent \<union> set (definition_additional d). combined_class_sealed reg b j = Ok False) \<and>
      reg_next reg + k \<in> Wellfounded.acc (combined_parent reg b) \<and>
      effective_semantics_of reg b (d, parent) = Some (Ok sem) \<and>
      (definition_events d \<noteq> [] \<longrightarrow> sem = ClassSemantics.Handle))"

lemma settle_batch_members:
  assumes "settle_batch reg b ids = Some (Ok rows)" and "batch_of reg b ids"
  obtains sems abstracts where
    "rows = zip (batch_definitions b) (zip ids (zip (batch_superclasses b) (zip sems abstracts)))"
    and "length sems = length (batch_definitions b)" and "length abstracts = length (batch_definitions b)"
    and "\<And>k. k < length (batch_definitions b) \<Longrightarrow> member_checked reg b k (sems ! k)"
proof -
  let ?ds = "batch_definitions b" and ?ps = "batch_superclasses b"
  from assms(1) obtain sems abstracts where
      checks: "check_enumeration_base b = Ok ()" "validate_sealed_superclasses reg b = Ok ()" "validate_additional_sealed reg b = Ok ()"
        "\<forall>i\<in>set ids. check_combined_cycle reg b {} (Some i) = Ok ()" "check_event_semantics b sems = Ok ()"
      and sems: "loop_map (effective_semantics_of reg b) (zip ?ds ?ps) = Some (Ok sems)"
      and abstracts: "effective_abstractness reg b ids = Some (Ok abstracts)"
      and rows: "rows = zip ?ds (zip ids (zip ?ps (zip sems abstracts)))"
    unfolding settle_batch_Ok by blast
  have len: "length ids = length ?ds" "length ?ps = length ?ds" "set ids = {reg_next reg..<reg_next reg + length ?ds}"
    using assms(2) by (simp_all add: batch_of_def)
  have sem_len: "length sems = length ?ds" using sems len by (simp add: loop_map_Ok list_all2_conv_all_nth)
  have "length abstracts = length ?ds" using abstracts len by (simp add: effective_abstractness_def loop_map_Ok list_all2_conv_all_nth)
  moreover have "member_checked reg b k (sems ! k)" if k: "k < length ?ds" for k
  proof -
    have pair: "(?ds ! k, ?ps ! k) \<in> set (zip ?ds ?ps)" and sem: "(?ds ! k, sems ! k) \<in> set (zip ?ds sems)" and d: "?ds ! k \<in> set ?ds"
      using k len(2) sem_len by (auto simp: set_zip)
    have "combined_class_sealed reg b j = Ok False" if "j \<in> set_option (?ps ! k) \<union> set (definition_additional (?ds ! k))" for j
      using that checks(2,3) pair d by (fastforce simp: validate_sealed_superclasses_def validate_additional_sealed_def result_simps)
    moreover have "definition_enumeration (?ds ! k) \<longrightarrow> ?ps ! k = None" "definition_events (?ds ! k) \<noteq> [] \<longrightarrow> sems ! k = ClassSemantics.Handle"
      using checks(1,5) pair sem by (auto simp: check_enumeration_base_def check_event_semantics_def result_simps)
    moreover have "reg_next reg + k \<in> Wellfounded.acc (combined_parent reg b)"
      using cycle_check_acc [of reg b "{}" "Some (reg_next reg + k)"] checks(4) k len(3)
      by (simp del: check_combined_cycle_step)
    moreover have "effective_semantics_of reg b (?ds ! k, ?ps ! k) = Some (Ok (sems ! k))"
      using sems k len(2) by (simp add: loop_map_Ok list_all2_conv_all_nth)
    ultimately show ?thesis by (simp add: member_checked_def)
  qed
  ultimately show thesis using that rows sem_len by blast
qed

subsection \<open>Recording a group\<close>

definition row_class :: "'s settled \<Rightarrow> 's ClassDescriptor" where
  "row_class = (\<lambda>(d, i, parent, sem, a). from_definition i d parent (definition_additional d) sem a)"

lemma insert_class_get:
  "bt_get (reg_classes (insert_class row reg)) i = (if i = fst (snd row) then Some (row_class row) else bt_get (reg_classes reg) i)"
  "bt_get (reg_names (insert_class row reg)) n = (if n = definition_name (fst row) then Some (fst (snd row)) else bt_get (reg_names reg) n)"
  by (auto simp: insert_class_def row_class_def bt_insert_get case_prod_beta)

lemma fold_insert_class_other:
  "i \<notin> fst ` snd ` set rows \<Longrightarrow> bt_get (reg_classes (fold insert_class rows reg)) i = bt_get (reg_classes reg) i"
  "n \<notin> definition_name ` fst ` set rows \<Longrightarrow> bt_get (reg_names (fold insert_class rows reg)) n = bt_get (reg_names reg) n"
  by (induction rows arbitrary: reg) (simp_all add: insert_class_get)

lemma fold_insert_class_row:
  assumes "row \<in> set rows"
  shows "distinct (map (fst \<circ> snd) rows) \<Longrightarrow> bt_get (reg_classes (fold insert_class rows reg)) (fst (snd row)) = Some (row_class row)"
    and "distinct (map (definition_name \<circ> fst) rows) \<Longrightarrow> bt_get (reg_names (fold insert_class rows reg)) (definition_name (fst row)) = Some (fst (snd row))"
  using assms
  by (induction rows arbitrary: reg) (force simp: fold_insert_class_other insert_class_get image_image)+

lemma fold_insert_class_wf:
  "bt_wf (reg_classes reg) \<Longrightarrow> bt_wf (reg_classes (fold insert_class rows reg))"
  "bt_wf (reg_names reg) \<Longrightarrow> bt_wf (reg_names (fold insert_class rows reg))"
  by (induction rows arbitrary: reg) (simp_all add: insert_class_def bt_insert_wf case_prod_beta)

text \<open>A successful registration of a group, member by member.\<close>

definition recorded :: "'s ClassRegistry \<Rightarrow> 's Batch \<Rightarrow> ClassSemantics list \<Rightarrow> bool list \<Rightarrow> 's ClassRegistry \<Rightarrow> bool" where
  "recorded reg b sems abstracts reg' \<longleftrightarrow>
     (let n = reg_next reg; ds = batch_definitions b; len = length ds in
      (\<forall>k<len. member_checked reg b k (sems ! k) \<and> well_declared (ds ! k) \<and>
         bt_get (reg_names reg) (definition_name (ds ! k)) = None \<and>
         (\<forall>j. batch_superclasses b ! k = Some j \<longrightarrow> bt_get (reg_classes reg) j \<noteq> None \<or> n \<le> j \<and> j < n + len) \<and>
         link_additional reg (definition_name (ds ! k)) (set_option (batch_superclasses b ! k)) (definition_additional (ds ! k)) = Ok () \<and>
         bt_get (reg_classes reg') (n + k) =
           Some (from_definition (n + k) (ds ! k) (batch_superclasses b ! k) (definition_additional (ds ! k)) (sems ! k) (abstracts ! k)) \<and>
         bt_get (reg_names reg') (definition_name (ds ! k)) = Some (n + k)) \<and>
      (\<forall>i. \<not> (n \<le> i \<and> i < n + len) \<longrightarrow> bt_get (reg_classes reg') i = bt_get (reg_classes reg) i) \<and>
      (\<forall>m. m \<notin> definition_name ` set ds \<longrightarrow> bt_get (reg_names reg') m = bt_get (reg_names reg) m) \<and>
      bt_wf (reg_classes reg') \<and> bt_wf (reg_names reg') \<and> reg_next reg' = n + len \<and> reg_next reg' \<le> u64_max)"

lemma link_batch_known:
  assumes "name_batch reg [] [] (reg_next reg) ds = Ok (names, ids, nxt)"
    and "link_batch reserve reg names (batch_indices ids) ds = Ok parents" and "registry_ok reg" and "k < length ds" and "parents ! k = Some j"
  shows "bt_get (reg_classes reg) j \<noteq> None \<or> reg_next reg \<le> j \<and> j < reg_next reg + length ds"
proof -
  let ?ix = "batch_indices [reg_next reg..<reg_next reg + length ds]"
  have "\<forall>k<length ds. link_superclass reg names (batch_indices ids) (ds ! k) = Ok (parents ! k)"
    using assms(2) by (simp add: link_batch_list list_all2_conv_all_nth)
  with name_batch_ids [OF assms(1)] assms(4,5) have "link_superclass reg names ?ix (ds ! k) = Ok (Some j)" by simp
  moreover have "bt_get (reg_classes reg) i \<noteq> None" if "bt_get (reg_names reg) m = Some i" for m i
    using assms(3) that by (fastforce simp: registry_ok_def)
  moreover have "bt_get ?ix i \<noteq> None" if "bt_get names m = Some i" for m i
    using name_batch_names [OF assms(1) that] by (simp add: batch_indices_range)
  ultimately show ?thesis
    using link_superclass_known [of reg names ?ix "ds ! k" j] by (auto simp: batch_indices_range split: if_splits)
qed

lemma register_classes_recorded:
  assumes "register_classes reserve ds reg = Some (Ok (ids, reg'))" and "ds \<noteq> []" and "registry_ok reg"
  obtains b sems abstracts where "batch_definitions b = ds" and "batch_of reg b ids" and "recorded reg b sems abstracts reg'"
proof -
  from assms(1,2) obtain names nxt parents rows where
      named: "name_batch reg [] [] (reg_next reg) ds = Ok (names, ids, nxt)"
      and linked: "link_batch reserve reg names (batch_indices ids) ds = Ok parents"
      and settled: "settle_batch reg \<lparr>batch_definitions = ds, batch_index = batch_indices ids, batch_superclasses = parents\<rparr> ids = Some (Ok rows)"
      and reg': "reg' = (fold insert_class rows reg)\<lparr>reg_next := nxt\<rparr>"
    by (auto simp: register_classes_def loop_then_Ok)
  let ?b = "\<lparr>batch_definitions = ds, batch_index = batch_indices ids, batch_superclasses = parents\<rparr>" and ?n = "reg_next reg"
  note batch = linked_batch_of [OF named linked]
  note declared = name_batch_declared [OF named]
  have len: "length parents = length ds" "ids = [?n..<?n + length ds]" "nxt = ?n + length ds" "nxt \<le> u64_max"
    using linked name_batch_ids [OF named] name_batch_bound [OF named] assms(3)
    by (auto simp: link_batch_list list_all2_conv_all_nth registry_ok_def)
  from settle_batch_members [OF settled batch] obtain sems abstracts where
      rows: "rows = zip ds (zip ids (zip parents (zip sems abstracts)))"
      and lens: "length sems = length ds" "length abstracts = length ds"
      and checked: "\<And>k. k < length ds \<Longrightarrow> member_checked reg ?b k (sems ! k)"
    by auto
  have "length rows = length ds" by (simp add: rows len lens)
  then have nth: "rows ! k = (ds ! k, ?n + k, parents ! k, sems ! k, abstracts ! k)" "rows ! k \<in> set rows" if "k < length ds" for k
    using that by (simp add: rows len lens, simp)
  have keys: "map (fst \<circ> snd) rows = ids" "map (definition_name \<circ> fst) rows = map definition_name ds"
    by (rule nth_equalityI; simp add: nth(1) \<open>length rows = length ds\<close> len(2))+
  then have distinct: "distinct (map (fst \<circ> snd) rows)" "distinct (map (definition_name \<circ> fst) rows)"
    using declared by (simp_all add: len)
  have outside: "fst ` snd ` set rows = {?n..<?n + length ds}" "definition_name ` fst ` set rows = definition_name ` set ds"
    using arg_cong [OF keys(1), of set] arg_cong [OF keys(2), of set] by (simp_all add: image_comp len)
  have "recorded reg ?b sems abstracts reg'"
    unfolding recorded_def Let_def
  proof (intro conjI allI impI)
    fix k assume "k < length (batch_definitions ?b)"
    then have k: "k < length ds" by simp
    show "bt_get (reg_classes reg') (reg_next reg + k) = Some (from_definition (reg_next reg + k) (batch_definitions ?b ! k)
        (batch_superclasses ?b ! k) (definition_additional (batch_definitions ?b ! k)) (sems ! k) (abstracts ! k))"
      using fold_insert_class_row(1) [OF nth(2) distinct(1), OF k, of reg] nth(1) [OF k] by (simp add: reg' row_class_def)
    show "bt_get (reg_names reg') (definition_name (batch_definitions ?b ! k)) = Some (reg_next reg + k)"
      using fold_insert_class_row(2) [OF nth(2) distinct(2), OF k, of reg] nth(1) [OF k] by (simp add: reg')
  qed (use declared checked linked lens len assms(3) fold_insert_class_wf [of reg rows] link_batch_known [OF named linked assms(3)]
      in \<open>auto simp: reg' link_batch_list list_all2_conv_all_nth outside fold_insert_class_other registry_ok_def\<close>)
  with batch show thesis by (intro that [of ?b]) simp_all
qed

subsection \<open>Preservation\<close>

lemma recordedD:
  assumes "recorded reg b sems abstracts reg'"
  shows "k < length (batch_definitions b) \<Longrightarrow> bt_get (reg_classes reg') (reg_next reg + k) =
      Some (from_definition (reg_next reg + k) (batch_definitions b ! k) (batch_superclasses b ! k)
        (definition_additional (batch_definitions b ! k)) (sems ! k) (abstracts ! k))"
    and "k < length (batch_definitions b) \<Longrightarrow> member_checked reg b k (sems ! k)"
    and "k < length (batch_definitions b) \<Longrightarrow> well_declared (batch_definitions b ! k)"
    and "k < length (batch_definitions b) \<Longrightarrow> bt_get (reg_names reg') (definition_name (batch_definitions b ! k)) = Some (reg_next reg + k)"
    and "\<not> (reg_next reg \<le> i \<and> i < reg_next reg + length (batch_definitions b)) \<Longrightarrow> bt_get (reg_classes reg') i = bt_get (reg_classes reg) i"
    and "reg_next reg' = reg_next reg + length (batch_definitions b)"
  using assms by (auto simp: recorded_def Let_def)

lemma recorded_supers:
  assumes "recorded reg b sems abstracts reg'" and "k < length (batch_definitions b)"
  shows "distinct (superclasses (from_definition i (batch_definitions b ! k) (batch_superclasses b ! k)
       (definition_additional (batch_definitions b ! k)) sem a))"
    and "set (definition_additional (batch_definitions b ! k)) \<subseteq> dom (bt_get (reg_classes reg))"
    and "batch_superclasses b ! k = Some j \<Longrightarrow>
       bt_get (reg_classes reg) j \<noteq> None \<or> reg_next reg \<le> j \<and> j < reg_next reg + length (batch_definitions b)"
  using assms
  by (auto simp: recorded_def Let_def link_additional_Ok superclasses_def from_definition_def split: option.split)

lemma recorded_kept:
  assumes "recorded reg b sems abstracts reg'" and "registry_ok reg"
  shows "bt_get (reg_classes reg) i = Some c \<Longrightarrow> bt_get (reg_classes reg') i = Some c"
    and "bt_get (reg_names reg) n = Some i \<Longrightarrow> bt_get (reg_names reg') n = Some i"
    and "semantics reg i = Ok s \<Longrightarrow> semantics reg' i = Ok s"
proof -
  have old: "bt_get (reg_classes reg') i = Some c" if "bt_get (reg_classes reg) i = Some c" for c
    using that recordedD(5) [OF assms(1), of i] assms(2) by (fastforce simp: registry_ok_def class_ok_def)
  then show "bt_get (reg_classes reg) i = Some c \<Longrightarrow> bt_get (reg_classes reg') i = Some c" .
  show "semantics reg i = Ok s \<Longrightarrow> semantics reg' i = Ok s"
    using old by (auto simp: semantics_def class_at_def result_simps)
  have "n \<notin> definition_name ` set (batch_definitions b)" if "bt_get (reg_names reg) n = Some i"
    using that assms(1) by (fastforce simp: recorded_def Let_def in_set_conv_nth)
  with assms(1) show "bt_get (reg_names reg) n = Some i \<Longrightarrow> bt_get (reg_names reg') n = Some i"
    by (simp add: recorded_def Let_def)
qed

lemma class_ok_kept:
  assumes "recorded reg b sems abstracts reg'" and "registry_ok reg" and "bt_get (reg_classes reg) i = Some c"
  shows "class_ok reg' i c"
proof -
  note kept = recorded_kept [OF assms(1,2)]
  from assms(2,3) have ok: "class_ok reg i c" by (simp add: registry_ok_def)
  have same: "bt_get (reg_classes reg') j = bt_get (reg_classes reg) j" if "j \<in> set (superclasses c)" for j
    using ok that kept(1) [of j] by (force simp: class_ok_def)
  then have "bt_get (reg_classes reg') j = bt_get (reg_classes reg) j" if "superclass c = Some j" for j
    using that by (simp add: superclasses_def)
  with ok same kept(2,3) recordedD(6) [OF assms(1)] show ?thesis unfolding class_ok_def by auto
qed

lemma combined_sealed_open:
  assumes "recorded reg b sems abstracts reg'" and "batch_of reg b ids" and "registry_ok reg"
    and "combined_class_sealed reg b j = Ok False"
  shows "\<exists>p. bt_get (reg_classes reg') j = Some p \<and> \<not> class_sealed p \<and> \<not> class_enumeration p"
proof (cases "reg_next reg \<le> j \<and> j < reg_next reg + length (batch_definitions b)")
  case True
  then obtain k where "j = reg_next reg + k" "k < length (batch_definitions b)" by (metis le_Suc_ex nat_add_left_cancel_less)
  with assms(4) show ?thesis
    by (auto simp: combined_class_sealed_def combined_def batch_of_index [OF assms(2)] slice_get_def recordedD(1) [OF assms(1)]
        from_definition_def)
next
  case False
  with assms(4) show ?thesis
    by (auto simp: combined_class_sealed_def combined_def batch_of_index [OF assms(2)] class_at_def result_simps
        recordedD(5) [OF assms(1)] split: if_splits)
qed

lemma combined_semantics_Value:
  assumes "recorded reg b sems abstracts reg'" and "batch_of reg b ids" and "registry_ok reg"
    and "combined reg b definition_semantics effective_semantics j = Ok ClassSemantics.Value" and "bt_get (reg_classes reg') j = Some p"
  shows "declared_semantics p = ClassSemantics.Value"
proof (cases "reg_next reg \<le> j \<and> j < reg_next reg + length (batch_definitions b)")
  case True
  then obtain k where "j = reg_next reg + k" "k < length (batch_definitions b)" by (metis le_Suc_ex nat_add_left_cancel_less)
  with assms(4,5) show ?thesis
    by (auto simp: combined_def batch_of_index [OF assms(2)] slice_get_def recordedD(1) [OF assms(1)] from_definition_def)
next
  case False
  with assms(4,5) have "bt_get (reg_classes reg) j = Some p" "effective_semantics p = ClassSemantics.Value"
    by (auto simp: combined_def batch_of_index [OF assms(2)] class_at_def result_simps recordedD(5) [OF assms(1)] split: if_splits)
  with assms(3) show ?thesis by (simp add: registry_ok_def class_ok_def)
qed

lemma effective_semantics_Value:
  assumes "effective_semantics_of reg b (d, parent) = Some (Ok ClassSemantics.Value)"
  shows "definition_semantics d = ClassSemantics.Value"
    and "\<forall>j\<in>set (definition_additional d). semantics reg j \<noteq> Ok ClassSemantics.Handle"
    and "\<forall>j\<in>set_option parent. combined reg b definition_semantics effective_semantics j = Ok ClassSemantics.Value"
  using assms inherited_semantics_Value [of reg b]
  by (auto simp: effective_semantics_of_def list_ex_iff split: if_splits intro: ClassSemantics.exhaust)

lemma class_ok_new:
  assumes "recorded reg b sems abstracts reg'" and "batch_of reg b ids" and "registry_ok reg" and k: "k < length (batch_definitions b)"
    and c: "bt_get (reg_classes reg') (reg_next reg + k) = Some c"
  shows "class_ok reg' (reg_next reg + k) c"
proof -
  let ?d = "batch_definitions b ! k" and ?parent = "batch_superclasses b ! k"
  note facts = recordedD [OF assms(1)]
  from c facts(1) [OF k] have c: "c = from_definition (reg_next reg + k) ?d ?parent (definition_additional ?d) (sems ! k) (abstracts ! k)"
    by simp
  have supers: "set (superclasses c) = set_option ?parent \<union> set (definition_additional ?d)"
    by (auto simp: c superclasses_def from_definition_def split: option.split)
  from facts(2) [OF k] have checked: "definition_enumeration ?d \<longrightarrow> ?parent = None"
      "\<forall>j\<in>set (superclasses c). combined_class_sealed reg b j = Ok False"
      "effective_semantics_of reg b (?d, ?parent) = Some (Ok (sems ! k))" "definition_events ?d \<noteq> [] \<longrightarrow> sems ! k = ClassSemantics.Handle"
    by (simp_all add: member_checked_def Let_def supers)
  have additional: "semantics reg' j = Ok ClassSemantics.Value"
    if "sems ! k = ClassSemantics.Value" "j \<in> set (definition_additional ?d)" for j
  proof -
    from recorded_supers(2) [OF assms(1) k] that(2) obtain p where "bt_get (reg_classes reg) j = Some p" by auto
    then have "semantics reg j = Ok (effective_semantics p)" by (simp add: semantics_def class_at_def)
    moreover have "effective_semantics p = ClassSemantics.Value"
      using effective_semantics_Value(2) [of reg b ?d ?parent] checked(3) that calculation by (cases "effective_semantics p") auto
    ultimately show ?thesis using recorded_kept(3) [OF assms(1,3)] by simp
  qed
  have primary: "declared_semantics p = ClassSemantics.Value"
    if "sems ! k = ClassSemantics.Value" "?parent = Some j" "bt_get (reg_classes reg') j = Some p" for j p
    using combined_semantics_Value [OF assms(1-3) _ that(3)] effective_semantics_Value(3) [of reg b ?d ?parent] checked(3) that(1,2) by simp
  have open': "\<forall>j\<in>set (superclasses c). \<exists>p. bt_get (reg_classes reg') j = Some p \<and> \<not> class_sealed p \<and> \<not> class_enumeration p"
    using checked(2) combined_sealed_open [OF assms(1-3)] by blast
  have own: "sems ! k = ClassSemantics.Value \<Longrightarrow> definition_semantics ?d = ClassSemantics.Value"
    using effective_semantics_Value(1) [of reg b ?d ?parent] checked(3) by simp
  have "distinct (superclasses c)" unfolding c by (rule recorded_supers(1) [OF assms(1) k])
  with facts(3,4) [OF k] facts(6) k checked(1,4) additional primary open' own show ?thesis
    unfolding class_ok_def by (auto simp: c from_definition_def well_declared_def)
qed

lemma class_parents_registered: "registry_ok reg \<Longrightarrow> (j, i) \<in> class_parents reg \<Longrightarrow> bt_get (reg_classes reg) j \<noteq> None"
  by (fastforce simp: class_parents_def registry_ok_def class_ok_def)

lemma registered_acc:
  assumes "recorded reg b sems abstracts reg'" and "registry_ok reg" and "bt_get (reg_classes reg) i \<noteq> None"
  shows "i \<in> Wellfounded.acc (class_parents reg')"
proof -
  have "wf (class_parents reg)" using assms(2) by (simp add: registry_ok_def)
  then have "bt_get (reg_classes reg) i \<noteq> None \<longrightarrow> i \<in> Wellfounded.acc (class_parents reg')"
  proof (induction i rule: wf_induct_rule)
    case (less i)
    show ?case
    proof (intro impI, rule accI)
      fix j assume i: "bt_get (reg_classes reg) i \<noteq> None" and "(j, i) \<in> class_parents reg'"
      then have "(j, i) \<in> class_parents reg" using recorded_kept(1) [OF assms(1,2), of i] by (auto simp: class_parents_def)
      with less class_parents_registered [OF assms(2)] show "j \<in> Wellfounded.acc (class_parents reg')" by blast
    qed
  qed
  with assms(3) show ?thesis by blast
qed

lemma member_acc:
  assumes "recorded reg b sems abstracts reg'" and "batch_of reg b ids" and "registry_ok reg"
    and "i \<in> Wellfounded.acc (combined_parent reg b)" and "i = reg_next reg + k" and "k < length (batch_definitions b)"
  shows "i \<in> Wellfounded.acc (class_parents reg')"
proof -
  note kept = registered_acc [OF assms(1,3)]
  have "\<forall>k<length (batch_definitions b). i = reg_next reg + k \<longrightarrow> i \<in> Wellfounded.acc (class_parents reg')"
    using assms(4)
  proof (induction i rule: acc_induct_rule)
    case (1 i)
    show ?case
    proof (intro allI impI, rule accI)
      fix k assume k: "k < length (batch_definitions b)" "i = reg_next reg + k"
      let ?d = "batch_definitions b ! k" and ?parent = "batch_superclasses b ! k"
      fix j assume "(j, i) \<in> class_parents reg'"
      then consider (primary) "?parent = Some j" | (additional) "j \<in> set (definition_additional ?d)"
        using recordedD(1) [OF assms(1) k(1)] k(2)
        by (auto simp: class_parents_def superclasses_def from_definition_def split: option.splits)
      then show "j \<in> Wellfounded.acc (class_parents reg')"
      proof cases
        case primary
        with batch_superclass_of [OF assms(2) k(1)] k(2) have edge: "(j, i) \<in> combined_parent reg b"
          by (simp add: combined_parent_def)
        from recorded_supers(3) [OF assms(1) k(1) primary] consider "bt_get (reg_classes reg) j \<noteq> None"
          | m where "j = reg_next reg + m" "m < length (batch_definitions b)" by (metis le_Suc_ex nat_add_left_cancel_less)
        then show ?thesis using kept "1.IH" [OF edge] by cases auto
      next
        case additional
        with recorded_supers(2) [OF assms(1) k(1)] kept show ?thesis by (auto dest!: subsetD)
      qed
    qed
  qed
  with assms(5,6) show ?thesis by blast
qed

lemma recorded_registry_ok:
  assumes "recorded reg b sems abstracts reg'" and "batch_of reg b ids" and "registry_ok reg"
  shows "registry_ok reg'"
proof -
  note facts = recordedD [OF assms(1)]
  have cases: "bt_get (reg_classes reg) i = Some c \<or> (\<exists>k<length (batch_definitions b). i = reg_next reg + k)"
    if "bt_get (reg_classes reg') i = Some c" for i c
    using that facts(5) [of i] by (metis le_Suc_ex nat_add_left_cancel_less)
  have "class_ok reg' i c" if "bt_get (reg_classes reg') i = Some c" for i c
    using cases [OF that] that class_ok_kept [OF assms(1,3)] class_ok_new [OF assms] by blast
  moreover have "\<exists>c. bt_get (reg_classes reg') i = Some c \<and> class_label c = m" if name: "bt_get (reg_names reg') m = Some i" for m i
  proof (cases "m \<in> definition_name ` set (batch_definitions b)")
    case True
    then obtain k where "k < length (batch_definitions b)" "m = definition_name (batch_definitions b ! k)" by (auto simp: in_set_conv_nth)
    with facts(1,4) name show ?thesis by (auto simp: from_definition_def)
  next
    case False
    with assms(1) name have "bt_get (reg_names reg) m = Some i" by (simp add: recorded_def Let_def)
    with assms(3) recorded_kept(1) [OF assms(1,3)] show ?thesis by (fastforce simp: registry_ok_def)
  qed
  moreover have "wf (class_parents reg')"
  proof (rule acc_wfI, rule allI)
    fix i
    consider (registered) "bt_get (reg_classes reg) i \<noteq> None" | (member) k where "k < length (batch_definitions b)" "i = reg_next reg + k"
      | (none) "bt_get (reg_classes reg') i = None" using cases by blast
    then show "i \<in> Wellfounded.acc (class_parents reg')"
    proof cases
      case (member k)
      with facts(2) have "i \<in> Wellfounded.acc (combined_parent reg b)" by (simp add: member_checked_def Let_def)
      with member show ?thesis using member_acc [OF assms] by blast
    qed (use registered_acc [OF assms(1,3)] in \<open>auto simp: class_parents_def intro: accI\<close>)
  qed
  ultimately show ?thesis using assms(1) by (simp add: registry_ok_def recorded_def Let_def)
qed

lemma register_classes_keeps:
  assumes "register_classes reserve ds reg = Some (Ok (ids, reg'))" and "registry_ok reg"
  shows "registry_ok reg'"
proof (cases "ds = []")
  case True
  with assms show ?thesis by (simp add: register_classes_def)
next
  case False
  from register_classes_recorded [OF assms(1) False assms(2)] obtain b sems abstracts where
      "batch_of reg b ids" "recorded reg b sems abstracts reg'" by metis
  with recorded_registry_ok assms(2) show ?thesis by metis
qed

subsection \<open>Registries as they are used\<close>

text \<open>A registry is created empty and only ever changed by registrations that succeed; an attempt
  that fails leaves it as it was.\<close>

inductive registered :: "'s ClassRegistry \<Rightarrow> bool" where
  created: "registered registry_new"
| extended: "registered reg \<Longrightarrow> register_classes reserve ds reg = Some (Ok (ids, reg')) \<Longrightarrow> registered reg'"

lemma registered_ok: "registered reg \<Longrightarrow> registry_ok reg"
  by (induction rule: registered.induct) (rule registry_ok_new, erule register_classes_keeps)

inductive_cases registeredE: "registered reg"


text \<open>
  C28: Registering a group always returns, an error or the new registry, although its walks along the
  superclasses are loops without a bound: the check for cycles comes before them and covers every
  class they pass.
\<close>
lemma registration_ends: "\<exists>outcome. register_classes reserve ds reg = Some outcome"
  using registration_returns [of reserve ds reg] by (simp add: returns_def)

subsection \<open>Samples\<close>

text \<open>A group whose first class names the second as its superclass, and the registry it leads to.\<close>

definition sample_leaf :: "nat ClassDefinition" where
  "sample_leaf = (value_class ''Leaf'')\<lparr>definition_superclass := Some (SuperName ''Base''), definition_methods := [instance_method ''run''],
     definition_properties := [stored ''right'' None, constant_property ''kind'' 9]\<rparr>"

definition sample_base :: "nat ClassDefinition" where
  "sample_base = (handle_class ''Base'')\<lparr>definition_methods := [instance_method ''run'', (instance_method ''stop'')\<lparr>method_access := Protected\<rparr>],
     definition_properties := [stored ''left'' (Some 7)]\<rparr>"

definition sample_registry :: "nat ClassRegistry" where
  "sample_registry = \<lparr>reg_classes =
      [(1, from_definition 1 sample_leaf (Some 2) [] ClassSemantics.Handle False),
       (2, from_definition 2 sample_base None [] ClassSemantics.Handle False)],
     reg_names = [(''Base'', 2), (''Leaf'', 1)], reg_next = 3\<rparr>"

lemma sample_registered: "register_classes (\<lambda>_. True) [sample_leaf, sample_base] registry_new = Some (Ok ([1, 2], sample_registry))"
  by code_simp

lemma registered_sample: "registered sample_registry"
  by (rule registered.extended [OF registered.created sample_registered])


subsection \<open>Additional superclasses\<close>

text \<open>A value class below a handle class by its additional superclass only, and a value class below it.\<close>

definition sample_handle :: "nat ClassDefinition" where
  "sample_handle = with_method ((instance_method ''must'')\<lparr>method_abstract := True\<rparr>) (handle_class ''H'')"

definition sample_middle :: "nat ClassDefinition" where
  "sample_middle = with_additional_superclass 1 (with_abstract False (value_class ''A''))"

definition sample_bottom :: "nat ClassDefinition" where
  "sample_bottom = with_superclass (SuperName ''A'') (value_class ''B'')"

definition effective_of :: "string \<Rightarrow> 's ClassRegistry \<Rightarrow> (ClassSemantics \<times> bool) option" where
  "effective_of n reg = (case class_named reg n of Inl _ \<Rightarrow> None | Inr c \<Rightarrow> Some (effective_semantics c, effective_abstract c))"

fun register_groups :: "'s ClassRegistry \<Rightarrow> 's ClassDefinition list list \<Rightarrow> 's ClassRegistry looping" where
  "register_groups reg [] = Some (Ok reg)"
| "register_groups reg (ds # groups) =
     loop_then (register_classes (\<lambda>_. True) ds reg) (\<lambda>(_, reg'). register_groups reg' groups)"

definition effective_after :: "nat ClassDefinition list list \<Rightarrow> (ClassSemantics \<times> bool) option list looping" where
  "effective_after groups =
     loop_then (register_groups registry_new groups) (\<lambda>reg. Some (Ok (map (\<lambda>n. effective_of n reg) [''H'', ''A'', ''B''])))"


end
