(* ===== verification/Class_Dispatch.thy ===== *)
theory Class_Dispatch
  imports Class_Invariant
begin

section \<open>Queries over the class hierarchy (openmat-object/src/registry.rs, operator.rs)\<close>

text \<open>
  The two walks over all superclasses of a class, the selection of methods, properties and events
  through them, access checks, and the effective views of a class. Both walks remember the classes
  they have visited, so they end on every registry; that they visit exactly the ancestors, each once,
  is proved here, and the selections rest on it.
\<close>

subsection \<open>Walks over all superclasses\<close>

text \<open>The list is what the loop over superclasses still has to visit; the pair is the set of visited
  classes and the ancestry collected so far.\<close>

type_synonym Walk = "ClassId set \<times> ClassId list"

function (sequential) collect_ancestry_preorder :: "'s ClassRegistry \<Rightarrow> ClassId list \<Rightarrow> Walk \<Rightarrow> Walk ObjectResult" where
  "collect_ancestry_preorder reg [] walk = Ok walk"
| "collect_ancestry_preorder reg (i # is) (visited, ancestry) =
     (if i \<in> visited then collect_ancestry_preorder reg is (visited, ancestry)
      else and_then (class_at reg i) (\<lambda>c.
           and_then (collect_ancestry_preorder reg (superclasses c) (insert i visited, ancestry @ [i])) (\<lambda>walk.
             collect_ancestry_preorder reg is walk)))"
  by pat_completeness auto
termination
proof (relation "inv_image (finite_psubset <*lex*> measure length) (\<lambda>(reg, todo, (visited, _)). (dom (bt_get (reg_classes reg)) - visited, todo))",
    goal_cases)
  case 1
  show ?case by auto
next
  case (2 reg i "is" visited ancestry)
  then show ?case by simp
next
  case (3 reg i "is" visited ancestry c)
  then have "i \<in> dom (bt_get (reg_classes reg)) - visited" by (auto simp: class_at_def result_simps)
  then show ?case by (auto simp: finite_psubset_def intro: bt.finite_dom)
next
  case (4 reg i "is" visited ancestry c walk)
  have grows: "collect_ancestry_preorder reg todo start = Ok walk \<Longrightarrow> fst start \<subseteq> fst walk"
    if "collect_ancestry_preorder_dom (reg, todo, start)" for reg :: "'s ClassRegistry" and todo start walk
    using that
    by (induction arbitrary: walk rule: collect_ancestry_preorder.pinduct)
       (auto simp: collect_ancestry_preorder.psimps result_simps split: if_splits, blast+)
  from grows [OF 4(4,3)] 4 have "i \<in> dom (bt_get (reg_classes reg)) - visited" "insert i visited \<subseteq> fst walk"
    by (auto simp: class_at_def result_simps)
  then show ?case by (cases walk) (auto simp: finite_psubset_def intro: bt.finite_dom)
qed

function (sequential) collect_ancestry_postorder :: "'s ClassRegistry \<Rightarrow> ClassId list \<Rightarrow> Walk \<Rightarrow> Walk ObjectResult" where
  "collect_ancestry_postorder reg [] walk = Ok walk"
| "collect_ancestry_postorder reg (i # is) (visited, ancestry) =
     (if i \<in> visited then collect_ancestry_postorder reg is (visited, ancestry)
      else and_then (class_at reg i) (\<lambda>c.
           and_then (collect_ancestry_postorder reg (superclasses c) (insert i visited, ancestry)) (\<lambda>(visited', ancestry').
             collect_ancestry_postorder reg is (visited', ancestry' @ [i]))))"
  by pat_completeness auto
termination
proof (relation "inv_image (finite_psubset <*lex*> measure length) (\<lambda>(reg, todo, (visited, _)). (dom (bt_get (reg_classes reg)) - visited, todo))",
    goal_cases)
  case 1
  show ?case by auto
next
  case (2 reg i "is" visited ancestry)
  then show ?case by simp
next
  case (3 reg i "is" visited ancestry c)
  then have "i \<in> dom (bt_get (reg_classes reg)) - visited" by (auto simp: class_at_def result_simps)
  then show ?case by (auto simp: finite_psubset_def intro: bt.finite_dom)
next
  case (4 reg i "is" visited ancestry c walk visited' ancestry')
  have grows: "collect_ancestry_postorder reg todo start = Ok walk \<Longrightarrow> fst start \<subseteq> fst walk"
    if "collect_ancestry_postorder_dom (reg, todo, start)" for reg :: "'s ClassRegistry" and todo start walk
    using that
    by (induction arbitrary: walk rule: collect_ancestry_postorder.pinduct)
       (auto simp: collect_ancestry_postorder.psimps result_simps split: if_splits, blast+)
  from grows [OF 4(5,3)] 4 have "i \<in> dom (bt_get (reg_classes reg)) - visited" "insert i visited \<subseteq> fst walk"
    by (auto simp: class_at_def result_simps)
  with 4(4) show ?case by (auto simp: finite_psubset_def intro: bt.finite_dom)
qed

definition ancestry_preorder :: "'s ClassRegistry \<Rightarrow> ClassId \<Rightarrow> ClassId list ObjectResult" where
  "ancestry_preorder reg i = and_then (collect_ancestry_preorder reg [i] ({}, [])) (\<lambda>(_, ancestry). Ok ancestry)"

definition ancestry_postorder :: "'s ClassRegistry \<Rightarrow> ClassId \<Rightarrow> ClassId list ObjectResult" where
  "ancestry_postorder reg i = and_then (collect_ancestry_postorder reg [i] ({}, [])) (\<lambda>(_, ancestry). Ok ancestry)"

definition is_subclass_of :: "'s ClassRegistry \<Rightarrow> ClassId \<Rightarrow> ClassId \<Rightarrow> bool ObjectResult" where
  "is_subclass_of reg i ancestor =
     and_then (class_at reg ancestor) (\<lambda>_. and_then (ancestry_preorder reg i) (\<lambda>ancestry. Ok (ancestor \<in> set ancestry)))"

subsection \<open>Access\<close>

definition check_access :: "'s ClassRegistry \<Rightarrow> ClassId \<Rightarrow> Access \<Rightarrow> AccessContext \<Rightarrow> string \<Rightarrow> unit ObjectResult" where
  "check_access reg declaring required context member =
     and_then
       (case required of
          Public \<Rightarrow> Ok True
        | Private \<Rightarrow> Ok (context = Some declaring)
        | Protected \<Rightarrow> (case context of Some caller \<Rightarrow> is_subclass_of reg caller declaring | None \<Rightarrow> Ok False))
       (\<lambda>allowed. ensure allowed (AccessDenied member declaring required context))"

subsection \<open>Methods\<close>

text \<open>The loops over an ancestry that return at the first class declaring the member.\<close>

fun first_declaring :: "'s ClassRegistry \<Rightarrow> ('s ClassDescriptor \<Rightarrow> 'a option) \<Rightarrow> ClassId list \<Rightarrow> (ClassId \<times> 'a) option ObjectResult" where
  "first_declaring reg look [] = Ok None"
| "first_declaring reg look (i # is) =
     and_then (class_at reg i) (\<lambda>c. case look c of Some a \<Rightarrow> Ok (Some (i, a)) | None \<Rightarrow> first_declaring reg look is)"

definition select_method :: "'s ClassRegistry \<Rightarrow> ClassId \<Rightarrow> string \<Rightarrow> MethodSelection ObjectResult" where
  "select_method reg receiver n =
     and_then (ancestry_preorder reg receiver) (\<lambda>ancestry.
     and_then (first_declaring reg (\<lambda>c. local_method c n) ancestry) (\<lambda>found.
       case found of
         Some (i, m) \<Rightarrow> Ok \<lparr>receiver_class = receiver, method_declaring = i, method_descriptor = m\<rparr>
       | None \<Rightarrow> Err (MethodNotFound receiver n)))"

definition method_access_declaring_class :: "'s ClassRegistry \<Rightarrow> ClassId \<Rightarrow> string \<Rightarrow> ClassId \<Rightarrow> Access \<Rightarrow> MethodKind \<Rightarrow> ClassId ObjectResult" where
  "method_access_declaring_class reg receiver n implementation access kind =
     and_then (ancestry_preorder reg receiver) (fold_result (\<lambda>owner i.
       and_then (class_at reg i) (\<lambda>c.
         Ok (case local_method c n of
               Some m \<Rightarrow>
                 if method_access m = access \<and> (method_abstract m \<or> access = Protected \<and> method_kind m = kind) then i else owner
             | None \<Rightarrow> owner))) implementation)"

definition resolve_method_any :: "'s ClassRegistry \<Rightarrow> ClassId \<Rightarrow> string \<Rightarrow> AccessContext \<Rightarrow> MethodSelection ObjectResult" where
  "resolve_method_any reg receiver n context =
     and_then (select_method reg receiver n) (\<lambda>selection.
     let m = method_descriptor selection in
     and_then (method_access_declaring_class reg receiver n (method_declaring selection) (method_access m) (method_kind m)) (\<lambda>owner.
     and_then (check_access reg owner (method_access m) context n) (\<lambda>_.
       if method_abstract m
       then and_then (class_at reg (method_declaring selection)) (\<lambda>c. Err (AbstractMethodCall (class_label c) n))
       else Ok selection)))"

definition resolve_method :: "'s ClassRegistry \<Rightarrow> ClassId \<Rightarrow> string \<Rightarrow> MethodKind \<Rightarrow> AccessContext \<Rightarrow> MethodSelection ObjectResult" where
  "resolve_method reg receiver n expected context =
     and_then (resolve_method_any reg receiver n context) (\<lambda>selection.
     and_then (ensure (method_kind (method_descriptor selection) = expected)
       (MethodKindMismatch n expected (method_kind (method_descriptor selection)))) (\<lambda>_. Ok selection))"

datatype Operator =
    UnaryPlus | UnaryMinus | Add | Subtract | ElementWiseMultiply | MatrixMultiply | ElementWiseRightDivide | MatrixRightDivide
  | ElementWiseLeftDivide | MatrixLeftDivide | ElementWisePower | MatrixPower | Equal | NotEqual | LessThan | LessThanOrEqual
  | GreaterThan | GreaterThanOrEqual

fun operator_method :: "Operator \<Rightarrow> string" where
  "operator_method UnaryPlus = ''uplus''"
| "operator_method UnaryMinus = ''uminus''"
| "operator_method Add = ''plus''"
| "operator_method Subtract = ''minus''"
| "operator_method ElementWiseMultiply = ''times''"
| "operator_method MatrixMultiply = ''mtimes''"
| "operator_method ElementWiseRightDivide = ''rdivide''"
| "operator_method MatrixRightDivide = ''mrdivide''"
| "operator_method ElementWiseLeftDivide = ''ldivide''"
| "operator_method MatrixLeftDivide = ''mldivide''"
| "operator_method ElementWisePower = ''power''"
| "operator_method MatrixPower = ''mpower''"
| "operator_method Equal = ''eq''"
| "operator_method NotEqual = ''ne''"
| "operator_method LessThan = ''lt''"
| "operator_method LessThanOrEqual = ''le''"
| "operator_method GreaterThan = ''gt''"
| "operator_method GreaterThanOrEqual = ''ge''"

definition resolve_operator :: "'s ClassRegistry \<Rightarrow> ClassId \<Rightarrow> Operator \<Rightarrow> AccessContext \<Rightarrow> MethodSelection ObjectResult" where
  "resolve_operator reg receiver op context = resolve_method reg receiver (operator_method op) Instance context"

text \<open>The part of a class name behind its last dot.\<close>

definition last_segment :: "string \<Rightarrow> string" where
  "last_segment n = rev (takeWhile (\<lambda>c. c \<noteq> CHR ''.'') (rev n))"

definition resolve_constructor :: "'s ClassRegistry \<Rightarrow> ClassId \<Rightarrow> AccessContext \<Rightarrow> MethodSelection option ObjectResult" where
  "resolve_constructor reg i context =
     and_then (class_at reg i) (\<lambda>c.
       case local_method c (last_segment (class_label c)) of
         None \<Rightarrow> Ok None
       | Some m \<Rightarrow>
           and_then (ensure (method_kind m = Instance) (InvalidConstructorKind (class_label c))) (\<lambda>_.
           and_then (check_access reg i (method_access m) context (method_name m)) (\<lambda>_.
             Ok (Some \<lparr>receiver_class = i, method_declaring = i, method_descriptor = m\<rparr>))))"

subsection \<open>Properties and events\<close>

definition caller_property :: "'s ClassRegistry \<Rightarrow> ClassId \<Rightarrow> string \<Rightarrow> AccessContext \<Rightarrow> (ClassId \<times> 's PropertyDescriptor) option ObjectResult" where
  "caller_property reg receiver n context =
     (case context of
        None \<Rightarrow> Ok None
      | Some caller \<Rightarrow>
          and_then (is_subclass_of reg receiver caller) (\<lambda>related.
            if related then and_then (class_at reg caller) (\<lambda>c. Ok (map_option (Pair caller) (local_property c n))) else Ok None))"

definition lookup_property :: "'s ClassRegistry \<Rightarrow> ClassId \<Rightarrow> string \<Rightarrow> AccessContext \<Rightarrow> (ClassId \<times> 's PropertyDescriptor) ObjectResult" where
  "lookup_property reg receiver n context =
     and_then (caller_property reg receiver n context) (\<lambda>own.
       case own of
         Some found \<Rightarrow> Ok found
       | None \<Rightarrow>
           and_then (ancestry_preorder reg receiver) (\<lambda>ancestry.
           and_then (first_declaring reg (\<lambda>c. local_property c n) ancestry) (\<lambda>found.
             case found of Some f \<Rightarrow> Ok f | None \<Rightarrow> Err (PropertyNotFound receiver n))))"

definition accessor_name :: "PropertyAccess \<Rightarrow> string \<Rightarrow> string" where
  "accessor_name operation n = (case operation of Get \<Rightarrow> ''get.'' | Set \<Rightarrow> ''set.'') @ n"

definition missing_accessor :: "ClassId \<Rightarrow> string \<Rightarrow> string \<Rightarrow> ObjectError \<Rightarrow> ObjectError" where
  "missing_accessor receiver n accessor e =
     (case e of MethodNotFound _ _ \<Rightarrow> MissingAccessor receiver n accessor | _ \<Rightarrow> e)"

definition resolve_property :: "'s ClassRegistry \<Rightarrow> ClassId \<Rightarrow> string \<Rightarrow> PropertyAccess \<Rightarrow> AccessContext \<Rightarrow> 's PropertyResolution ObjectResult" where
  "resolve_property reg receiver n operation context =
     and_then (lookup_property reg receiver n context) (\<lambda>(declaring, p).
     and_then (case operation of
         Get \<Rightarrow> ok_or (PropertyWriteOnly receiver n) (get_access p)
       | Set \<Rightarrow> ok_or (PropertyReadOnly receiver n) (set_access p)) (\<lambda>required.
     and_then (check_access reg declaring required context n) (\<lambda>_.
       case property_kind p of
         Stored \<Rightarrow> Ok (ResolvedStored (PropertyKey declaring n) p)
       | Constant \<Rightarrow> Ok (ResolvedConstant p)
       | Dependent \<Rightarrow>
           (let accessor = accessor_name operation n in
            and_then (map_err (missing_accessor receiver n accessor) (select_method reg receiver accessor)) (\<lambda>m.
            and_then (ensure (method_kind (method_descriptor m) = Instance)
              (MethodKindMismatch accessor Instance (method_kind (method_descriptor m)))) (\<lambda>_.
              Ok (ResolvedAccessor p m)))))))"

definition resolve_event :: "'s ClassRegistry \<Rightarrow> ClassId \<Rightarrow> string \<Rightarrow> EventAccess \<Rightarrow> AccessContext \<Rightarrow> EventSelection ObjectResult" where
  "resolve_event reg receiver n operation context =
     and_then (ancestry_preorder reg receiver) (\<lambda>ancestry.
     and_then (first_declaring reg (\<lambda>c. List.find (\<lambda>e. event_name e = n) (class_events c)) ancestry) (\<lambda>found.
       case found of
         None \<Rightarrow> Err (EventNotFound receiver n)
       | Some (i, e) \<Rightarrow>
           and_then (check_access reg i (case operation of Listen \<Rightarrow> listen_access e | Notify \<Rightarrow> notify_access e) context n) (\<lambda>_.
             Ok \<lparr>event_receiver = receiver, event_declaring = i, event_descriptor = e\<rparr>)))"

subsection \<open>Effective views\<close>

text \<open>
  The members collected so far, where each name is among them, and the priority it was placed with.
  Indexing a map or a vector at an absent key panics in the source; such a panic is the value \<open>None\<close>.
\<close>

type_synonym 'a Placed = "(ClassId \<times> 'a) list \<times> (string, nat) btree \<times> (string, nat) btree"

definition place_member :: "('a \<Rightarrow> string) \<Rightarrow> nat \<Rightarrow> ClassId \<Rightarrow> 'a \<Rightarrow> 'a Placed \<Rightarrow> 'a Placed option" where
  "place_member label priority i x = (\<lambda>(members, indices, selected).
     case bt_get indices (label x) of
       Some k \<Rightarrow>
         Option.bind (bt_get selected (label x)) (\<lambda>p.
           if priority < p
           then if k < length members then Some (members[k := (i, x)], indices, bt_insert (label x) priority selected) else None
           else Some (members, indices, selected))
     | None \<Rightarrow>
         Some (members @ [(i, x)], bt_insert (label x) (length members) indices, bt_insert (label x) priority selected))"

fun place_members :: "('a \<Rightarrow> string) \<Rightarrow> nat \<Rightarrow> ClassId \<Rightarrow> 'a list \<Rightarrow> 'a Placed \<Rightarrow> 'a Placed option" where
  "place_members label priority i [] placed = Some placed"
| "place_members label priority i (x # xs) placed =
     Option.bind (place_member label priority i x placed) (place_members label priority i xs)"

fun place_classes :: "'s ClassRegistry \<Rightarrow> ('s ClassDescriptor \<Rightarrow> 'a list) \<Rightarrow> ('a \<Rightarrow> string) \<Rightarrow> (ClassId, nat) btree \<Rightarrow> ClassId list \<Rightarrow>
    'a Placed \<Rightarrow> 'a Placed looping" where
  "place_classes reg declared label priorities [] placed = Some (Ok placed)"
| "place_classes reg declared label priorities (i # is) placed =
     Option.bind (bt_get priorities i) (\<lambda>priority.
     loop_then (Some (class_at reg i)) (\<lambda>c.
     Option.bind (place_members label priority i (declared c) placed) (place_classes reg declared label priorities is)))"

definition effective_members :: "('s ClassDescriptor \<Rightarrow> 'a list) \<Rightarrow> ('a \<Rightarrow> string) \<Rightarrow> 's ClassRegistry \<Rightarrow> ClassId \<Rightarrow> (ClassId \<times> 'a) list looping" where
  "effective_members declared label reg i =
     loop_then (Some (ancestry_preorder reg i)) (\<lambda>order.
     loop_then (Some (ancestry_postorder reg i)) (\<lambda>ancestry.
     loop_then (place_classes reg declared label (batch_indices order) ancestry ([], [], [])) (\<lambda>(members, _). Some (Ok members))))"

definition effective_methods :: "'s ClassRegistry \<Rightarrow> ClassId \<Rightarrow> (ClassId \<times> MethodDescriptor) list looping" where
  "effective_methods = effective_members class_methods method_name"

definition effective_events :: "'s ClassRegistry \<Rightarrow> ClassId \<Rightarrow> (ClassId \<times> EventDescriptor) list looping" where
  "effective_events = effective_members class_events event_name"

text \<open>The slots one class declares.\<close>

definition local_slots :: "ClassId \<Rightarrow> 's ClassDescriptor \<Rightarrow> (PropertyKey \<times> 's PropertyDescriptor) list" where
  "local_slots j c = map (\<lambda>p. (PropertyKey j (property_name p), p)) (filter (\<lambda>p. property_kind p = Stored) (class_properties c))"

definition stored_properties :: "'s ClassRegistry \<Rightarrow> ClassId \<Rightarrow> (PropertyKey \<times> 's PropertyDescriptor) list ObjectResult" where
  "stored_properties reg i =
     and_then (ancestry_postorder reg i) (fold_result (\<lambda>properties j.
       and_then (class_at reg j) (\<lambda>c. Ok (properties @ local_slots j c))) [])"

subsection \<open>Both walks visit the ancestors, each once\<close>

definition ancestors :: "'s ClassRegistry \<Rightarrow> ClassId \<Rightarrow> ClassId set" where
  "ancestors reg i = {j. (j, i) \<in> (class_parents reg)\<^sup>*}"

text \<open>What a walk over a list of classes does to the visited set and the ancestry.\<close>

definition walked :: "'s ClassRegistry \<Rightarrow> ClassId list \<Rightarrow> Walk \<Rightarrow> Walk \<Rightarrow> bool" where
  "walked reg todo = (\<lambda>(visited, ancestry) (visited', ancestry').
     \<exists>ns. ancestry' = ancestry @ ns \<and> distinct ns \<and> set ns \<inter> visited = {} \<and> visited' = visited \<union> set ns \<and> set todo \<subseteq> visited' \<and>
       set ns \<subseteq> \<Union> (ancestors reg ` set todo) \<and>
       (\<forall>i\<in>set ns. \<exists>c. bt_get (reg_classes reg) i = Some c \<and> set (superclasses c) \<subseteq> visited'))"

lemma ancestors_self [simp]: "i \<in> ancestors reg i"
  by (simp add: ancestors_def)

lemma ancestors_superclass:
  "bt_get (reg_classes reg) i = Some c \<Longrightarrow> j \<in> set (superclasses c) \<Longrightarrow> ancestors reg j \<subseteq> ancestors reg i"
  by (auto simp: ancestors_def class_parents_def intro: rtrancl_into_rtrancl)

lemma walk_skips: "i \<in> visited \<Longrightarrow> walked reg is (visited, ancestry) walk \<Longrightarrow> walked reg (i # is) (visited, ancestry) walk"
  by (cases walk) (auto simp: walked_def)

lemma walked_new:
  assumes "i \<notin> visited" and c: "bt_get (reg_classes reg) i = Some c"
    and "walked reg (superclasses c) (insert i visited, before) (visited', inner)"
    and "walked reg is (visited', ancestry') (visited'', ancestry'')" and ns: "ancestry' = ancestry @ ns"
    and "distinct ns" and "set ns = insert i (visited' - insert i visited)"
  shows "walked reg (i # is) (visited, ancestry) (visited'', ancestry'')"
proof -
  from assms(4) obtain ms where ms: "ancestry'' = ancestry' @ ms" "distinct ms" "set ms \<inter> visited' = {}" "visited'' = visited' \<union> set ms"
      "set is \<subseteq> visited''" "set ms \<subseteq> \<Union> (ancestors reg ` set is)"
      "\<forall>i\<in>set ms. \<exists>c. bt_get (reg_classes reg) i = Some c \<and> set (superclasses c) \<subseteq> visited''" by (auto simp: walked_def)
  from assms(3) obtain ks where ks: "set ks \<inter> insert i visited = {}" "visited' = insert i visited \<union> set ks" "set (superclasses c) \<subseteq> visited'"
      "set ks \<subseteq> \<Union> (ancestors reg ` set (superclasses c))"
      "\<forall>i\<in>set ks. \<exists>c. bt_get (reg_classes reg) i = Some c \<and> set (superclasses c) \<subseteq> visited'" by (auto simp: walked_def)
  have set_ns: "set ns = insert i (set ks)" using assms(7) ks(1,2) by auto
  have up: "\<Union> (ancestors reg ` set (superclasses c)) \<subseteq> ancestors reg i" using ancestors_superclass [OF c] by blast
  show ?thesis
    unfolding walked_def prod.case
  proof (intro exI [of _ "ns @ ms"] conjI)
    show "distinct (ns @ ms)" using assms(6) ms(2,3) ks(2) set_ns by auto
    show "set (ns @ ms) \<subseteq> \<Union> (ancestors reg ` set (i # is))" using set_ns ks(4) up ms(6) by auto
    show "\<forall>i\<in>set (ns @ ms). \<exists>c. bt_get (reg_classes reg) i = Some c \<and> set (superclasses c) \<subseteq> visited''"
      using set_ns ks(3,5) c ms(4,7) by fastforce
  qed (use ms ks set_ns ns assms(1) in auto)
qed

lemma collect_preorder_walked: "collect_ancestry_preorder reg todo start = Ok walk \<Longrightarrow> walked reg todo start walk"
proof (induction reg todo start arbitrary: walk rule: collect_ancestry_preorder.induct)
  case (1 reg start)
  then show ?case by (cases start) (auto simp: walked_def)
next
  case (2 reg i "is" visited ancestry)
  show ?case
  proof (cases "i \<in> visited")
    case True
    with 2 show ?thesis by (auto intro: walk_skips)
  next
    case False
    with 2(4) obtain c visited' inner where c: "class_at reg i = Ok c"
        and supers: "collect_ancestry_preorder reg (superclasses c) (insert i visited, ancestry @ [i]) = Ok (visited', inner)"
        and rest: "collect_ancestry_preorder reg is (visited', inner) = Ok walk"
      by (auto simp: result_simps)
    note inner = 2(2) [OF False c supers]
    then obtain ns where "inner = (ancestry @ [i]) @ ns" "distinct ns" "set ns \<inter> insert i visited = {}" "visited' = insert i visited \<union> set ns"
      by (auto simp: walked_def)
    then show ?thesis
      using walked_new [of i visited reg c "ancestry @ [i]" visited' inner "is" inner "fst walk" "snd walk" ancestry "i # ns"]
        False c inner 2(3) [OF False c supers rest] by (fastforce simp: class_at_def result_simps)
  qed
qed

lemma collect_postorder_walked: "collect_ancestry_postorder reg todo start = Ok walk \<Longrightarrow> walked reg todo start walk"
proof (induction reg todo start arbitrary: walk rule: collect_ancestry_postorder.induct)
  case (1 reg start)
  then show ?case by (cases start) (auto simp: walked_def)
next
  case (2 reg i "is" visited ancestry)
  show ?case
  proof (cases "i \<in> visited")
    case True
    with 2 show ?thesis by (auto intro: walk_skips)
  next
    case False
    with 2(4) obtain c visited' inner where c: "class_at reg i = Ok c"
        and supers: "collect_ancestry_postorder reg (superclasses c) (insert i visited, ancestry) = Ok (visited', inner)"
        and rest: "collect_ancestry_postorder reg is (visited', inner @ [i]) = Ok walk"
      by (auto simp: result_simps)
    note inner = 2(2) [OF False c supers]
    then obtain ns where "inner = ancestry @ ns" "distinct ns" "set ns \<inter> insert i visited = {}" "visited' = insert i visited \<union> set ns"
      by (auto simp: walked_def)
    then show ?thesis
      using walked_new [of i visited reg c ancestry visited' inner "is" "inner @ [i]" "fst walk" "snd walk" ancestry "ns @ [i]"]
        False c inner 2(3) [OF False c supers refl rest] by (fastforce simp: class_at_def result_simps)
  qed
qed

lemma walked_all:
  assumes "walked reg [i] ({}, []) (visited, ns)"
  shows "distinct ns" and "set ns = ancestors reg i" and "\<And>j. j \<in> set ns \<Longrightarrow> bt_get (reg_classes reg) j \<noteq> None"
proof -
  from assms have ns: "distinct ns" "visited = set ns" "i \<in> set ns" "set ns \<subseteq> ancestors reg i"
      and closed: "\<forall>i\<in>set ns. \<exists>c. bt_get (reg_classes reg) i = Some c \<and> set (superclasses c) \<subseteq> set ns"
    by (auto simp: walked_def)
  have "j \<in> set ns" if "(j, i) \<in> (class_parents reg)\<^sup>*" for j
    using that
  proof (induction rule: converse_rtrancl_induct)
    case (step k j)
    with closed show ?case by (fastforce simp: class_parents_def)
  qed (rule ns(3))
  with ns show "distinct ns" "set ns = ancestors reg i" by (auto simp: ancestors_def)
  show "\<And>j. j \<in> set ns \<Longrightarrow> bt_get (reg_classes reg) j \<noteq> None" using closed by auto
qed

lemma ancestry_exact:
  shows "ancestry_preorder reg i = Ok ns \<Longrightarrow> distinct ns \<and> set ns = ancestors reg i"
    and "ancestry_postorder reg i = Ok ns \<Longrightarrow> distinct ns \<and> set ns = ancestors reg i"
proof -
  have "\<exists>visited. walked reg [i] ({}, []) (visited, ns)" if "ancestry_preorder reg i = Ok ns"
    using that unfolding ancestry_preorder_def and_then_eq_Ok by (auto simp del: collect_ancestry_preorder.simps dest: collect_preorder_walked)
  with walked_all show "ancestry_preorder reg i = Ok ns \<Longrightarrow> distinct ns \<and> set ns = ancestors reg i" by blast
  have "\<exists>visited. walked reg [i] ({}, []) (visited, ns)" if "ancestry_postorder reg i = Ok ns"
    using that unfolding ancestry_postorder_def and_then_eq_Ok by (auto simp del: collect_ancestry_postorder.simps dest: collect_postorder_walked)
  with walked_all show "ancestry_postorder reg i = Ok ns \<Longrightarrow> distinct ns \<and> set ns = ancestors reg i" by blast
qed

lemma ancestry_known: "ancestry_preorder reg i = Ok ns \<Longrightarrow> j \<in> set ns \<Longrightarrow> bt_get (reg_classes reg) j \<noteq> None"
  unfolding ancestry_preorder_def and_then_eq_Ok
  using walked_all(3) [of reg i] by (auto simp del: collect_ancestry_preorder.simps dest!: collect_preorder_walked)

definition parents_registered :: "'s ClassRegistry \<Rightarrow> bool" where
  "parents_registered reg \<longleftrightarrow>
     (\<forall>i c. bt_get (reg_classes reg) i = Some c \<longrightarrow> set (superclasses c) \<subseteq> dom (bt_get (reg_classes reg)))"

lemma parents_registeredD:
  "parents_registered reg \<Longrightarrow> bt_get (reg_classes reg) i = Some c \<Longrightarrow> set (superclasses c) \<subseteq> dom (bt_get (reg_classes reg))"
  by (simp add: parents_registered_def)

lemma collect_preorder_Ok:
  assumes "parents_registered reg"
    and "set todo \<subseteq> dom (bt_get (reg_classes reg))"
  shows "\<exists>walk. collect_ancestry_preorder reg todo start = Ok walk"
  using assms
proof (induction reg todo start rule: collect_ancestry_preorder.induct)
  case (2 reg i "is" visited ancestry)
  from "2.prems"(2) obtain c where c: "bt_get (reg_classes reg) i = Some c" "class_at reg i = Ok c" by (auto simp: class_at_def)
  note IH = "2.IH"(1) [OF _ "2.prems"(1)] "2.IH"(2) [OF _ c(2) "2.prems"(1)] "2.IH"(3) [OF _ c(2) _ "2.prems"(1)]
  show ?case
  proof (cases "i \<in> visited")
    case False
    with IH(2) parents_registeredD [OF "2.prems"(1) c(1)] obtain walk
      where walk: "collect_ancestry_preorder reg (superclasses c) (insert i visited, ancestry @ [i]) = Ok walk" by blast
    with IH(3) [OF False] "2.prems"(2) False c show ?thesis by auto
  qed (use IH(1) "2.prems"(2) in auto)
qed simp

lemma collect_postorder_Ok:
  assumes "parents_registered reg"
    and "set todo \<subseteq> dom (bt_get (reg_classes reg))"
  shows "\<exists>walk. collect_ancestry_postorder reg todo start = Ok walk"
  using assms
proof (induction reg todo start rule: collect_ancestry_postorder.induct)
  case (2 reg i "is" visited ancestry)
  from "2.prems"(2) obtain c where c: "bt_get (reg_classes reg) i = Some c" "class_at reg i = Ok c" by (auto simp: class_at_def)
  note IH = "2.IH"(1) [OF _ "2.prems"(1)] "2.IH"(2) [OF _ c(2) "2.prems"(1)] "2.IH"(3) [OF _ c(2) _ refl "2.prems"(1)]
  show ?case
  proof (cases "i \<in> visited")
    case False
    with IH(2) parents_registeredD [OF "2.prems"(1) c(1)] obtain visited' inner
      where walk: "collect_ancestry_postorder reg (superclasses c) (insert i visited, ancestry) = Ok (visited', inner)" by fast
    with IH(3) [OF False] "2.prems"(2) False c show ?thesis by auto
  qed (use IH(1) "2.prems"(2) in auto)
qed simp

lemma ancestry_Ok:
  assumes "registry_ok reg" and "bt_get (reg_classes reg) i \<noteq> None"
  shows "\<exists>ns. ancestry_preorder reg i = Ok ns" and "\<exists>ns. ancestry_postorder reg i = Ok ns"
proof -
  have closed: "parents_registered reg"
    using assms(1) by (force simp: parents_registered_def registry_ok_def class_ok_def)
  from assms(2) have known: "set [i] \<subseteq> dom (bt_get (reg_classes reg))" by auto
  from collect_preorder_Ok [OF closed known, of "({}, [])"] show "\<exists>ns. ancestry_preorder reg i = Ok ns"
    unfolding ancestry_preorder_def and_then_eq_Ok by (auto simp del: collect_ancestry_preorder.simps)
  from collect_postorder_Ok [OF closed known, of "({}, [])"] show "\<exists>ns. ancestry_postorder reg i = Ok ns"
    unfolding ancestry_postorder_def and_then_eq_Ok by (auto simp del: collect_ancestry_postorder.simps)
qed

lemma is_subclass_of_iff:
  assumes "registry_ok reg" and "bt_get (reg_classes reg) i \<noteq> None" and "bt_get (reg_classes reg) j \<noteq> None"
  shows "is_subclass_of reg i j = Ok (j \<in> ancestors reg i)"
proof -
  from ancestry_Ok(1) [OF assms(1,2)] obtain ns where "ancestry_preorder reg i = Ok ns" by blast
  with ancestry_exact(1) assms(3) show ?thesis by (fastforce simp: is_subclass_of_def class_at_def)
qed

subsection \<open>Superclasses come first in postorder\<close>

definition superclasses_first :: "'s ClassRegistry \<Rightarrow> ClassId list \<Rightarrow> bool" where
  "superclasses_first reg ns \<longleftrightarrow>
     (\<forall>before i after c. ns = before @ i # after \<and> bt_get (reg_classes reg) i = Some c \<longrightarrow> set (superclasses c) \<subseteq> set before)"

lemma superclasses_first_Nil [simp]: "superclasses_first reg []"
  by (simp add: superclasses_first_def)

lemma superclasses_first_snoc:
  assumes "superclasses_first reg ns" and "\<And>c. bt_get (reg_classes reg) i = Some c \<Longrightarrow> set (superclasses c) \<subseteq> set ns"
  shows "superclasses_first reg (ns @ [i])"
  unfolding superclasses_first_def
proof (intro allI impI)
  fix before j after c assume split: "ns @ [i] = before @ j # after \<and> bt_get (reg_classes reg) j = Some c"
  then consider "after = []" "j = i" "before = ns" | after' where "ns = before @ j # after'"
    by (cases after rule: rev_cases) auto
  then show "set (superclasses c) \<subseteq> set before"
    using split assms(2) assms(1) [unfolded superclasses_first_def] by cases blast+
qed

text \<open>Classes that are visited but not yet in the ancestry are still being walked: what is left to visit lies above them.\<close>

definition pending_below :: "'s ClassRegistry \<Rightarrow> ClassId list \<Rightarrow> Walk \<Rightarrow> bool" where
  "pending_below reg todo = (\<lambda>(visited, ancestry).
     set ancestry \<subseteq> visited \<and> (\<forall>p\<in>visited - set ancestry. \<forall>t\<in>set todo. (t, p) \<in> (class_parents reg)\<^sup>+))"

lemma pending_below_superclasses:
  assumes "pending_below reg (i # is) (visited, ancestry)" and "i \<notin> visited" and "bt_get (reg_classes reg) i = Some c"
  shows "pending_below reg (superclasses c) (insert i visited, ancestry)"
  unfolding pending_below_def prod.case
proof (intro conjI ballI)
  show "set ancestry \<subseteq> insert i visited" using assms(1) by (auto simp: pending_below_def)
  fix p t assume "p \<in> insert i visited - set ancestry" and t: "t \<in> set (superclasses c)"
  then consider "p = i" | "(i, p) \<in> (class_parents reg)\<^sup>+" using assms(1) by (auto simp: pending_below_def)
  moreover have "(t, i) \<in> (class_parents reg)\<^sup>+" using t assms(3) by (auto simp: class_parents_def)
  ultimately show "(t, p) \<in> (class_parents reg)\<^sup>+" by cases (auto intro: trancl_trans)
qed

lemma collect_postorder_first:
  assumes "wf (class_parents reg)"
  shows "collect_ancestry_postorder reg todo start = Ok walk \<Longrightarrow> pending_below reg todo start \<Longrightarrow> superclasses_first reg (snd start) \<Longrightarrow>
     superclasses_first reg (snd walk) \<and> fst walk - set (snd walk) = fst start - set (snd start) \<and> set (snd walk) \<subseteq> fst walk"
  using assms
proof (induction reg todo start arbitrary: walk rule: collect_ancestry_postorder.induct)
  case (1 reg start)
  then show ?case by (auto simp: pending_below_def)
next
  case (2 reg i "is" visited ancestry)
  note prems = "2.prems"
  show ?case
  proof (cases "i \<in> visited")
    case True
    have "pending_below reg is (visited, ancestry)" using prems(2) by (auto simp: pending_below_def)
    with True prems "2.IH"(1) show ?thesis by auto
  next
    case False
    with prems(1) obtain c visited' inner where c: "class_at reg i = Ok c" "bt_get (reg_classes reg) i = Some c"
        and supers: "collect_ancestry_postorder reg (superclasses c) (insert i visited, ancestry) = Ok (visited', inner)"
        and rest: "collect_ancestry_postorder reg is (visited', inner @ [i]) = Ok walk"
      by (auto simp: result_simps class_at_def)
    note below = pending_below_superclasses [OF prems(2) False c(2)]
    have old: "i \<notin> set ancestry" using False prems(2) by (auto simp: pending_below_def)
    from "2.IH"(2) [OF False c(1) supers below _ prems(4)] prems(3) old have inner: "superclasses_first reg inner"
        "visited' - set inner = insert i (visited - set ancestry)" "set inner \<subseteq> visited'" by auto
    have above: "(j, p) \<in> (class_parents reg)\<^sup>+" if "j \<in> set (superclasses c)" "p \<in> insert i (visited - set ancestry)" for j p
      using below that old by (auto simp: pending_below_def)
    have "set (superclasses c) \<subseteq> visited'" using collect_postorder_walked [OF supers] by (auto simp: walked_def)
    moreover have "(j, j) \<notin> (class_parents reg)\<^sup>+" for j using wf_acyclic [OF prems(4)] by (auto simp: acyclic_def)
    ultimately have "set (superclasses c) \<subseteq> set inner" using inner(2) above by blast
    then have first: "superclasses_first reg (inner @ [i])" using inner(1) c(2) by (intro superclasses_first_snoc) auto
    have "pending_below reg is (visited', inner @ [i])"
      using prems(2) inner(2,3) by (auto simp: pending_below_def)
    with "2.IH"(3) [OF False c(1) supers refl rest _ _ prems(4)] first inner(2) old False show ?thesis by auto
  qed
qed

lemma postorder_superclasses_first:
  assumes "ancestry_postorder reg i = Ok ns" and "registry_ok reg"
  shows "superclasses_first reg ns"
proof -
  from assms(1) obtain visited where "collect_ancestry_postorder reg [i] ({}, []) = Ok (visited, ns)"
    unfolding ancestry_postorder_def and_then_eq_Ok by (auto simp del: collect_ancestry_postorder.simps)
  with collect_postorder_first [of reg "[i]" "({}, [])"] assms(2) show ?thesis
    by (simp add: registry_ok_def pending_below_def del: collect_ancestry_postorder.simps)
qed

subsection \<open>Effective views hold the member that dispatch selects\<close>

text \<open>What has been placed: one entry per label, indexed by it, with the least priority of the pairs seen.\<close>

definition placed_ok :: "('a \<Rightarrow> string) \<Rightarrow> (ClassId \<Rightarrow> nat) \<Rightarrow> (ClassId \<times> 'a) set \<Rightarrow> 'a Placed \<Rightarrow> bool" where
  "placed_ok label prio seen = (\<lambda>(members, indices, selected).
     (\<forall>n k. bt_get indices n = Some k \<longleftrightarrow> k < length members \<and> label (snd (members ! k)) = n) \<and>
     (\<forall>k<length members. bt_get selected (label (snd (members ! k))) = Some (prio (fst (members ! k)))) \<and>
     set members \<subseteq> seen \<and>
     (\<forall>(j, x)\<in>seen. \<exists>k<length members. label (snd (members ! k)) = label x \<and> prio (fst (members ! k)) \<le> prio j))"

lemma placed_ok_unique:
  assumes "placed_ok label prio seen (members, indices, selected)" and "k < length members" and "m < length members"
    and "label (snd (members ! k)) = label (snd (members ! m))"
  shows "k = m"
proof -
  from assms(1) have indexed: "bt_get indices n = Some k \<longleftrightarrow> k < length members \<and> label (snd (members ! k)) = n" for n k
    by (simp add: placed_ok_def)
  from assms(2-4) indexed [of "label (snd (members ! k))" k] indexed [of "label (snd (members ! k))" m] show ?thesis by simp
qed

lemma placed_ok_append:
  assumes ok: "placed_ok label prio seen (members, indices, selected)" and new: "bt_get indices (label x) = None"
  shows "placed_ok label prio (insert (i, x) seen)
    (members @ [(i, x)], bt_insert (label x) (length members) indices, bt_insert (label x) (prio i) selected)"
proof -
  have fresh: "label (snd (members ! k)) \<noteq> label x" if "k < length members" for k
  proof
    assume "label (snd (members ! k)) = label x"
    with ok that have "bt_get indices (label x) = Some k" unfolding placed_ok_def prod.case by blast
    with new show False by simp
  qed
  let ?ms = "members @ [(i, x)]"
  have covered: "\<exists>k<length ?ms. label (snd (?ms ! k)) = label y \<and> prio (fst (?ms ! k)) \<le> prio j" if "(j, y) \<in> insert (i, x) seen" for j y
  proof (cases "(j, y) = (i, x)")
    case False
    with that ok obtain k where "k < length members" "label (snd (members ! k)) = label y" "prio (fst (members ! k)) \<le> prio j"
      unfolding placed_ok_def prod.case by blast
    then show ?thesis by (intro exI [of _ k]) (simp add: nth_append)
  qed (auto intro: exI [of _ "length members"])
  show ?thesis
    unfolding placed_ok_def prod.case
  proof (intro conjI allI impI)
    fix n k show "bt_get (bt_insert (label x) (length members) indices) n = Some k \<longleftrightarrow> k < length ?ms \<and> label (snd (?ms ! k)) = n"
      using ok fresh unfolding placed_ok_def prod.case by (auto simp: bt_insert_get nth_append less_Suc_eq)
  next
    fix k assume "k < length ?ms"
    then show "bt_get (bt_insert (label x) (prio i) selected) (label (snd (?ms ! k))) = Some (prio (fst (?ms ! k)))"
      using ok fresh unfolding placed_ok_def prod.case by (auto simp: bt_insert_get nth_append less_Suc_eq)
  next
    show "set ?ms \<subseteq> insert (i, x) seen" using ok unfolding placed_ok_def prod.case by auto
    show "\<forall>(j, y)\<in>insert (i, x) seen. \<exists>k<length ?ms. label (snd (?ms ! k)) = label y \<and> prio (fst (?ms ! k)) \<le> prio j"
      using covered by blast
  qed
qed

lemma placed_ok_replace:
  assumes ok: "placed_ok label prio seen (members, indices, selected)" and k: "k < length members" "label (snd (members ! k)) = label x"
    and less: "prio i < prio (fst (members ! k))"
  shows "placed_ok label prio (insert (i, x) seen) (members[k := (i, x)], indices, bt_insert (label x) (prio i) selected)"
proof -
  let ?ms = "members[k := (i, x)]"
  have label: "label (snd (?ms ! m)) = label (snd (members ! m))" if "m < length members" for m
    using k that by (cases "m = k") auto
  have other: "label (snd (members ! m)) \<noteq> label x" if "m < length members" "m \<noteq> k" for m
    using placed_ok_unique [OF ok that(1) k(1)] k(2) that(2) by metis
  have covered: "\<exists>m<length ?ms. label (snd (?ms ! m)) = label y \<and> prio (fst (?ms ! m)) \<le> prio j" if "(j, y) \<in> insert (i, x) seen" for j y
  proof (cases "(j, y) = (i, x)")
    case False
    with that ok obtain m where "m < length members" "label (snd (members ! m)) = label y" "prio (fst (members ! m)) \<le> prio j"
      unfolding placed_ok_def prod.case by blast
    then show ?thesis using less k by (intro exI [of _ m]) (auto simp: nth_list_update)
  qed (use k in \<open>auto intro: exI [of _ k]\<close>)
  show ?thesis
    unfolding placed_ok_def prod.case
  proof (intro conjI allI impI)
    fix n m show "bt_get indices n = Some m \<longleftrightarrow> m < length ?ms \<and> label (snd (?ms ! m)) = n"
      using ok label unfolding placed_ok_def prod.case by auto
  next
    fix m assume "m < length ?ms"
    then show "bt_get (bt_insert (label x) (prio i) selected) (label (snd (?ms ! m))) = Some (prio (fst (?ms ! m)))"
      using ok other [of m] k unfolding placed_ok_def prod.case by (cases "m = k") (simp_all add: bt_insert_get)
  next
    show "set ?ms \<subseteq> insert (i, x) seen" using ok set_update_subset_insert [of members k "(i, x)"] unfolding placed_ok_def prod.case by blast
    show "\<forall>(j, y)\<in>insert (i, x) seen. \<exists>m<length ?ms. label (snd (?ms ! m)) = label y \<and> prio (fst (?ms ! m)) \<le> prio j"
      using covered by blast
  qed
qed

lemma place_member_ok:
  assumes "placed_ok label prio seen placed"
  shows "\<exists>placed'. place_member label (prio i) i x placed = Some placed' \<and> placed_ok label prio (insert (i, x) seen) placed'"
proof -
  obtain members indices selected where placed: "placed = (members, indices, selected)" by (cases placed)
  note ok = assms [unfolded placed]
  show ?thesis
  proof (cases "bt_get indices (label x)")
    case None
    with placed_ok_append [OF ok None] show ?thesis by (simp add: placed place_member_def)
  next
    case (Some k)
    with ok have k: "k < length members" "label (snd (members ! k)) = label x" "bt_get selected (label x) = Some (prio (fst (members ! k)))"
      unfolding placed_ok_def prod.case by (metis, metis, metis)
    show ?thesis
    proof (cases "prio i < prio (fst (members ! k))")
      case True
      with placed_ok_replace [OF ok k(1,2) True] show ?thesis by (simp add: placed place_member_def Some k)
    next
      case False
      with ok k have "placed_ok label prio (insert (i, x) seen) (members, indices, selected)"
        unfolding placed_ok_def prod.case by auto
      with False show ?thesis by (simp add: placed place_member_def Some k)
    qed
  qed
qed

lemma place_members_ok:
  "placed_ok label prio seen placed \<Longrightarrow>
     \<exists>placed'. place_members label (prio i) i xs placed = Some placed' \<and> placed_ok label prio (Pair i ` set xs \<union> seen) placed'"
proof (induction xs arbitrary: placed seen)
  case (Cons x xs)
  from place_member_ok [OF Cons.prems] obtain p where
      p: "place_member label (prio i) i x placed = Some p" "placed_ok label prio (insert (i, x) seen) p" by blast
  from Cons.IH [OF p(2)] p(1) show ?case by simp
qed simp

definition declared_in :: "'s ClassRegistry \<Rightarrow> ('s ClassDescriptor \<Rightarrow> 'a list) \<Rightarrow> ClassId \<Rightarrow> 'a set" where
  "declared_in reg declared i = (case bt_get (reg_classes reg) i of None \<Rightarrow> {} | Some c \<Rightarrow> set (declared c))"

lemma place_classes_ok:
  assumes "\<forall>j\<in>set ns. bt_get priorities j = Some (prio j) \<and> bt_get (reg_classes reg) j \<noteq> None"
  shows "placed_ok label prio seen placed \<Longrightarrow>
     \<exists>placed'. place_classes reg declared label priorities ns placed = Some (Ok placed') \<and>
        placed_ok label prio (Sigma (set ns) (declared_in reg declared) \<union> seen) placed'"
  using assms
proof (induction ns arbitrary: placed seen)
  case (Cons j ns)
  from Cons.prems(2) obtain c where c: "bt_get priorities j = Some (prio j)" "bt_get (reg_classes reg) j = Some c" by auto
  from place_members_ok [OF Cons.prems(1), of j "declared c"] obtain p where
      p: "place_members label (prio j) j (declared c) placed = Some p" "placed_ok label prio (Pair j ` set (declared c) \<union> seen) p" by blast
  have "Sigma (set (j # ns)) (declared_in reg declared) \<union> seen =
      Sigma (set ns) (declared_in reg declared) \<union> (Pair j ` set (declared c) \<union> seen)"
    by (auto simp: declared_in_def c)
  with Cons.IH [OF p(2)] Cons.prems(2) c p(1) show ?case by (simp add: class_at_def)
qed simp

definition position :: "ClassId list \<Rightarrow> ClassId \<Rightarrow> nat" where
  "position ns i = length (takeWhile (\<lambda>j. j \<noteq> i) ns)"

lemma batch_indices_position: "distinct ns \<Longrightarrow> i \<in> set ns \<Longrightarrow> bt_get (batch_indices ns) i = Some (position ns i)"
proof (induction ns rule: rev_induct)
  case (snoc j ns)
  have last: "batch_indices (ns @ [j]) = bt_insert j (length ns) (batch_indices ns)"
    by (simp add: batch_indices_def enumerate_append_eq)
  show ?case
  proof (cases "i = j")
    case True
    with snoc.prems have "takeWhile (\<lambda>k. k \<noteq> i) ns = ns" by (auto simp: takeWhile_eq_all_conv)
    with True show ?thesis by (simp add: last bt_insert_get position_def)
  next
    case False
    with snoc have "i \<in> set ns" "bt_get (batch_indices ns) i = Some (position ns i)" by auto
    with False show ?thesis by (simp add: last bt_insert_get position_def takeWhile_append1)
  qed
qed simp

lemma position_nth: "i \<in> set ns \<Longrightarrow> ns ! position ns i = i"
  by (induction ns) (auto simp: position_def)

lemma first_declaring_position:
  "\<forall>j\<in>set ns. bt_get (reg_classes reg) j \<noteq> None \<Longrightarrow>
     first_declaring reg look ns =
       Ok (case List.find (\<lambda>j. Option.bind (bt_get (reg_classes reg) j) look \<noteq> None) ns of
             None \<Rightarrow> None | Some j \<Rightarrow> map_option (Pair j) (Option.bind (bt_get (reg_classes reg) j) look))"
  by (induction ns) (auto simp: class_at_def split: option.split)

lemma find_position:
  "List.find P ns = Some j \<longleftrightarrow> j \<in> set ns \<and> P j \<and> (\<forall>i\<in>set ns. P i \<longrightarrow> position ns j \<le> position ns i)" if "distinct ns"
  using that by (induction ns) (auto simp: position_def)

lemma effective_members_ok:
  assumes "registry_ok reg" and "bt_get (reg_classes reg) i \<noteq> None"
  obtains order members where "ancestry_preorder reg i = Ok order"
    and "effective_members declared label reg i = Some (Ok members)"
    and "\<And>k m. k < length members \<Longrightarrow> m < length members \<Longrightarrow> label (snd (members ! k)) = label (snd (members ! m)) \<Longrightarrow> k = m"
    and "set members \<subseteq> Sigma (set order) (declared_in reg declared)"
    and "\<And>j x. j \<in> set order \<Longrightarrow> x \<in> declared_in reg declared j \<Longrightarrow>
           \<exists>(k, y)\<in>set members. label y = label x \<and> position order k \<le> position order j"
proof -
  from ancestry_Ok [OF assms] obtain order ms where ns: "ancestry_preorder reg i = Ok order" "ancestry_postorder reg i = Ok ms" by blast
  from ancestry_exact(1) [OF ns(1)] ancestry_exact(2) [OF ns(2)] have sets: "distinct order" "set ms = set order" by auto
  have known: "bt_get (reg_classes reg) j \<noteq> None" if "j \<in> set order" for j
    using ancestry_known [OF ns(1) that] .
  have empty: "placed_ok label (position order) {} ([], [], [])" by (simp add: placed_ok_def)
  have prios: "\<forall>j\<in>set ms. bt_get (batch_indices order) j = Some (position order j) \<and> bt_get (reg_classes reg) j \<noteq> None"
    using sets known batch_indices_position by auto
  from place_classes_ok [OF prios empty, of declared] obtain members indices selected where
      placed: "place_classes reg declared label (batch_indices order) ms ([], [], []) = Some (Ok (members, indices, selected))"
      and ok: "placed_ok label (position order) (Sigma (set order) (declared_in reg declared)) (members, indices, selected)"
    by (auto simp: sets)
  show thesis
  proof (rule that [OF ns(1)])
    show "effective_members declared label reg i = Some (Ok members)" by (simp add: effective_members_def ns placed)
    show "set members \<subseteq> Sigma (set order) (declared_in reg declared)" using ok by (simp add: placed_ok_def)
    show "\<exists>(k, y)\<in>set members. label y = label x \<and> position order k \<le> position order j"
      if "j \<in> set order" "x \<in> declared_in reg declared j" for j x
    proof -
      from ok that obtain k where "k < length members" "label (snd (members ! k)) = label x" "position order (fst (members ! k)) \<le> position order j"
        unfolding placed_ok_def prod.case by blast
      then show ?thesis by (intro bexI [of _ "members ! k"]) (auto simp: case_prod_beta)
    qed
  qed (rule placed_ok_unique [OF ok])
qed

definition distinctly_declared :: "'s ClassRegistry \<Rightarrow> ('s ClassDescriptor \<Rightarrow> 'a list) \<Rightarrow> ('a \<Rightarrow> string) \<Rightarrow> bool" where
  "distinctly_declared reg declared label \<longleftrightarrow>
     (\<forall>j c. bt_get (reg_classes reg) j = Some c \<longrightarrow> distinct (map label (declared c)))"

lemma declared_in_unique:
  assumes "x \<in> declared_in reg declared j" and "y \<in> declared_in reg declared j" and "label x = label y"
    and "distinctly_declared reg declared label"
  shows "x = y"
  using assms by (auto simp: distinctly_declared_def declared_in_def distinct_map inj_on_def split: option.splits)

lemma find_label: "distinct (map label xs) \<Longrightarrow> List.find (\<lambda>x. label x = n) xs = Some x \<longleftrightarrow> x \<in> set xs \<and> label x = n"
  by (induction xs) auto

lemma find_declared:
  assumes "distinctly_declared reg declared label"
  shows "Option.bind (bt_get (reg_classes reg) j) (\<lambda>c. List.find (\<lambda>x. label x = n) (declared c)) = Some x \<longleftrightarrow>
     x \<in> declared_in reg declared j \<and> label x = n"
proof (cases "bt_get (reg_classes reg) j")
  case (Some c)
  with assms have "distinct (map label (declared c))" by (simp add: distinctly_declared_def)
  from find_label [OF this] Some show ?thesis by (simp add: declared_in_def)
qed (simp add: declared_in_def)

lemma same_label:
  "distinct (map (label \<circ> snd) ms) \<Longrightarrow> a \<in> set ms \<Longrightarrow> b \<in> set ms \<Longrightarrow> label (snd a) = label (snd b) \<Longrightarrow> a = b"
  by (simp add: distinct_map inj_on_def)

text \<open>The declaration a walk in the given order finds first.\<close>

definition found_first :: "'s ClassRegistry \<Rightarrow> ('s ClassDescriptor \<Rightarrow> 'a list) \<Rightarrow> ('a \<Rightarrow> string) \<Rightarrow> ClassId list \<Rightarrow> string \<Rightarrow> (ClassId \<times> 'a) option" where
  "found_first reg declared label order n =
     (let at = (\<lambda>j. Option.bind (bt_get (reg_classes reg) j) (\<lambda>c. List.find (\<lambda>x. label x = n) (declared c))) in
      case List.find (\<lambda>j. at j \<noteq> None) order of None \<Rightarrow> None | Some j \<Rightarrow> map_option (Pair j) (at j))"

lemma first_declaring_found:
  "\<forall>j\<in>set order. bt_get (reg_classes reg) j \<noteq> None \<Longrightarrow>
     first_declaring reg (\<lambda>c. List.find (\<lambda>x. label x = n) (declared c)) order = Ok (found_first reg declared label order n)"
  by (simp only: first_declaring_position found_first_def Let_def)

lemma found_firstD:
  assumes "found_first reg declared label order n = Some (j, x)" and order: "distinct order"
    and distinct: "distinctly_declared reg declared label"
  shows "j \<in> set order" and "x \<in> declared_in reg declared j" and "label x = n"
    and "\<And>k y. k \<in> set order \<Longrightarrow> y \<in> declared_in reg declared k \<Longrightarrow> label y = n \<Longrightarrow> position order j \<le> position order k"
proof -
  let ?at = "\<lambda>j. Option.bind (bt_get (reg_classes reg) j) (\<lambda>c. List.find (\<lambda>x. label x = n) (declared c))"
  have declared: "?at k = Some y \<longleftrightarrow> y \<in> declared_in reg declared k \<and> label y = n" for k y
    by (rule find_declared) (rule distinct)
  from assms(1) have j: "List.find (\<lambda>j. ?at j \<noteq> None) order = Some j" "?at j = Some x"
    by (auto simp: found_first_def Let_def split: option.splits)
  from j(1) find_position [OF order] have first: "j \<in> set order"
      "\<And>k. k \<in> set order \<Longrightarrow> ?at k \<noteq> None \<Longrightarrow> position order j \<le> position order k" by auto
  then show "j \<in> set order" by simp
  from j(2) show "x \<in> declared_in reg declared j" "label x = n" by (simp_all add: declared)
  fix k y assume k: "k \<in> set order" "y \<in> declared_in reg declared k" "label y = n"
  then have "?at k = Some y" by (simp add: declared)
  then show "position order j \<le> position order k" using first(2) [OF k(1)] by simp
qed

lemma found_first_defined:
  assumes "j \<in> set order" and "x \<in> declared_in reg declared j" and "label x = n"
    and distinct: "distinctly_declared reg declared label"
  shows "\<exists>a. found_first reg declared label order n = Some a"
proof -
  let ?at = "\<lambda>j. Option.bind (bt_get (reg_classes reg) j) (\<lambda>c. List.find (\<lambda>x. label x = n) (declared c))"
  have "?at j = Some x \<longleftrightarrow> x \<in> declared_in reg declared j \<and> label x = n"
    by (rule find_declared) (rule distinct)
  with assms(1-3) have "List.find (\<lambda>j. ?at j \<noteq> None) order \<noteq> None" unfolding find_None_iff by blast
  then obtain k where k: "List.find (\<lambda>j. ?at j \<noteq> None) order = Some k" by blast
  then obtain y where "?at k = Some y" by (auto simp: find_Some_iff)
  with k show ?thesis by (simp add: found_first_def)
qed

lemma effective_members_first:
  assumes "registry_ok reg" and "bt_get (reg_classes reg) i \<noteq> None"
    and distinct: "distinctly_declared reg declared label"
  obtains order members where "ancestry_preorder reg i = Ok order"
    and "effective_members declared label reg i = Some (Ok members)" and "distinct (map (label \<circ> snd) members)"
    and "\<And>n. first_declaring reg (\<lambda>c. List.find (\<lambda>x. label x = n) (declared c)) order = Ok (found_first reg declared label order n)"
    and "\<And>n j x. found_first reg declared label order n = Some (j, x) \<longleftrightarrow> (j, x) \<in> set members \<and> label x = n"
proof -
  from effective_members_ok [OF assms(1,2), of declared label] obtain order members where
      order: "ancestry_preorder reg i = Ok order" and members: "effective_members declared label reg i = Some (Ok members)"
      and unique: "\<And>k m. k < length members \<Longrightarrow> m < length members \<Longrightarrow> label (snd (members ! k)) = label (snd (members ! m)) \<Longrightarrow> k = m"
      and sound: "set members \<subseteq> Sigma (set order) (declared_in reg declared)"
      and least: "\<And>j x. j \<in> set order \<Longrightarrow> x \<in> declared_in reg declared j \<Longrightarrow>
           \<exists>(k, y)\<in>set members. label y = label x \<and> position order k \<le> position order j" by metis
  from ancestry_exact(1) [OF order] have order_distinct: "distinct order" by simp
  have labels: "distinct (map (label \<circ> snd) members)" using unique by (auto simp: distinct_conv_nth)
  have found: "(j, x) \<in> set members \<and> label x = n" if "found_first reg declared label order n = Some (j, x)" for n j x
  proof -
    note first = found_firstD [OF that order_distinct distinct]
    from least [OF first(1,2)] obtain k y where y: "(k, y) \<in> set members" "label y = n" "position order k \<le> position order j"
      using first(3) by auto
    with sound have k: "k \<in> set order" "y \<in> declared_in reg declared k" by auto
    from first(4) [OF k y(2)] y(3) have "position order k = position order j" by simp
    with position_nth k(1) first(1) have "k = j" by metis
    with declared_in_unique [of y reg declared j x label] distinct k(2) first(2,3) y show ?thesis by auto
  qed
  have complete: "found_first reg declared label order (label x) = Some (j, x)" if "(j, x) \<in> set members" for j x
  proof -
    from that sound have "j \<in> set order" "x \<in> declared_in reg declared j" by auto
    from found_first_defined [OF this refl distinct] obtain k y
      where some: "found_first reg declared label order (label x) = Some (k, y)" by auto
    from found [OF some] that have "(k, y) = (j, x)" by (intro same_label [OF labels]) simp_all
    with some show ?thesis by simp
  qed
  show thesis
  proof (rule that [OF order members labels])
    show "first_declaring reg (\<lambda>c. List.find (\<lambda>x. label x = n) (declared c)) order = Ok (found_first reg declared label order n)" for n
      using ancestry_known [OF order] by (intro first_declaring_found) blast
    show "found_first reg declared label order n = Some (j, x) \<longleftrightarrow> (j, x) \<in> set members \<and> label x = n" for n j x
      using found complete by blast
  qed
qed

lemma preorder_head:
  assumes "ancestry_preorder reg i = Ok ns"
  shows "hd ns = i" and "ns \<noteq> []"
proof -
  from assms obtain visited c where "class_at reg i = Ok c" and "collect_ancestry_preorder reg (superclasses c) ({i}, [i]) = Ok (visited, ns)"
    by (auto simp: ancestry_preorder_def result_simps)
  from collect_preorder_walked [OF this(2)] show "hd ns = i" "ns \<noteq> []" by (auto simp: walked_def)
qed

subsection \<open>Access that has been granted\<close>

definition granted :: "'s ClassRegistry \<Rightarrow> ClassId \<Rightarrow> Access \<Rightarrow> AccessContext \<Rightarrow> bool" where
  "granted reg declaring required context \<longleftrightarrow>
     required = Public \<or> required = Private \<and> context = Some declaring \<or>
     required = Protected \<and> (\<exists>caller. context = Some caller \<and> declaring \<in> ancestors reg caller)"

lemma is_subclass_ofD: "is_subclass_of reg i j = Ok True \<Longrightarrow> j \<in> ancestors reg i"
  by (auto simp: is_subclass_of_def result_simps dest: ancestry_exact(1))

lemma check_access_granted: "check_access reg declaring required context member = Ok u \<Longrightarrow> granted reg declaring required context"
  by (auto simp: check_access_def granted_def result_simps split: Access.splits option.splits dest: is_subclass_ofD)

lemma check_access_complete:
  assumes "registry_ok reg" and "bt_get (reg_classes reg) declaring \<noteq> None" and "\<forall>caller\<in>set_option context. bt_get (reg_classes reg) caller \<noteq> None"
  shows "check_access reg declaring required context member =
     (if granted reg declaring required context then Ok () else Err (AccessDenied member declaring required context))"
  using assms(3) is_subclass_of_iff [OF assms(1) _ assms(2)]
  by (auto simp: check_access_def granted_def split: Access.split option.split)

lemma first_declaring_member:
  "first_declaring reg look ns = Ok (Some (j, a)) \<Longrightarrow> j \<in> set ns \<and> (\<exists>c. bt_get (reg_classes reg) j = Some c \<and> look c = Some a)"
  by (induction ns) (auto simp: class_at_def result_simps split: option.splits)

lemma local_method_declared: "local_method c n = Some m \<Longrightarrow> m \<in> set (class_methods c) \<and> method_name m = n"
  by (auto simp: local_method_def find_Some_iff)

lemma local_property_declared: "local_property c n = Some p \<Longrightarrow> p \<in> set (class_properties c) \<and> property_name p = n"
  by (auto simp: local_property_def find_Some_iff)

lemma select_methodD:
  assumes "select_method reg i n = Ok sel"
  shows "method_declaring sel \<in> ancestors reg i" and "method_descriptor sel \<in> declared_in reg class_methods (method_declaring sel)"
    and "method_name (method_descriptor sel) = n" and "receiver_class sel = i"
  using assms
  by (auto simp: select_method_def result_simps declared_in_def split: option.splits
      dest!: first_declaring_member ancestry_exact(1) local_method_declared)

text \<open>The class access is checked against declares a method of the same name and access.\<close>

lemma access_owner:
  assumes "method_access_declaring_class reg i n implementation access kind = Ok owner"
  shows "owner = implementation \<or>
     owner \<in> ancestors reg i \<and> (\<exists>m\<in>declared_in reg class_methods owner. method_name m = n \<and> method_access m = access)"
proof -
  let ?step = "\<lambda>owner i. and_then (class_at reg i) (\<lambda>c. Ok (case local_method c n of
      Some m \<Rightarrow> if method_access m = access \<and> (method_abstract m \<or> access = Protected \<and> method_kind m = kind) then i else owner
    | None \<Rightarrow> owner))"
  let ?owner = "\<lambda>owner. owner = implementation \<or>
     owner \<in> ancestors reg i \<and> (\<exists>m\<in>declared_in reg class_methods owner. method_name m = n \<and> method_access m = access)"
  from assms obtain ns where ns: "ancestry_preorder reg i = Ok ns" "fold_result ?step implementation ns = Ok owner"
    by (auto simp: method_access_declaring_class_def and_then_eq_Ok)
  show ?thesis
  proof (rule fold_result_Ok_invariant [OF ns(2), of ?owner])
    fix before j after assume "j \<in> set ns" and before: "?owner before" and "?step before j = Ok after"
    then obtain c where c: "bt_get (reg_classes reg) j = Some c" "j \<in> ancestors reg i" "after = before \<or>
        (\<exists>m. after = j \<and> local_method c n = Some m \<and> method_access m = access)"
      using ancestry_exact(1) [OF ns(1)] by (auto simp: class_at_def and_then_eq_Ok ok_or_eq split: option.splits if_splits)
    then have "m \<in> declared_in reg class_methods j \<and> method_name m = n" if "local_method c n = Some m" for m
      using local_method_declared [OF that] by (simp add: declared_in_def)
    with before c(2,3) show "?owner after" by blast
  qed simp
qed

subsection \<open>Objects of a registered class\<close>

text \<open>\<open>ObjectStore::allocate_with\<close> on a registry.\<close>

definition registry_slots :: "'s ClassRegistry \<Rightarrow> ClassId \<Rightarrow> (PropertyKey \<times> 's option) list ObjectResult" where
  "registry_slots reg i = and_then (stored_properties reg i) (\<lambda>properties. Ok (map (\<lambda>(key, p). (key, default_value p)) properties))"

definition allocate_registered :: "'s ClassRegistry \<Rightarrow> (PropertyKey \<Rightarrow> 's ObjectResult) \<Rightarrow> 's ObjectStore \<Rightarrow> ClassId \<Rightarrow>
    ('s ObjectStore \<times> ObjectRef) ObjectResult" where
  "allocate_registered reg = allocate_with (semantics reg) (registry_slots reg)"

lemma collect_slots_keys:
  assumes "collect_slots f xs = Ok slots" and "\<And>x key v. x \<in> set xs \<Longrightarrow> f x = Ok (key, v) \<Longrightarrow> key = fst x"
  shows "dom (bt_get slots) = fst ` set xs"
proof -
  have "dom (bt_get slots) = dom (bt_get acc) \<union> fst ` set xs"
    if "fold_result (\<lambda>slots x. and_then (f x) (\<lambda>(key, v). Ok (bt_insert key v slots))) acc xs = Ok slots" for acc
    using that assms(2)
  proof (induction xs arbitrary: acc)
    case (Cons x xs)
    from Cons.prems(1) obtain key v where step: "f x = Ok (key, v)"
        and rest: "fold_result (\<lambda>slots x. and_then (f x) (\<lambda>(key, v). Ok (bt_insert key v slots))) (bt_insert key v acc) xs = Ok slots"
      by (auto simp: result_simps)
    from Cons.prems(2) [OF _ step] have "key = fst x" by simp
    with Cons.IH [OF rest Cons.prems(2)] show ?case by (simp add: bt.dom_insert)
  qed simp
  from this [of "[]"] assms(1) show ?thesis by (simp add: collect_slots_def)
qed

lemma local_slots_keys: "fst ` set (local_slots j c) = {PropertyKey j (property_name p) | p. p \<in> set (class_properties c) \<and> property_kind p = Stored}"
  by (auto simp: local_slots_def image_image)

lemma stored_properties_keys:
  assumes "stored_properties reg i = Ok properties"
  shows "fst ` set properties = {PropertyKey j (property_name p) | j p.
     j \<in> ancestors reg i \<and> p \<in> declared_in reg class_properties j \<and> property_kind p = Stored}"
proof -
  let ?step = "\<lambda>properties j. and_then (class_at reg j) (\<lambda>c. Ok (properties @ local_slots j c))"
  let ?keys = "\<lambda>js. {PropertyKey j (property_name p) | j p. j \<in> js \<and> p \<in> declared_in reg class_properties j \<and> property_kind p = Stored}"
  from assms obtain ns where ns: "ancestry_postorder reg i = Ok ns" "fold_result ?step [] ns = Ok properties"
    by (auto simp: stored_properties_def result_simps)
  have "fst ` set properties = fst ` set acc \<union> ?keys (set ns)" if "fold_result ?step acc ns = Ok properties" for acc
    using that
  proof (induction ns arbitrary: acc)
    case (Cons j ns)
    from Cons.prems obtain c where c: "bt_get (reg_classes reg) j = Some c" by (auto simp: class_at_def result_simps)
    with Cons.prems have "fold_result ?step (acc @ local_slots j c) ns = Ok properties" by (simp add: class_at_def)
    from Cons.IH [OF this] have "fst ` set properties = fst ` set acc \<union> fst ` set (local_slots j c) \<union> ?keys (set ns)" by auto
    moreover have "p \<in> declared_in reg class_properties j \<longleftrightarrow> p \<in> set (class_properties c)" for p by (simp add: declared_in_def c)
    ultimately show ?case unfolding local_slots_keys by (simp only: list.set) blast
  qed simp
  from this [OF ns(2)] ancestry_exact(2) [OF ns(1)] show ?thesis by simp
qed

lemma lookup_propertyD:
  assumes "lookup_property reg i n context = Ok (j, p)"
  shows "j \<in> ancestors reg i" and "p \<in> declared_in reg class_properties j" and "property_name p = n"
  using assms
  by (auto simp: lookup_property_def caller_property_def class_at_def declared_in_def result_simps
      split: option.splits if_splits dest!: first_declaring_member ancestry_exact(1) local_property_declared is_subclass_ofD)

lemma resolved_storedD:
  assumes "resolve_property reg i n operation ctx = Ok (ResolvedStored key p)"
  shows "\<exists>j. lookup_property reg i n ctx = Ok (j, p) \<and> key = PropertyKey j n \<and> property_kind p = Stored"
proof -
  from assms obtain j q where found: "lookup_property reg i n ctx = Ok (j, q)"
    by (cases "lookup_property reg i n ctx") (auto simp: resolve_property_def)
  with assms show ?thesis
    by (cases "property_kind q") (auto simp: resolve_property_def Let_def result_simps)
qed

subsection \<open>Properties\<close>

text \<open>
  On a registry that arises from registrations both walks from a registered class return, visit
  exactly its ancestors and each once; the one starts with the class itself, the other lists every
  class behind all of its superclasses.
\<close>
lemma walks_exact:
  assumes "registered reg" and "bt_get (reg_classes reg) i \<noteq> None"
  shows "\<exists>pre post. ancestry_preorder reg i = Ok pre \<and> ancestry_postorder reg i = Ok post \<and>
     distinct pre \<and> set pre = ancestors reg i \<and> pre \<noteq> [] \<and> hd pre = i \<and>
     distinct post \<and> set post = ancestors reg i \<and> superclasses_first reg post"
proof -
  note ok = registered_ok [OF assms(1)]
  from ancestry_Ok [OF ok assms(2)] obtain pre post where walks: "ancestry_preorder reg i = Ok pre" "ancestry_postorder reg i = Ok post" by blast
  from walks ancestry_exact(1) [OF walks(1)] ancestry_exact(2) [OF walks(2)] preorder_head [OF walks(1)]
    postorder_superclasses_first [OF walks(2) ok]
  show ?thesis by blast
qed

text \<open>
  C8: The effective methods of a class are the methods that dispatch selects: the list holds one entry
  for each name a method of the class or of an ancestor has, and the entry of a name is the method,
  with its declaring class, that a call of this name selects. The indexing of the two auxiliary maps
  never panics.
\<close>
lemma effective_methods_dispatch:
  assumes "registered reg" and "bt_get (reg_classes reg) i \<noteq> None"
  shows "\<exists>members. effective_methods reg i = Some (Ok members) \<and> distinct (map (method_name \<circ> snd) members) \<and>
     (\<forall>n j m. (j, m) \<in> set members \<and> method_name m = n \<longleftrightarrow>
        select_method reg i n = Ok \<lparr>receiver_class = i, method_declaring = j, method_descriptor = m\<rparr>)"
proof -
  note ok = registered_ok [OF assms(1)]
  have "distinctly_declared reg class_methods method_name" using ok by (simp add: distinctly_declared_def registry_ok_def class_ok_def)
  from effective_members_first [OF ok assms(2) this] obtain order members where
      order: "ancestry_preorder reg i = Ok order" and members: "effective_members class_methods method_name reg i = Some (Ok members)"
        "distinct (map (method_name \<circ> snd) members)"
      and first: "\<And>n. first_declaring reg (\<lambda>c. List.find (\<lambda>x. method_name x = n) (class_methods c)) order =
        Ok (found_first reg class_methods method_name order n)"
      and found: "\<And>n j x. found_first reg class_methods method_name order n = Some (j, x) \<longleftrightarrow> (j, x) \<in> set members \<and> method_name x = n"
    by blast
  have "select_method reg i n = Ok \<lparr>receiver_class = i, method_declaring = j, method_descriptor = m\<rparr> \<longleftrightarrow>
      found_first reg class_methods method_name order n = Some (j, m)" for n j m
    by (auto simp: select_method_def order local_method_def [abs_def] first split: option.split)
  with members found show ?thesis by (auto simp: effective_methods_def)
qed

text \<open>
  C13: A method that resolves is the one dispatch selects, has the expected kind and an implementation,
  and its access was granted to the caller: it is public, or private and the caller is the class that
  declares it, or protected and the caller descends from such a class; the class the access was
  checked against is the declaring class or an ancestor with a method of this name and access.
\<close>
lemma resolved_method_granted:
  assumes "resolve_method reg i n kind context = Ok sel"
  shows "select_method reg i n = Ok sel \<and> receiver_class sel = i \<and> method_declaring sel \<in> ancestors reg i \<and>
     method_name (method_descriptor sel) = n \<and> method_kind (method_descriptor sel) = kind \<and> \<not> method_abstract (method_descriptor sel) \<and>
     (\<exists>owner\<in>ancestors reg i. \<exists>m\<in>declared_in reg class_methods owner. method_name m = n \<and>
        method_access m = method_access (method_descriptor sel) \<and> granted reg owner (method_access m) context)"
proof -
  from assms obtain owner where sel: "select_method reg i n = Ok sel" "method_kind (method_descriptor sel) = kind"
        "\<not> method_abstract (method_descriptor sel)"
      and owner: "method_access_declaring_class reg i n (method_declaring sel) (method_access (method_descriptor sel))
        (method_kind (method_descriptor sel)) = Ok owner"
      and access: "check_access reg owner (method_access (method_descriptor sel)) context n = Ok ()"
    by (auto simp: resolve_method_def resolve_method_any_def Let_def result_simps split: if_splits)
  note chosen = select_methodD [OF sel(1)]
  from access_owner [OF owner] chosen have "\<exists>m\<in>declared_in reg class_methods owner. method_name m = n \<and>
      method_access m = method_access (method_descriptor sel)" and "owner \<in> ancestors reg i" by auto
  with check_access_granted [OF access] chosen sel show ?thesis by fastforce
qed

text \<open>
  Every object allocated for a registered class has exactly the slots of the stored properties of
  the class and its ancestors, and a property that resolves to a stored slot, for whatever caller and
  operation, has its slot in the object.
\<close>
lemma resolved_slots_exist:
  assumes "allocate_registered reg implicit st i = Ok (st', ref)"
  shows "\<exists>r. bt_get (objects st') (ref_id ref) = Some r \<and> rec_class r = i \<and> rec_state r = Allocated \<and>
     dom (bt_get (rec_slots r)) = {PropertyKey j (property_name p) | j p.
       j \<in> ancestors reg i \<and> p \<in> declared_in reg class_properties j \<and> property_kind p = Stored} \<and>
     (\<forall>n operation context key p.
        resolve_property reg i n operation context = Ok (ResolvedStored key p) \<longrightarrow> bt_get (rec_slots r) key \<noteq> None)"
proof -
  let ?slot = "\<lambda>(key, default_value). case default_value of Some v \<Rightarrow> Ok (key, v) | None \<Rightarrow> and_then (implicit key) (\<lambda>v. Ok (key, v))"
  from assms obtain properties slots sem nxt where props: "stored_properties reg i = Ok properties"
      and slots: "collect_slots ?slot (map (\<lambda>(key, p). (key, default_value p)) properties) = Ok slots"
      and made: "st' = insert_record (ref_id ref) nxt \<lparr>rec_class = i, rec_semantics = sem, rec_state = Allocated,
          rec_handle_state = Alive, rec_slots = slots\<rparr> st"
    by (auto simp: allocate_registered_def allocate_with_def registry_slots_def result_simps)
  let ?r = "\<lparr>rec_class = i, rec_semantics = sem, rec_state = Allocated, rec_handle_state = Alive, rec_slots = slots\<rparr>"
  have "dom (bt_get slots) = fst ` set (map (\<lambda>(key, p). (key, default_value p)) properties)"
    by (rule collect_slots_keys [OF slots]) (auto simp: result_simps split: option.splits)
  also have "\<dots> = fst ` set properties" by (force simp: image_image)
  finally have keys: "dom (bt_get slots) = {PropertyKey j (property_name p) | j p.
      j \<in> ancestors reg i \<and> p \<in> declared_in reg class_properties j \<and> property_kind p = Stored}"
    using stored_properties_keys [OF props] by simp
  have "key \<in> dom (bt_get slots)" if "resolve_property reg i n operation ctx = Ok (ResolvedStored key p)" for n operation ctx key p
  proof -
    from that obtain j where "lookup_property reg i n ctx = Ok (j, p)" "key = PropertyKey j n" "property_kind p = Stored"
      using resolved_storedD by blast
    with lookup_propertyD [of reg i n ctx j p] show ?thesis unfolding keys by auto
  qed
  moreover have "bt_get (objects st') (ref_id ref) = Some ?r"
    by (simp add: made insert_record_def record_allocation_def Let_def bt_insert_get)
  ultimately show ?thesis using keys by (intro exI [of _ ?r]) auto
qed

subsection \<open>The properties at the sample registry\<close>

lemma sample_leaf_known: "bt_get (reg_classes sample_registry) 1 \<noteq> None"
  by code_simp

lemma walks_exact_witness:
  "registered sample_registry \<and> bt_get (reg_classes sample_registry) 1 \<noteq> None \<and>
   ancestry_preorder sample_registry 1 = Ok [1, 2] \<and> ancestry_postorder sample_registry 1 = Ok [2, 1] \<and>
   ancestors sample_registry 1 = {1, 2} \<and> superclasses_first sample_registry [2, 1]"
proof -
  have "ancestry_preorder sample_registry 1 = Ok [1, 2]" "ancestry_postorder sample_registry 1 = Ok [2, 1]" by code_simp+
  with walks_exact [OF registered_sample sample_leaf_known] registered_sample sample_leaf_known show ?thesis by auto
qed

lemma effective_methods_dispatch_witness:
  "registered sample_registry \<and> bt_get (reg_classes sample_registry) 1 \<noteq> None \<and>
   (\<exists>members. effective_methods sample_registry 1 = Some (Ok members) \<and> map fst members = [1, 2]) \<and>
   select_method sample_registry 1 ''run'' =
     Ok \<lparr>receiver_class = 1, method_declaring = 1, method_descriptor = instance_method ''run''\<rparr>"
proof -
  have views: "effective_methods sample_registry 1 = Some (Ok [(1, instance_method ''run''), (2, (instance_method ''stop'')\<lparr>method_access := Protected\<rparr>)])"
    by code_simp
  from effective_methods_dispatch [OF registered_sample sample_leaf_known] obtain members where
      members: "effective_methods sample_registry 1 = Some (Ok members)"
      and agree: "\<forall>n j m. (j, m) \<in> set members \<and> method_name m = n \<longleftrightarrow>
        select_method sample_registry 1 n = Ok \<lparr>receiver_class = 1, method_declaring = j, method_descriptor = m\<rparr>" by blast
  from members views have "(1, instance_method ''run'') \<in> set members \<and> method_name (instance_method ''run'') = ''run''"
    by (simp add: instance_method_def)
  with agree have "select_method sample_registry 1 ''run'' =
      Ok \<lparr>receiver_class = 1, method_declaring = 1, method_descriptor = instance_method ''run''\<rparr>" by blast
  with views registered_sample sample_leaf_known show ?thesis by simp
qed

lemma resolved_method_granted_witness:
  "\<exists>sel. resolve_method sample_registry 1 ''stop'' Instance (Some 1) = Ok sel \<and> method_declaring sel = 2 \<and>
     method_declaring sel \<in> ancestors sample_registry 1 \<and>
     resolve_method sample_registry 1 ''stop'' Instance None = Err (AccessDenied ''stop'' 2 Protected None)"
proof -
  have selected: "resolve_method sample_registry 1 ''stop'' Instance (Some 1) =
      Ok \<lparr>receiver_class = 1, method_declaring = 2, method_descriptor = (instance_method ''stop'')\<lparr>method_access := Protected\<rparr>\<rparr>"
    by code_simp
  have "resolve_method sample_registry 1 ''stop'' Instance None = Err (AccessDenied ''stop'' 2 Protected None)" by code_simp
  with selected resolved_method_granted [OF selected] show ?thesis by simp
qed

lemma resolved_slots_exist_witness:
  "\<exists>st ref. allocate_registered sample_registry (\<lambda>_. Ok 0) store_new 1 = Ok (st, ref) \<and>
     resolve_property sample_registry 1 ''left'' Get None = Ok (ResolvedStored (PropertyKey 2 ''left'') (stored ''left'' (Some 7))) \<and>
     (\<exists>r. bt_get (objects st) (ref_id ref) = Some r \<and> bt_get (rec_slots r) (PropertyKey 2 ''left'') \<noteq> None)"
proof -
  have left: "resolve_property sample_registry 1 ''left'' Get None = Ok (ResolvedStored (PropertyKey 2 ''left'') (stored ''left'' (Some 7)))"
    by code_simp
  have "case allocate_registered sample_registry (\<lambda>_. Ok 0) store_new 1 of Inl _ \<Rightarrow> False | Inr _ \<Rightarrow> True" by code_simp
  then obtain pair where "allocate_registered sample_registry (\<lambda>_. Ok 0) store_new 1 = Ok pair"
    by (cases "allocate_registered sample_registry (\<lambda>_. Ok 0) store_new 1") simp_all
  then obtain st ref where made: "allocate_registered sample_registry (\<lambda>_. Ok 0) store_new 1 = Ok (st, ref)" by (cases pair) simp
  from resolved_slots_exist [OF made] obtain r where r: "bt_get (objects st) (ref_id ref) = Some r"
      and slots: "\<forall>n operation ctx key p. resolve_property sample_registry 1 n operation ctx = Ok (ResolvedStored key p) \<longrightarrow>
        bt_get (rec_slots r) key \<noteq> None" by (elim exE conjE) (rule that)
  show ?thesis by (intro exI conjI) (rule made left r slots [rule_format, OF left])+
qed

end
