(* ===== verification/Rust_Str.thy ===== *)
theory Rust_Str
  imports Rust_Std
begin

section \<open>Strings of the standard library\<close>

text \<open>
  A \<open>str\<close> is the list of its Unicode scalar values, and its bytes are their UTF-8 encodings one after
  the other. Byte offsets, character boundaries, slices and UTF-16 lengths are derived from that, as the
  documentation of \<open>str\<close> and \<open>char\<close> states them; decoding accepts exactly the encodings. Bytes are
  natural numbers below 256.
\<close>

subsection \<open>Scalar values and their encodings\<close>

type_synonym scalar = nat
type_synonym str = "scalar list"
type_synonym bytes = "nat list"

definition scalar_ok :: "scalar \<Rightarrow> bool" where
  "scalar_ok c \<longleftrightarrow> c < 55296 \<or> 57344 \<le> c \<and> c < 1114112"

definition utf8 :: "scalar \<Rightarrow> bytes" where
  "utf8 c =
     (if c < 128 then [c]
      else if c < 2048 then [192 + c div 64, 128 + c mod 64]
      else if c < 65536 then [224 + c div 4096, 128 + c div 64 mod 64, 128 + c mod 64]
      else [240 + c div 262144, 128 + c div 4096 mod 64, 128 + c div 64 mod 64, 128 + c mod 64])"

definition len_utf8 :: "scalar \<Rightarrow> nat" where
  "len_utf8 c = length (utf8 c)"

definition len_utf16 :: "scalar \<Rightarrow> nat" where
  "len_utf16 c = (if c < 65536 then 1 else 2)"

definition as_bytes :: "str \<Rightarrow> bytes" where
  "as_bytes s = concat (map utf8 s)"

definition str_len :: "str \<Rightarrow> nat" where
  "str_len s = sum_list (map len_utf8 s)"

definition utf16_count :: "str \<Rightarrow> nat" where
  "utf16_count s = sum_list (map len_utf16 s)"

text \<open>Literals of the sources, and the white space of \<open>char::is_whitespace\<close>.\<close>

definition ascii :: "string \<Rightarrow> str" where
  "ascii s = map of_char s"

definition is_whitespace :: "scalar \<Rightarrow> bool" where
  "is_whitespace c \<longleftrightarrow>
     9 \<le> c \<and> c \<le> 13 \<or> c = 32 \<or> c = 133 \<or> c = 160 \<or> c = 5760 \<or> 8192 \<le> c \<and> c \<le> 8202 \<or> c \<in> {8232, 8233, 8239, 8287, 12288}"

lemma ascii_inject [simp]: "ascii s = ascii t \<longleftrightarrow> s = t"
  by (simp add: ascii_def inj_map_eq_map inj_def)

subsection \<open>Decoding\<close>

text \<open>The scalar value the leading byte announces, with the bytes behind it; overlong forms, surrogates
  and stray bytes are no encodings.\<close>

definition decode_width :: "nat \<Rightarrow> nat" where
  "decode_width b = (if b < 128 then 1 else if b < 224 then 2 else if b < 240 then 3 else 4)"

definition decode_scalar :: "bytes \<Rightarrow> scalar" where
  "decode_scalar bs =
     (case bs of
        [a] \<Rightarrow> a
      | [a, b] \<Rightarrow> (a - 192) * 64 + (b - 128)
      | [a, b, c] \<Rightarrow> (a - 224) * 4096 + (b - 128) * 64 + (c - 128)
      | [a, b, c, d] \<Rightarrow> (a - 240) * 262144 + (b - 128) * 4096 + (c - 128) * 64 + (d - 128)
      | _ \<Rightarrow> 0)"

function from_utf8 :: "bytes \<Rightarrow> str option" where
  "from_utf8 bs =
     (if bs = [] then Some []
      else
        (let n = decode_width (hd bs); c = decode_scalar (take n bs) in
         if scalar_ok c \<and> utf8 c = take n bs then map_option ((#) c) (from_utf8 (drop n bs)) else None))"
  by pat_completeness auto
termination
  by (relation "measure length") (auto simp: decode_width_def)

declare from_utf8.simps [simp del]

lemma from_utf8_Nil [simp]: "from_utf8 [] = Some []"
  by (simp add: from_utf8.simps)

lemma utf8_not_Nil [simp]: "utf8 c \<noteq> []"
  by (simp add: utf8_def)

lemma len_utf8_pos [simp]: "0 < len_utf8 c"
  by (simp add: len_utf8_def)

lemma decode_utf8:
  assumes "scalar_ok c"
  shows "decode_width (hd (utf8 c)) = length (utf8 c)" and "decode_scalar (utf8 c) = c"
proof -
  from assms have c: "c < 1114112" by (auto simp: scalar_ok_def)
  show "decode_width (hd (utf8 c)) = length (utf8 c)"
    using c by (auto simp: utf8_def decode_width_def less_mult_imp_div_less)
  have "c = (c div 4096 * 64 + c div 64 mod 64) * 64 + c mod 64" "c div 4096 = c div 262144 * 64 + c div 4096 mod 64"
    using div_mod_decomp [of c 64] div_mod_decomp [of "c div 64" 64] div_mod_decomp [of "c div 4096" 64] by (simp_all flip: div_mult2_eq)
  then show "decode_scalar (utf8 c) = c"
    by (auto simp: utf8_def decode_scalar_def)
qed

lemma from_utf8_as_bytes: "\<forall>c\<in>set s. scalar_ok c \<Longrightarrow> from_utf8 (as_bytes s) = Some s"
proof (induction s)
  case (Cons c s)
  then have ok: "scalar_ok c" by simp
  have "as_bytes (c # s) = utf8 c @ as_bytes s" by (simp add: as_bytes_def)
  moreover have "hd (utf8 c @ as_bytes s) = hd (utf8 c)" by simp
  ultimately show ?case
    using Cons decode_utf8 [OF ok] by (subst from_utf8.simps) (simp add: Let_def)
qed (simp add: as_bytes_def)

lemma from_utf8_Some: "from_utf8 bs = Some s \<Longrightarrow> as_bytes s = bs"
proof (induction bs arbitrary: s rule: from_utf8.induct)
  case (1 bs)
  show ?case
  proof (cases "bs = []")
    case False
    let ?n = "decode_width (hd bs)"
    from 1(2) False obtain t where "utf8 (decode_scalar (take ?n bs)) = take ?n bs" "from_utf8 (drop ?n bs) = Some t"
        "s = decode_scalar (take ?n bs) # t" "scalar_ok (decode_scalar (take ?n bs))"
      by (subst (asm) from_utf8.simps) (auto simp: Let_def split: if_splits)
    with 1(1) [OF False refl refl] show ?thesis by (simp add: as_bytes_def)
  qed (use 1(2) in \<open>simp add: as_bytes_def\<close>)
qed

lemma as_bytes_append [simp]: "as_bytes (s @ t) = as_bytes s @ as_bytes t"
  by (simp add: as_bytes_def)

lemma length_as_bytes [simp]: "length (as_bytes s) = str_len s"
  by (induction s) (simp_all add: as_bytes_def str_len_def len_utf8_def)

lemma str_len_simps [simp]: "str_len [] = 0" "str_len (c # s) = len_utf8 c + str_len s" "str_len (s @ t) = str_len s + str_len t"
  by (simp_all add: str_len_def)

lemma utf16_count_simps [simp]:
  "utf16_count [] = 0" "utf16_count (c # s) = len_utf16 c + utf16_count s" "utf16_count (s @ t) = utf16_count s + utf16_count t"
  by (simp_all add: utf16_count_def)

lemma str_len_eq_0 [simp]: "str_len s = 0 \<longleftrightarrow> s = []"
  by (cases s) (simp_all add: add_pos_nonneg)

subsection \<open>Boundaries and slices\<close>

fun is_char_boundary :: "str \<Rightarrow> nat \<Rightarrow> bool" where
  "is_char_boundary [] i \<longleftrightarrow> i = 0"
| "is_char_boundary (c # s) i \<longleftrightarrow> i = 0 \<or> len_utf8 c \<le> i \<and> is_char_boundary s (i - len_utf8 c)"

text \<open>The scalar values in front of a byte offset and behind it.\<close>

fun str_split :: "str \<Rightarrow> nat \<Rightarrow> str \<times> str" where
  "str_split [] i = ([], [])"
| "str_split (c # s) i = (if i < len_utf8 c then ([], c # s) else (let (a, b) = str_split s (i - len_utf8 c) in (c # a, b)))"

definition str_get :: "str \<Rightarrow> nat \<Rightarrow> nat \<Rightarrow> str option" where
  "str_get s i j =
     (if i \<le> j \<and> is_char_boundary s i \<and> is_char_boundary s j
      then Some (fst (str_split (snd (str_split s i)) (j - i))) else None)"

lemma is_char_boundary_iff: "is_char_boundary s i \<longleftrightarrow> (\<exists>a b. s = a @ b \<and> i = str_len a)"
proof (induction s i rule: is_char_boundary.induct)
  case (2 c s i)
  show ?case
  proof (cases "i = 0")
    case True
    then show ?thesis by auto
  next
    case False
    have "(\<exists>a b. c # s = a @ b \<and> i = str_len a) \<longleftrightarrow> (\<exists>a b. s = a @ b \<and> i = len_utf8 c + str_len a)"
    proof
      assume "\<exists>a b. c # s = a @ b \<and> i = str_len a"
      with False show "\<exists>a b. s = a @ b \<and> i = len_utf8 c + str_len a" by (auto simp: Cons_eq_append_conv)
    next
      assume "\<exists>a b. s = a @ b \<and> i = len_utf8 c + str_len a"
      then obtain a b where "c # s = (c # a) @ b" "i = str_len (c # a)" by auto
      then show "\<exists>a b. c # s = a @ b \<and> i = str_len a" by blast
    qed
    also have "\<dots> \<longleftrightarrow> len_utf8 c \<le> i \<and> (\<exists>a b. s = a @ b \<and> i - len_utf8 c = str_len a)" by auto
    finally show ?thesis using 2 False by auto
  qed
qed auto

lemma is_char_boundary_le: "is_char_boundary s i \<Longrightarrow> i \<le> str_len s"
  by (auto simp: is_char_boundary_iff)

lemma is_char_boundary_ends [simp]: "is_char_boundary s 0" "is_char_boundary s (str_len s)"
  by (auto simp: is_char_boundary_iff)

lemma str_split_append [simp]: "str_split (a @ b) (str_len a) = (a, b)"
proof (induction a)
  case Nil
  show ?case by (cases b) simp_all
qed simp

lemma str_get_append [simp]: "str_get (a @ b @ c) (str_len a) (str_len a + str_len b) = Some b"
proof -
  have "is_char_boundary (a @ b @ c) (str_len a)"
    unfolding is_char_boundary_iff by (intro exI [of _ a] exI [of _ "b @ c"]) simp
  moreover have "is_char_boundary (a @ b @ c) (str_len a + str_len b)"
    unfolding is_char_boundary_iff by (rule exI [of _ "a @ b"], rule exI [of _ c]) simp
  ultimately show ?thesis by (simp add: str_get_def)
qed

lemma str_get_Some:
  assumes "is_char_boundary s i" and "is_char_boundary s j" and "i \<le> j"
  shows "\<exists>a b c. s = a @ b @ c \<and> i = str_len a \<and> j = str_len a + str_len b \<and> str_get s i j = Some b"
proof -
  from assms(1) obtain a r where a: "s = a @ r" "i = str_len a" unfolding is_char_boundary_iff by blast
  from assms(2) obtain a' c where "s = a' @ c" "j = str_len a'" unfolding is_char_boundary_iff by blast
  note s = a this
  then consider u where "a = a' @ u" "u @ r = c" | u where "a' = a @ u" "r = u @ c" by (auto simp: append_eq_append_conv2)
  then obtain b where "a' = a @ b" "r = b @ c"
  proof cases
    case (1 u)
    with s assms(3) have "u = []" by simp
    with 1 that [of "[]"] show ?thesis by simp
  qed (use that in blast)
  with s show ?thesis by (intro exI [of _ a] exI [of _ b] exI [of _ c]) simp
qed

text \<open>A byte that encodes an ASCII scalar is the whole encoding of one.\<close>

lemma utf8_ascii_byte: "b \<in> set (utf8 c) \<Longrightarrow> b < 128 \<Longrightarrow> utf8 c = [b] \<and> c = b"
  by (auto simp: utf8_def split: if_splits)

lemma ascii_byte_boundary:
  assumes "as_bytes s ! i = b" and "i < str_len s" and "b < 128"
  shows "\<exists>p q. s = p @ b # q \<and> i = str_len p"
  using assms
proof (induction s arbitrary: i)
  case (Cons c s)
  show ?case
  proof (cases "i < len_utf8 c")
    case True
    then have "b \<in> set (utf8 c)" using Cons.prems(1) by (auto simp: as_bytes_def len_utf8_def nth_append)
    from utf8_ascii_byte [OF this Cons.prems(3)] have "utf8 c = [b]" "c = b" by auto
    moreover from this True have "i = 0" by (simp add: len_utf8_def)
    ultimately show ?thesis by (intro exI [of _ "[]"] exI [of _ s]) simp
  next
    case False
    then have "as_bytes s ! (i - len_utf8 c) = b" using Cons.prems(1) by (simp add: as_bytes_def len_utf8_def nth_append)
    moreover have "i - len_utf8 c < str_len s" using Cons.prems(2) False by simp
    ultimately obtain p q where "s = p @ b # q" "i - len_utf8 c = str_len p" using Cons.IH Cons.prems(3) by blast
    with False show ?thesis by (intro exI [of _ "c # p"] exI [of _ q]) simp
  qed
qed simp

lemma nth_as_bytes: "i < len_utf8 c \<Longrightarrow> as_bytes (p @ c # s) ! (str_len p + i) = utf8 c ! i"
  unfolding as_bytes_append nth_append length_as_bytes
  by (simp add: as_bytes_def nth_append len_utf8_def)

lemma nth_utf8_ascii: "i < len_utf8 c \<Longrightarrow> b < 128 \<Longrightarrow> utf8 c ! i = b \<Longrightarrow> c = b"
  using utf8_ascii_byte [of b c] by (metis len_utf8_def nth_mem)

lemma nth_as_bytes_ascii:
  assumes "b < 128"
  shows "as_bytes (p @ c # s) ! str_len p = b \<longleftrightarrow> c = b"
  using nth_as_bytes [of 0 c p s] nth_utf8_ascii [of 0 c b] assms by (auto simp: utf8_def)

end
