(* ===== verification/Lsp_Document.thy ===== *)
theory Lsp_Document
  imports Rust_Str
begin

section \<open>Byte offsets and editor positions (openmat-lsp/src/document.rs, \<open>LineIndex\<close>)\<close>

text \<open>
  The index of the lines of a text and the two conversions between byte offsets and the zero-based
  UTF-16 positions of the protocol. The reference is a scan over the scalar values that counts line
  breaks and the UTF-16 units behind the last one; the index, which works on bytes, agrees with it.
  Offsets and positions are natural numbers; \<open>u32\<close> conversions saturate where the code says so.
\<close>

record Position =
  line :: nat
  character :: nat

record Line =
  line_start :: nat
  content_end :: nat

subsection \<open>The index and the conversions\<close>

text \<open>The width of the line break at a byte, nothing where there is none.\<close>

definition break_width :: "bytes \<Rightarrow> nat \<Rightarrow> nat option" where
  "break_width bs cursor =
     (if bs ! cursor = 13 \<and> Suc cursor < length bs \<and> bs ! Suc cursor = 10 then Some 2
      else if bs ! cursor = 13 \<or> bs ! cursor = 10 then Some 1
      else None)"

function index_lines :: "bytes \<Rightarrow> nat \<Rightarrow> nat \<Rightarrow> Line list" where
  "index_lines bs start cursor =
     (if cursor < length bs
      then (case break_width bs cursor of
              None \<Rightarrow> index_lines bs start (cursor + 1)
            | Some w \<Rightarrow> \<lparr>line_start = start, content_end = cursor\<rparr> # index_lines bs (cursor + w) (cursor + w))
      else [\<lparr>line_start = start, content_end = length bs\<rparr>])"
  by pat_completeness auto
termination
  by (relation "measure (\<lambda>(bs, start, cursor). length bs - cursor)")
     (auto simp: break_width_def split: if_splits)

declare index_lines.simps [simp del]

definition LineIndex_new :: "str \<Rightarrow> Line list" where
  "LineIndex_new text = index_lines (as_bytes text) 0 0"

text \<open>The walk back to a character boundary.\<close>

fun back_to_boundary :: "str \<Rightarrow> nat \<Rightarrow> nat \<Rightarrow> nat" where
  "back_to_boundary text start 0 = 0"
| "back_to_boundary text start (Suc n) =
     (if start < Suc n \<and> \<not> is_char_boundary text (Suc n) then back_to_boundary text start n else Suc n)"

definition byte_to_position :: "Line list \<Rightarrow> str \<Rightarrow> nat \<Rightarrow> Position" where
  "byte_to_position lines text offset0 =
     (let offset = min offset0 (str_len text);
          line_index = partition_point (\<lambda>l. line_start l \<le> offset) lines - 1;
          l = (if line_index < length lines then lines ! line_index else \<lparr>line_start = 0, content_end = 0\<rparr>);
          character_end = back_to_boundary text (line_start l) (min offset (content_end l));
          utf16_units = (case str_get text (line_start l) character_end of None \<Rightarrow> 0 | Some s \<Rightarrow> utf16_count s)
      in \<lparr>line = min u32_max line_index, character = min u32_max utf16_units\<rparr>)"

text \<open>The walk over the scalar values of a line until the requested UTF-16 unit is reached.\<close>

fun unit_offset :: "nat \<Rightarrow> nat \<Rightarrow> nat \<Rightarrow> str \<Rightarrow> nat option" where
  "unit_offset requested units relative [] = None"
| "unit_offset requested units relative (c # s) =
     (if requested \<le> units then Some relative
      else if requested < units + len_utf16 c then Some relative
      else unit_offset requested (units + len_utf16 c) (relative + len_utf8 c) s)"

definition position_to_byte :: "Line list \<Rightarrow> str \<Rightarrow> Position \<Rightarrow> nat option" where
  "position_to_byte lines text p =
     (if line p < length lines
      then (let l = lines ! line p in
            case str_get text (line_start l) (content_end l) of
              None \<Rightarrow> None
            | Some line_text \<Rightarrow>
                Some (case unit_offset (character p) 0 0 line_text of
                        Some relative \<Rightarrow> line_start l + relative
                      | None \<Rightarrow> content_end l))
      else None)"

subsection \<open>The reference: a scan over the scalar values\<close>

text \<open>The line breaks of a text, and the text behind the last of them.\<close>

fun line_scan :: "nat \<Rightarrow> str \<Rightarrow> str \<Rightarrow> nat \<times> str" where
  "line_scan n acc [] = (n, acc)"
| "line_scan n acc (c # s) =
     (if c = 13 \<and> s \<noteq> [] \<and> hd s = 10 then line_scan n acc s
      else if c = 13 \<or> c = 10 then line_scan (Suc n) [] s
      else line_scan n (acc @ [c]) s)"

definition splits_break :: "str \<Rightarrow> str \<Rightarrow> bool" where
  "splits_break a b \<longleftrightarrow> a \<noteq> [] \<and> last a = 13 \<and> b \<noteq> [] \<and> hd b = 10"

text \<open>The scalar values an editor can address up to a byte offset: never half a scalar value, and never a
  carriage return without the line feed behind it.\<close>

definition addressable :: "str \<Rightarrow> nat \<Rightarrow> str" where
  "addressable text offset = (let (a, b) = str_split text offset in if splits_break a b then butlast a else a)"

text \<open>The index as the scan over scalar values sees it.\<close>

fun scalar_lines :: "nat \<Rightarrow> nat \<Rightarrow> str \<Rightarrow> Line list" where
  "scalar_lines start cursor [] = [\<lparr>line_start = start, content_end = cursor\<rparr>]"
| "scalar_lines start cursor (c # s) =
     (if c = 13 \<and> s \<noteq> [] \<and> hd s = 10
      then \<lparr>line_start = start, content_end = cursor\<rparr> # scalar_lines (cursor + 2) (cursor + 2) (tl s)
      else if c = 13 \<or> c = 10
      then \<lparr>line_start = start, content_end = cursor\<rparr> # scalar_lines (cursor + 1) (cursor + 1) s
      else scalar_lines start (cursor + len_utf8 c) s)"

subsection \<open>The index on bytes is the index on scalar values\<close>

lemma index_lines_skip:
  assumes "\<forall>i < k. bs ! (cursor + i) \<noteq> 10 \<and> bs ! (cursor + i) \<noteq> 13" and "cursor + k \<le> length bs"
  shows "index_lines bs start cursor = index_lines bs start (cursor + k)"
  using assms
proof (induction k)
  case (Suc k)
  then have "break_width bs (cursor + k) = None" by (auto simp: break_width_def)
  with Suc.prems(2) have "index_lines bs start (cursor + k) = index_lines bs start (cursor + k + 1)"
    by (subst index_lines.simps) simp
  with Suc show ?case by simp
qed simp

lemma break_width_at:
  "break_width (as_bytes (p @ c # s)) (str_len p) =
     (if c = 13 \<and> s \<noteq> [] \<and> hd s = 10 then Some 2 else if c = 13 \<or> c = 10 then Some 1 else None)"
proof (cases "c = 13")
  case True
  have "Suc (str_len p) < length (as_bytes (p @ c # s)) \<longleftrightarrow> s \<noteq> []"
    using True by (cases s) (auto simp: len_utf8_def utf8_def)
  moreover have "as_bytes (p @ c # s) ! Suc (str_len p) = 10 \<longleftrightarrow> hd s = 10" if "s \<noteq> []"
    using that nth_as_bytes_ascii [of 10 "p @ [c]" "hd s" "tl s"] True by (simp add: len_utf8_def utf8_def)
  ultimately show ?thesis using True nth_as_bytes_ascii [of 13 p c s] by (auto simp: break_width_def)
next
  case False
  then show ?thesis
    using nth_as_bytes_ascii [of 13 p c s] nth_as_bytes_ascii [of 10 p c s] by (auto simp: break_width_def)
qed

lemma index_lines_scalar: "index_lines (as_bytes (p @ s)) start (str_len p) = scalar_lines start (str_len p) s"
proof (induction start "str_len p" s arbitrary: p rule: scalar_lines.induct)
  case (1 start)
  show ?case by (subst index_lines.simps) simp
next
  case (2 start c s)
  let ?bs = "as_bytes (p @ c # s)"
  have inside: "str_len p < length ?bs" by simp
  consider (crlf) t where "c = 13" "s = 10 # t" | (single) "c = 13 \<or> c = 10" "\<not> (c = 13 \<and> s \<noteq> [] \<and> hd s = 10)"
    | (other) "c \<noteq> 13" "c \<noteq> 10" by (metis list.collapse)
  then show ?case
  proof cases
    case crlf
    then have "?bs = as_bytes ((p @ [13, 10]) @ t)" "str_len p + 2 = str_len (p @ [13, 10])"
      by (simp_all add: len_utf8_def utf8_def)
    with 2(1) [of "p @ [13, 10]"] crlf inside show ?thesis
      by (subst index_lines.simps) (simp add: break_width_at del: as_bytes_append)
  next
    case single
    have len: "len_utf8 c = Suc 0" using single(1) by (auto simp: len_utf8_def utf8_def)
    then have bs: "?bs = as_bytes ((p @ [c]) @ s)" and p: "str_len p + 1 = str_len (p @ [c])" by simp_all
    have IH: "index_lines ?bs (str_len p + 1) (str_len p + 1) = scalar_lines (str_len p + 1) (str_len p + 1) s"
      unfolding bs using 2(2) [OF single(2,1) p] len by simp
    have w: "break_width ?bs (str_len p) = Some 1" using single unfolding break_width_at by auto
    have "index_lines ?bs start (str_len p) =
        \<lparr>line_start = start, content_end = str_len p\<rparr> # index_lines ?bs (str_len p + 1) (str_len p + 1)"
      using w inside by (subst index_lines.simps) (simp del: as_bytes_append)
    moreover have "scalar_lines start (str_len p) (c # s) =
        \<lparr>line_start = start, content_end = str_len p\<rparr> # scalar_lines (str_len p + 1) (str_len p + 1) s"
      using single by auto
    ultimately show ?thesis using IH by (simp only:)
  next
    case other
    have "\<forall>i < len_utf8 c. ?bs ! (str_len p + i) \<noteq> 10 \<and> ?bs ! (str_len p + i) \<noteq> 13"
      using other nth_utf8_ascii [of _ c 10] nth_utf8_ascii [of _ c 13] by (auto simp: nth_as_bytes simp del: as_bytes_append)
    from index_lines_skip [OF this] have "index_lines ?bs start (str_len p) = index_lines ?bs start (str_len (p @ [c]))"
      by simp
    also have "\<dots> = scalar_lines start (str_len (p @ [c])) s" using 2(3) [of "p @ [c]"] other by simp
    finally show ?thesis using other by simp
  qed
qed

lemma LineIndex_new_scalar: "LineIndex_new text = scalar_lines 0 0 text"
  using index_lines_scalar [of "[]" "text" 0] by (simp add: LineIndex_new_def)

subsection \<open>The line of an offset\<close>

lemma scalar_lines_starts: "start \<le> cursor \<Longrightarrow> l \<in> set (scalar_lines start cursor s) \<Longrightarrow> start \<le> line_start l"
  by (induction start cursor s rule: scalar_lines.induct) (fastforce split: if_splits)+

definition line_rest :: "str \<Rightarrow> str" where
  "line_rest s = takeWhile (\<lambda>c. c \<noteq> 13 \<and> c \<noteq> 10) s"

definition lines_behind :: "nat \<Rightarrow> str \<Rightarrow> Line list" where
  "lines_behind cursor s = tl (scalar_lines 0 cursor s)"

lemma scalar_lines_first:
  "scalar_lines start cursor s =
     \<lparr>line_start = start, content_end = cursor + str_len (line_rest s)\<rparr> # lines_behind cursor s"
  by (induction start cursor s rule: scalar_lines.induct) (auto simp: lines_behind_def line_rest_def)

lemma tl_scalar_lines_starts: "l \<in> set (tl (scalar_lines start cursor s)) \<Longrightarrow> cursor \<le> line_start l"
  by (induction start cursor s rule: scalar_lines.induct) (auto dest: scalar_lines_starts [OF le_refl] split: if_splits)

lemma lines_behind_starts:
  "l \<in> set (lines_behind cursor (c # s)) \<Longrightarrow> cursor + len_utf8 c \<le> line_start l"
  "l \<in> set (lines_behind cursor (13 # 10 # s)) \<Longrightarrow> cursor + 2 \<le> line_start l"
  by (auto simp: lines_behind_def len_utf8_def utf8_def dest!: scalar_lines_starts [OF le_refl] tl_scalar_lines_starts split: if_splits)

lemma lines_up_to:
  assumes "\<not> splits_break a b"
  shows "\<exists>ls p. acc @ a = p @ snd (line_scan n acc a) \<and> n + length ls = fst (line_scan n acc a) \<and>
       (\<forall>l \<in> set ls. line_start l \<le> start + str_len p) \<and>
       scalar_lines start (start + str_len acc) (a @ b) =
         ls @ scalar_lines (start + str_len p) (start + str_len acc + str_len a) b"
  using assms
proof (induction start "start + str_len acc" a arbitrary: n acc rule: scalar_lines.induct)
  case (1 start)
  show ?case by (intro exI [of _ "[]"]) simp
next
  case (2 start c s)
  let ?first = "\<lparr>line_start = start, content_end = start + str_len acc\<rparr>"
  have rest: "\<not> splits_break s b" using 2(4) by (cases "s = []") (auto simp: splits_break_def)
  consider (crlf) t where "c = 13" "s = 10 # t" | (single) "c = 13 \<or> c = 10" "\<not> (c = 13 \<and> s \<noteq> [] \<and> hd s = 10)"
    | (other) "c \<noteq> 13" "c \<noteq> 10" by (metis list.collapse)
  then show ?case
  proof cases
    case crlf
    have "\<not> splits_break t b" using rest crlf by (cases "t = []") (auto simp: splits_break_def)
    with 2(1) [of "[]" "Suc n"] crlf obtain ls p where
      "t = p @ snd (line_scan (Suc n) [] t)" "Suc n + length ls = fst (line_scan (Suc n) [] t)"
      "\<forall>l \<in> set ls. line_start l \<le> start + str_len acc + 2 + str_len p"
      "scalar_lines (start + str_len acc + 2) (start + str_len acc + 2) (t @ b) =
         ls @ scalar_lines (start + str_len acc + 2 + str_len p) (start + str_len acc + 2 + str_len t) b"
      by auto
    with crlf show ?thesis
      by (intro exI [of _ "?first # ls"] exI [of _ "acc @ 13 # 10 # p"]) (auto simp: len_utf8_def utf8_def add.assoc)
  next
    case single
    have len: "len_utf8 c = 1" using single(1) by (auto simp: len_utf8_def utf8_def)
    have "\<not> (c = 13 \<and> s @ b \<noteq> [] \<and> hd (s @ b) = 10)"
      using single 2(4) by (cases s) (auto simp: splits_break_def neq_Nil_conv)
    with single(1) have first: "scalar_lines start (start + str_len acc) ((c # s) @ b) =
        ?first # scalar_lines (start + str_len acc + 1) (start + str_len acc + 1) (s @ b)" by auto
    have scan: "line_scan n acc (c # s) = line_scan (Suc n) [] s" using single by auto
    from 2(2) [of "[]" "Suc n"] single rest obtain ls p where
      "s = p @ snd (line_scan (Suc n) [] s)" "Suc n + length ls = fst (line_scan (Suc n) [] s)"
      "\<forall>l \<in> set ls. line_start l \<le> start + str_len acc + 1 + str_len p"
      "scalar_lines (start + str_len acc + 1) (start + str_len acc + 1) (s @ b) =
         ls @ scalar_lines (start + str_len acc + 1 + str_len p) (start + str_len acc + 1 + str_len s) b"
      by auto
    then show ?thesis unfolding scan first using len
      by (intro exI [of _ "?first # ls"] exI [of _ "acc @ c # p"]) (auto simp: add.assoc)
  next
    case other
    with 2(3) [of "acc @ [c]" n] rest show ?thesis by (simp add: add.assoc)
  qed
qed

lemma line_of_prefix:
  assumes "\<not> splits_break a b"
  shows "\<exists>ls p. a = p @ snd (line_scan 0 [] a) \<and> length ls = fst (line_scan 0 [] a) \<and>
       (\<forall>l \<in> set ls. line_start l \<le> str_len p) \<and>
       LineIndex_new (a @ b) =
         ls @ \<lparr>line_start = str_len p, content_end = str_len a + str_len (line_rest b)\<rparr> # lines_behind (str_len a) b"
  using lines_up_to [OF assms, of "[]" 0 0] by (simp add: LineIndex_new_scalar scalar_lines_first)

lemma partition_point_split_at:
  assumes "\<forall>x \<in> set xs. P x" and "P y" and "\<forall>x \<in> set zs. \<not> P x"
  shows "partition_point P (xs @ y # zs) = Suc (length xs)"
  using assms by (intro partition_point_eqI) (auto simp: nth_append nth_Cons split: nat.splits)

lemma not_boundary_inside:
  assumes "0 < k" and "k < len_utf8 c"
  shows "\<not> is_char_boundary (p @ c # s) (str_len p + k)"
  using assms by (induction p) (auto simp: add.assoc)

lemma back_to_boundary_at:
  "is_char_boundary text n \<Longrightarrow> back_to_boundary text start n = n"
  by (cases n) auto

lemma back_to_boundary_inside:
  assumes "start \<le> str_len p" and "k < len_utf8 c"
  shows "back_to_boundary (p @ c # s) start (str_len p + k) = str_len p"
  using assms(2)
proof (induction k)
  case 0
  have "is_char_boundary (p @ c # s) (str_len p)" by (auto simp: is_char_boundary_iff)
  then show ?case by (simp add: back_to_boundary_at)
next
  case (Suc k)
  with assms(1) not_boundary_inside [of "Suc k" c p s] show ?case by simp
qed

lemma str_split_floor:
  assumes "str_split text offset = (a, b)"
  shows "text = a @ b" and "str_len a \<le> offset" and "b \<noteq> [] \<Longrightarrow> offset < str_len a + len_utf8 (hd b)"
  using assms by (induction "text" offset arbitrary: a b rule: str_split.induct) (fastforce split: if_splits prod.splits)+

text \<open>What the conversion yields for an offset on a known line.\<close>

lemma byte_to_position_on_line:
  assumes parts: "text = p @ u @ w" "u = snd (line_scan 0 [] (p @ u))"
    and idx: "LineIndex_new text = ls @ \<lparr>line_start = str_len p, content_end = e\<rparr> # ls'"
    and ls: "\<forall>l \<in> set ls. line_start l \<le> str_len p" "\<forall>l \<in> set ls'. min offset (str_len text) < line_start l"
    and off: "str_len (p @ u) \<le> min offset (str_len text)"
    and walk: "back_to_boundary text (str_len p) (min (min offset (str_len text)) e) = str_len (p @ u)"
  shows "byte_to_position (LineIndex_new text) text offset =
    \<lparr>line = min u32_max (length ls), character = min u32_max (utf16_count u)\<rparr>"
proof -
  let ?off = "min offset (str_len text)"
  have "partition_point (\<lambda>l. line_start l \<le> ?off) (LineIndex_new text) = Suc (length ls)"
    unfolding idx using ls off by (intro partition_point_split_at) force+
  moreover have "length ls < length (LineIndex_new text)"
      "LineIndex_new text ! length ls = \<lparr>line_start = str_len p, content_end = e\<rparr>"
    by (simp_all add: idx)
  moreover have "str_get text (str_len p) (str_len (p @ u)) = Some u" by (simp add: parts(1))
  ultimately show ?thesis
    using walk by (simp add: byte_to_position_def Let_def)
qed

lemma addressable_floor:
  "\<exists>w. text = addressable text offset @ w \<and> \<not> splits_break (addressable text offset) w \<and>
     str_len (addressable text offset) \<le> offset \<and>
     (w = [] \<or> (\<exists>c s. w = c # s \<and> offset < str_len (addressable text offset) + len_utf8 c) \<or>
      (\<exists>s. w = 13 # 10 # s \<and> offset < str_len (addressable text offset) + 2))"
proof -
  obtain a b where ab: "str_split text offset = (a, b)" by (cases "str_split text offset")
  note floor = str_split_floor [OF ab]
  show ?thesis
  proof (cases "splits_break a b")
    case True
    then have a: "a = butlast a @ [13]" by (metis splits_break_def append_butlast_last_id)
    from True obtain t where b: "b = 10 # t" by (metis splits_break_def list.collapse)
    from True ab have adr: "addressable text offset = butlast a" by (simp add: addressable_def)
    have "str_len a = str_len (butlast a) + 1" by (subst a) (simp add: len_utf8_def utf8_def)
    moreover have "text = butlast a @ 13 # b" using floor(1) a by (metis append.assoc append_Cons append_Nil)
    ultimately show ?thesis
      using floor(2,3) b unfolding adr
      by (intro exI [of _ "13 # b"]) (auto simp: splits_break_def len_utf8_def utf8_def)
  next
    case False
    with ab have "addressable text offset = a" by (simp add: addressable_def)
    with floor False show ?thesis by (intro exI [of _ b]) (cases b; auto)
  qed
qed

text \<open>Every offset has its line: the parts of the text around it and the entry of the index.\<close>

lemma lines_behind_offset:
  assumes "str_len a \<le> offset" and "l \<in> set (lines_behind (str_len a) w)"
    and "w = [] \<or> (\<exists>c s. w = c # s \<and> offset < str_len a + len_utf8 c) \<or> (\<exists>s. w = 13 # 10 # s \<and> offset < str_len a + 2)"
  shows "offset < line_start l"
  using assms by (auto simp: lines_behind_def [of _ "[]"] dest!: lines_behind_starts)

lemma walk_to_offset:
  assumes "start \<le> str_len a" and "str_len a \<le> offset"
    and "w = [] \<or> (\<exists>c s. w = c # s \<and> offset < str_len a + len_utf8 c) \<or> (\<exists>s. w = 13 # 10 # s \<and> offset < str_len a + 2)"
  shows "back_to_boundary (a @ w) start (min (min offset (str_len (a @ w))) (str_len a + str_len (line_rest w))) = str_len a"
proof -
  have here: "is_char_boundary (a @ w) (str_len a)" by (auto simp: is_char_boundary_iff)
  consider (stop) "line_rest w = []"
    | (inside) c s where "w = c # s" "line_rest w = c # line_rest s" "offset < str_len a + len_utf8 c"
  proof (cases "line_rest w = []")
    case False
    with assms(3) that(2) show ?thesis by (force simp: line_rest_def split: if_splits)
  qed (rule that(1))
  then show ?thesis
  proof cases
    case stop
    with here assms(2) show ?thesis by (simp add: back_to_boundary_at)
  next
    case inside
    then have "min (min offset (str_len (a @ w))) (str_len a + str_len (line_rest w)) = str_len a + (offset - str_len a)"
      using assms(2) by simp
    moreover have "offset - str_len a < len_utf8 c" using inside(3) assms(2) by simp
    then have "back_to_boundary (a @ w) start (str_len a + (offset - str_len a)) = str_len a"
      unfolding inside(1) by (rule back_to_boundary_inside [OF assms(1)])
    ultimately show ?thesis by (simp only:)
  qed
qed

lemma offset_located:
  "\<exists>ls ls' p u w. text = p @ u @ w \<and> addressable text offset = p @ u \<and> line_scan 0 [] (p @ u) = (length ls, u) \<and>
     LineIndex_new text =
       ls @ \<lparr>line_start = str_len p, content_end = str_len (p @ u) + str_len (line_rest w)\<rparr> # ls' \<and>
     byte_to_position (LineIndex_new text) text offset =
       \<lparr>line = min u32_max (length ls), character = min u32_max (utf16_count u)\<rparr>"
proof -
  define a where "a = addressable text offset"
  obtain w where parts: "text = a @ w" and stay: "\<not> splits_break a w" and le: "str_len a \<le> offset"
    and near: "w = [] \<or> (\<exists>c s. w = c # s \<and> offset < str_len a + len_utf8 c) \<or> (\<exists>s. w = 13 # 10 # s \<and> offset < str_len a + 2)"
    using addressable_floor [of "text" offset] unfolding a_def by blast
  define u where "u = snd (line_scan 0 [] a)"
  define e where "e = str_len a + str_len (line_rest w)"
  from line_of_prefix [OF stay] obtain ls p where l: "a = p @ u" "length ls = fst (line_scan 0 [] a)"
      "\<forall>l \<in> set ls. line_start l \<le> str_len p"
      "LineIndex_new text = ls @ \<lparr>line_start = str_len p, content_end = e\<rparr> # lines_behind (str_len a) w"
    unfolding parts u_def e_def by blast
  have le': "str_len a \<le> min offset (str_len text)" using le by (simp add: parts)
  have "byte_to_position (LineIndex_new text) text offset = \<lparr>line = min u32_max (length ls), character = min u32_max (utf16_count u)\<rparr>"
  proof (rule byte_to_position_on_line [OF _ _ l(4,3)])
    show "text = p @ u @ w" using parts l(1) by simp
    show "u = snd (line_scan 0 [] (p @ u))" unfolding l(1) [symmetric] by (rule u_def)
    show "str_len (p @ u) \<le> min offset (str_len text)" using le' l(1) by simp
    show "\<forall>l \<in> set (lines_behind (str_len a) w). min offset (str_len text) < line_start l"
      using lines_behind_offset [OF le _ near] by (auto simp: min.strict_coboundedI1)
    show "back_to_boundary text (str_len p) (min (min offset (str_len text)) e) = str_len (p @ u)"
      using walk_to_offset [OF _ le near, of "str_len p"] l(1) by (simp add: parts e_def)
  qed
  moreover have "line_scan 0 [] (p @ u) = (length ls, u)"
    unfolding l(1) [symmetric] by (simp add: prod_eq_iff l(2) u_def)
  moreover have "text = p @ u @ w" "addressable text offset = p @ u" using parts l(1) unfolding a_def by simp_all
  moreover note l(4) [unfolded e_def l(1)]
  ultimately show ?thesis by blast
qed

subsection \<open>The conversions\<close>

text \<open>
  C34: For every byte offset, also one inside a scalar value, between a carriage return and its line feed
  or behind the end of the text, the position the index computes is the one of a scan over the scalar
  values: the number of line breaks in front of the last addressable place up to the offset, and the
  UTF-16 units since the last break, saturating at the largest \<open>u32\<close>.
\<close>

theorem byte_to_position_scans:
  "byte_to_position (LineIndex_new text) text offset =
     (let (n, u) = line_scan 0 [] (addressable text offset) in
      \<lparr>line = min u32_max n, character = min u32_max (utf16_count u)\<rparr>)"
  using offset_located [of "text" offset] by fastforce

lemma line_scan_length: "fst (line_scan n acc s) \<le> n + length s"
  by (induction n acc s rule: line_scan.induct) auto

lemma length_le_str_len: "length s \<le> str_len s"
proof (induction s)
  case (Cons c s)
  moreover have "1 \<le> len_utf8 c" by (simp add: Suc_le_eq)
  ultimately show ?case by simp
qed simp

lemma utf16_count_le_str_len: "utf16_count s \<le> str_len s"
  by (induction s) (auto simp: len_utf16_def len_utf8_def utf8_def intro: add_mono)

lemma unit_offset_reaches:
  "unit_offset (k + utf16_count u) k relative (u @ s) = (if s = [] then None else Some (relative + str_len u))"
proof (induction u arbitrary: k relative)
  case Nil
  show ?case by (cases s) simp_all
next
  case (Cons c u)
  have "0 < len_utf16 c" by (simp add: len_utf16_def)
  with Cons [of "k + len_utf16 c" "relative + len_utf8 c"] show ?case by (simp add: add.assoc)
qed

lemma line_rest_prefix: "\<exists>v. s = line_rest s @ v"
  unfolding line_rest_def by (metis takeWhile_dropWhile_id)

text \<open>
  C35: In a text whose length fits a \<open>u32\<close>, the position of a byte offset leads back to the last
  addressable place up to that offset: to the offset itself when a scalar value begins there, unless it
  is the line feed of a carriage return.
\<close>

theorem positions_come_back:
  assumes "str_len text \<le> u32_max"
  shows "position_to_byte (LineIndex_new text) text (byte_to_position (LineIndex_new text) text offset) =
    Some (str_len (addressable text offset))"
proof -
  obtain ls ls' p u w where at: "text = p @ u @ w" "addressable text offset = p @ u" "line_scan 0 [] (p @ u) = (length ls, u)"
      "LineIndex_new text = ls @ \<lparr>line_start = str_len p, content_end = str_len (p @ u) + str_len (line_rest w)\<rparr> # ls'"
      "byte_to_position (LineIndex_new text) text offset = \<lparr>line = min u32_max (length ls), character = min u32_max (utf16_count u)\<rparr>"
    using offset_located [of "text" offset] by blast
  have "length ls \<le> str_len (p @ u)"
    using line_scan_length [of 0 "[]" "p @ u"] length_le_str_len [of "p @ u"] at(3) by simp
  then have sat: "min u32_max (length ls) = length ls" "min u32_max (utf16_count u) = utf16_count u"
    using assms utf16_count_le_str_len [of u] at(1) by simp_all
  obtain v where w: "w = line_rest w @ v" using line_rest_prefix by blast
  have "text = p @ (u @ line_rest w) @ v" using at(1) w by simp
  then have "str_get text (str_len p) (str_len p + str_len (u @ line_rest w)) = Some (u @ line_rest w)"
    by (simp only: str_get_append)
  then have get: "str_get text (str_len p) (str_len (p @ u) + str_len (line_rest w)) = Some (u @ line_rest w)"
    by (simp add: add.assoc)
  let ?i = "LineIndex_new text"
  have pos: "byte_to_position ?i text offset = \<lparr>line = length ls, character = utf16_count u\<rparr>"
    unfolding at(5) sat by (rule refl)
  have "length ls < length ?i"
      "?i ! length ls = \<lparr>line_start = str_len p, content_end = str_len (p @ u) + str_len (line_rest w)\<rparr>"
    by (simp_all add: at(4))
  then show ?thesis
    using get unit_offset_reaches [of 0 u 0 "line_rest w"] unfolding pos at(2) by (simp add: position_to_byte_def)
qed

lemma positions_come_back_witness:
  "str_len [97, 128512, 13, 10, 20013] \<le> u32_max \<and>
   position_to_byte (LineIndex_new [97, 128512, 13, 10, 20013]) [97, 128512, 13, 10, 20013]
     (byte_to_position (LineIndex_new [97, 128512, 13, 10, 20013]) [97, 128512, 13, 10, 20013] 6) = Some 5"
proof -
  have small: "str_len [97, 128512, 13, 10, 20013] \<le> u32_max" by code_simp
  have "str_len (addressable [97, 128512, 13, 10, 20013] 6) = 5" by code_simp
  with positions_come_back [OF small, of 6] small show ?thesis by simp
qed

end
