(* ===== verification/Source_Text.thy ===== *)
theory Source_Text
  imports Rust_Str
begin

section \<open>Source ranges and diagnostics (openmat-source)\<close>

text \<open>
  Checked half-open byte ranges with 32-bit offsets, and the diagnostics every phase of the front end
  attaches to them. A source identifier is its number.
\<close>

type_synonym SourceId = nat

datatype RangeError = Reversed nat nat | OffsetOverflow nat | AdditionOverflow

record TextRange =
  range_start :: nat
  range_end :: nat

definition TextRange_new :: "nat \<Rightarrow> nat \<Rightarrow> (RangeError, TextRange) result" where
  "TextRange_new s e = (if e < s then Err (Reversed s e) else Ok \<lparr>range_start = s, range_end = e\<rparr>)"

definition u32_try_from :: "nat \<Rightarrow> (RangeError, nat) result" where
  "u32_try_from n = (if n \<le> u32_max then Ok n else Err (OffsetOverflow n))"

definition TextRange_from_usize :: "nat \<Rightarrow> nat \<Rightarrow> (RangeError, TextRange) result" where
  "TextRange_from_usize s e =
     and_then (u32_try_from s) (\<lambda>s'. and_then (u32_try_from e) (\<lambda>e'. TextRange_new s' e'))"

definition TextRange_empty :: "nat \<Rightarrow> TextRange" where
  "TextRange_empty i = \<lparr>range_start = i, range_end = i\<rparr>"

definition range_len :: "TextRange \<Rightarrow> nat" where
  "range_len r = range_end r - range_start r"

definition range_is_empty :: "TextRange \<Rightarrow> bool" where
  "range_is_empty r \<longleftrightarrow> range_start r = range_end r"

definition range_contains :: "TextRange \<Rightarrow> nat \<Rightarrow> bool" where
  "range_contains r i \<longleftrightarrow> range_start r \<le> i \<and> i < range_end r"

definition range_cover :: "TextRange \<Rightarrow> TextRange \<Rightarrow> TextRange" where
  "range_cover a b =
     \<lparr>range_start = (if range_start a < range_start b then range_start a else range_start b),
      range_end = (if range_end a > range_end b then range_end a else range_end b)\<rparr>"

definition range_checked_add :: "TextRange \<Rightarrow> nat \<Rightarrow> (RangeError, TextRange) result" where
  "range_checked_add r i =
     (if range_start r + i > u32_max then Err AdditionOverflow
      else if range_end r + i > u32_max then Err AdditionOverflow
      else Ok \<lparr>range_start = range_start r + i, range_end = range_end r + i\<rparr>)"

datatype Severity = SevError | SevWarning | SevNote

record Diagnostic =
  diag_source :: SourceId
  diag_range :: TextRange
  severity :: Severity
  diag_code :: "str option"
  diag_message :: str

definition Diagnostic_new :: "SourceId \<Rightarrow> TextRange \<Rightarrow> Severity \<Rightarrow> str \<Rightarrow> Diagnostic" where
  "Diagnostic_new i r s m = \<lparr>diag_source = i, diag_range = r, severity = s, diag_code = None, diag_message = m\<rparr>"

definition with_code :: "Diagnostic \<Rightarrow> str \<Rightarrow> Diagnostic" where
  "with_code d c = d\<lparr>diag_code := Some c\<rparr>"

definition Diagnostic_error :: "SourceId \<Rightarrow> TextRange \<Rightarrow> str \<Rightarrow> Diagnostic" where
  "Diagnostic_error i r m = Diagnostic_new i r SevError m"

subsection \<open>Ranges\<close>

definition range_ok :: "TextRange \<Rightarrow> bool" where
  "range_ok r \<longleftrightarrow> range_start r \<le> range_end r \<and> range_end r \<le> u32_max"

lemma TextRange_from_usize_cases:
  "TextRange_from_usize s e =
     (if s > u32_max then Err (OffsetOverflow s) else if e > u32_max then Err (OffsetOverflow e)
      else if e < s then Err (Reversed s e) else Ok \<lparr>range_start = s, range_end = e\<rparr>)"
  by (simp add: TextRange_from_usize_def u32_try_from_def TextRange_new_def)

lemma range_cover_ok: "range_ok a \<Longrightarrow> range_ok b \<Longrightarrow> range_ok (range_cover a b)"
  by (auto simp: range_ok_def range_cover_def)

end
