(* ===== verification/Lsp_Store.thy ===== *)
theory Lsp_Store
  imports Lsp_Document Source_Text Rust_BTree
begin

section \<open>The document store (openmat-lsp/src/document.rs, \<open>DocumentStore\<close>)\<close>

text \<open>
  Editor buffers and the host's snapshot of the disk, both keyed by URI, with stable source identifiers.
  Analysing a text (parsing, lowering and compiling it) is the work of other crates: their entry points
  are the arguments \<open>front_end\<close>, functions of the source identifier and the text. A URI is ordered by its
  scalar values, which is the order of its UTF-8 bytes.
\<close>

subsection \<open>Documents\<close>

text \<open>The statements of the high-level representation, as far as the store looks at them.\<close>

datatype Stmt =
    Declaration
  | If "Stmt list list" "Stmt list"
  | For "Stmt list"
  | While "Stmt list"
  | Try "Stmt list" "Stmt list option"
  | Switch "Stmt list list" "Stmt list option"
  | Function "Stmt list"
  | Class "Stmt list list list"
  | OtherStmt

fun is_frontend_only :: "Stmt \<Rightarrow> bool" where
  "is_frontend_only Declaration \<longleftrightarrow> True"
| "is_frontend_only (If branches else_body) \<longleftrightarrow>
     list_ex (\<lambda>body. list_ex is_frontend_only body) branches \<or> list_ex is_frontend_only else_body"
| "is_frontend_only (For body) \<longleftrightarrow> list_ex is_frontend_only body"
| "is_frontend_only (While body) \<longleftrightarrow> list_ex is_frontend_only body"
| "is_frontend_only (Try body catch) \<longleftrightarrow>
     list_ex is_frontend_only body \<or> (case catch of None \<Rightarrow> False | Some c \<Rightarrow> list_ex is_frontend_only c)"
| "is_frontend_only (Switch cases otherwise) \<longleftrightarrow>
     list_ex (\<lambda>body. list_ex is_frontend_only body) cases \<or>
     (case otherwise of None \<Rightarrow> False | Some b \<Rightarrow> list_ex is_frontend_only b)"
| "is_frontend_only (Function body) \<longleftrightarrow> list_ex is_frontend_only body"
| "is_frontend_only (Class blocks) \<longleftrightarrow> list_ex (\<lambda>block. list_ex (\<lambda>body. list_ex is_frontend_only body) block) blocks"
| "is_frontend_only OtherStmt \<longleftrightarrow> False"

definition contains_frontend_only_declaration :: "Stmt list \<Rightarrow> bool" where
  "contains_frontend_only_declaration ss \<longleftrightarrow> list_ex is_frontend_only ss"

record 'p ParseResult =
  cst :: 'p
  parse_diagnostics :: "Diagnostic list"

record 'h LowerResult =
  lowered_file :: 'h
  lower_diagnostics :: "Diagnostic list"

record ('p, 'h) FrontEnd =
  parse :: "SourceId \<Rightarrow> str \<Rightarrow> 'p ParseResult"
  lower :: "'p \<Rightarrow> 'h LowerResult"
  file_statements :: "'h \<Rightarrow> Stmt list"
  compile :: "'h \<Rightarrow> (Diagnostic list, unit) result"

record ('p, 'h) Document =
  doc_uri :: str
  version :: int
  source_id :: SourceId
  doc_text :: str
  line_index :: "Line list"
  parsed :: "'p ParseResult"
  lowered :: "'h LowerResult"
  compiler_diagnostics :: "Diagnostic list"

definition Document_new :: "('p, 'h) FrontEnd \<Rightarrow> str \<Rightarrow> int \<Rightarrow> SourceId \<Rightarrow> str \<Rightarrow> ('p, 'h) Document" where
  "Document_new F uri v i t =
     (let p = parse F i t;
          l = lower F (cst p);
          has_frontend_errors = list_ex (\<lambda>d. severity d = SevError) (parse_diagnostics p @ lower_diagnostics l);
          has_frontend_only_declarations = contains_frontend_only_declaration (file_statements F (lowered_file l));
          c = (if has_frontend_errors \<or> has_frontend_only_declarations then []
               else (case compile F (lowered_file l) of Err ds \<Rightarrow> ds | Ok _ \<Rightarrow> []))
      in \<lparr>doc_uri = uri, version = v, source_id = i, doc_text = t, line_index = LineIndex_new t, parsed = p,
          lowered = l, compiler_diagnostics = c\<rparr>)"

definition document_diagnostics :: "('p, 'h) Document \<Rightarrow> Diagnostic list" where
  "document_diagnostics d = parse_diagnostics (parsed d) @ lower_diagnostics (lowered d) @ compiler_diagnostics d"

definition document_byte_to_position :: "('p, 'h) Document \<Rightarrow> nat \<Rightarrow> Position" where
  "document_byte_to_position d i = byte_to_position (line_index d) (doc_text d) i"

definition document_position_to_byte :: "('p, 'h) Document \<Rightarrow> Position \<Rightarrow> nat option" where
  "document_position_to_byte d p = position_to_byte (line_index d) (doc_text d) p"

subsection \<open>The store\<close>

datatype DocumentError =
    DuplicateOpen str | NotOpen str | DuplicateVersion str int | StaleVersion str int int | SourceIdExhausted

record WorkspaceDocument =
  wd_uri :: str
  wd_relative_path :: str
  wd_text :: str

record WorkspaceContext =
  root_uri :: str
  current_directory :: str
  search_paths :: "str list"
  complete :: bool

record WorkspaceSnapshot =
  snapshot_root_uri :: str
  snapshot_current_directory :: str
  snapshot_search_paths :: "str list"
  snapshot_complete :: bool
  snapshot_documents :: "WorkspaceDocument list"

record ('p, 'h) WorkspaceSource =
  relative_path :: str
  document :: "('p, 'h) Document"

record ('p, 'h) DocumentStore =
  open_documents :: "(str, ('p, 'h) Document) btree"
  disk :: "(str, ('p, 'h) WorkspaceSource) btree"
  workspace :: "WorkspaceContext option"
  source_ids :: "(str, SourceId) btree"
  next_source_id :: nat

definition DocumentStore_new :: "('p, 'h) DocumentStore" where
  "DocumentStore_new = \<lparr>open_documents = [], disk = [], workspace = None, source_ids = [], next_source_id = 1\<rparr>"

definition allocate_source_id ::
  "('p, 'h) DocumentStore \<Rightarrow> (DocumentError, SourceId) result \<times> ('p, 'h) DocumentStore" where
  "allocate_source_id S =
     (let next = next_source_id S in
      if next + 1 > u32_max then (Err SourceIdExhausted, S) else (Ok next, S\<lparr>next_source_id := next + 1\<rparr>))"

definition source_id_for ::
  "str \<Rightarrow> ('p, 'h) DocumentStore \<Rightarrow> (DocumentError, SourceId) result \<times> ('p, 'h) DocumentStore" where
  "source_id_for uri S =
     (case bt_get (source_ids S) uri of
        Some i \<Rightarrow> (Ok i, S)
      | None \<Rightarrow>
          (case allocate_source_id S of
             (Err e, S') \<Rightarrow> (Err e, S')
           | (Ok i, S') \<Rightarrow> (Ok i, S'\<lparr>source_ids := bt_insert uri i (source_ids S')\<rparr>)))"

definition did_open ::
  "('p, 'h) FrontEnd \<Rightarrow> str \<Rightarrow> int \<Rightarrow> str \<Rightarrow> ('p, 'h) DocumentStore
     \<Rightarrow> (DocumentError, ('p, 'h) Document) result \<times> ('p, 'h) DocumentStore" where
  "did_open F uri v t S =
     (if bt_get (open_documents S) uri \<noteq> None then (Err (DuplicateOpen uri), S)
      else
        (case source_id_for uri S of
           (Err e, S1) \<Rightarrow> (Err e, S1)
         | (Ok i, S1) \<Rightarrow>
             let d = (case bt_get (disk S1) uri of
                        Some w \<Rightarrow> if doc_text (document w) = t then (document w)\<lparr>version := v\<rparr> else Document_new F uri v i t
                      | None \<Rightarrow> Document_new F uri v i t);
                 S2 = S1\<lparr>open_documents := bt_insert uri d (open_documents S1)\<rparr>
             in (ok_or (NotOpen uri) (bt_get (open_documents S2) uri), S2)))"

definition did_change ::
  "('p, 'h) FrontEnd \<Rightarrow> str \<Rightarrow> int \<Rightarrow> str \<Rightarrow> ('p, 'h) DocumentStore
     \<Rightarrow> (DocumentError, ('p, 'h) Document) result \<times> ('p, 'h) DocumentStore" where
  "did_change F uri v t S =
     (case bt_get (open_documents S) uri of
        None \<Rightarrow> (Err (NotOpen uri), S)
      | Some d \<Rightarrow>
          if v = version d then (Err (DuplicateVersion uri v), S)
          else if v < version d then (Err (StaleVersion uri (version d) v), S)
          else
            let S1 = S\<lparr>open_documents := bt_insert uri (Document_new F uri v (source_id d) t) (open_documents S)\<rparr>
            in (ok_or (NotOpen uri) (bt_get (open_documents S1) uri), S1))"

definition did_close ::
  "str \<Rightarrow> ('p, 'h) DocumentStore \<Rightarrow> (DocumentError, ('p, 'h) Document) result \<times> ('p, 'h) DocumentStore" where
  "did_close uri S =
     (ok_or (NotOpen uri) (bt_get (open_documents S) uri), S\<lparr>open_documents := bt_remove uri (open_documents S)\<rparr>)"

subsection \<open>Replacing the disk snapshot\<close>

text \<open>The snapshot's documents keyed by URI; the last of several with one URI stays.\<close>

definition incoming_documents :: "WorkspaceDocument list \<Rightarrow> (str, WorkspaceDocument) btree" where
  "incoming_documents ds = fold (\<lambda>d. bt_insert (wd_uri d) d) ds []"

text \<open>One incoming document: the relative path follows the snapshot, an unchanged text keeps its
  analysis, and an editor buffer with the same text lends its own.\<close>

definition replace_one ::
  "('p, 'h) FrontEnd \<Rightarrow> str \<Rightarrow> WorkspaceDocument \<Rightarrow> bool \<Rightarrow> ('p, 'h) DocumentStore
     \<Rightarrow> (DocumentError, bool) result \<times> ('p, 'h) DocumentStore" where
  "replace_one F uri inc changed S =
     (let moved = (case bt_get (disk S) uri of None \<Rightarrow> False | Some w \<Rightarrow> relative_path w \<noteq> wd_relative_path inc);
          S1 = (if moved then S\<lparr>disk := bt_update uri (\<lambda>w. w\<lparr>relative_path := wd_relative_path inc\<rparr>) (disk S)\<rparr> else S);
          same = (case bt_get (disk S) uri of None \<Rightarrow> False | Some w \<Rightarrow> doc_text (document w) = wd_text inc)
      in if same then (Ok (changed \<or> moved), S1)
         else
           (case source_id_for uri S1 of
              (Err e, S2) \<Rightarrow> (Err e, S2)
            | (Ok i, S2) \<Rightarrow>
                let d = (case bt_get (open_documents S2) uri of
                           Some d \<Rightarrow> if doc_text d = wd_text inc then d\<lparr>version := 0\<rparr> else Document_new F uri 0 i (wd_text inc)
                         | None \<Rightarrow> Document_new F uri 0 i (wd_text inc))
                in (Ok True, S2\<lparr>disk := bt_insert uri \<lparr>relative_path = wd_relative_path inc, document = d\<rparr> (disk S2)\<rparr>)))"

fun replace_each ::
  "('p, 'h) FrontEnd \<Rightarrow> (str \<times> WorkspaceDocument) list \<Rightarrow> bool \<Rightarrow> ('p, 'h) DocumentStore
     \<Rightarrow> (DocumentError, bool) result \<times> ('p, 'h) DocumentStore" where
  "replace_each F [] changed S = (Ok changed, S)"
| "replace_each F ((uri, inc) # rest) changed S =
     (case replace_one F uri inc changed S of
        (Err e, S1) \<Rightarrow> (Err e, S1)
      | (Ok changed1, S1) \<Rightarrow> replace_each F rest changed1 S1)"

definition snapshot_context :: "WorkspaceSnapshot \<Rightarrow> WorkspaceContext" where
  "snapshot_context n =
     \<lparr>root_uri = snapshot_root_uri n, current_directory = snapshot_current_directory n,
      search_paths = snapshot_search_paths n, complete = snapshot_complete n\<rparr>"

definition replace_workspace_documents ::
  "('p, 'h) FrontEnd \<Rightarrow> WorkspaceSnapshot \<Rightarrow> ('p, 'h) DocumentStore
     \<Rightarrow> (DocumentError, bool) result \<times> ('p, 'h) DocumentStore" where
  "replace_workspace_documents F n S =
     (let changed = (workspace S \<noteq> Some (snapshot_context n));
          inc = incoming_documents (snapshot_documents n);
          kept = filter (\<lambda>(uri, w). bt_get inc uri \<noteq> None) (disk S);
          removed = list_ex (\<lambda>(uri, w). bt_get inc uri = None) (disk S)
      in replace_each F inc (changed \<or> removed) (S\<lparr>workspace := Some (snapshot_context n), disk := kept\<rparr>))"

subsection \<open>What clients ask of the store\<close>

definition workspace_index_complete :: "('p, 'h) DocumentStore \<Rightarrow> bool" where
  "workspace_index_complete S \<longleftrightarrow> (case workspace S of None \<Rightarrow> True | Some c \<Rightarrow> complete c)"

definition edit_version :: "('p, 'h) DocumentStore \<Rightarrow> str \<Rightarrow> int option" where
  "edit_version S uri = map_option version (bt_get (open_documents S) uri)"

definition get_effective :: "('p, 'h) DocumentStore \<Rightarrow> str \<Rightarrow> ('p, 'h) Document option" where
  "get_effective S uri =
     (case bt_get (open_documents S) uri of
        Some d \<Rightarrow> Some d
      | None \<Rightarrow> map_option document (bt_get (disk S) uri))"

definition iter_effective :: "('p, 'h) DocumentStore \<Rightarrow> (str, ('p, 'h) Document) btree" where
  "iter_effective S = fold (\<lambda>(uri, d). bt_insert uri d) (open_documents S) (map (\<lambda>(uri, w). (uri, document w)) (disk S))"

definition open_len :: "('p, 'h) DocumentStore \<Rightarrow> nat" where
  "open_len S = length (open_documents S)"

subsection \<open>Paths below the workspace root\<close>

fun split_scalar :: "scalar \<Rightarrow> str \<Rightarrow> str list" where
  "split_scalar x [] = [[]]"
| "split_scalar x (c # s) =
     (if c = x then [] # split_scalar x s
      else (case split_scalar x s of [] \<Rightarrow> [[c]] | p # ps \<Rightarrow> (c # p) # ps))"

fun join_scalar :: "scalar \<Rightarrow> str list \<Rightarrow> str" where
  "join_scalar x [] = []"
| "join_scalar x [p] = p"
| "join_scalar x (p # q # ps) = p @ x # join_scalar x (q # ps)"

text \<open>The components that stay: empty ones and \<open>.\<close> are skipped, \<open>..\<close> is refused.\<close>

fun path_components :: "str list \<Rightarrow> str list option" where
  "path_components [] = Some []"
| "path_components (p # ps) =
     (if p = [] \<or> p = [46] then path_components ps
      else if p = [46, 46] then None
      else map_option ((#) p) (path_components ps))"

definition normalized_relative_path :: "str \<Rightarrow> str option" where
  "normalized_relative_path path =
     (case path_components (split_scalar 47 (map (\<lambda>c. if c = 92 then 47 else c) path)) of
        None \<Rightarrow> None
      | Some ps \<Rightarrow> if ps = [] then None else Some (join_scalar 47 ps))"

text \<open>\<open>u8::from_str_radix\<close> with radix 16: a leading plus sign is accepted, a lone sign is not.\<close>

definition hex_digit :: "scalar \<Rightarrow> nat option" where
  "hex_digit c =
     (if 48 \<le> c \<and> c \<le> 57 then Some (c - 48)
      else if 65 \<le> c \<and> c \<le> 70 then Some (c - 55)
      else if 97 \<le> c \<and> c \<le> 102 then Some (c - 87)
      else None)"

definition hex_push :: "nat option \<Rightarrow> scalar \<Rightarrow> nat option" where
  "hex_push acc c =
     (case acc of None \<Rightarrow> None
      | Some n \<Rightarrow>
          (case hex_digit c of None \<Rightarrow> None | Some d \<Rightarrow> if 16 * n + d < 256 then Some (16 * n + d) else None))"

definition u8_from_hex :: "str \<Rightarrow> nat option" where
  "u8_from_hex s =
     (let ds = (if s \<noteq> [] \<and> hd s = 43 \<and> tl s \<noteq> [] then tl s else s) in
      if ds = [] then None else foldl hex_push (Some 0) ds)"

fun decode_escapes :: "bytes \<Rightarrow> bytes option" where
  "decode_escapes [] = Some []"
| "decode_escapes (b # bs) =
     (if b = 37
      then (if length bs < 2 then None
            else (case from_utf8 (take 2 bs) of
                    None \<Rightarrow> None
                  | Some hex \<Rightarrow>
                      (case u8_from_hex hex of
                         None \<Rightarrow> None
                       | Some v \<Rightarrow> map_option ((#) v) (decode_escapes (drop 2 bs)))))
      else map_option ((#) b) (decode_escapes bs))"

definition decode_uri_path :: "str \<Rightarrow> str option" where
  "decode_uri_path path = Option.bind (decode_escapes (as_bytes path)) from_utf8"

definition strip_prefix :: "str \<Rightarrow> str \<Rightarrow> str option" where
  "strip_prefix p s = (if take (length p) s = p then Some (drop (length p) s) else None)"

definition workspace_relative_path :: "('p, 'h) DocumentStore \<Rightarrow> str \<Rightarrow> str option" where
  "workspace_relative_path S uri =
     (case workspace S of
        None \<Rightarrow> None
      | Some context \<Rightarrow>
          Option.bind (strip_prefix (root_uri context) uri) (\<lambda>suffix.
            Option.bind (case bt_get (disk S) uri of
                           None \<Rightarrow> decode_uri_path suffix
                         | Some w \<Rightarrow> Some (relative_path w))
              normalized_relative_path))"

subsection \<open>The invariant\<close>

text \<open>A document is fresh when it is what analysing its text under the identifier of its URI gives.\<close>

definition fresh :: "('p, 'h) FrontEnd \<Rightarrow> ('p, 'h) DocumentStore \<Rightarrow> str \<Rightarrow> ('p, 'h) Document \<Rightarrow> bool" where
  "fresh F S uri d \<longleftrightarrow>
     bt_get (source_ids S) uri = Some (source_id d) \<and> d = Document_new F uri (version d) (source_id d) (doc_text d)"

definition ids_ok :: "('p, 'h) DocumentStore \<Rightarrow> bool" where
  "ids_ok S \<longleftrightarrow>
     bt_wf (source_ids S) \<and> 1 \<le> next_source_id S \<and> next_source_id S \<le> u32_max \<and>
     ran (bt_get (source_ids S)) \<subseteq> {1..<next_source_id S} \<and> inj_on (bt_get (source_ids S)) (dom (bt_get (source_ids S)))"

definition store_ok :: "('p, 'h) FrontEnd \<Rightarrow> ('p, 'h) DocumentStore \<Rightarrow> bool" where
  "store_ok F S \<longleftrightarrow>
     ids_ok S \<and> bt_wf (open_documents S) \<and> bt_wf (disk S) \<and>
     (\<forall>uri d. bt_get (open_documents S) uri = Some d \<longrightarrow> fresh F S uri d) \<and>
     (\<forall>uri w. bt_get (disk S) uri = Some w \<longrightarrow> fresh F S uri (document w) \<and> version (document w) = 0)"

definition ids_grow :: "('p, 'h) DocumentStore \<Rightarrow> ('p, 'h) DocumentStore \<Rightarrow> bool" where
  "ids_grow S S' \<longleftrightarrow> bt_get (source_ids S) \<subseteq>\<^sub>m bt_get (source_ids S')"

lemma Document_new_fields [simp]:
  "doc_uri (Document_new F uri v i t) = uri" "version (Document_new F uri v i t) = v"
  "source_id (Document_new F uri v i t) = i" "doc_text (Document_new F uri v i t) = t"
  by (simp_all add: Document_new_def Let_def)

lemma Document_new_version: "(Document_new F uri v i t)\<lparr>version := v'\<rparr> = Document_new F uri v' i t"
  by (simp add: Document_new_def Let_def)

lemma fresh_version: "fresh F S uri d \<Longrightarrow> fresh F S uri (d\<lparr>version := v\<rparr>)"
  by (simp add: fresh_def) (metis Document_new_version)

lemma fresh_grow: "fresh F S uri d \<Longrightarrow> ids_grow S S' \<Longrightarrow> fresh F S' uri d"
  by (auto simp: fresh_def ids_grow_def map_le_def dom_def)

lemma fresh_new: "bt_get (source_ids S) uri = Some i \<Longrightarrow> fresh F S uri (Document_new F uri v i t)"
  by (simp add: fresh_def)

lemma source_id_for_store:
  assumes "source_id_for uri S = (res, S')"
  shows "open_documents S' = open_documents S" and "disk S' = disk S" and "workspace S' = workspace S"
    and "ids_grow S S'" and "ids_ok S \<Longrightarrow> ids_ok S'" and "res = Ok i \<Longrightarrow> bt_get (source_ids S') uri = Some i"
proof -
  show "open_documents S' = open_documents S" "disk S' = disk S" "workspace S' = workspace S"
    using assms by (auto simp: source_id_for_def allocate_source_id_def Let_def split: option.splits sum.splits if_splits)
  show "ids_grow S S'"
    using assms by (auto simp: source_id_for_def allocate_source_id_def ids_grow_def map_le_def bt_insert_get Let_def
        split: option.splits sum.splits if_splits)
  show "res = Ok i \<Longrightarrow> bt_get (source_ids S') uri = Some i"
    using assms by (auto simp: source_id_for_def allocate_source_id_def bt_insert_get Let_def split: option.splits sum.splits if_splits)
  show "ids_ok S'" if ok: "ids_ok S"
  proof (cases "bt_get (source_ids S) uri = None \<and> next_source_id S + 1 \<le> u32_max")
    case True
    let ?m = "bt_get (source_ids S)" and ?n = "next_source_id S"
    have S': "source_ids S' = bt_insert uri ?n (source_ids S)" "next_source_id S' = ?n + 1"
      using assms True by (auto simp: source_id_for_def allocate_source_id_def Let_def split: option.splits)
    have new: "bt_get (bt_insert uri ?n (source_ids S)) = ?m(uri \<mapsto> ?n)" by (rule ext) (simp add: bt_insert_get)
    have "?m x \<noteq> Some ?n" for x using ok by (auto simp: ids_ok_def dest: ranI)
    then have "inj_on (?m(uri \<mapsto> ?n)) (dom (?m(uri \<mapsto> ?n)))"
      using ok by (auto simp: ids_ok_def inj_on_def dom_def dest: sym)
    moreover have "ran (?m(uri \<mapsto> ?n)) \<subseteq> {1..<?n + 1}"
      using ok True by (auto simp: ids_ok_def)
    ultimately show ?thesis using ok True by (simp add: ids_ok_def new S' bt_insert_wf)
  next
    case False
    then have "source_ids S' = source_ids S" "next_source_id S' = next_source_id S"
      using assms by (auto simp: source_id_for_def allocate_source_id_def Let_def split: option.splits)
    with ok show ?thesis by (simp add: ids_ok_def)
  qed
qed

lemma store_ok_frame:
  assumes "store_ok F S" and "ids_grow S S'" and "ids_ok S'"
    and "bt_wf (open_documents S')" and "bt_wf (disk S')"
    and "\<And>uri d. bt_get (open_documents S') uri = Some d \<Longrightarrow> bt_get (open_documents S) uri = Some d \<or> fresh F S' uri d"
    and "\<And>uri w. bt_get (disk S') uri = Some w \<Longrightarrow>
      (\<exists>w'. bt_get (disk S) uri = Some w' \<and> document w = document w') \<or> fresh F S' uri (document w) \<and> version (document w) = 0"
  shows "store_ok F S'"
  unfolding store_ok_def
proof (intro conjI allI impI)
  show "fresh F S' uri d" if "bt_get (open_documents S') uri = Some d" for uri d
    using assms(6) [OF that] assms(1,2) by (auto simp: store_ok_def intro: fresh_grow)
  show "fresh F S' uri (document w)" "version (document w) = 0" if "bt_get (disk S') uri = Some w" for uri w
    using assms(7) [OF that] assms(1) fresh_grow [OF _ assms(2)] unfolding store_ok_def by metis+
qed (use assms(3-5) in auto)

lemma did_open_store:
  assumes "store_ok F S" and "did_open F uri v t S = (res, S')"
  shows "store_ok F S'" and "ids_grow S S'"
proof -
  obtain r S1 where id: "source_id_for uri S = (r, S1)" by (cases "source_id_for uri S")
  note s1 = source_id_for_store [OF id]
  have ids: "ids_ok S1" using assms(1) s1(5) by (simp add: store_ok_def)
  have still: "store_ok F S1"
    by (rule store_ok_frame [OF assms(1) s1(4) ids]) (use assms(1) s1(1,2) in \<open>auto simp: store_ok_def\<close>)
  have "store_ok F S' \<and> ids_grow S S'"
  proof (cases "bt_get (open_documents S) uri \<noteq> None \<or> (\<exists>e. r = Err e)")
    case True
    then have "S' = S \<or> S' = S1" using assms(2) id by (auto simp: did_open_def split: if_splits)
    with assms(1) still s1(4) show ?thesis by (auto simp: ids_grow_def)
  next
    case False
    then obtain i where i: "r = Ok i" by (cases r) auto
    obtain d where d: "S' = S1\<lparr>open_documents := bt_insert uri d (open_documents S1)\<rparr>"
        "d = (case bt_get (disk S1) uri of
                Some w \<Rightarrow> if doc_text (document w) = t then (document w)\<lparr>version := v\<rparr> else Document_new F uri v i t
              | None \<Rightarrow> Document_new F uri v i t)"
      using assms(2) id i False by (simp add: did_open_def Let_def)
    have "fresh F S1 uri d"
      using still s1(6) [OF i] unfolding d(2) by (auto simp: store_ok_def fresh_new fresh_version split: option.splits)
    then have "fresh F S' uri d" by (simp add: fresh_def d(1))
    have "store_ok F S'"
      by (rule store_ok_frame [OF still])
        (use still \<open>fresh F S' uri d\<close> in \<open>auto simp: d(1) ids_grow_def ids_ok_def store_ok_def bt_insert_wf bt_insert_get split: if_splits\<close>)
    with s1(4) show ?thesis by (simp add: d(1) ids_grow_def)
  qed
  then show "store_ok F S'" "ids_grow S S'" by simp_all
qed

lemma did_change_store:
  assumes "store_ok F S" and "did_change F uri v t S = (res, S')"
  shows "store_ok F S'" and "ids_grow S S'"
proof -
  have "store_ok F S' \<and> ids_grow S S'"
  proof (cases "S' = S")
    case True
    with assms(1) show ?thesis by (simp add: ids_grow_def)
  next
    case False
    then obtain d where d: "bt_get (open_documents S) uri = Some d"
        "S' = S\<lparr>open_documents := bt_insert uri (Document_new F uri v (source_id d) t) (open_documents S)\<rparr>"
      using assms(2) by (auto simp: did_change_def Let_def split: option.splits if_splits)
    have "fresh F S uri d" using assms(1) d(1) by (simp add: store_ok_def)
    then have "fresh F S' uri (Document_new F uri v (source_id d) t)" by (simp add: fresh_def d(2))
    with assms(1) have "store_ok F S'"
      by (intro store_ok_frame [OF assms(1)])
         (auto simp: d(2) ids_grow_def ids_ok_def store_ok_def bt_insert_wf bt_insert_get split: if_splits)
    then show ?thesis by (simp add: d(2) ids_grow_def)
  qed
  then show "store_ok F S'" "ids_grow S S'" by simp_all
qed

lemma did_close_store:
  assumes "store_ok F S" and "did_close uri S = (res, S')"
  shows "store_ok F S'" and "ids_grow S S'"
proof -
  have S': "S' = S\<lparr>open_documents := bt_remove uri (open_documents S)\<rparr>" using assms(2) by (simp add: did_close_def)
  show grow: "ids_grow S S'" by (simp add: S' ids_grow_def)
  show "store_ok F S'"
    by (rule store_ok_frame [OF assms(1) grow])
       (use assms(1) in \<open>auto simp: S' ids_ok_def store_ok_def bt_remove_wf bt_remove_get split: if_splits\<close>)
qed

subsection \<open>Replacing keeps it\<close>

text \<open>What the rest of the store sees of the snapshot's progress: one entry of the disk changes.\<close>

definition wd_entry :: "WorkspaceDocument \<Rightarrow> str \<times> str" where
  "wd_entry d = (wd_relative_path d, wd_text d)"

definition disk_view :: "('p, 'h) DocumentStore \<Rightarrow> str \<Rightarrow> (str \<times> str) option" where
  "disk_view S uri = map_option (\<lambda>w. (relative_path w, doc_text (document w))) (bt_get (disk S) uri)"

lemma replace_one_store:
  assumes "store_ok F S" and "replace_one F uri inc changed S = (res, S')"
  shows "store_ok F S'" and "ids_grow S S'" and "open_documents S' = open_documents S" and "workspace S' = workspace S"
    and "res = Ok changed' \<Longrightarrow> disk_view S' = (disk_view S)(uri \<mapsto> wd_entry inc) \<and>
      (changed' \<longleftrightarrow> changed \<or> disk_view S uri \<noteq> Some (wd_entry inc))"
proof -
  define moved where "moved = (case bt_get (disk S) uri of None \<Rightarrow> False | Some w \<Rightarrow> relative_path w \<noteq> wd_relative_path inc)"
  define S1 where "S1 = (if moved then S\<lparr>disk := bt_update uri (\<lambda>w. w\<lparr>relative_path := wd_relative_path inc\<rparr>) (disk S)\<rparr> else S)"
  define same where "same = (case bt_get (disk S) uri of None \<Rightarrow> False | Some w \<Rightarrow> doc_text (document w) = wd_text inc)"
  note run = assms(2) [unfolded replace_one_def Let_def moved_def [symmetric] S1_def [symmetric] same_def [symmetric]]
  have S1: "ids_grow S S1" "ids_ok S1" "open_documents S1 = open_documents S" "workspace S1 = workspace S"
    using assms(1) by (auto simp: S1_def ids_grow_def ids_ok_def store_ok_def)
  have d1: "bt_get (disk S1) j = map_option (\<lambda>w. if j = uri then w\<lparr>relative_path := wd_relative_path inc\<rparr> else w) (bt_get (disk S) j)" for j
    by (cases "bt_get (disk S) j") (auto simp: S1_def moved_def bt_update_get)
  have wf1: "bt_wf (disk S1)" using assms(1) by (simp add: S1_def store_ok_def bt_update_wf)
  have still: "store_ok F S1"
    by (rule store_ok_frame [OF assms(1) S1(1,2)]) (use assms(1) wf1 in \<open>auto simp: S1(3) store_ok_def d1 split: if_splits\<close>)
  obtain r S2 where id: "source_id_for uri S1 = (r, S2)" by (cases "source_id_for uri S1")
  note s2 = source_id_for_store [OF id]
  have ids2: "ids_ok S2" using S1(2) by (rule s2(5))
  have still2: "store_ok F S2"
    by (rule store_ok_frame [OF still s2(4) ids2]) (use still s2(1,2) in \<open>auto simp: store_ok_def\<close>)
  have grow2: "ids_grow S S2" using S1(1) s2(4) unfolding ids_grow_def by (rule map_le_trans)
  have "store_ok F S' \<and> ids_grow S S' \<and> open_documents S' = open_documents S \<and> workspace S' = workspace S \<and>
      (\<forall>changed'. res = Ok changed' \<longrightarrow> disk_view S' = (disk_view S)(uri \<mapsto> wd_entry inc) \<and>
        (changed' \<longleftrightarrow> changed \<or> disk_view S uri \<noteq> Some (wd_entry inc)))"
  proof (cases same)
    case True
    then obtain w where w: "bt_get (disk S) uri = Some w" "doc_text (document w) = wd_text inc"
      by (auto simp: same_def split: option.splits)
    from run True have "res = Ok (changed \<or> moved)" "S' = S1" by simp_all
    moreover have "disk_view S1 = (disk_view S)(uri \<mapsto> wd_entry inc)"
      using w by (intro ext) (auto simp: disk_view_def d1 wd_entry_def option.map_comp comp_def intro!: map_option_cong)
    moreover have "moved \<longleftrightarrow> disk_view S uri \<noteq> Some (wd_entry inc)" using w by (auto simp: moved_def disk_view_def wd_entry_def)
    ultimately show ?thesis using still S1 by simp
  next
    case False
    then have differs: "disk_view S uri \<noteq> Some (wd_entry inc)"
      by (auto simp: same_def disk_view_def wd_entry_def split: option.splits)
    show ?thesis
    proof (cases r)
      case (Inl e)
      with run False id have "res = Err e" "S' = S2" by simp_all
      with still2 grow2 s2(1,3) S1(3,4) show ?thesis by simp
    next
      case (Inr i)
      obtain d where d: "S' = S2\<lparr>disk := bt_insert uri \<lparr>relative_path = wd_relative_path inc, document = d\<rparr> (disk S2)\<rparr>"
          "res = Ok True"
          "d = (case bt_get (open_documents S2) uri of
                  Some d \<Rightarrow> if doc_text d = wd_text inc then d\<lparr>version := 0\<rparr> else Document_new F uri 0 i (wd_text inc)
                | None \<Rightarrow> Document_new F uri 0 i (wd_text inc))"
        using run False id Inr by simp
      have same_text: "doc_text d = wd_text inc" "version d = 0" by (simp_all add: d(3) split: option.splits)
      have "fresh F S2 uri d"
        using still2 s2(6) [OF Inr] unfolding d(3) by (auto simp: store_ok_def fresh_new fresh_version split: option.splits)
      then have new: "fresh F S' uri d" by (simp add: fresh_def d(1))
      have "store_ok F S'"
        by (rule store_ok_frame [OF still2])
          (use still2 new same_text in \<open>auto simp: d(1) ids_grow_def ids_ok_def store_ok_def bt_insert_wf bt_insert_get split: if_splits\<close>)
      moreover have "disk_view S' = (disk_view S)(uri \<mapsto> wd_entry inc)"
        by (rule ext) (simp add: disk_view_def d(1) bt_insert_get s2(2) d1 wd_entry_def same_text option.map_ident)
      moreover have "ids_grow S S'" using grow2 by (simp add: d(1) ids_grow_def)
      ultimately show ?thesis using differs d(1,2) s2(1,3) S1(3,4) by simp
    qed
  qed
  then show "store_ok F S'" "ids_grow S S'" "open_documents S' = open_documents S" "workspace S' = workspace S"
    "res = Ok changed' \<Longrightarrow> disk_view S' = (disk_view S)(uri \<mapsto> wd_entry inc) \<and>
      (changed' \<longleftrightarrow> changed \<or> disk_view S uri \<noteq> Some (wd_entry inc))" by blast+
qed

lemma replace_each_store:
  assumes "store_ok F S" and "replace_each F l changed S = (res, S')" and "distinct (map fst l)"
  shows "store_ok F S' \<and> ids_grow S S' \<and> open_documents S' = open_documents S \<and> workspace S' = workspace S \<and>
    (\<forall>changed'. res = Ok changed' \<longrightarrow>
       disk_view S' = disk_view S ++ (\<lambda>uri. map_option wd_entry (map_of l uri)) \<and>
       (changed' \<longleftrightarrow> changed \<or> (\<exists>(uri, inc) \<in> set l. disk_view S uri \<noteq> Some (wd_entry inc))))"
  using assms
proof (induction F l changed S rule: replace_each.induct)
  case (1 F changed S)
  then show ?case by (auto simp: ids_grow_def map_add_def)
next
  case (2 F uri inc rest changed S)
  obtain r S1 where one: "replace_one F uri inc changed S = (r, S1)" by (cases "replace_one F uri inc changed S")
  note s1 = replace_one_store [OF 2(2) one]
  show ?case
  proof (cases r)
    case (Inl e)
    with one 2(3) have "res = Err e" "S' = S1" by simp_all
    with s1(1-4) show ?thesis by simp
  next
    case (Inr changed1)
    have run: "replace_each F rest changed1 S1 = (res, S')" using one Inr 2(3) by simp
    from 2(1) [OF one [symmetric] Inr s1(1) run] 2(4)
    have IH: "store_ok F S'" "ids_grow S1 S'" "open_documents S' = open_documents S1" "workspace S' = workspace S1"
      "\<And>changed'. res = Ok changed' \<Longrightarrow> disk_view S' = disk_view S1 ++ (\<lambda>uri. map_option wd_entry (map_of rest uri)) \<and>
         (changed' \<longleftrightarrow> changed1 \<or> (\<exists>(uri, inc) \<in> set rest. disk_view S1 uri \<noteq> Some (wd_entry inc)))"
      by auto
    note view = s1(5) [OF Inr]
    have absent: "map_of rest uri = None" using 2(4) by (auto simp: map_of_eq_None_iff)
    have "disk_view S1 ++ (\<lambda>uri. map_option wd_entry (map_of rest uri)) =
        disk_view S ++ (\<lambda>j. map_option wd_entry (map_of ((uri, inc) # rest) j))"
      using view absent by (intro ext) (auto simp: map_add_def split: option.splits)
    moreover have "(\<exists>(j, inc) \<in> set rest. disk_view S1 j \<noteq> Some (wd_entry inc)) \<longleftrightarrow>
        (\<exists>(j, inc) \<in> set rest. disk_view S j \<noteq> Some (wd_entry inc))"
      using view 2(4) by (intro bex_cong refl) (auto simp: image_iff)
    moreover have "ids_grow S S'" using s1(2) IH(2) unfolding ids_grow_def by (rule map_le_trans)
    ultimately show ?thesis using IH(1,3-5) s1(3,4) view by auto
  qed
qed

lemma bt_get_map_of: "bt_get m = map_of m"
  by (rule ext) (simp add: bt_get_def)

lemma incoming_documents_wf: "bt_wf (incoming_documents ds)"
proof -
  have "bt_wf m \<Longrightarrow> bt_wf (fold (\<lambda>d. bt_insert (wd_uri d) d) ds m)" for m
    by (induction ds arbitrary: m) (simp_all add: bt_insert_wf)
  then show ?thesis by (simp add: incoming_documents_def)
qed

text \<open>The document of a snapshot that counts for a URI: the last one.\<close>

definition snapshot_entry :: "WorkspaceDocument list \<Rightarrow> str \<Rightarrow> (str \<times> str) option" where
  "snapshot_entry ds uri = map_option wd_entry (map_of (rev (map (\<lambda>d. (wd_uri d, d)) ds)) uri)"

lemma incoming_documents_get: "map_option wd_entry (bt_get (incoming_documents ds) uri) = snapshot_entry ds uri"
proof -
  have "bt_get (fold (\<lambda>d. bt_insert (wd_uri d) d) ds m) uri =
      (bt_get m ++ map_of (rev (map (\<lambda>d. (wd_uri d, d)) ds))) uri" for m :: "(str, WorkspaceDocument) btree"
    by (induction ds arbitrary: m) (auto simp: bt_insert_get map_add_def split: option.splits)
  from this [of "[]"] show ?thesis by (simp add: incoming_documents_def snapshot_entry_def bt_get_map_of)
qed

lemma bt_filter_wf: "bt_wf m \<Longrightarrow> bt_wf (filter P m)"
  by (simp add: bt_wf_def sorted_wrt_map sorted_wrt_filter)

lemma map_of_filter_keys: "map_of (filter (\<lambda>(k, v). P k) m) k = (if P k then map_of m k else None)"
  by (induction m) auto

lemma replace_workspace_store:
  assumes "store_ok F S" and "replace_workspace_documents F n S = (res, S')"
  shows "store_ok F S'" and "ids_grow S S'" and "open_documents S' = open_documents S"
    and "workspace S' = Some (snapshot_context n)"
    and "res = Ok changed \<Longrightarrow> disk_view S' = snapshot_entry (snapshot_documents n)"
    and "res = Ok changed \<Longrightarrow> changed \<longleftrightarrow> workspace S' \<noteq> workspace S \<or> disk_view S' \<noteq> disk_view S"
proof -
  define inc where "inc = incoming_documents (snapshot_documents n)"
  define S0 where "S0 = S\<lparr>workspace := Some (snapshot_context n), disk := filter (\<lambda>(uri, w). bt_get inc uri \<noteq> None) (disk S)\<rparr>"
  define removed where "removed = list_ex (\<lambda>(uri, w). bt_get inc uri = None) (disk S)"
  have run: "replace_each F inc (workspace S \<noteq> Some (snapshot_context n) \<or> removed) S0 = (res, S')"
    using assms(2) by (simp add: replace_workspace_documents_def Let_def inc_def S0_def removed_def)
  have wf: "bt_wf inc" "bt_wf (disk S)" using assms(1) by (simp_all add: inc_def incoming_documents_wf store_ok_def)
  have kept: "bt_get (disk S0) uri = (if bt_get inc uri = None then None else bt_get (disk S) uri)" for uri
    using map_of_filter_keys [of "\<lambda>uri. bt_get inc uri \<noteq> None" "disk S" uri] by (simp add: S0_def bt_get_def)
  have ok0: "store_ok F S0"
    by (rule store_ok_frame [OF assms(1)])
       (use assms(1) kept in \<open>auto simp: S0_def ids_grow_def ids_ok_def store_ok_def bt_filter_wf split: if_splits\<close>)
  from replace_each_store [OF ok0 run bt_wf_distinct [OF wf(1)]]
  have each: "store_ok F S'" "ids_grow S0 S'" "open_documents S' = open_documents S0" "workspace S' = workspace S0"
    "\<And>changed. res = Ok changed \<Longrightarrow> disk_view S' = disk_view S0 ++ (\<lambda>uri. map_option wd_entry (map_of inc uri)) \<and>
      (changed \<longleftrightarrow> (workspace S \<noteq> Some (snapshot_context n) \<or> removed) \<or>
         (\<exists>(uri, d) \<in> set inc. disk_view S0 uri \<noteq> Some (wd_entry d)))"
    by auto
  show "store_ok F S'" "ids_grow S S'" "open_documents S' = open_documents S" "workspace S' = Some (snapshot_context n)"
    using each(1-4) by (simp_all add: S0_def ids_grow_def)
  show view: "disk_view S' = snapshot_entry (snapshot_documents n)" if "res = Ok changed" for changed
  proof
    fix uri
    have "disk_view S0 uri = None" if "bt_get inc uri = None" using kept [of uri] that by (simp add: disk_view_def)
    with each(5) [OF that] show "disk_view S' uri = snapshot_entry (snapshot_documents n) uri"
      unfolding incoming_documents_get [symmetric] inc_def [symmetric]
      by (auto simp: map_add_def bt_get_map_of split: option.splits)
  qed
  show "changed \<longleftrightarrow> workspace S' \<noteq> workspace S \<or> disk_view S' \<noteq> disk_view S" if r: "res = Ok changed"
  proof -
    have "disk_view S' = disk_view S \<longleftrightarrow> \<not> removed \<and> (\<forall>(uri, d) \<in> set inc. disk_view S0 uri = Some (wd_entry d))"
    proof -
      have entry: "disk_view S' uri = map_option wd_entry (bt_get inc uri)" for uri
        by (simp add: view [OF r] inc_def incoming_documents_get)
      have kept': "disk_view S0 uri = (if bt_get inc uri = None then None else disk_view S uri)" for uri
        by (simp add: disk_view_def kept)
      have rem: "removed \<longleftrightarrow> (\<exists>uri. bt_get inc uri = None \<and> disk_view S uri \<noteq> None)"
        using bt_get_Some_iff [OF wf(2)] by (force simp: removed_def list_ex_iff disk_view_def)
      have "(\<forall>(uri, d) \<in> set inc. disk_view S0 uri = Some (wd_entry d)) \<longleftrightarrow>
          (\<forall>uri d. bt_get inc uri = Some d \<longrightarrow> disk_view S uri = Some (wd_entry d))"
        using bt_get_Some_iff [OF wf(1)] by (auto simp: kept' split: if_splits)
      moreover have "disk_view S' = disk_view S \<longleftrightarrow> (\<forall>uri. map_option wd_entry (bt_get inc uri) = disk_view S uri)"
        by (simp add: fun_eq_iff entry)
      moreover have "map_option wd_entry (bt_get inc uri) = disk_view S uri \<longleftrightarrow>
          \<not> (bt_get inc uri = None \<and> disk_view S uri \<noteq> None) \<and>
          (\<forall>d. bt_get inc uri = Some d \<longrightarrow> disk_view S uri = Some (wd_entry d))" for uri
        by (cases "bt_get inc uri"; cases "disk_view S uri") auto
      ultimately show ?thesis unfolding rem by (simp only:) blast
    qed
    moreover have "workspace S0 = Some (snapshot_context n)" by (simp add: S0_def)
    ultimately show ?thesis using each(4) each(5) [OF r] by auto
  qed
qed

subsection \<open>Sessions\<close>

text \<open>One request to the store, whether it succeeds or not.\<close>

inductive store_step :: "('p, 'h) FrontEnd \<Rightarrow> ('p, 'h) DocumentStore \<Rightarrow> ('p, 'h) DocumentStore \<Rightarrow> bool" for F where
  step_open: "did_open F uri v t S = (res, S') \<Longrightarrow> store_step F S S'"
| step_change: "did_change F uri v t S = (res, S') \<Longrightarrow> store_step F S S'"
| step_close: "did_close uri S = (res, S') \<Longrightarrow> store_step F S S'"
| step_replace: "replace_workspace_documents F n S = (res, S') \<Longrightarrow> store_step F S S'"

inductive store_session :: "('p, 'h) FrontEnd \<Rightarrow> ('p, 'h) DocumentStore \<Rightarrow> ('p, 'h) DocumentStore \<Rightarrow> bool" for F where
  session_here: "store_session F S S"
| session_step: "store_session F S S' \<Longrightarrow> store_step F S' S'' \<Longrightarrow> store_session F S S''"

lemma store_step_ok: "store_step F S S' \<Longrightarrow> store_ok F S \<Longrightarrow> store_ok F S' \<and> ids_grow S S'"
  by (induction rule: store_step.induct) (metis did_open_store did_change_store did_close_store replace_workspace_store(1,2))+

lemma store_ok_new: "store_ok F DocumentStore_new"
  by (simp add: store_ok_def ids_ok_def DocumentStore_new_def u32_max_def ran_def)

lemma store_session_ok: "store_session F S S' \<Longrightarrow> store_ok F S \<Longrightarrow> store_ok F S' \<and> ids_grow S S'"
proof (induction rule: store_session.induct)
  case (session_step S S' S'')
  then show ?case using store_step_ok unfolding ids_grow_def by (metis map_le_trans)
qed (simp add: ids_grow_def)

text \<open>
  C36: Through every sequence of requests, failing ones included, each document of the store, open or on
  disk, is what analysing its text under the source identifier of its URI gives, disk documents have
  version zero, distinct URIs have distinct identifiers below the next free one, and an identifier once
  given to a URI stays with it.
\<close>

theorem store_sessions_keep_invariant:
  assumes "store_session F DocumentStore_new S" and "store_session F S S'"
  shows "store_ok F S' \<and> bt_get (source_ids S) \<subseteq>\<^sub>m bt_get (source_ids S')"
proof -
  have "store_ok F S" using store_session_ok [OF assms(1) store_ok_new] by simp
  with store_session_ok [OF assms(2)] show ?thesis by (simp add: ids_grow_def)
qed

definition plain_front_end :: "(unit, unit) FrontEnd" where
  "plain_front_end =
     \<lparr>parse = \<lambda>i t. \<lparr>cst = (), parse_diagnostics = []\<rparr>, lower = \<lambda>c. \<lparr>lowered_file = (), lower_diagnostics = []\<rparr>,
      file_statements = \<lambda>f. [Declaration], compile = \<lambda>f. Ok ()\<rparr>"

lemma store_sessions_keep_invariant_witness:
  "\<exists>S S'. store_session plain_front_end DocumentStore_new S \<and> store_session plain_front_end S S' \<and>
     store_ok plain_front_end S' \<and> bt_get (source_ids S') [97] = Some 1"
proof -
  let ?S = "snd (did_open plain_front_end [97] 1 [98] DocumentStore_new)"
  let ?S' = "snd (did_change plain_front_end [97] 2 [99] ?S)"
  have reach: "store_session plain_front_end DocumentStore_new ?S" "store_session plain_front_end ?S ?S'"
    by (blast intro: session_here session_step step_open step_change prod.collapse [symmetric])+
  have "bt_get (source_ids ?S') [97] = Some 1" by code_simp
  with reach store_sessions_keep_invariant [OF reach] show ?thesis by blast
qed

text \<open>
  C37: Replacing the workspace with a snapshot, when it succeeds, leaves on disk exactly the snapshot's
  paths and texts (the last entry of a URI counts), keeps every editor buffer, and reports a change
  exactly when the context, a path or a text differs from before.
\<close>

theorem replacing_installs_snapshot:
  assumes "store_session F DocumentStore_new S" and "replace_workspace_documents F n S = (Ok changed, S')"
  shows "disk_view S' = snapshot_entry (snapshot_documents n) \<and> open_documents S' = open_documents S \<and>
    workspace S' = Some (snapshot_context n) \<and> (changed \<longleftrightarrow> workspace S' \<noteq> workspace S \<or> disk_view S' \<noteq> disk_view S)"
proof -
  have "store_ok F S" using store_session_ok [OF assms(1) store_ok_new] by simp
  from replace_workspace_store [OF this assms(2)] show ?thesis by simp
qed

definition small_snapshot :: WorkspaceSnapshot where
  "small_snapshot =
     \<lparr>snapshot_root_uri = [47], snapshot_current_directory = [], snapshot_search_paths = [], snapshot_complete = True,
      snapshot_documents = [\<lparr>wd_uri = [47, 97], wd_relative_path = [97], wd_text = [49]\<rparr>,
        \<lparr>wd_uri = [47, 97], wd_relative_path = [97], wd_text = [50]\<rparr>]\<rparr>"

lemma replacing_installs_snapshot_witness:
  "\<exists>S'. replace_workspace_documents plain_front_end small_snapshot DocumentStore_new = (Ok True, S') \<and>
     disk_view S' [47, 97] = Some ([97], [50])"
proof -
  let ?r = "replace_workspace_documents plain_front_end small_snapshot DocumentStore_new"
  have "fst ?r = Ok True" by code_simp
  then have run: "?r = (Ok True, snd ?r)" by (simp add: prod_eq_iff)
  have "snapshot_entry (snapshot_documents small_snapshot) [47, 97] = Some ([97], [50])" by code_simp
  with run replacing_installs_snapshot [OF session_here run] show ?thesis by metis
qed

subsection \<open>Editor buffers\<close>

text \<open>The abstract editor: a version and a text per open URI.\<close>

type_synonym Buffers = "str \<Rightarrow> (int \<times> str) option"

definition buffers :: "('p, 'h) DocumentStore \<Rightarrow> Buffers" where
  "buffers S uri = map_option (\<lambda>d. (version d, doc_text d)) (bt_get (open_documents S) uri)"

definition open_buffer :: "str \<Rightarrow> int \<Rightarrow> str \<Rightarrow> Buffers \<Rightarrow> Buffers option" where
  "open_buffer uri v t b = (if b uri = None then Some (b(uri \<mapsto> (v, t))) else None)"

definition change_buffer :: "str \<Rightarrow> int \<Rightarrow> str \<Rightarrow> Buffers \<Rightarrow> Buffers option" where
  "change_buffer uri v t b =
     (case b uri of None \<Rightarrow> None | Some (current, _) \<Rightarrow> if current < v then Some (b(uri \<mapsto> (v, t))) else None)"

definition close_buffer :: "str \<Rightarrow> Buffers \<Rightarrow> Buffers option" where
  "close_buffer uri b = (if b uri = None then None else Some (b(uri := None)))"

text \<open>A request refines an operation on the buffers: a result is the operation's, an error leaves the
  buffers and the snapshot alone and comes where the operation refuses, or from exhausted identifiers.\<close>

definition refines ::
  "('p, 'h) DocumentStore \<Rightarrow> Buffers option \<Rightarrow> (DocumentError, ('p, 'h) Document) result \<times> ('p, 'h) DocumentStore \<Rightarrow> bool" where
  "refines S spec run \<longleftrightarrow>
     disk (snd run) = disk S \<and> workspace (snd run) = workspace S \<and>
     (case fst run of
        Ok d \<Rightarrow> spec = Some (buffers (snd run))
      | Err e \<Rightarrow> buffers (snd run) = buffers S \<and> (spec = None \<or> e = SourceIdExhausted))"

text \<open>
  C9: Opening, changing and closing documents are the three operations on a map from URIs to versions
  and texts: a URI is opened once, a change needs an open URI and a larger version, only an open URI is
  closed; every refused request leaves the buffers and the disk snapshot as they are.
\<close>

theorem editor_requests_refine_buffers:
  "refines S (open_buffer uri v t (buffers S)) (did_open F uri v t S) \<and>
   refines S (change_buffer uri v t (buffers S)) (did_change F uri v t S) \<and>
   refines S (close_buffer uri (buffers S)) (did_close uri S)"
proof (intro conjI)
  show "refines S (open_buffer uri v t (buffers S)) (did_open F uri v t S)"
  proof (cases "bt_get (open_documents S) uri")
    case None
    obtain r S1 where id: "source_id_for uri S = (r, S1)" by (cases "source_id_for uri S")
    note s1 = source_id_for_store [OF id]
    have "r = Err e \<Longrightarrow> e = SourceIdExhausted" for e
      using id by (auto simp: source_id_for_def allocate_source_id_def Let_def split: option.splits if_splits)
    with None id s1(1-3) show ?thesis
      by (cases r) (auto simp: refines_def did_open_def open_buffer_def buffers_def bt_insert_get Let_def fun_eq_iff split: option.splits)
  qed (simp add: refines_def did_open_def open_buffer_def buffers_def)
  show "refines S (change_buffer uri v t (buffers S)) (did_change F uri v t S)"
    by (cases "bt_get (open_documents S) uri")
       (auto simp: refines_def did_change_def change_buffer_def buffers_def bt_insert_get Let_def fun_eq_iff)
  show "refines S (close_buffer uri (buffers S)) (did_close uri S)"
    by (cases "bt_get (open_documents S) uri")
       (auto simp: refines_def did_close_def close_buffer_def buffers_def bt_remove_get fun_eq_iff)
qed

subsection \<open>Paths stay below the root\<close>

lemma split_scalar_parts: "p \<in> set (split_scalar x s) \<Longrightarrow> x \<notin> set p \<and> set p \<subseteq> set s"
  by (induction x s arbitrary: p rule: split_scalar.induct) (fastforce split: if_splits list.splits)+

lemma path_components_Some:
  "path_components ps = Some qs \<Longrightarrow> qs = filter (\<lambda>p. p \<noteq> [] \<and> p \<noteq> [46]) ps \<and> [46, 46] \<notin> set ps"
  by (induction ps arbitrary: qs rule: path_components.induct) (auto split: if_splits)

lemma path_components_id: "\<forall>p \<in> set ps. p \<notin> {[], [46], [46, 46]} \<Longrightarrow> path_components ps = Some ps"
  by (induction ps rule: path_components.induct) auto

lemma split_scalar_not_Nil [simp]: "split_scalar x s \<noteq> []"
  by (induction x s rule: split_scalar.induct) (auto split: list.splits)

lemma split_scalar_plain: "x \<notin> set p \<Longrightarrow> split_scalar x p = [p]"
  by (induction p) auto

lemma split_scalar_append: "x \<notin> set p \<Longrightarrow> split_scalar x (p @ x # s) = p # split_scalar x s"
  by (induction p) auto

lemma split_join: "ps \<noteq> [] \<Longrightarrow> \<forall>p \<in> set ps. x \<notin> set p \<Longrightarrow> split_scalar x (join_scalar x ps) = ps"
  by (induction x ps rule: join_scalar.induct) (auto simp: split_scalar_plain split_scalar_append)

lemma set_join: "set (join_scalar x ps) \<subseteq> insert x (\<Union> (set ` set ps))"
  by (induction x ps rule: join_scalar.induct) auto

lemma normalized_relative_path_Some:
  assumes "normalized_relative_path path = Some p"
  shows "92 \<notin> set p" and "\<forall>c \<in> set (split_scalar 47 p). c \<notin> {[], [46], [46, 46]}" and "normalized_relative_path p = Some p"
proof -
  let ?s = "map (\<lambda>c. if c = 92 then 47 else c) path"
  obtain qs where qs: "path_components (split_scalar 47 ?s) = Some qs" "qs \<noteq> []" "p = join_scalar 47 qs"
    using assms by (auto simp: normalized_relative_path_def split: option.splits if_splits)
  note comps = path_components_Some [OF qs(1)]
  have parts: "47 \<notin> set q \<and> 92 \<notin> set q \<and> q \<notin> {[], [46], [46, 46]}" if "q \<in> set qs" for q
    using that comps split_scalar_parts [of q 47 ?s] by (fastforce split: if_splits)
  have split: "split_scalar 47 p = qs" unfolding qs(3) using qs(2) parts by (intro split_join) auto
  show plain: "92 \<notin> set p" using set_join [of 47 qs] parts qs(3) by auto
  show "\<forall>c \<in> set (split_scalar 47 p). c \<notin> {[], [46], [46, 46]}" unfolding split using parts by blast
  have "map (\<lambda>c. if c = 92 then 47 else c) p = p" using plain by (intro map_idI) auto
  moreover have "path_components qs = Some qs" using parts by (intro path_components_id) blast
  ultimately show "normalized_relative_path p = Some p" using qs(2,3) split by (simp add: normalized_relative_path_def)
qed

text \<open>
  C38: A path the store hands out for a URI never leaves the workspace root: it has a component, none of
  its components is empty, \<open>.\<close> or \<open>..\<close>, it has no backslash, whatever escapes the URI or the host's path
  had, and normalizing it again changes nothing.
\<close>

theorem workspace_paths_stay_inside:
  assumes "workspace_relative_path S uri = Some p"
  shows "92 \<notin> set p \<and> (\<forall>c \<in> set (split_scalar 47 p). c \<notin> {[], [46], [46, 46]}) \<and> normalized_relative_path p = Some p"
proof -
  obtain path where "normalized_relative_path path = Some p"
    using assms by (auto simp: workspace_relative_path_def bind_eq_Some_conv split: option.splits)
  from normalized_relative_path_Some [OF this] show ?thesis by blast
qed

text \<open>The URI \<open>/%2e/a%5Cb\<close> below the root \<open>/\<close>, of a file that is not in the snapshot.\<close>

lemma workspace_paths_stay_inside_witness:
  "workspace_relative_path
     (snd (replace_workspace_documents plain_front_end small_snapshot DocumentStore_new))
     [47, 37, 50, 101, 47, 97, 37, 53, 67, 98] = Some [97, 47, 98] \<and>
   normalized_relative_path [97, 47, 98] = Some [97, 47, 98]"
proof -
  have "workspace_relative_path (snd (replace_workspace_documents plain_front_end small_snapshot DocumentStore_new))
     [47, 37, 50, 101, 47, 97, 37, 53, 67, 98] = Some [97, 47, 98]" by code_simp
  with workspace_paths_stay_inside [OF this] show ?thesis by blast
qed

text \<open>A percent sign followed by a plus sign and one digit decodes too, though it is no escape.\<close>

lemma decode_uri_path_plus: "decode_uri_path [37, 43, 53] = Some [5]"
  by code_simp

end
