(* ===== verification/Lsp_Protocol.thy ===== *)
theory Lsp_Protocol
  imports Lsp_Store "HOL-Library.Monad_Syntax"
begin

section \<open>JSON values and protocol types (openmat-lsp/src/protocol.rs)\<close>

text \<open>
  JSON values as the \<open>serde_json\<close> documentation describes them, with objects as ordered maps, and the data
  types of the protocol with their translations to and from JSON (server.rs).
\<close>

subsection \<open>JSON values\<close>

datatype JsonNumber = PosInt nat | NegInt int | FloatBits nat

datatype JsonValue = JNull | JBool bool | JNumber JsonNumber | JString str | JArray "JsonValue list" | JObject "(str \<times> JsonValue) list"

fun json_get :: "JsonValue \<Rightarrow> str \<Rightarrow> JsonValue option" where
  "json_get (JObject m) k = bt_get m k"
| "json_get _ k = None"

fun as_str :: "JsonValue \<Rightarrow> str option" where
  "as_str (JString s) = Some s"
| "as_str _ = None"

fun as_array :: "JsonValue \<Rightarrow> JsonValue list option" where
  "as_array (JArray vs) = Some vs"
| "as_array _ = None"

fun as_bool :: "JsonValue \<Rightarrow> bool option" where
  "as_bool (JBool b) = Some b"
| "as_bool _ = None"

fun as_u64 :: "JsonValue \<Rightarrow> nat option" where
  "as_u64 (JNumber (PosInt n)) = Some n"
| "as_u64 _ = None"

fun as_i64 :: "JsonValue \<Rightarrow> int option" where
  "as_i64 (JNumber (PosInt n)) = (if n \<le> 9223372036854775807 then Some (int n) else None)"
| "as_i64 (JNumber (NegInt i)) = Some i"
| "as_i64 _ = None"

fun is_object :: "JsonValue \<Rightarrow> bool" where
  "is_object (JObject m) \<longleftrightarrow> True"
| "is_object _ \<longleftrightarrow> False"

definition i32_from :: "int \<Rightarrow> int option" where
  "i32_from i = (if - 2147483648 \<le> i \<and> i \<le> 2147483647 then Some i else None)"

definition u32_from :: "nat \<Rightarrow> nat option" where
  "u32_from n = (if n \<le> u32_max then Some n else None)"

text \<open>An object literal, and an assignment to a key of an object.\<close>

definition jobject :: "(str \<times> JsonValue) list \<Rightarrow> JsonValue" where
  "jobject kvs = JObject (fold (\<lambda>(k, v). bt_insert k v) kvs [])"

fun json_set :: "str \<Rightarrow> JsonValue \<Rightarrow> JsonValue \<Rightarrow> JsonValue" where
  "json_set k v (JObject m) = JObject (bt_insert k v m)"
| "json_set k v other = other"

definition jstr :: "string \<Rightarrow> JsonValue" where
  "jstr s = JString (ascii s)"

definition jnat :: "nat \<Rightarrow> JsonValue" where
  "jnat n = JNumber (PosInt n)"

definition jint :: "int \<Rightarrow> JsonValue" where
  "jint i = JNumber (if 0 \<le> i then PosInt (nat i) else NegInt i)"

definition field :: "string \<Rightarrow> JsonValue \<Rightarrow> JsonValue option" where
  "field k v = json_get v (ascii k)"

subsection \<open>The types of the protocol\<close>

record Range =
  start_position :: Position
  end_position :: Position

datatype DiagnosticSeverity = DsError | DsWarning | DsInformation

fun diagnostic_severity_value :: "DiagnosticSeverity \<Rightarrow> nat" where
  "diagnostic_severity_value DsError = 1"
| "diagnostic_severity_value DsWarning = 2"
| "diagnostic_severity_value DsInformation = 3"

record LspDiagnostic =
  ld_range :: Range
  ld_severity :: DiagnosticSeverity
  ld_code :: "str option"
  ld_message :: str

datatype SymbolKind = SkClass | SkMethod | SkProperty | SkFunction

fun symbol_kind_value :: "SymbolKind \<Rightarrow> nat" where
  "symbol_kind_value SkClass = 5"
| "symbol_kind_value SkMethod = 6"
| "symbol_kind_value SkProperty = 7"
| "symbol_kind_value SkFunction = 12"

datatype DocumentSymbol = DocumentSymbol str "str option" SymbolKind Range Range "DocumentSymbol list"

record Hover =
  markdown :: str
  hover_range :: Range

datatype CompletionKind = CkMethod | CkFunction | CkProperty | CkClass | CkVariable | CkKeyword

fun completion_kind_value :: "CompletionKind \<Rightarrow> nat" where
  "completion_kind_value CkMethod = 2"
| "completion_kind_value CkFunction = 3"
| "completion_kind_value CkVariable = 6"
| "completion_kind_value CkClass = 7"
| "completion_kind_value CkProperty = 10"
| "completion_kind_value CkKeyword = 14"

record TextEdit =
  edit_range :: Range
  new_text :: str

record Location =
  location_uri :: str
  location_range :: Range

record PrepareRename =
  rename_range :: Range
  placeholder :: str

record DocumentEdit =
  de_uri :: str
  de_version :: "int option"
  de_edits :: "TextEdit list"

record FileRename =
  old_uri :: str
  new_uri :: str

record WorkspaceEdit =
  document_changes :: "DocumentEdit list"
  file_renames :: "FileRename list"

record CompletionItem =
  item_label :: str
  item_kind :: CompletionKind
  item_detail :: str
  item_text_edit :: TextEdit
  item_uri :: str
  item_version :: int

record CompletionResolution =
  resolution_detail :: str
  resolution_markdown :: str

record WorkspaceSymbol =
  ws_name :: str
  ws_kind :: SymbolKind
  ws_location :: Location
  ws_container :: "str option"

record CodeAction =
  action_title :: str
  action_kind :: str
  action_diagnostics :: "LspDiagnostic list"
  action_edit :: WorkspaceEdit
  is_preferred :: bool

definition SEMANTIC_TOKEN_TYPES :: "str list" where
  "SEMANTIC_TOKEN_TYPES =
     map ascii [''keyword'', ''function'', ''method'', ''class'', ''property'', ''parameter'', ''variable'', ''number'',
       ''string'', ''comment'', ''operator'']"

definition workspace_edit_from_changes :: "(str \<times> int option, TextEdit list) btree \<Rightarrow> WorkspaceEdit" where
  "workspace_edit_from_changes changes =
     \<lparr>document_changes = map (\<lambda>((uri, v), edits). \<lparr>de_uri = uri, de_version = v, de_edits = edits\<rparr>) changes,
      file_renames = []\<rparr>"

subsection \<open>Positions and ranges as JSON\<close>

definition position_value :: "Position \<Rightarrow> JsonValue" where
  "position_value p = jobject [(ascii ''line'', jnat (line p)), (ascii ''character'', jnat (character p))]"

definition lsp_range_value :: "Range \<Rightarrow> JsonValue" where
  "lsp_range_value r = jobject [(ascii ''start'', position_value (start_position r)), (ascii ''end'', position_value (end_position r))]"

definition position_from_value :: "JsonValue \<Rightarrow> Position option" where
  "position_from_value v = do {
     l \<leftarrow> field ''line'' v; l' \<leftarrow> as_u64 l; l'' \<leftarrow> u32_from l';
     c \<leftarrow> field ''character'' v; c' \<leftarrow> as_u64 c; c'' \<leftarrow> u32_from c';
     Some \<lparr>line = l'', character = c''\<rparr> }"

definition range_from_value :: "JsonValue \<Rightarrow> Range option" where
  "range_from_value v = do {
     s \<leftarrow> field ''start'' v; s' \<leftarrow> position_from_value s;
     e \<leftarrow> field ''end'' v; e' \<leftarrow> position_from_value e;
     Some \<lparr>start_position = s', end_position = e'\<rparr> }"

definition diagnostic_value :: "LspDiagnostic \<Rightarrow> JsonValue" where
  "diagnostic_value d =
     (let v = jobject [(ascii ''range'', lsp_range_value (ld_range d)),
                (ascii ''severity'', jnat (diagnostic_severity_value (ld_severity d))),
                (ascii ''source'', jstr ''openmat''), (ascii ''message'', JString (ld_message d))]
      in case ld_code d of None \<Rightarrow> v | Some c \<Rightarrow> json_set (ascii ''code'') (JString c) v)"

definition diagnostic_from_value :: "JsonValue \<Rightarrow> LspDiagnostic option" where
  "diagnostic_from_value v =
     (let sev = (case Option.bind (field ''severity'' v) as_u64 of
                   Some n \<Rightarrow> if n = 1 then DsError else if n = 2 then DsWarning else DsInformation
                 | None \<Rightarrow> DsInformation)
      in do {
        r \<leftarrow> field ''range'' v;
        r' \<leftarrow> range_from_value r;
        Some \<lparr>ld_range = r', ld_severity = sev, ld_code = Option.bind (field ''code'' v) as_str,
              ld_message = (case Option.bind (field ''message'' v) as_str of Some m \<Rightarrow> m | None \<Rightarrow> [])\<rparr> })"

fun document_symbol_value :: "DocumentSymbol \<Rightarrow> JsonValue" where
  "document_symbol_value (DocumentSymbol name detail kind whole selection children) =
     (let v = jobject [(ascii ''name'', JString name), (ascii ''kind'', jnat (symbol_kind_value kind)),
                (ascii ''range'', lsp_range_value whole), (ascii ''selectionRange'', lsp_range_value selection),
                (ascii ''children'', JArray (map document_symbol_value children))]
      in case detail of None \<Rightarrow> v | Some d \<Rightarrow> json_set (ascii ''detail'') (JString d) v)"

definition hover_value :: "Hover \<Rightarrow> JsonValue" where
  "hover_value h =
     jobject [(ascii ''contents'', jobject [(ascii ''kind'', jstr ''markdown''), (ascii ''value'', JString (markdown h))]),
       (ascii ''range'', lsp_range_value (hover_range h))]"

definition text_edit_value :: "TextEdit \<Rightarrow> JsonValue" where
  "text_edit_value e = jobject [(ascii ''range'', lsp_range_value (edit_range e)), (ascii ''newText'', JString (new_text e))]"

definition completion_item_value :: "CompletionItem \<Rightarrow> JsonValue" where
  "completion_item_value i =
     jobject [(ascii ''label'', JString (item_label i)), (ascii ''kind'', jnat (completion_kind_value (item_kind i))),
       (ascii ''detail'', JString (item_detail i)), (ascii ''textEdit'', text_edit_value (item_text_edit i)),
       (ascii ''data'', jobject [(ascii ''uri'', JString (item_uri i)), (ascii ''version'', jint (item_version i))])]"

definition location_value :: "Location \<Rightarrow> JsonValue" where
  "location_value l = jobject [(ascii ''uri'', JString (location_uri l)), (ascii ''range'', lsp_range_value (location_range l))]"

definition workspace_symbol_value :: "WorkspaceSymbol \<Rightarrow> JsonValue" where
  "workspace_symbol_value s =
     (let v = jobject [(ascii ''name'', JString (ws_name s)), (ascii ''kind'', jnat (symbol_kind_value (ws_kind s))),
                (ascii ''location'', location_value (ws_location s))]
      in case ws_container s of None \<Rightarrow> v | Some c \<Rightarrow> json_set (ascii ''containerName'') (JString c) v)"

definition prepare_rename_value :: "PrepareRename \<Rightarrow> JsonValue" where
  "prepare_rename_value p =
     jobject [(ascii ''range'', lsp_range_value (rename_range p)), (ascii ''placeholder'', JString (placeholder p))]"

definition document_edit_value :: "DocumentEdit \<Rightarrow> JsonValue" where
  "document_edit_value e =
     jobject [(ascii ''textDocument'',
         jobject [(ascii ''uri'', JString (de_uri e)),
           (ascii ''version'', case de_version e of None \<Rightarrow> JNull | Some v \<Rightarrow> jint v)]),
       (ascii ''edits'', JArray (map text_edit_value (de_edits e)))]"

definition file_rename_value :: "FileRename \<Rightarrow> JsonValue" where
  "file_rename_value r =
     jobject [(ascii ''kind'', jstr ''rename''), (ascii ''oldUri'', JString (old_uri r)),
       (ascii ''newUri'', JString (new_uri r)), (ascii ''options'', jobject [(ascii ''overwrite'', JBool False)])]"

definition workspace_edit_value :: "WorkspaceEdit \<Rightarrow> JsonValue" where
  "workspace_edit_value e =
     jobject [(ascii ''documentChanges'',
       JArray (map document_edit_value (document_changes e) @ map file_rename_value (file_renames e)))]"

definition code_action_value :: "CodeAction \<Rightarrow> JsonValue" where
  "code_action_value a =
     jobject [(ascii ''title'', JString (action_title a)), (ascii ''kind'', JString (action_kind a)),
       (ascii ''diagnostics'', JArray (map diagnostic_value (action_diagnostics a))),
       (ascii ''isPreferred'', JBool (is_preferred a)), (ascii ''edit'', workspace_edit_value (action_edit a))]"

subsection \<open>Reading back\<close>

text \<open>Literal objects answer their keys; keys are compared as they are written.\<close>

lemma jobject_get: "json_get (jobject kvs) k = map_of (rev kvs) k"
proof -
  have "bt_get (fold (\<lambda>(k, v). bt_insert k v) kvs m) k = (bt_get m ++ map_of (rev kvs)) k" for m
    by (induction kvs arbitrary: m) (auto simp: bt_insert_get map_add_def split: option.splits)
  from this [of "[]"] show ?thesis by (simp add: jobject_def bt_get_map_of)
qed

lemma field_jobject: "field k (jobject kvs) = map_of (rev kvs) (ascii k)"
  by (simp add: field_def jobject_get)

definition position_ok :: "Position \<Rightarrow> bool" where
  "position_ok p \<longleftrightarrow> line p \<le> u32_max \<and> character p \<le> u32_max"

lemma position_reads_back: "position_ok p \<Longrightarrow> position_from_value (position_value p) = Some p"
  by (simp add: position_from_value_def position_value_def field_jobject position_ok_def jnat_def u32_from_def)

lemma range_reads_back:
  "position_ok (start_position r) \<Longrightarrow> position_ok (end_position r) \<Longrightarrow> range_from_value (lsp_range_value r) = Some r"
  by (simp add: range_from_value_def lsp_range_value_def field_jobject position_reads_back)

lemma is_object_jobject [simp]: "is_object (jobject kvs)"
  by (simp add: jobject_def)

lemma json_get_set: "is_object v \<Longrightarrow> json_get (json_set k x v) j = (if j = k then Some x else json_get v j)"
  by (cases v) (simp_all add: bt_insert_get)

lemma field_json_set: "is_object v \<Longrightarrow> field j (json_set (ascii k) x v) = (if ascii j = ascii k then Some x else field j v)"
  by (simp add: field_def json_get_set)

text \<open>A diagnostic sent to the client and sent back with a code action is the same one.\<close>

lemma diagnostic_reads_back:
  assumes "position_ok (start_position (ld_range d))" and "position_ok (end_position (ld_range d))"
  shows "diagnostic_from_value (diagnostic_value d) = Some d"
proof -
  let ?v = "diagnostic_value d"
  have "field ''range'' ?v = Some (lsp_range_value (ld_range d))" "field ''message'' ?v = Some (JString (ld_message d))"
    "field ''severity'' ?v = Some (jnat (diagnostic_severity_value (ld_severity d)))"
    "field ''code'' ?v = map_option JString (ld_code d)"
    by (auto simp: diagnostic_value_def Let_def field_json_set field_jobject split: option.splits)
  with range_reads_back [OF assms] show ?thesis
    by (cases d; cases "ld_severity d"; cases "ld_code d") (simp_all add: diagnostic_from_value_def jnat_def)
qed

end
