(* ===== verification/Lsp_Transport.thy ===== *)
theory Lsp_Transport
  imports Rust_Str
begin

section \<open>Message framing of the language server (openmat-lsp/src/transport.rs)\<close>

text \<open>
  Reading and writing of messages framed by a \<open>Content-Length\<close> header. A reader is the bytes that are
  still to come and a script of how the underlying stream behaves: each call of the reader either fails
  or delivers some of the bytes, as many as the script says; behind its end the stream delivers all it
  is asked for. A writer is the list of the bytes written to it.
\<close>

subsection \<open>Readers\<close>

datatype 'e Outcome = Deliver nat | Fail 'e

record 'e Reader =
  pending :: bytes
  script :: "'e Outcome list"

definition next_outcome :: "'e Reader \<Rightarrow> 'e Outcome" where
  "next_outcome r = (case script r of [] \<Rightarrow> Deliver (length (pending r)) | x # _ \<Rightarrow> x)"

definition advance :: "nat \<Rightarrow> 'e Reader \<Rightarrow> 'e Reader" where
  "advance n r = r\<lparr>pending := drop n (pending r), script := tl (script r)\<rparr>"

text \<open>\<open>read_until\<close> goes on until the delimiter or the end of the stream.\<close>

definition line_length :: "bytes \<Rightarrow> nat" where
  "line_length bs = (let n = length (takeWhile (\<lambda>b. b \<noteq> 10) bs) in if n < length bs then Suc n else n)"

definition read_until :: "'e Reader \<Rightarrow> ('e, bytes) result \<times> 'e Reader" where
  "read_until r =
     (case next_outcome r of
        Fail e \<Rightarrow> (Err e, advance 0 r)
      | Deliver _ \<Rightarrow> (Ok (take (line_length (pending r)) (pending r)), advance (line_length (pending r)) r))"

text \<open>\<open>read\<close> fills some of the buffer, nothing only at the end of the stream.\<close>

definition read_some :: "nat \<Rightarrow> 'e Reader \<Rightarrow> ('e, bytes) result \<times> 'e Reader" where
  "read_some room r =
     (case next_outcome r of
        Fail e \<Rightarrow> (Err e, advance 0 r)
      | Deliver k \<Rightarrow>
          let n = min (max 1 k) (min room (length (pending r))) in (Ok (take n (pending r)), advance n r))"

subsection \<open>Text of a header\<close>

definition trim :: "str \<Rightarrow> str" where
  "trim s = rev (dropWhile is_whitespace (rev (dropWhile is_whitespace s)))"

definition to_ascii_lowercase :: "scalar \<Rightarrow> scalar" where
  "to_ascii_lowercase c = (if 65 \<le> c \<and> c \<le> 90 then c + 32 else c)"

definition eq_ignore_ascii_case :: "str \<Rightarrow> str \<Rightarrow> bool" where
  "eq_ignore_ascii_case s t \<longleftrightarrow> map to_ascii_lowercase s = map to_ascii_lowercase t"

definition split_once :: "scalar \<Rightarrow> str \<Rightarrow> (str \<times> str) option" where
  "split_once c s = (if c \<in> set s then Some (takeWhile (\<lambda>d. d \<noteq> c) s, tl (dropWhile (\<lambda>d. d \<noteq> c) s)) else None)"

text \<open>\<open>str::parse\<close> and \<open>Display\<close> for \<open>usize\<close>.\<close>

definition push_digit :: "nat \<Rightarrow> scalar \<Rightarrow> nat" where
  "push_digit acc c = acc * 10 + (c - 48)"

fun parse_digits :: "nat \<Rightarrow> str \<Rightarrow> nat option" where
  "parse_digits acc [] = Some acc"
| "parse_digits acc (c # cs) =
     (if 48 \<le> c \<and> c \<le> 57 \<and> push_digit acc c \<le> usize_max then parse_digits (push_digit acc c) cs else None)"

definition parse_usize :: "str \<Rightarrow> nat option" where
  "parse_usize s =
     (let digits = (case s of c # cs \<Rightarrow> if c = 43 then cs else s | [] \<Rightarrow> []) in
      if digits = [] then None else parse_digits 0 digits)"

function show_usize :: "nat \<Rightarrow> str" where
  "show_usize n = (if n < 10 then [48 + n] else show_usize (n div 10) @ [48 + n mod 10])"
  by pat_completeness auto
termination
  by (relation "measure id") auto

declare show_usize.simps [simp del]

subsection \<open>Messages\<close>

definition MAX_MESSAGE_BYTES :: nat where
  "MAX_MESSAGE_BYTES = 16777216"

definition MAX_HEADER_LINE_BYTES :: nat where
  "MAX_HEADER_LINE_BYTES = 8192"

datatype 'e FramingError =
    Io 'e | HeaderTooLarge | InvalidHeader str | MissingContentLength | DuplicateContentLength | InvalidContentLength str
  | MessageTooLarge nat nat | UnexpectedHeaderEof | UnexpectedBodyEof nat nat

definition strip_line :: "bytes \<Rightarrow> bytes" where
  "strip_line line =
     (let l = (if line \<noteq> [] \<and> last line = 10 then butlast line else line) in
      if l \<noteq> [] \<and> last l = 13 then butlast l else l)"

text \<open>One header line, with the content length seen so far.\<close>

definition parse_header :: "nat option \<Rightarrow> bytes \<Rightarrow> ('e FramingError, nat option) result" where
  "parse_header content_length line =
     and_then (ok_or (InvalidHeader (ascii ''non-UTF-8 header'')) (from_utf8 line)) (\<lambda>header.
     and_then (ok_or (InvalidHeader header) (split_once 58 header)) (\<lambda>(name, value).
       if eq_ignore_ascii_case (trim name) (ascii ''content-length'') then
         and_then (ensure (content_length = None) DuplicateContentLength) (\<lambda>_.
         and_then (ok_or (InvalidContentLength (trim value)) (parse_usize (trim value))) (\<lambda>n.
         and_then (ensure (n \<le> MAX_MESSAGE_BYTES) (MessageTooLarge n MAX_MESSAGE_BYTES)) (\<lambda>_. Ok (Some n))))
       else Ok content_length))"

lemma read_until_shorter: "read_until r = (Ok line, r') \<Longrightarrow> line \<noteq> [] \<Longrightarrow> length (pending r') < length (pending r)"
  by (auto simp: read_until_def advance_def line_length_def Let_def split: Outcome.splits)

text \<open>The header lines; the result is \<open>None\<close> at the end of the stream.\<close>

function read_headers :: "'e Reader \<Rightarrow> nat option \<Rightarrow> bool \<Rightarrow> ('e FramingError, nat option option) result \<times> 'e Reader" where
  "read_headers r content_length read_any =
     (case read_until r of
        (Inl e, r') \<Rightarrow> (Err (Io e), r')
      | (Inr line, r') \<Rightarrow>
          if line = [] then (if read_any then Err UnexpectedHeaderEof else Ok None, r')
          else if MAX_HEADER_LINE_BYTES < length line then (Err HeaderTooLarge, r')
          else if strip_line line = [] then (Ok (Some content_length), r')
          else (case parse_header content_length (strip_line line) of
                  Inl e \<Rightarrow> (Err e, r')
                | Inr content_length' \<Rightarrow> read_headers r' content_length' True))"
  by pat_completeness auto
termination
  by (relation "measure (\<lambda>(r, _). length (pending r))") (auto dest: read_until_shorter [OF sym])

declare read_headers.simps [simp del]

function read_body :: "nat \<Rightarrow> bytes \<Rightarrow> 'e Reader \<Rightarrow> ('e FramingError, bytes) result \<times> 'e Reader" where
  "read_body expected received r =
     (if length received < expected then
        (case read_some (expected - length received) r of
           (Inl e, r') \<Rightarrow> (Err (Io e), r')
         | (Inr bs, r') \<Rightarrow>
             if bs = [] then (Err (UnexpectedBodyEof expected (length received)), r')
             else read_body expected (received @ bs) r')
      else (Ok received, r))"
  by pat_completeness auto
termination
  by (relation "measure (\<lambda>(expected, received, _). expected - length received)") (auto intro!: diff_less_mono2)

declare read_body.simps [simp del]

definition read_message :: "'e Reader \<Rightarrow> ('e FramingError, bytes option) result \<times> 'e Reader" where
  "read_message r =
     (case read_headers r None False of
        (Inl e, r') \<Rightarrow> (Err e, r')
      | (Inr None, r') \<Rightarrow> (Ok None, r')
      | (Inr (Some None), r') \<Rightarrow> (Err MissingContentLength, r')
      | (Inr (Some (Some n)), r') \<Rightarrow>
          (case read_body n [] r' of (Inl e, r'') \<Rightarrow> (Err e, r'') | (Inr body, r'') \<Rightarrow> (Ok (Some body), r'')))"

definition write_message :: "bytes \<Rightarrow> bytes \<Rightarrow> bytes" where
  "write_message written body =
     written @ as_bytes (ascii ''Content-Length: '' @ show_usize (length body)) @ [13, 10, 13, 10] @ body"

subsection \<open>Numbers are read back\<close>

lemma show_usize_digits: "show_usize n \<noteq> [] \<and> (\<forall>c\<in>set (show_usize n). 48 \<le> c \<and> c \<le> 57)"
proof (induction n rule: show_usize.induct)
  case (1 n)
  then show ?case by (auto simp: show_usize.simps [of n])
qed

lemma parse_digits_append:
  "parse_digits acc (s @ t) = Option.bind (parse_digits acc s) (\<lambda>n. parse_digits n t)"
  by (induction acc s rule: parse_digits.induct) simp_all

lemma parse_show_digits: "n \<le> usize_max \<Longrightarrow> parse_digits 0 (show_usize n) = Some n"
proof (induction n rule: show_usize.induct)
  case (1 n)
  show ?case
  proof (cases "n < 10")
    case False
    with 1 have "parse_digits 0 (show_usize (n div 10)) = Some (n div 10)" by simp
    moreover have "push_digit (n div 10) (48 + n mod 10) = n" by (simp add: push_digit_def)
    ultimately show ?thesis using False 1(2) by (simp add: show_usize.simps [of n] parse_digits_append)
  qed (use 1(2) in \<open>simp add: show_usize.simps [of n] push_digit_def\<close>)
qed

lemma parse_show_usize: "n \<le> usize_max \<Longrightarrow> parse_usize (show_usize n) = Some n"
proof -
  assume n: "n \<le> usize_max"
  obtain c cs where "show_usize n = c # cs" using show_usize_digits [of n] by (cases "show_usize n") auto
  with show_usize_digits [of n] parse_show_digits [OF n] show ?thesis by (auto simp: parse_usize_def)
qed

subsection \<open>Reading back what was written\<close>

text \<open>The stream does not fail.\<close>

definition reliable :: "'e Reader \<Rightarrow> bool" where
  "reliable r \<longleftrightarrow> (\<forall>e. Fail e \<notin> set (script r))"

lemma reliable_next: "reliable r \<Longrightarrow> \<exists>k. next_outcome r = Deliver k"
  unfolding reliable_def next_outcome_def by (cases "script r") (auto, metis Outcome.exhaust)

lemma reliable_advance [simp]: "reliable r \<Longrightarrow> reliable (advance n r)"
  by (cases "script r") (auto simp: reliable_def advance_def)

lemma pending_advance [simp]: "pending (advance n r) = drop n (pending r)"
  by (simp add: advance_def)

lemma read_until_line:
  assumes "reliable r" and "pending r = line @ 10 # rest" and "10 \<notin> set line"
  shows "\<exists>r'. read_until r = (Ok (line @ [10]), r') \<and> reliable r' \<and> pending r' = rest"
proof -
  from reliable_next [OF assms(1)] obtain k where "next_outcome r = Deliver k" by blast
  moreover have "line_length (pending r) = Suc (length line)"
  proof -
    have "takeWhile (\<lambda>b. b \<noteq> 10) (line @ 10 # rest) = line" using assms(3) by (subst takeWhile_append2) auto
    then show ?thesis by (simp add: line_length_def Let_def assms(2))
  qed
  ultimately show ?thesis using assms by (simp add: read_until_def)
qed

lemma read_body_complete:
  assumes "reliable r" and "pending r = body @ rest"
  shows "\<exists>r'. read_body (length received + length body) received r = (Ok (received @ body), r') \<and> reliable r' \<and> pending r' = rest"
  using assms
proof (induction body arbitrary: received r rule: length_induct)
  case (1 body)
  note less = 1
  show ?case
  proof (cases "body = []")
    case True
    with less show ?thesis by (simp add: read_body.simps)
  next
    case False
    from reliable_next [OF less(2)] obtain k where "next_outcome r = Deliver k" by blast
    define n where "n = min (max 1 k) (length body)"
    with False have n: "0 < n" "n \<le> length body" by auto
    have some: "read_some (length body) r = (Ok (take n body), advance n r)"
      using \<open>next_outcome r = Deliver k\<close> less(3) by (simp add: read_some_def n_def min_def Let_def)
    have "\<exists>r'. read_body (length (received @ take n body) + length (drop n body)) (received @ take n body) (advance n r) =
        (Ok ((received @ take n body) @ drop n body), r') \<and> reliable r' \<and> pending r' = rest"
      using n less(1) [rule_format, of "drop n body" "advance n r" "received @ take n body"] less(2,3) by simp
    then show ?thesis
      using n False some by (simp add: read_body.simps [of "length received + length body" received r] min_absorb2)
  qed
qed

lemma ascii_bytes: "\<forall>c\<in>set s. c < 128 \<Longrightarrow> as_bytes s = s"
  by (induction s) (auto simp: as_bytes_def utf8_def)

lemma strip_line_crlf: "strip_line (line @ [13, 10]) = line" "strip_line [13, 10] = []"
  by (simp_all add: strip_line_def butlast_append)

lemma from_utf8_ascii: "\<forall>c\<in>set s. c < 128 \<Longrightarrow> from_utf8 s = Some s"
  using from_utf8_as_bytes [of s] ascii_bytes [of s] by (force simp: scalar_ok_def)

lemma trim_digits:
  assumes "\<forall>c\<in>set s. 48 \<le> c \<and> c \<le> 57"
  shows "trim (32 # s) = s"
proof -
  have digit: "\<not> is_whitespace c" if "c \<in> set s" for c using assms that by (auto simp: is_whitespace_def)
  have "dropWhile is_whitespace t = t" if "set t \<subseteq> set s" for t
    using that digit by (cases t) auto
  moreover have "is_whitespace 32" by (simp add: is_whitespace_def)
  ultimately show ?thesis by (simp add: trim_def)
qed

lemma length_header_name: "ascii ''Content-Length: '' = ascii ''Content-Length'' @ [58, 32]"
  by (simp add: ascii_def)

lemma parse_written_header:
  assumes "n \<le> MAX_MESSAGE_BYTES"
  shows "parse_header None (ascii ''Content-Length: '' @ show_usize n) = Ok (Some n)"
proof -
  let ?name = "ascii ''Content-Length''"
  note digits = show_usize_digits [of n]
  have name: "\<forall>c\<in>set ?name. c < 128 \<and> c \<noteq> 58" "trim ?name = ?name" "eq_ignore_ascii_case ?name (ascii ''content-length'')"
    by (simp_all add: ascii_def trim_def is_whitespace_def eq_ignore_ascii_case_def to_ascii_lowercase_def)
  have "\<forall>c\<in>set (ascii ''Content-Length: '' @ show_usize n). c < 128"
    using name(1) digits by (force simp: length_header_name)
  then have utf8: "from_utf8 (ascii ''Content-Length: '' @ show_usize n) = Some (ascii ''Content-Length: '' @ show_usize n)"
    by (rule from_utf8_ascii)
  have split: "split_once 58 (ascii ''Content-Length: '' @ show_usize n) = Some (?name, 32 # show_usize n)"
    using name(1) by (auto simp: split_once_def length_header_name takeWhile_append2 dropWhile_append2)
  have "n \<le> usize_max" using assms by (simp add: MAX_MESSAGE_BYTES_def usize_max_def)
  with parse_show_usize trim_digits [of "show_usize n"] digits assms name(2,3) show ?thesis
    by (simp add: parse_header_def utf8 split)
qed

lemma length_show_usize: "n < 10 ^ k \<Longrightarrow> 0 < k \<Longrightarrow> length (show_usize n) \<le> k"
proof (induction n arbitrary: k rule: show_usize.induct)
  case (1 n)
  show ?case
  proof (cases "n < 10")
    case False
    with 1(2,3) have "1 < k" by (cases "k = 1") auto
    then obtain j where "k = Suc j" "0 < j" by (cases k) auto
    with 1(1) [OF False, of j] 1(2) False show ?thesis by (simp add: show_usize.simps [of n] less_mult_imp_div_less mult.commute)
  qed (use 1(3) in \<open>simp add: show_usize.simps [of n]\<close>)
qed

lemma read_written:
  assumes "reliable r" and "pending r = write_message [] body @ rest" and "length body \<le> MAX_MESSAGE_BYTES"
  shows "\<exists>r'. read_message r = (Ok (Some body), r') \<and> reliable r' \<and> pending r' = rest"
proof -
  let ?header = "ascii ''Content-Length: '' @ show_usize (length body)"
  have digits: "\<forall>c\<in>set ?header. c < 128 \<and> c \<noteq> 10 \<and> c \<noteq> 13"
    using show_usize_digits [of "length body"] by (force simp: ascii_def)
  have bytes: "as_bytes ?header = ?header" using digits by (intro ascii_bytes) blast
  with assms(2) have "pending r = (?header @ [13]) @ 10 # ([13] @ 10 # body @ rest)" by (simp add: write_message_def)
  from read_until_line [OF assms(1) this] digits obtain r1 where
      r1: "read_until r = (Ok (?header @ [13, 10]), r1)" "reliable r1" "pending r1 = [13] @ 10 # body @ rest" by auto
  from read_until_line [OF r1(2,3)] obtain r2 where
      r2: "read_until r1 = (Ok [13, 10], r2)" "reliable r2" "pending r2 = body @ rest" by auto
  from read_body_complete [OF r2(2,3), of "[]"] obtain r3 where
      r3: "read_body (length body) [] r2 = (Ok body, r3)" "reliable r3" "pending r3 = rest" by auto
  have "length (show_usize (length body)) \<le> 9"
    using assms(3) by (intro length_show_usize) (simp_all add: MAX_MESSAGE_BYTES_def)
  then have short: "length (?header @ [13, 10]) \<le> MAX_HEADER_LINE_BYTES" by (simp add: MAX_HEADER_LINE_BYTES_def ascii_def)
  have "read_headers r1 (Some (length body)) True = (Ok (Some (Some (length body))), r2)"
    using r2(1) by (simp add: read_headers.simps [of r1] strip_line_crlf MAX_HEADER_LINE_BYTES_def)
  moreover have "?header \<noteq> []" by (simp add: ascii_def)
  moreover have "strip_line (ascii ''Content-Length: '' @ show_usize (length body) @ [13, 10]) = ?header"
    using strip_line_crlf(1) [of ?header] by simp
  ultimately have "read_headers r None False = (Ok (Some (Some (length body))), r2)"
    using r1(1) short by (simp add: read_headers.simps [of r] parse_written_header [OF assms(3)])
  with r3 show ?thesis by (simp add: read_message_def)
qed

subsection \<open>What a message that was read is\<close>

lemma read_until_pending: "read_until r = (Ok line, r') \<Longrightarrow> pending r = line @ pending r'"
  by (auto simp: read_until_def advance_def split: Outcome.splits)

lemma read_some_pending: "read_some room r = (Ok bs, r') \<Longrightarrow> pending r = bs @ pending r' \<and> length bs \<le> room"
  by (auto simp: read_some_def advance_def Let_def split: Outcome.splits)

lemma parse_header_bound:
  "parse_header content_length line = Ok (Some n) \<Longrightarrow> \<forall>m\<in>set_option content_length. m \<le> MAX_MESSAGE_BYTES \<Longrightarrow> n \<le> MAX_MESSAGE_BYTES"
  by (auto simp: parse_header_def result_simps split: if_splits)

lemma read_headers_bound:
  fixes r :: "'e Reader"
  shows "read_headers r content_length read_any = (Ok (Some (Some n)), r') \<Longrightarrow> \<forall>m\<in>set_option content_length. m \<le> MAX_MESSAGE_BYTES \<Longrightarrow>
     n \<le> MAX_MESSAGE_BYTES \<and> (\<exists>header. header \<noteq> [] \<and> pending r = header @ pending r')"
proof (induction r content_length read_any rule: read_headers.induct)
  case (1 r content_length read_any)
  from 1(2) obtain line r1 where line: "read_until r = (Ok line, r1)" "line \<noteq> []" "\<not> MAX_HEADER_LINE_BYTES < length line"
    by (subst (asm) read_headers.simps) (auto split: prod.splits sum.splits if_splits)
  note before = read_until_pending [OF line(1)]
  show ?case
  proof (cases "strip_line line = []")
    case True
    with 1(2,3) line before show ?thesis by (auto simp: read_headers.simps [of r])
  next
    case False
    with 1(2) line obtain cl where cl: "(parse_header content_length (strip_line line) :: ('e FramingError, nat option) result) = Ok cl"
        "read_headers r1 cl True = (Ok (Some (Some n)), r')"
      by (auto simp: read_headers.simps [of r] split: sum.splits)
    have "\<forall>m\<in>set_option cl. m \<le> MAX_MESSAGE_BYTES"
      using parse_header_bound [of content_length] cl(1) 1(3) by (cases cl) auto
    with 1(1) [OF line(1) [symmetric] refl line(2,3) False cl(1) cl(2)] before line(2) show ?thesis by auto
  qed
qed

lemma read_body_exact:
  "read_body expected received r = (Ok body, r') \<Longrightarrow> length received \<le> expected \<Longrightarrow>
     length body = expected \<and> (\<exists>rest. body = received @ rest \<and> pending r = rest @ pending r')"
proof (induction expected received r rule: read_body.induct)
  case (1 expected received r)
  show ?case
  proof (cases "length received < expected")
    case True
    with 1(2) obtain bs r1 where some: "read_some (expected - length received) r = (Ok bs, r1)" "bs \<noteq> []"
        "read_body expected (received @ bs) r1 = (Ok body, r')"
      by (subst (asm) read_body.simps) (auto split: prod.splits sum.splits if_splits)
    from read_some_pending [OF some(1)] True have piece: "pending r = bs @ pending r1" "length (received @ bs) \<le> expected" by auto
    from 1(1) [OF True some(1) [symmetric] refl some(2,3) piece(2)] piece(1) obtain rest where
      "length body = expected" "body = received @ bs @ rest" "pending r1 = rest @ pending r'" "pending r = bs @ pending r1" by auto
    then show ?thesis by (intro conjI exI [of _ "bs @ rest"]) simp_all
  qed (use 1(2,3) in \<open>simp add: read_body.simps\<close>)
qed

lemma read_message_pending:
  assumes "read_message r = (Ok (Some body), r')"
  shows "length body \<le> MAX_MESSAGE_BYTES" and "\<exists>header. header \<noteq> [] \<and> pending r = header @ body @ pending r'"
proof -
  from assms obtain n r1 where headers: "read_headers r None False = (Ok (Some (Some n)), r1)" "read_body n [] r1 = (Ok body, r')"
    by (auto simp: read_message_def split: prod.splits sum.splits option.splits)
  from read_headers_bound [OF headers(1)] read_body_exact [OF headers(2)]
  show "length body \<le> MAX_MESSAGE_BYTES" and "\<exists>header. header \<noteq> [] \<and> pending r = header @ body @ pending r'" by auto
qed

lemma read_message_shorter: "read_message r = (Ok (Some body), r') \<Longrightarrow> length (pending r') < length (pending r)"
  by (frule read_message_pending(2)) auto

text \<open>The messages a reader yields up to the end of its stream.\<close>

inductive receives :: "'e Reader \<Rightarrow> bytes list \<Rightarrow> bool" where
  at_end: "read_message r = (Ok None, r') \<Longrightarrow> receives r []"
| message: "read_message r = (Ok (Some body), r') \<Longrightarrow> receives r' bodies \<Longrightarrow> receives r (body # bodies)"

inductive_cases receivesE: "receives r bodies"

lemma write_message_append: "write_message (written @ before) body = written @ write_message before body"
  by (simp add: write_message_def)

lemma fold_write: "fold (\<lambda>body written. write_message written body) bodies written = written @ fold (\<lambda>body written. write_message written body) bodies []"
proof (induction bodies arbitrary: written)
  case (Cons body bodies)
  from Cons [of "write_message written body"] Cons [of "write_message [] body"] write_message_append [of written "[]" body]
  show ?case by simp
qed simp

text \<open>
  C15: What was written is read back: whatever messages of admissible length are written one after the
  other, and however the stream cuts its bytes into pieces, reading yields exactly these messages and
  then the end of the stream.
\<close>
lemma messages_read_back:
  assumes "\<forall>body\<in>set bodies. length body \<le> MAX_MESSAGE_BYTES" and "reliable r"
    and "pending r = fold (\<lambda>body written. write_message written body) bodies []"
  shows "receives r bodies"
  using assms
proof (induction bodies arbitrary: r)
  case Nil
  from reliable_next [OF Nil(2)] obtain k where "next_outcome r = Deliver k" by blast
  with Nil(3) have "read_until r = (Ok [], advance 0 r)" by (simp add: read_until_def line_length_def)
  then have "read_headers r None False = (Ok None, advance 0 r)" by (simp add: read_headers.simps [of r])
  then show ?case by (intro receives.at_end [of _ "advance 0 r"]) (simp add: read_message_def)
next
  case (Cons body bodies)
  from Cons.prems(3) have "pending r = write_message [] body @ fold (\<lambda>body written. write_message written body) bodies []"
    by (simp add: fold_write [of bodies "write_message [] body"])
  from read_written [OF Cons.prems(2) this] Cons.prems(1) obtain r' where
      "read_message r = (Ok (Some body), r')" "reliable r'" "pending r' = fold (\<lambda>body written. write_message written body) bodies []"
    by auto
  with Cons.IH [of r'] Cons.prems(1) show ?case by (auto intro: receives.message)
qed

text \<open>
  C33: A message that was read is at most as long as the limit, and it is the run of bytes between a
  header and what is left in the stream, whether or not the stream fails later.
\<close>
lemma message_within_limit:
  assumes "read_message r = (Ok (Some body), r')"
  shows "length body \<le> MAX_MESSAGE_BYTES \<and> (\<exists>header. header \<noteq> [] \<and> pending r = header @ body @ pending r')"
  using read_message_pending [OF assms] by blast

subsection \<open>A stream in pieces\<close>

definition sample_reader :: "string Reader" where
  "sample_reader = \<lparr>pending = write_message (write_message [] [1, 2, 3]) [], script = [Deliver 1, Deliver 7, Deliver 2, Deliver 0]\<rparr>"

lemma messages_read_back_witness:
  "reliable sample_reader \<and> receives sample_reader [[1, 2, 3], []]"
proof -
  have "reliable sample_reader" by (simp add: reliable_def sample_reader_def)
  moreover have "receives sample_reader [[1, 2, 3], []]"
    by (rule messages_read_back) (use calculation in \<open>simp_all add: sample_reader_def MAX_MESSAGE_BYTES_def\<close>)
  ultimately show ?thesis ..
qed

lemma message_within_limit_witness:
  "\<exists>r'. read_message sample_reader = (Ok (Some [1, 2, 3]), r') \<and> (\<exists>header. pending sample_reader = header @ [1, 2, 3] @ pending r')"
proof -
  have "fst (read_message sample_reader) = Ok (Some [1, 2, 3])" by code_simp
  then obtain r' where "read_message sample_reader = (Ok (Some [1, 2, 3]), r')" by (cases "read_message sample_reader") simp
  with message_within_limit [OF this] show ?thesis by blast
qed

end
