(* ===== verification/Syntax_Token.thy ===== *)
theory Syntax_Token
  imports Source_Text
begin

section \<open>Tokens (openmat-syntax)\<close>

text \<open>
  The token kinds of the front end with their classification, and tokens with their exact spelling and
  byte range.
\<close>

datatype TokenKind =
    Whitespace | Newline | Comment | Identifier | Number | CharLiteral | StringLiteral
  | KwBreak | KwCase | KwCatch | KwClassdef | KwContinue | KwElse | KwElseif | KwEnd | KwEnumeration
  | KwEvents | KwFor | KwFunction | KwGlobal | KwIf | KwMethods | KwOtherwise | KwParfor | KwPersistent
  | KwProperties | KwReturn | KwSpmd | KwSwitch | KwTry | KwWhile
  | Plus | Minus | Star | Slash | Backslash | Caret | DotStar | DotSlash | DotBackslash | DotCaret
  | Equal | EqualEqual | NotEqual | Less | LessEqual | Greater | GreaterEqual | And | AndAnd | Or | OrOr
  | Tilde | Colon | ConjugateTranspose | DotTranspose | Dot | At | LParen | RParen | LBracket | RBracket
  | LBrace | RBrace | Comma | Semicolon | Ellipsis | ErrorToken | Eof

definition is_trivia :: "TokenKind \<Rightarrow> bool" where
  "is_trivia k \<longleftrightarrow> k \<in> {Whitespace, Newline, Comment, Ellipsis}"

definition is_line_break :: "TokenKind \<Rightarrow> bool" where
  "is_line_break k \<longleftrightarrow> k = Newline"

definition is_keyword :: "TokenKind \<Rightarrow> bool" where
  "is_keyword k \<longleftrightarrow> k \<in> {KwBreak, KwCase, KwCatch, KwClassdef, KwContinue, KwElse, KwElseif, KwEnd,
     KwEnumeration, KwEvents, KwFor, KwFunction, KwGlobal, KwIf, KwMethods, KwOtherwise, KwParfor,
     KwPersistent, KwProperties, KwReturn, KwSpmd, KwSwitch, KwTry, KwWhile}"

definition can_start_expression :: "TokenKind \<Rightarrow> bool" where
  "can_start_expression k \<longleftrightarrow> k \<in> {Identifier, Number, CharLiteral, StringLiteral, KwEnd, LParen,
     LBracket, LBrace, Colon, Plus, Minus, Tilde, At}"

definition can_end_expression :: "TokenKind \<Rightarrow> bool" where
  "can_end_expression k \<longleftrightarrow> k \<in> {Identifier, Number, CharLiteral, StringLiteral, KwEnd, RParen, RBracket,
     RBrace, ConjugateTranspose, DotTranspose}"

record Token =
  token_kind :: TokenKind
  token_text :: str
  token_range :: TextRange

definition Token_new :: "TokenKind \<Rightarrow> str \<Rightarrow> TextRange \<Rightarrow> Token" where
  "Token_new k s r = \<lparr>token_kind = k, token_text = s, token_range = r\<rparr>"

definition tokens_text :: "Token list \<Rightarrow> str" where
  "tokens_text ts = concat (map token_text ts)"

end
