(* ===== verification/Lexer.thy ===== *)
theory Lexer
  imports Syntax_Token "HOL-Library.Monad_Syntax"
begin

section \<open>The lexer (openmat-parser/src/lib.rs, \<open>Lexer\<close>)\<close>

text \<open>
  The handwritten lexer as a function of its state. A slice of the source at offsets that are no
  character boundaries panics in the code; here it is \<open>None\<close>, and so is a loop that does not end, so
  that a result is a lexer that returned. The Unicode tables of the standard library beyond ASCII are
  arguments: which scalar values are alphabetic and which are alphanumeric.
\<close>

record CharTable =
  wide_alphabetic :: "scalar \<Rightarrow> bool"
  wide_numeric :: "scalar \<Rightarrow> bool"

definition is_ascii_digit :: "nat \<Rightarrow> bool" where
  "is_ascii_digit c \<longleftrightarrow> 48 \<le> c \<and> c \<le> 57"

definition is_alphabetic :: "CharTable \<Rightarrow> scalar \<Rightarrow> bool" where
  "is_alphabetic A c \<longleftrightarrow> (if c < 128 then 65 \<le> c \<and> c \<le> 90 \<or> 97 \<le> c \<and> c \<le> 122 else wide_alphabetic A c)"

definition is_alphanumeric :: "CharTable \<Rightarrow> scalar \<Rightarrow> bool" where
  "is_alphanumeric A c \<longleftrightarrow> is_alphabetic A c \<or> (if c < 128 then is_ascii_digit c else wide_numeric A c)"

record LexResult =
  result_tokens :: "Token list"
  result_diagnostics :: "Diagnostic list"

record Lexer =
  lexer_source_id :: SourceId
  source :: str
  offset :: nat
  tokens :: "Token list"
  diagnostics :: "Diagnostic list"
  previous_significant :: "TokenKind option"
  matrix_depth :: nat
  horizontal_trivia_since_significant :: bool
  line_continuation_pending :: bool

definition Lexer_new :: "SourceId \<Rightarrow> str \<Rightarrow> Lexer" where
  "Lexer_new i s =
     \<lparr>lexer_source_id = i, source = s, offset = 0, tokens = [], diagnostics = [], previous_significant = None,
      matrix_depth = 0, horizontal_trivia_since_significant = False, line_continuation_pending = False\<rparr>"

subsection \<open>Helpers\<close>

definition remaining :: "Lexer \<Rightarrow> str option" where
  "remaining L = str_get (source L) (offset L) (str_len (source L))"

definition lex_range :: "nat \<Rightarrow> nat \<Rightarrow> TextRange" where
  "lex_range s e = (case TextRange_from_usize s e of Ok r \<Rightarrow> r | Err _ \<Rightarrow> TextRange_empty u32_max)"

definition lex_error :: "nat \<Rightarrow> nat \<Rightarrow> str \<Rightarrow> str \<Rightarrow> Lexer \<Rightarrow> Lexer" where
  "lex_error s e message code L =
     L\<lparr>diagnostics := diagnostics L @ [with_code (Diagnostic_error (lexer_source_id L) (lex_range s e) message) code]\<rparr>"

text \<open>What a pushed token does to the context of the lexer.\<close>

definition push_token :: "TokenKind \<Rightarrow> str \<Rightarrow> TextRange \<Rightarrow> Lexer \<Rightarrow> Lexer" where
  "push_token kind t r L =
     (let L1 = L\<lparr>tokens := tokens L @ [Token_new kind t r]\<rparr> in
      if \<not> is_trivia kind
      then L1\<lparr>line_continuation_pending := False,
              matrix_depth :=
                (if kind = LBracket \<or> kind = LBrace then matrix_depth L + 1
                 else if kind = RBracket \<or> kind = RBrace then matrix_depth L - 1
                 else matrix_depth L),
              previous_significant := Some kind,
              horizontal_trivia_since_significant := False\<rparr>
      else if kind = Comment \<and> (10 \<in> set t \<or> 13 \<in> set t)
      then L1\<lparr>previous_significant := None, horizontal_trivia_since_significant := False,
              line_continuation_pending := False\<rparr>
      else L1)"

definition push :: "TokenKind \<Rightarrow> nat \<Rightarrow> nat \<Rightarrow> Lexer \<Rightarrow> Lexer option" where
  "push kind s e L = do { t \<leftarrow> str_get (source L) s e; Some (push_token kind t (lex_range s e) L) }"

definition starts_with :: "str \<Rightarrow> str \<Rightarrow> bool" where
  "starts_with p s \<longleftrightarrow> take (length p) s = p"

text \<open>The byte offset of the first occurrence.\<close>

fun find_str :: "str \<Rightarrow> str \<Rightarrow> nat option" where
  "find_str p [] = (if p = [] then Some 0 else None)"
| "find_str p (c # s) = (if starts_with p (c # s) then Some 0 else map_option (\<lambda>i. len_utf8 c + i) (find_str p s))"

text \<open>The loops over the scalar values that remain, as the offset they stop at.\<close>

fun consumed_offset :: "(scalar \<Rightarrow> bool) \<Rightarrow> str \<Rightarrow> nat \<Rightarrow> nat" where
  "consumed_offset p [] i = i"
| "consumed_offset p (c # s) i = (if p c then consumed_offset p s (i + len_utf8 c) else i)"

definition consume_while :: "(scalar \<Rightarrow> bool) \<Rightarrow> Lexer \<Rightarrow> Lexer option" where
  "consume_while p L = do { r \<leftarrow> remaining L; Some (L\<lparr>offset := consumed_offset p r (offset L)\<rparr>) }"

definition consume_until_line_end :: "Lexer \<Rightarrow> Lexer option" where
  "consume_until_line_end L = do { r \<leftarrow> remaining L; Some (L\<lparr>offset := consumed_offset (\<lambda>c. \<not> (c = 13 \<or> c = 10)) r (offset L)\<rparr>) }"

definition keyword_kind :: "str \<Rightarrow> TokenKind" where
  "keyword_kind t =
     (if t = ascii ''break'' then KwBreak
      else if t = ascii ''case'' then KwCase
      else if t = ascii ''catch'' then KwCatch
      else if t = ascii ''classdef'' then KwClassdef
      else if t = ascii ''continue'' then KwContinue
      else if t = ascii ''else'' then KwElse
      else if t = ascii ''elseif'' then KwElseif
      else if t = ascii ''end'' then KwEnd
      else if t = ascii ''enumeration'' then KwEnumeration
      else if t = ascii ''for'' then KwFor
      else if t = ascii ''function'' then KwFunction
      else if t = ascii ''global'' then KwGlobal
      else if t = ascii ''if'' then KwIf
      else if t = ascii ''methods'' then KwMethods
      else if t = ascii ''otherwise'' then KwOtherwise
      else if t = ascii ''parfor'' then KwParfor
      else if t = ascii ''persistent'' then KwPersistent
      else if t = ascii ''properties'' then KwProperties
      else if t = ascii ''return'' then KwReturn
      else if t = ascii ''spmd'' then KwSpmd
      else if t = ascii ''switch'' then KwSwitch
      else if t = ascii ''try'' then KwTry
      else if t = ascii ''while'' then KwWhile
      else Identifier)"

subsection \<open>Comments, numbers and literals\<close>

definition lex_block_comment :: "nat \<Rightarrow> Lexer \<Rightarrow> Lexer option" where
  "lex_block_comment start L = do {
     let L1 = L\<lparr>offset := offset L + 2\<rparr>;
     r \<leftarrow> remaining L1;
     let L2 =
       (case find_str (ascii ''%}'') r of
          Some relative_end \<Rightarrow> L1\<lparr>offset := offset L1 + (relative_end + 2)\<rparr>
        | None \<Rightarrow>
            lex_error start (str_len (source L1)) (ascii ''unterminated block comment'') (ascii ''OML0003'')
              (L1\<lparr>offset := str_len (source L1)\<rparr>));
     push Comment start (offset L2) L2 }"

definition byte_at :: "bytes \<Rightarrow> nat \<Rightarrow> nat option" where
  "byte_at bs i = (if i < length bs then Some (bs ! i) else None)"

definition digit_at :: "bytes \<Rightarrow> nat \<Rightarrow> bool" where
  "digit_at bs i \<longleftrightarrow> i < length bs \<and> is_ascii_digit (bs ! i)"

function skip_digits :: "bytes \<Rightarrow> nat \<Rightarrow> nat" where
  "skip_digits bs cursor = (if digit_at bs cursor then skip_digits bs (cursor + 1) else cursor)"
  by pat_completeness auto
termination
  by (relation "measure (\<lambda>(bs, cursor). length bs - cursor)") (auto simp: digit_at_def)

declare skip_digits.simps [simp del]

definition skip_fraction :: "bytes \<Rightarrow> nat \<Rightarrow> nat" where
  "skip_fraction bs cursor =
     (if byte_at bs cursor = Some 46 \<and> byte_at bs (cursor + 1) \<notin> {Some 42, Some 47, Some 92, Some 94, Some 39}
      then skip_digits bs (cursor + 1) else cursor)"

definition skip_exponent :: "bytes \<Rightarrow> nat \<Rightarrow> nat" where
  "skip_exponent bs cursor =
     (if byte_at bs cursor \<in> {Some 101, Some 69}
      then (let digits = (if byte_at bs (cursor + 1) \<in> {Some 43, Some 45} then cursor + 2 else cursor + 1);
                stop = skip_digits bs digits
            in if stop = digits then cursor else stop)
      else cursor)"

definition skip_unit :: "bytes \<Rightarrow> nat \<Rightarrow> nat" where
  "skip_unit bs cursor = (if byte_at bs cursor \<in> {Some 105, Some 106} then cursor + 1 else cursor)"

definition number_end :: "bytes \<Rightarrow> nat \<Rightarrow> nat" where
  "number_end bs cursor0 =
     (let cursor1 = skip_digits bs (if byte_at bs cursor0 = Some 46 then cursor0 + 1 else cursor0)
      in skip_unit bs (skip_exponent bs (skip_fraction bs cursor1)))"

definition lex_number :: "nat \<Rightarrow> Lexer \<Rightarrow> Lexer option" where
  "lex_number start L =
     (let cursor = number_end (as_bytes (source L)) (offset L) in push Number start cursor (L\<lparr>offset := cursor\<rparr>))"

text \<open>The end of a quoted literal: a doubled quote stands for one, a line break or the end of the
  source leaves it unterminated.\<close>

fun quoted_end :: "scalar \<Rightarrow> str \<Rightarrow> nat \<Rightarrow> nat \<times> bool" where
  "quoted_end quote [] i = (i, False)"
| "quoted_end quote (c # s) i =
     (if c = 13 \<or> c = 10 then (i, False)
      else if c = quote
      then (case s of
              [] \<Rightarrow> (i + len_utf8 c, True)
            | d # s' \<Rightarrow>
                if d = quote then quoted_end quote s' (i + len_utf8 c + len_utf8 quote) else (i + len_utf8 c, True))
      else quoted_end quote s (i + len_utf8 c))"

definition lex_quoted :: "nat \<Rightarrow> scalar \<Rightarrow> TokenKind \<Rightarrow> Lexer \<Rightarrow> Lexer option" where
  "lex_quoted start quote kind L = do {
     let L1 = L\<lparr>offset := offset L + len_utf8 quote\<rparr>;
     r \<leftarrow> remaining L1;
     let (stop, terminated) = quoted_end quote r (offset L1);
     L2 \<leftarrow> push kind start stop (L1\<lparr>offset := stop\<rparr>);
     Some (if terminated then L2
           else lex_error start stop (ascii ''unterminated quoted literal'') (ascii ''OML0004'') L2) }"

subsection \<open>Operators\<close>

definition operator_token :: "str \<Rightarrow> scalar \<Rightarrow> TokenKind \<times> nat" where
  "operator_token r c =
     (if starts_with (ascii ''.*'') r then (DotStar, 2)
      else if starts_with (ascii ''./'') r then (DotSlash, 2)
      else if starts_with [46, 92] r then (DotBackslash, 2)
      else if starts_with (ascii ''.^'') r then (DotCaret, 2)
      else if starts_with [46, 39] r then (DotTranspose, 2)
      else if starts_with (ascii ''=='') r then (EqualEqual, 2)
      else if starts_with (ascii ''~='') r then (NotEqual, 2)
      else if starts_with (ascii ''<='') r then (LessEqual, 2)
      else if starts_with (ascii ''>='') r then (GreaterEqual, 2)
      else if starts_with (ascii ''&&'') r then (AndAnd, 2)
      else if starts_with (ascii ''||'') r then (OrOr, 2)
      else if c = 43 then (Plus, 1)
      else if c = 45 then (Minus, 1)
      else if c = 42 then (Star, 1)
      else if c = 47 then (Slash, 1)
      else if c = 92 then (Backslash, 1)
      else if c = 94 then (Caret, 1)
      else if c = 61 then (TokenKind.Equal, 1)
      else if c = 60 then (TokenKind.Less, 1)
      else if c = 62 then (TokenKind.Greater, 1)
      else if c = 38 then (And, 1)
      else if c = 124 then (Or, 1)
      else if c = 126 then (Tilde, 1)
      else if c = 58 then (Colon, 1)
      else if c = 46 then (Dot, 1)
      else if c = 64 then (At, 1)
      else if c = 40 then (LParen, 1)
      else if c = 41 then (RParen, 1)
      else if c = 91 then (LBracket, 1)
      else if c = 93 then (RBracket, 1)
      else if c = 123 then (LBrace, 1)
      else if c = 125 then (RBrace, 1)
      else if c = 44 then (Comma, 1)
      else if c = 59 then (Semicolon, 1)
      else (ErrorToken, len_utf8 c))"

definition lex_operator_or_error :: "nat \<Rightarrow> scalar \<Rightarrow> Lexer \<Rightarrow> Lexer option" where
  "lex_operator_or_error start c L = do {
     r \<leftarrow> remaining L;
     let (kind, width) = operator_token r c;
     let stop = offset L + width;
     L1 \<leftarrow> push kind start stop (L\<lparr>offset := stop\<rparr>);
     Some (if kind = ErrorToken
           then lex_error start stop (ascii ''unrecognized character `'' @ [c] @ ascii ''`'') (ascii ''OML0002'') L1
           else L1) }"

subsection \<open>One token, and the whole source\<close>

definition lex_newline :: "nat \<Rightarrow> scalar \<Rightarrow> str \<Rightarrow> Lexer \<Rightarrow> Lexer option" where
  "lex_newline start c r L = do {
     let continued = line_continuation_pending L;
     let stop = offset L + (if starts_with [13, 10] r then 2 else len_utf8 c);
     L1 \<leftarrow> push Newline start stop (L\<lparr>offset := stop\<rparr>);
     let L2 = (if continued then L1 else L1\<lparr>previous_significant := None\<rparr>);
     Some (L2\<lparr>horizontal_trivia_since_significant := False, line_continuation_pending := False\<rparr>) }"

definition lex_whitespace :: "nat \<Rightarrow> Lexer \<Rightarrow> Lexer option" where
  "lex_whitespace start L = do {
     L1 \<leftarrow> consume_while (\<lambda>c. is_whitespace c \<and> c \<noteq> 13 \<and> c \<noteq> 10) L;
     L2 \<leftarrow> push Whitespace start (offset L1) L1;
     Some (L2\<lparr>horizontal_trivia_since_significant := True\<rparr>) }"

definition lex_line_comment :: "nat \<Rightarrow> Lexer \<Rightarrow> Lexer option" where
  "lex_line_comment start L = do {
     L1 \<leftarrow> consume_until_line_end L;
     push Comment start (offset L1) L1 }"

definition lex_ellipsis :: "nat \<Rightarrow> Lexer \<Rightarrow> Lexer option" where
  "lex_ellipsis start L = do {
     L1 \<leftarrow> consume_while (\<lambda>c. c = 46) L;
     L2 \<leftarrow> push Ellipsis start (offset L1) L1;
     let trailing_start = offset L2;
     L3 \<leftarrow> consume_until_line_end L2;
     L4 \<leftarrow> (if offset L3 > trailing_start then push Comment trailing_start (offset L3) L3 else Some L3);
     let L5 = L4\<lparr>line_continuation_pending := offset L4 < str_len (source L4)\<rparr>;
     Some (if line_continuation_pending L5 then L5
           else lex_error start (offset L5) (ascii ''line continuation is not followed by another physical line'')
                  (ascii ''OML0005'') L5) }"

definition lex_word :: "CharTable \<Rightarrow> nat \<Rightarrow> Lexer \<Rightarrow> Lexer option" where
  "lex_word A start L = do {
     L1 \<leftarrow> consume_while (\<lambda>c. c = 95 \<or> is_alphanumeric A c) L;
     t \<leftarrow> str_get (source L1) start (offset L1);
     push (keyword_kind t) start (offset L1) L1 }"

definition lex_apostrophe :: "nat \<Rightarrow> Lexer \<Rightarrow> Lexer option" where
  "lex_apostrophe start L =
     (let matrix_element_boundary = matrix_depth L > 0 \<and> horizontal_trivia_since_significant L in
      if \<not> matrix_element_boundary \<and> (\<exists>k \<in> set_option (previous_significant L). can_end_expression k)
      then push ConjugateTranspose start (offset L + 1) (L\<lparr>offset := offset L + 1\<rparr>)
      else lex_quoted start 39 CharLiteral L)"

definition lex_one :: "CharTable \<Rightarrow> Lexer \<Rightarrow> Lexer option" where
  "lex_one A L = do {
     r \<leftarrow> remaining L;
     let start = offset L;
     (case r of
        [] \<Rightarrow> Some L
      | c # _ \<Rightarrow>
          if c = 13 \<or> c = 10 then lex_newline start c r L
          else if is_whitespace c then lex_whitespace start L
          else if starts_with (ascii ''%{'') r then lex_block_comment start L
          else if c = 37 then lex_line_comment start L
          else if starts_with (ascii ''...'') r then lex_ellipsis start L
          else if is_ascii_digit c \<or> c = 46 \<and> digit_at (as_bytes r) 1 then lex_number start L
          else if c = 95 \<or> is_alphabetic A c then lex_word A start L
          else if c = 39 then lex_apostrophe start L
          else if c = 34 then lex_quoted start 34 StringLiteral L
          else lex_operator_or_error start c L) }"

partial_function (option) lex_loop :: "CharTable \<Rightarrow> Lexer \<Rightarrow> Lexer option" where
  "lex_loop A L =
     (if offset L < str_len (source L) then Option.bind (lex_one A L) (lex_loop A) else Some L)"

declare lex_loop.simps [code]

definition lex :: "CharTable \<Rightarrow> SourceId \<Rightarrow> str \<Rightarrow> LexResult option" where
  "lex A i s = do {
     let L0 = Lexer_new i s;
     let L1 =
       (if str_len s > u32_max
        then L0\<lparr>diagnostics := [with_code (Diagnostic_error i (TextRange_empty u32_max)
                (ascii ''source exceeds the 32-bit byte-range limit'')) (ascii ''OML0001'')]\<rparr>
        else L0);
     L2 \<leftarrow> lex_loop A L1;
     Some \<lparr>result_tokens = tokens L2 @ [Token_new Eof [] (TextRange_empty (min u32_max (str_len s)))],
           result_diagnostics = diagnostics L2\<rparr> }"

end
