(* ===== verification/Lexer_Lossless.thy ===== *)
theory Lexer_Lossless
  imports Lexer
begin

section \<open>The lexer returns, and its tokens are the source\<close>

text \<open>
  Each handler of the lexer consumes a non-empty part of the source and pushes it as one token, or as
  two behind an ellipsis, spelled the way its kind demands. So no slice fails, the loop ends, and the
  tokens laid end to end are the source.
\<close>

subsection \<open>How a token of each kind is spelled\<close>

definition digits :: "str \<Rightarrow> bool" where
  "digits s \<longleftrightarrow> list_all is_ascii_digit s"

definition fraction_spelled :: "str \<Rightarrow> bool" where
  "fraction_spelled s \<longleftrightarrow> s = [] \<or> hd s = 46 \<and> digits (tl s)"

definition exponent_spelled :: "str \<Rightarrow> bool" where
  "exponent_spelled s \<longleftrightarrow>
     s = [] \<or> (\<exists>e sign ds. s = e # sign @ ds \<and> e \<in> {101, 69} \<and> sign \<in> {[], [43], [45]} \<and> ds \<noteq> [] \<and> digits ds)"

text \<open>Digits, perhaps behind a point, a fraction, an exponent and an imaginary unit.\<close>

definition number_spelled :: "str \<Rightarrow> bool" where
  "number_spelled s \<longleftrightarrow>
     (\<exists>point ds fraction exponent unit.
        s = point @ ds @ fraction @ exponent @ unit \<and> point \<in> {[], [46]} \<and> ds \<noteq> [] \<and> digits ds \<and>
        fraction_spelled fraction \<and> exponent_spelled exponent \<and> unit \<in> {[], [105], [106]})"

definition no_line_break :: "str \<Rightarrow> bool" where
  "no_line_break s \<longleftrightarrow> 13 \<notin> set s \<and> 10 \<notin> set s"

definition operator_spelling :: "TokenKind \<Rightarrow> str option" where
  "operator_spelling k =
     map_of
       [(DotStar, [46, 42]), (DotSlash, [46, 47]), (DotBackslash, [46, 92]), (DotCaret, [46, 94]),
        (DotTranspose, [46, 39]), (EqualEqual, [61, 61]), (NotEqual, [126, 61]), (LessEqual, [60, 61]),
        (GreaterEqual, [62, 61]), (AndAnd, [38, 38]), (OrOr, [124, 124]), (Plus, [43]), (Minus, [45]),
        (Star, [42]), (Slash, [47]), (Backslash, [92]), (Caret, [94]), (TokenKind.Equal, [61]),
        (TokenKind.Less, [60]), (TokenKind.Greater, [62]), (And, [38]), (Or, [124]), (Tilde, [126]), (Colon, [58]),
        (ConjugateTranspose, [39]), (Dot, [46]), (At, [64]), (LParen, [40]), (RParen, [41]), (LBracket, [91]),
        (RBracket, [93]), (LBrace, [123]), (RBrace, [125]), (Comma, [44]), (Semicolon, [59])] k"

definition spelled :: "CharTable \<Rightarrow> TokenKind \<Rightarrow> str \<Rightarrow> bool" where
  "spelled A k t \<longleftrightarrow> t \<noteq> [] \<and>
     (case k of
        Whitespace \<Rightarrow> list_all is_whitespace t \<and> no_line_break t
      | Newline \<Rightarrow> t \<in> {[13], [10], [13, 10]}
      | Comment \<Rightarrow> no_line_break t \<or> starts_with (ascii ''%{'') t
      | Ellipsis \<Rightarrow> 3 \<le> length t \<and> list_all (\<lambda>c. c = 46) t
      | Number \<Rightarrow> number_spelled t
      | CharLiteral \<Rightarrow> hd t = 39 \<and> no_line_break t
      | StringLiteral \<Rightarrow> hd t = 34 \<and> no_line_break t
      | ErrorToken \<Rightarrow> length t = 1
      | Eof \<Rightarrow> False
      | _ \<Rightarrow>
          if k = Identifier \<or> is_keyword k
          then (hd t = 95 \<or> is_alphabetic A (hd t)) \<and> list_all (\<lambda>c. c = 95 \<or> is_alphanumeric A c) t \<and> keyword_kind t = k
          else operator_spelling k = Some t)"

subsection \<open>Positions in the source\<close>

definition at :: "Lexer \<Rightarrow> str \<Rightarrow> str \<Rightarrow> bool" where
  "at L d r \<longleftrightarrow> source L = d @ r \<and> offset L = str_len d"

lemma remaining_at [simp]: "at L d r \<Longrightarrow> remaining L = Some r"
  using str_get_append [of d r "[]"] by (simp add: at_def remaining_def)

lemma consumed_takeWhile: "consumed_offset p s i = i + str_len (takeWhile p s)"
  by (induction s arbitrary: i) auto

lemma starts_with_append: "starts_with p s \<longleftrightarrow> (\<exists>t. s = p @ t)"
  unfolding starts_with_def by (metis append_take_drop_id append_eq_conv_conj)

lemma find_str_Some: "find_str p s = Some i \<Longrightarrow> \<exists>a b. s = a @ p @ b \<and> i = str_len a"
proof (induction p s arbitrary: i rule: find_str.induct)
  case (1 p)
  then show ?case by (auto split: if_splits)
next
  case (2 p c s)
  show ?case
  proof (cases "starts_with p (c # s)")
    case True
    then obtain t where "c # s = p @ t" unfolding starts_with_append by blast
    moreover have "i = 0" using True 2(2) by simp
    ultimately show ?thesis by (intro exI [of _ "[]"] exI [of _ t]) simp
  next
    case False
    with 2(2) obtain j where j: "find_str p s = Some j" "i = len_utf8 c + j" by auto
    with 2(1) False obtain a b where "s = a @ p @ b" "j = str_len a" by blast
    with j show ?thesis by (intro exI [of _ "c # a"] exI [of _ b]) simp
  qed
qed

lemma no_line_break_simps [simp]:
  "no_line_break []"
  "no_line_break (c # s) \<longleftrightarrow> c \<noteq> 13 \<and> c \<noteq> 10 \<and> no_line_break s"
  "no_line_break (s @ t) \<longleftrightarrow> no_line_break s \<and> no_line_break t"
  by (auto simp: no_line_break_def)

lemma quoted_end_split:
  assumes "q \<noteq> 13" and "q \<noteq> 10"
  shows "\<exists>t u. s = t @ u \<and> no_line_break t \<and> fst (quoted_end q s i) = i + str_len t"
  using assms
proof (induction q s i rule: quoted_end.induct)
  case (2 q c s i)
  consider (stop) "c = 13 \<or> c = 10" | (single) "c = q" "s = [] \<or> hd s \<noteq> q" "c \<noteq> 13" "c \<noteq> 10"
    | (double) s' where "c = q" "s = q # s'" "c \<noteq> 13" "c \<noteq> 10" | (other) "c \<noteq> q" "c \<noteq> 13" "c \<noteq> 10"
    by (metis list.collapse)
  then show ?case
  proof cases
    case single
    then show ?thesis by (intro exI [of _ "[c]"] exI [of _ s]) (auto split: list.splits)
  next
    case double
    with 2 obtain t u where "s' = t @ u" "no_line_break t"
        "fst (quoted_end q s' (i + len_utf8 c + len_utf8 q)) = i + len_utf8 c + len_utf8 q + str_len t" by auto
    with double show ?thesis by (intro exI [of _ "c # q # t"] exI [of _ u]) simp
  next
    case stop
    then show ?thesis by (intro exI [of _ "[]"] exI [of _ "c # s"]) auto
  next
    case other
    with 2 obtain t u where "s = t @ u" "no_line_break t" "fst (quoted_end q s (i + len_utf8 c)) = i + len_utf8 c + str_len t" by auto
    with other show ?thesis by (intro exI [of _ "c # t"] exI [of _ u]) simp
  qed
qed simp

subsection \<open>Numbers\<close>

lemma byte_at_ascii:
  "b < 128 \<Longrightarrow> byte_at (as_bytes (d @ r)) (str_len d) = Some b \<longleftrightarrow> (\<exists>s. r = b # s)"
  by (cases r) (auto simp: byte_at_def nth_as_bytes_ascii simp del: as_bytes_append)

lemma digit_at_ascii:
  "digit_at (as_bytes (d @ r)) (str_len d) \<longleftrightarrow> (\<exists>c s. r = c # s \<and> is_ascii_digit c)"
proof -
  have ascii: "b < 128" if "is_ascii_digit b" for b using that by (simp add: is_ascii_digit_def)
  have "digit_at bs i \<longleftrightarrow> (\<exists>b. byte_at bs i = Some b \<and> is_ascii_digit b)" for bs i
    by (auto simp: digit_at_def byte_at_def)
  then show ?thesis by (metis byte_at_ascii ascii)
qed

lemma ascii_width [simp]: "c < 128 \<Longrightarrow> len_utf8 c = 1"
  by (simp add: len_utf8_def utf8_def)

lemma skip_digits_takeWhile:
  "skip_digits (as_bytes (d @ r)) (str_len d) = str_len (d @ takeWhile is_ascii_digit r)"
proof (induction r arbitrary: d)
  case Nil
  show ?case using digit_at_ascii [of d "[]"] by (subst skip_digits.simps) simp
next
  case (Cons c r)
  show ?case
  proof (cases "is_ascii_digit c")
    case True
    then have "len_utf8 c = 1" by (simp add: is_ascii_digit_def)
    with Cons [of "d @ [c]"] True digit_at_ascii [of d "c # r"] show ?thesis
      by (subst skip_digits.simps) simp
  next
    case False
    with digit_at_ascii [of d "c # r"] show ?thesis by (subst skip_digits.simps) simp
  qed
qed

lemma digits_takeWhile [simp]: "digits (takeWhile is_ascii_digit s)"
  by (auto simp: digits_def list_all_iff dest: set_takeWhileD)

lemma skip_digits_behind:
  assumes "str_len p = n"
  shows "skip_digits (as_bytes (d @ p @ s)) (str_len d + n) = str_len d + n + str_len (takeWhile is_ascii_digit s)"
  using skip_digits_takeWhile [of "d @ p" s] assms by (simp add: add.assoc)

lemma byte_at_behind:
  assumes "str_len p = n" and "b < 128"
  shows "byte_at (as_bytes (d @ p @ s)) (str_len d + n) = Some b \<longleftrightarrow> (\<exists>t. s = b # t)"
  using byte_at_ascii [of b "d @ p" s] assms by (simp add: add.assoc)

lemma skip_fraction_spelled:
  "\<exists>f r'. r = f @ r' \<and> skip_fraction (as_bytes (d @ r)) (str_len d) = str_len d + str_len f \<and> fraction_spelled f"
proof (cases "skip_fraction (as_bytes (d @ r)) (str_len d) = str_len d")
  case True
  then show ?thesis by (intro exI [of _ "[]"] exI [of _ r]) (simp add: fraction_spelled_def)
next
  case False
  then obtain s where r: "r = 46 # s" and "skip_fraction (as_bytes (d @ r)) (str_len d) = skip_digits (as_bytes (d @ r)) (str_len d + 1)"
    by (auto simp: skip_fraction_def byte_at_ascii simp del: as_bytes_append split: if_splits)
  moreover have "s = takeWhile is_ascii_digit s @ dropWhile is_ascii_digit s" by simp
  ultimately show ?thesis using skip_digits_behind [of "[46]" 1 d s]
    by (intro exI [of _ "46 # takeWhile is_ascii_digit s"] exI [of _ "dropWhile is_ascii_digit s"]) (simp add: fraction_spelled_def)
qed

lemma skip_exponent_spelled:
  "\<exists>f r'. r = f @ r' \<and> skip_exponent (as_bytes (d @ r)) (str_len d) = str_len d + str_len f \<and> exponent_spelled f"
proof (cases "skip_exponent (as_bytes (d @ r)) (str_len d) = str_len d")
  case True
  then show ?thesis by (intro exI [of _ "[]"] exI [of _ r]) (simp add: exponent_spelled_def)
next
  case False
  let ?bs = "as_bytes (d @ r)"
  from False obtain e s where e: "e \<in> {101, 69}" and r: "r = e # s"
    by (auto simp: skip_exponent_def byte_at_ascii simp del: as_bytes_append split: if_splits)
  have here: "byte_at ?bs (str_len d) = Some e" using e by (auto simp: byte_at_ascii r simp del: as_bytes_append)
  have e1: "len_utf8 e = 1" using e by auto
  obtain sign u where s: "s = sign @ u" and sign: "sign \<in> {[], [43], [45]}"
    and n: "(if byte_at ?bs (str_len d + 1) \<in> {Some 43, Some 45} then str_len d + 2 else str_len d + 1) = str_len d + str_len (e # sign)"
  proof (cases "byte_at ?bs (str_len d + 1) \<in> {Some 43, Some 45}")
    case True
    then obtain b t where "b \<in> {43, 45}" "s = b # t"
      using byte_at_behind [of "[e]" 1 43 d s] byte_at_behind [of "[e]" 1 45 d s] e1 by (auto simp: r)
    with True that [of "[b]" t] e1 show thesis by auto
  qed (use that [of "[]" s] e1 in simp)
  have "skip_digits ?bs (str_len d + str_len (e # sign)) = str_len d + str_len (e # sign) + str_len (takeWhile is_ascii_digit u)"
    using skip_digits_behind [of "e # sign" _ d u] by (simp add: r s)
  moreover have "skip_exponent ?bs (str_len d) =
      (let stop = skip_digits ?bs (str_len d + str_len (e # sign)) in
       if stop = str_len d + str_len (e # sign) then str_len d else stop)"
    using here e unfolding skip_exponent_def n [symmetric] by (simp add: Let_def)
  ultimately have "skip_exponent ?bs (str_len d) = str_len d + str_len (e # sign) + str_len (takeWhile is_ascii_digit u)"
      "takeWhile is_ascii_digit u \<noteq> []"
    using False by (auto simp: Let_def simp del: as_bytes_append str_len_simps(2,3) split: if_splits)
  then have skip: "skip_exponent ?bs (str_len d) = str_len d + str_len (e # sign @ takeWhile is_ascii_digit u)"
    and some: "takeWhile is_ascii_digit u \<noteq> []" by (simp_all add: add.assoc)
  have "exponent_spelled (e # sign @ takeWhile is_ascii_digit u)"
    unfolding exponent_spelled_def using e sign some digits_takeWhile by blast
  moreover have "r = (e # sign @ takeWhile is_ascii_digit u) @ dropWhile is_ascii_digit u" by (simp add: r s)
  ultimately show ?thesis using skip by blast
qed

lemma skip_unit_spelled:
  "\<exists>f r'. r = f @ r' \<and> skip_unit (as_bytes (d @ r)) (str_len d) = str_len d + str_len f \<and> f \<in> {[], [105], [106]}"
proof (cases "skip_unit (as_bytes (d @ r)) (str_len d) = str_len d")
  case True
  then show ?thesis by (intro exI [of _ "[]"] exI [of _ r]) simp
next
  case False
  then obtain b s where "b \<in> {105, 106}" "r = b # s" "skip_unit (as_bytes (d @ r)) (str_len d) = str_len d + 1"
    by (auto simp: skip_unit_def byte_at_ascii simp del: as_bytes_append split: if_splits)
  then show ?thesis by (intro exI [of _ "[b]"] exI [of _ s]) auto
qed

lemma number_end_spelled:
  assumes "(\<exists>c s. r = c # s \<and> is_ascii_digit c) \<or> (\<exists>c s. r = 46 # c # s \<and> is_ascii_digit c)"
  shows "\<exists>t r'. r = t @ r' \<and> number_end (as_bytes (d @ r)) (str_len d) = str_len d + str_len t \<and> number_spelled t"
proof -
  obtain point s where r: "r = point @ s" and point: "point \<in> {[], [46]}" and first: "\<exists>c u. s = c # u \<and> is_ascii_digit c"
    using assms by (elim disjE exE conjE) (rule that [of "[]"], auto intro: that [of "[46]"])
  define ds where "ds = takeWhile is_ascii_digit s"
  define s1 where "s1 = dropWhile is_ascii_digit s"
  have ds: "s = ds @ s1" "ds \<noteq> []" "digits ds" using first by (auto simp: ds_def s1_def)
  have "(if byte_at (as_bytes (d @ r)) (str_len d) = Some 46 then str_len d + 1 else str_len d) = str_len d + str_len point"
    using point first by (auto simp: byte_at_ascii r is_ascii_digit_def simp del: as_bytes_append)
  then have c1: "skip_digits (as_bytes (d @ r)) (if byte_at (as_bytes (d @ r)) (str_len d) = Some 46 then str_len d + 1 else str_len d) =
      str_len (d @ point @ ds)"
    using skip_digits_behind [of point "str_len point" d s] by (simp add: r ds_def)
  let ?d1 = "d @ point @ ds"
  have "as_bytes (d @ r) = as_bytes (?d1 @ s1)" by (simp add: r ds(1))
  from skip_fraction_spelled [of s1 ?d1, folded this] obtain f s2 where f: "s1 = f @ s2"
      "skip_fraction (as_bytes (d @ r)) (str_len ?d1) = str_len ?d1 + str_len f" "fraction_spelled f" by blast
  let ?d2 = "?d1 @ f"
  have "as_bytes (d @ r) = as_bytes (?d2 @ s2)" by (simp add: r ds(1) f(1))
  from skip_exponent_spelled [of s2 ?d2, folded this] obtain x s3 where x: "s2 = x @ s3"
      "skip_exponent (as_bytes (d @ r)) (str_len ?d2) = str_len ?d2 + str_len x" "exponent_spelled x" by blast
  let ?d3 = "?d2 @ x"
  have "as_bytes (d @ r) = as_bytes (?d3 @ s3)" by (simp add: r ds(1) f(1) x(1))
  from skip_unit_spelled [of s3 ?d3, folded this] obtain u s4 where u: "s3 = u @ s4"
      "skip_unit (as_bytes (d @ r)) (str_len ?d3) = str_len ?d3 + str_len u" "u \<in> {[], [105], [106]}" by blast
  have "number_end (as_bytes (d @ r)) (str_len d) = str_len d + str_len (point @ ds @ f @ x @ u)"
    unfolding number_end_def Let_def c1 using f(2) x(2) u(2) by (simp add: add.assoc)
  moreover have "number_spelled (point @ ds @ f @ x @ u)"
    unfolding number_spelled_def using point ds(2,3) f(3) x(3) u(3) by blast
  ultimately show ?thesis
    by (intro exI [of _ "point @ ds @ f @ x @ u"] exI [of _ s4]) (simp add: r ds(1) f(1) x(1) u(1))
qed

subsection \<open>What a handler consumes\<close>

fun tile :: "nat \<Rightarrow> (TokenKind \<times> str) list \<Rightarrow> Token list" where
  "tile i [] = []"
| "tile i ((k, t) # kts) = Token_new k t (lex_range i (i + str_len t)) # tile (i + str_len t) kts"

definition lexemes :: "(TokenKind \<times> str) list \<Rightarrow> str" where
  "lexemes kts = concat (map snd kts)"

lemma lexemes_simps [simp]:
  "lexemes [] = []" "lexemes ((k, t) # kts) = t @ lexemes kts" "lexemes (kts @ kts') = lexemes kts @ lexemes kts'"
  by (simp_all add: lexemes_def)

lemma tile_append: "tile i (kts @ kts') = tile i kts @ tile (i + str_len (lexemes kts)) kts'"
  by (induction i kts rule: tile.induct) (simp_all add: add.assoc)

definition advanced :: "Lexer \<Rightarrow> (TokenKind \<times> str) list \<Rightarrow> Lexer \<Rightarrow> bool" where
  "advanced L kts L' \<longleftrightarrow>
     source L' = source L \<and> offset L' = offset L + str_len (lexemes kts) \<and> tokens L' = tokens L @ tile (offset L) kts"

lemma advanced_trans: "advanced L kts L1 \<Longrightarrow> advanced L1 kts' L2 \<Longrightarrow> advanced L (kts @ kts') L2"
  by (auto simp: advanced_def tile_append add.assoc)

definition eats :: "CharTable \<Rightarrow> str \<Rightarrow> Lexer \<Rightarrow> Lexer option \<Rightarrow> bool" where
  "eats A r L res \<longleftrightarrow>
     (\<exists>kts r' L'. r = lexemes kts @ r' \<and> res = Some L' \<and> advanced L kts L' \<and> kts \<noteq> [] \<and>
        list_all (\<lambda>(k, t). spelled A k t) kts)"

lemma push_token_fields [simp]:
  "source (push_token k t r L) = source L" "offset (push_token k t r L) = offset L"
  "tokens (push_token k t r L) = tokens L @ [Token_new k t r]"
  by (simp_all add: push_token_def Let_def)

lemma lex_error_fields [simp]:
  "source (lex_error s e m c L) = source L" "offset (lex_error s e m c L) = offset L" "tokens (lex_error s e m c L) = tokens L"
  by (simp_all add: lex_error_def)

lemma push_at:
  assumes "source L = d @ t @ r" and "s = str_len d" and "e = s + str_len t"
  shows "push k s e L = Some (push_token k t (lex_range s e) L)"
  using assms by (simp add: push_def)

lemma eats_one:
  assumes "r = t @ r'" and "res = Some L'" and "spelled A k t" and "source L' = source L"
    and "offset L' = offset L + str_len t"
    and "tokens L' = tokens L @ [Token_new k t (lex_range (offset L) (offset L + str_len t))]"
  shows "eats A r L res"
  unfolding eats_def using assms by (intro exI [of _ "[(k, t)]"] exI [of _ r'] exI [of _ L']) (simp add: advanced_def)

lemma lex_newline_eats:
  assumes "at L d (c # s)" and "c = 13 \<or> c = 10"
  shows "eats A (c # s) L (lex_newline (offset L) c (c # s) L)"
proof -
  obtain t r' where t: "c # s = t @ r'" "t \<in> {[13], [10], [13, 10]}"
      "offset L + (if starts_with [13, 10] (c # s) then 2 else len_utf8 c) = offset L + str_len t"
  proof (cases "starts_with [13, 10] (c # s)")
    case True
    then obtain u where "c # s = [13, 10] @ u" unfolding starts_with_append by blast
    with True that [of "[13, 10]" u] show thesis by simp
  next
    case False
    with assms(2) that [of "[c]" s] show thesis by auto
  qed
  let ?P = "push_token Newline t (lex_range (offset L) (offset L + str_len t)) (L\<lparr>offset := offset L + str_len t\<rparr>)"
  have "push Newline (offset L) (offset L + str_len t) (L\<lparr>offset := offset L + str_len t\<rparr>) = Some ?P"
    using assms(1) t(1) by (intro push_at [of _ d t r']) (simp_all add: at_def)
  then have "lex_newline (offset L) c (c # s) L =
      Some ((if line_continuation_pending L then ?P else ?P\<lparr>previous_significant := None\<rparr>)
        \<lparr>horizontal_trivia_since_significant := False, line_continuation_pending := False\<rparr>)"
    by (simp only: lex_newline_def t(3) Let_def) simp
  then show ?thesis
    by (rule eats_one [OF t(1), where k = Newline]) (use t(2) in \<open>auto simp: spelled_def\<close>)
qed

lemma consume_while_at:
  assumes "at L d r"
  shows "consume_while p L = Some (L\<lparr>offset := offset L + str_len (takeWhile p r)\<rparr>)"
  using assms by (simp add: consume_while_def consumed_takeWhile)

lemma consume_until_line_end_at:
  assumes "at L d r"
  shows "consume_until_line_end L = Some (L\<lparr>offset := offset L + str_len (takeWhile (\<lambda>c. \<not> (c = 13 \<or> c = 10)) r)\<rparr>)"
  using assms by (simp add: consume_until_line_end_def consumed_takeWhile)

lemma no_line_break_takeWhile: "(\<And>c. p c \<Longrightarrow> c \<noteq> 13 \<and> c \<noteq> 10) \<Longrightarrow> no_line_break (takeWhile p s)"
  by (fastforce simp: no_line_break_def dest: set_takeWhileD)

lemma list_all_takeWhile: "(\<And>c. p c \<Longrightarrow> q c) \<Longrightarrow> list_all q (takeWhile p s)"
  by (auto simp: list_all_iff dest: set_takeWhileD)

text \<open>A handler that pushes what a loop consumed.\<close>

lemma eats_takeWhile:
  assumes "at L d r" and "res = Some L'" and "spelled A k (takeWhile p r)" and "source L' = source L"
    and "offset L' = offset L + str_len (takeWhile p r)"
    and "tokens L' = tokens L @ [Token_new k (takeWhile p r) (lex_range (offset L) (offset L + str_len (takeWhile p r)))]"
  shows "eats A r L res"
  by (rule eats_one [OF takeWhile_dropWhile_id [symmetric] assms(2-6)])

lemma push_takeWhile:
  assumes "at L d r"
  shows "push k (offset L) (offset L + str_len (takeWhile p r)) (L\<lparr>offset := i\<rparr>) =
    Some (push_token k (takeWhile p r) (lex_range (offset L) (offset L + str_len (takeWhile p r))) (L\<lparr>offset := i\<rparr>))"
  using assms by (intro push_at [of _ d _ "dropWhile p r"]) (simp_all add: at_def)

lemma lex_whitespace_eats:
  assumes "at L d (c # s)" and "is_whitespace c" and "c \<noteq> 13" and "c \<noteq> 10"
  shows "eats A (c # s) L (lex_whitespace (offset L) L)"
proof -
  let ?p = "\<lambda>c. is_whitespace c \<and> c \<noteq> 13 \<and> c \<noteq> 10"
  have "spelled A Whitespace (takeWhile ?p (c # s))"
    using assms(2-4) no_line_break_takeWhile [of ?p "c # s"] list_all_takeWhile [of ?p is_whitespace "c # s"] by (simp add: spelled_def)
  then show ?thesis
    by (rule eats_takeWhile [OF assms(1) _ , rotated])
       (simp_all add: lex_whitespace_def consume_while_at [OF assms(1)] push_takeWhile [OF assms(1)] del: takeWhile.simps)
qed

lemma lex_line_comment_eats:
  assumes "at L d (c # s)" and "c \<noteq> 13" and "c \<noteq> 10"
  shows "eats A (c # s) L (lex_line_comment (offset L) L)"
proof -
  let ?p = "\<lambda>c. \<not> (c = 13 \<or> c = 10)"
  have "spelled A Comment (takeWhile ?p (c # s))"
    using assms(2,3) no_line_break_takeWhile [of ?p "c # s"] by (simp add: spelled_def)
  then show ?thesis
    by (rule eats_takeWhile [OF assms(1) _ , rotated])
       (simp_all add: lex_line_comment_def consume_until_line_end_at [OF assms(1)] push_takeWhile [OF assms(1)] del: takeWhile.simps de_Morgan_disj)
qed

lemma push_there:
  assumes "at L d r" and "r = t @ r'" and "source M = source L"
  shows "push k (offset L) (offset L + str_len t) M =
    Some (push_token k t (lex_range (offset L) (offset L + str_len t)) M)"
  using assms by (intro push_at [of _ d t r']) (simp_all add: at_def)

lemma str_len_ascii: "list_all (\<lambda>c. c < 128) s \<Longrightarrow> str_len s = length s"
  by (induction s) auto

lemma at_behind:
  assumes "at L d (t @ r)"
  shows "at (L\<lparr>offset := offset L + str_len t\<rparr>) (d @ t) r"
  using assms by (simp add: at_def)

lemma lex_block_comment_eats:
  assumes "at L d r" and "starts_with (ascii ''%{'') r"
  shows "eats A r L (lex_block_comment (offset L) L)"
proof -
  let ?open = "ascii ''%{''"
  obtain u where u: "r = ?open @ u" using assms(2) unfolding starts_with_append by blast
  have width: "str_len ?open = 2" "str_len (ascii ''%}'') = 2" by (simp_all add: ascii_def)
  let ?L1 = "L\<lparr>offset := offset L + 2\<rparr>"
  have L1: "at ?L1 (d @ ?open) u" using at_behind [of L d ?open u] assms(1) u width by simp
  obtain t r' where t: "r = t @ r'" "starts_with ?open t"
    and stop: "(case find_str (ascii ''%}'') u of Some i \<Rightarrow> offset ?L1 + (i + 2) | None \<Rightarrow> str_len (source ?L1)) = offset L + str_len t"
  proof (cases "find_str (ascii ''%}'') u")
    case None
    with that [of r "[]"] assms u width show thesis by (simp add: at_def)
  next
    case (Some i)
    from find_str_Some [OF this] obtain a b where "u = a @ ascii ''%}'' @ b" "i = str_len a" by blast
    with Some that [of "?open @ a @ ascii ''%}''" b] u width show thesis by (auto simp: starts_with_append)
  qed
  have ok: "spelled A Comment t" using t(2) by (auto simp: spelled_def starts_with_append ascii_def)
  define M where "M = (case find_str (ascii ''%}'') u of
      Some i \<Rightarrow> ?L1\<lparr>offset := offset ?L1 + (i + 2)\<rparr>
    | None \<Rightarrow> lex_error (offset L) (str_len (source ?L1)) (ascii ''unterminated block comment'') (ascii ''OML0003'')
              (?L1\<lparr>offset := str_len (source ?L1)\<rparr>))"
  have M: "source M = source L" "tokens M = tokens L" by (simp_all add: M_def split: option.splits)
  have "offset M = offset L + str_len t" unfolding stop [symmetric] by (simp add: M_def split: option.splits)
  moreover have "lex_block_comment (offset L) L = push Comment (offset L) (offset M) M"
    using L1 unfolding lex_block_comment_def Let_def M_def by (simp split: option.splits)
  ultimately have res: "lex_block_comment (offset L) L =
      Some (push_token Comment t (lex_range (offset L) (offset L + str_len t)) M)"
    and stop': "offset M = offset L + str_len t"
    by (simp_all add: push_there [OF assms(1) t(1)] M)
  show ?thesis by (rule eats_one [OF t(1) res ok]) (simp_all add: M stop')
qed

lemma lex_number_eats:
  assumes "at L d r" and "(\<exists>c s. r = c # s \<and> is_ascii_digit c) \<or> (\<exists>c s. r = 46 # c # s \<and> is_ascii_digit c)"
  shows "eats A r L (lex_number (offset L) L)"
proof -
  from number_end_spelled [OF assms(2), of d] obtain t r' where t: "r = t @ r'"
      "number_end (as_bytes (source L)) (offset L) = offset L + str_len t" "number_spelled t"
    using assms(1) by (auto simp: at_def)
  have "t \<noteq> []" using t(3) by (auto simp: number_spelled_def)
  then have ok: "spelled A Number t" using t(3) by (simp add: spelled_def)
  have res: "lex_number (offset L) L = Some (push_token Number t (lex_range (offset L) (offset L + str_len t))
      (L\<lparr>offset := offset L + str_len t\<rparr>))"
    by (simp add: lex_number_def t(2) Let_def push_there [OF assms(1) t(1)])
  show ?thesis by (rule eats_one [OF t(1) res ok]) simp_all
qed

lemma lex_quoted_eats:
  assumes "at L d (q # s)" and "q = 39 \<and> k = CharLiteral \<or> q = 34 \<and> k = StringLiteral"
  shows "eats A (q # s) L (lex_quoted (offset L) q k L)"
proof -
  have q: "q \<noteq> 13" "q \<noteq> 10" using assms(2) by auto
  let ?L1 = "L\<lparr>offset := offset L + len_utf8 q\<rparr>"
  have L1: "at ?L1 (d @ [q]) s" using at_behind [of L d "[q]" s] assms(1) by simp
  obtain u r' where u: "s = u @ r'" "no_line_break u" "fst (quoted_end q s (offset ?L1)) = offset ?L1 + str_len u"
    using quoted_end_split [OF q, of s "offset ?L1"] by blast
  define t where "t = q # u"
  define terminated where "terminated = snd (quoted_end q s (offset ?L1))"
  have stop: "quoted_end q s (offset L + len_utf8 q) = (offset L + str_len t, terminated)"
    using u(3) by (simp add: t_def terminated_def prod_eq_iff)
  have t: "q # s = t @ r'" using u(1) by (simp add: t_def)
  have "spelled A k t" using assms(2) u(2) by (auto simp: spelled_def t_def)
  moreover obtain P where "lex_quoted (offset L) q k L = Some P" "source P = source L" "offset P = offset L + str_len t"
      "tokens P = tokens L @ [Token_new k t (lex_range (offset L) (offset L + str_len t))]"
    using that L1 by (auto simp: lex_quoted_def Let_def stop push_there [OF assms(1) t])
  ultimately show ?thesis by (intro eats_one [OF t]) auto
qed

lemma lex_ellipsis_eats:
  assumes "at L d r" and "starts_with (ascii ''...'') r"
  shows "eats A r L (lex_ellipsis (offset L) L)"
proof -
  define dots where "dots = takeWhile (\<lambda>c. c = 46) r"
  define rest where "rest = dropWhile (\<lambda>c. c = 46) r"
  define more where "more = takeWhile (\<lambda>c. \<not> (c = 13 \<or> c = 10)) rest"
  define L2 where "L2 = push_token Ellipsis dots (lex_range (offset L) (offset L + str_len dots)) (L\<lparr>offset := offset L + str_len dots\<rparr>)"
  have r: "r = dots @ rest" by (simp add: dots_def rest_def)
  have rest: "rest = more @ dropWhile (\<lambda>c. \<not> (c = 13 \<or> c = 10)) rest" unfolding more_def by (rule takeWhile_dropWhile_id [symmetric])
  have "3 \<le> length dots" using assms(2) by (auto simp: starts_with_append ascii_def dots_def)
  then have dots: "spelled A Ellipsis dots"
    using list_all_takeWhile [of "\<lambda>c. c = 46" "\<lambda>c. c = 46" r] by (auto simp: spelled_def dots_def)
  have L1: "consume_while (\<lambda>c. c = 46) L = Some (L\<lparr>offset := offset L + str_len dots\<rparr>)"
    using consume_while_at [OF assms(1)] by (simp add: dots_def)
  have L2: "push Ellipsis (offset L) (offset L + str_len dots) (L\<lparr>offset := offset L + str_len dots\<rparr>) = Some L2"
    unfolding L2_def by (rule push_there [OF assms(1) r]) simp
  have at2: "at L2 (d @ dots) rest" using assms(1) r by (simp add: at_def L2_def)
  have step: "advanced L [(Ellipsis, dots)] L2" by (simp add: advanced_def L2_def)
  have L3: "consume_until_line_end L2 = Some (L2\<lparr>offset := offset L2 + str_len more\<rparr>)"
    using consume_until_line_end_at [OF at2] by (simp add: more_def)
  show ?thesis
  proof (cases "more = []")
    case True
    obtain L' where "lex_ellipsis (offset L) L = Some L'" "advanced L [(Ellipsis, dots)] L'"
      using that step by (simp add: lex_ellipsis_def L1 L2 L3 True Let_def advanced_def)
    with r dots show ?thesis unfolding eats_def by (intro exI [of _ "[(Ellipsis, dots)]"]) simp
  next
    case False
    then have pos: "0 < str_len more" by (simp add: neq0_conv [symmetric] del: neq0_conv)
    let ?M = "push_token Comment more (lex_range (offset L2) (offset L2 + str_len more)) (L2\<lparr>offset := offset L2 + str_len more\<rparr>)"
    have L4: "push Comment (offset L2) (offset L2 + str_len more) (L2\<lparr>offset := offset L2 + str_len more\<rparr>) = Some ?M"
      by (rule push_there [OF at2 rest]) simp
    have "advanced L2 [(Comment, more)] ?M" by (simp add: advanced_def)
    from advanced_trans [OF step this] have all: "advanced L [(Ellipsis, dots), (Comment, more)] ?M" by simp
    obtain L' where "lex_ellipsis (offset L) L = Some L'" "advanced L [(Ellipsis, dots), (Comment, more)] L'"
      using that all pos by (simp add: lex_ellipsis_def L1 L2 L3 L4 Let_def advanced_def)
    moreover have "spelled A Comment more"
      using False no_line_break_takeWhile [of "\<lambda>c. \<not> (c = 13 \<or> c = 10)" rest] by (simp add: spelled_def more_def)
    moreover have "r = lexemes [(Ellipsis, dots), (Comment, more)] @ dropWhile (\<lambda>c. \<not> (c = 13 \<or> c = 10)) rest"
      using r rest by simp
    ultimately show ?thesis using dots unfolding eats_def by (intro exI [of _ "[(Ellipsis, dots), (Comment, more)]"]) auto
  qed
qed

lemma keyword_kind_cases: "keyword_kind t = Identifier \<or> is_keyword (keyword_kind t)"
  by (simp add: keyword_kind_def is_keyword_def)

lemma spelled_word:
  assumes "t \<noteq> []" and "hd t = 95 \<or> is_alphabetic A (hd t)" and "list_all (\<lambda>c. c = 95 \<or> is_alphanumeric A c) t"
  shows "spelled A (keyword_kind t) t"
proof -
  have "keyword_kind t = Identifier \<or> is_keyword (keyword_kind t)" by (rule keyword_kind_cases)
  with assms show ?thesis by (cases "keyword_kind t") (auto simp: spelled_def is_keyword_def)
qed

lemma lex_word_eats:
  assumes "at L d (c # s)" and "c = 95 \<or> is_alphabetic A c"
  shows "eats A (c # s) L (lex_word A (offset L) L)"
proof -
  let ?p = "\<lambda>c. c = 95 \<or> is_alphanumeric A c"
  define t where "t = takeWhile ?p (c # s)"
  define L1 where "L1 = L\<lparr>offset := offset L + str_len t\<rparr>"
  have r: "c # s = t @ dropWhile ?p (c # s)" unfolding t_def by (rule takeWhile_dropWhile_id [symmetric])
  have first: "t \<noteq> []" "hd t = c" using assms(2) by (auto simp: t_def is_alphanumeric_def)
  have ok: "spelled A (keyword_kind t) t"
    using first assms(2) list_all_takeWhile [of ?p ?p "c # s"] by (intro spelled_word) (simp_all add: t_def)
  have consume: "consume_while ?p L = Some L1" unfolding consume_while_at [OF assms(1)] L1_def t_def by (rule refl)
  have "source L1 = d @ t @ dropWhile ?p (c # s)" "offset L = str_len d" "offset L1 = str_len d + str_len t"
    using assms(1) r unfolding L1_def at_def by (simp_all del: dropWhile.simps)
  then have slice: "str_get (source L1) (offset L) (offset L1) = Some t" by (simp only: str_get_append)
  have "push (keyword_kind t) (offset L) (offset L1) L1 =
      Some (push_token (keyword_kind t) t (lex_range (offset L) (offset L + str_len t)) L1)"
    using push_there [OF assms(1) r, of L1] by (simp add: L1_def)
  with consume slice have "lex_word A (offset L) L =
      Some (push_token (keyword_kind t) t (lex_range (offset L) (offset L + str_len t)) L1)"
    by (simp add: lex_word_def)
  then show ?thesis by (rule eats_one [OF r _ ok]) (simp_all add: L1_def)
qed

lemma lex_apostrophe_eats:
  assumes "at L d (39 # s)"
  shows "eats A (39 # s) L (lex_apostrophe (offset L) L)"
proof -
  let ?L1 = "L\<lparr>offset := offset L + 1\<rparr>"
  have r: "39 # s = [39] @ s" by simp
  have res: "push ConjugateTranspose (offset L) (offset L + 1) ?L1 =
      Some (push_token ConjugateTranspose [39] (lex_range (offset L) (offset L + str_len [39])) ?L1)"
    using push_there [OF assms r, of ?L1] by simp
  have "spelled A ConjugateTranspose [39]" by (simp add: spelled_def operator_spelling_def is_keyword_def)
  then have "eats A (39 # s) L (push ConjugateTranspose (offset L) (offset L + 1) ?L1)"
    by (rule eats_one [OF r res]) simp_all
  moreover have "eats A (39 # s) L (lex_quoted (offset L) 39 CharLiteral L)"
    by (rule lex_quoted_eats [OF assms]) simp
  ultimately show ?thesis by (simp add: lex_apostrophe_def Let_def)
qed

definition lexeme_at :: "CharTable \<Rightarrow> str \<Rightarrow> TokenKind \<times> nat \<Rightarrow> bool" where
  "lexeme_at A r p \<longleftrightarrow> (\<exists>t r'. r = t @ r' \<and> snd p = str_len t \<and> spelled A (fst p) t)"

lemma lexeme_at_if: "(b \<Longrightarrow> lexeme_at A r p) \<Longrightarrow> lexeme_at A r q \<Longrightarrow> lexeme_at A r (if b then p else q)"
  by simp

lemma lexeme_at_pair:
  "starts_with t r \<Longrightarrow> length t = 2 \<Longrightarrow> list_all (\<lambda>c. c < 128) t \<Longrightarrow> spelled A k t \<Longrightarrow> lexeme_at A r (k, 2)"
  by (auto simp: lexeme_at_def starts_with_append str_len_ascii)

lemma lexeme_at_single: "c = b \<Longrightarrow> b < 128 \<Longrightarrow> spelled A k [b] \<Longrightarrow> lexeme_at A (c # s) (k, 1)"
  unfolding lexeme_at_def by (intro exI [of _ "[b]"] exI [of _ s]) simp

lemma lexeme_at_error: "lexeme_at A (c # s) (ErrorToken, len_utf8 c)"
  unfolding lexeme_at_def by (intro exI [of _ "[c]"] exI [of _ s]) (simp add: spelled_def)

lemma operator_token_lexeme: "lexeme_at A (c # s) (operator_token (c # s) c)"
  unfolding operator_token_def
  by (intro lexeme_at_if; (rule lexeme_at_error | (erule lexeme_at_pair lexeme_at_single;
      simp add: spelled_def operator_spelling_def is_keyword_def ascii_def)))

lemma lex_operator_or_error_eats:
  assumes "at L d (c # s)"
  shows "eats A (c # s) L (lex_operator_or_error (offset L) c L)"
proof -
  obtain k n where op: "operator_token (c # s) c = (k, n)" by (cases "operator_token (c # s) c")
  with operator_token_lexeme [of A c s] obtain t r' where t: "c # s = t @ r'" "n = str_len t" "spelled A k t"
    by (auto simp: lexeme_at_def)
  obtain P where res: "lex_operator_or_error (offset L) c L = Some P" and P: "source P = source L" "offset P = offset L + str_len t"
      "tokens P = tokens L @ [Token_new k t (lex_range (offset L) (offset L + str_len t))]"
    using that assms by (auto simp: lex_operator_or_error_def Let_def op t(2) push_there [OF assms t(1)])
  show ?thesis by (rule eats_one [OF t(1) res t(3) P])
qed

lemma lex_one_eats:
  assumes "at L d (c # s)"
  shows "eats A (c # s) L (lex_one A L)"
proof -
  let ?r = "c # s" and ?i = "offset L"
  have "eats A ?r L (lex_newline ?i c ?r L)" if "c = 13 \<or> c = 10" using lex_newline_eats [OF assms that] .
  moreover have "eats A ?r L (lex_whitespace ?i L)" if "is_whitespace c" "\<not> (c = 13 \<or> c = 10)"
    using lex_whitespace_eats [OF assms] that by blast
  moreover have "eats A ?r L (lex_block_comment ?i L)" if "starts_with (ascii ''%{'') ?r"
    by (rule lex_block_comment_eats [OF assms that])
  moreover have "eats A ?r L (lex_line_comment ?i L)" if "c = 37"
    using lex_line_comment_eats [OF assms] that by simp
  moreover have "eats A ?r L (lex_ellipsis ?i L)" if "starts_with (ascii ''...'') ?r"
    by (rule lex_ellipsis_eats [OF assms that])
  moreover have "eats A ?r L (lex_number ?i L)" if "is_ascii_digit c \<or> c = 46 \<and> digit_at (as_bytes ?r) 1"
    using that digit_at_ascii [of "[46]" s] by (intro lex_number_eats [OF assms]) auto
  moreover have "eats A ?r L (lex_word A ?i L)" if "c = 95 \<or> is_alphabetic A c" by (rule lex_word_eats [OF assms that])
  moreover have "eats A ?r L (lex_apostrophe ?i L)" if "c = 39" using assms that by (auto intro: lex_apostrophe_eats)
  moreover have "eats A ?r L (lex_quoted ?i 34 StringLiteral L)" if "c = 34" using assms that by (auto intro: lex_quoted_eats)
  moreover have "eats A ?r L (lex_operator_or_error ?i c L)" by (rule lex_operator_or_error_eats [OF assms])
  ultimately show ?thesis using assms by (simp add: lex_one_def Let_def)
qed

subsection \<open>The loop\<close>

lemma lex_loop_covers:
  assumes "at L d r"
  shows "\<exists>kts L'. lex_loop A L = Some L' \<and> r = lexemes kts \<and> advanced L kts L' \<and> list_all (\<lambda>(k, t). spelled A k t) kts"
  using assms
proof (induction "length r" arbitrary: L d r rule: less_induct)
  case less
  show ?case
  proof (cases r)
    case Nil
    with less.prems show ?thesis by (intro exI [of _ "[]"] exI [of _ L]) (simp add: lex_loop.simps at_def advanced_def)
  next
    case (Cons c s)
    from lex_one_eats less.prems Cons have "eats A r L (lex_one A L)" by simp
    then obtain kts r' L1 where e: "r = lexemes kts @ r'" "lex_one A L = Some L1" "advanced L kts L1" "kts \<noteq> []"
        "list_all (\<lambda>(k, t). spelled A k t) kts"
      unfolding eats_def by blast
    have "lexemes kts \<noteq> []" using e(4,5) by (cases kts) (auto simp: spelled_def)
    then have "length r' < length r" using e(1) by simp
    moreover have "at L1 (d @ lexemes kts) r'" using less.prems e(1,3) by (simp add: at_def advanced_def)
    ultimately obtain kts' L' where l: "lex_loop A L1 = Some L'" "r' = lexemes kts'" "advanced L1 kts' L'"
        "list_all (\<lambda>(k, t). spelled A k t) kts'"
      using less.hyps by blast
    have "offset L < str_len (source L)" using less.prems Cons by (simp add: at_def)
    then have "lex_loop A L = Some L'" using e(2) l(1) by (subst lex_loop.simps) simp
    with e(1,5) l(2,4) advanced_trans [OF e(3) l(3)] show ?thesis
      by (intro exI [of _ "kts @ kts'"] exI [of _ L']) simp
  qed
qed

subsection \<open>The whole source\<close>

lemma lex_tiles:
  "\<exists>res kts. lex A i s = Some res \<and> s = lexemes kts \<and> list_all (\<lambda>(k, t). spelled A k t) kts \<and>
     result_tokens res = tile 0 kts @ [Token_new Eof [] (TextRange_empty (min u32_max (str_len s)))]"
proof -
  define L1 where "L1 =
    (if str_len s > u32_max
     then (Lexer_new i s)\<lparr>diagnostics := [with_code (Diagnostic_error i (TextRange_empty u32_max)
             (ascii ''source exceeds the 32-bit byte-range limit'')) (ascii ''OML0001'')]\<rparr>
     else Lexer_new i s)"
  have "at L1 [] s" "offset L1 = 0" "tokens L1 = []" by (simp_all add: L1_def at_def Lexer_new_def)
  with lex_loop_covers [of L1 "[]" s A] obtain kts L' where
    "lex_loop A L1 = Some L'" "s = lexemes kts" "list_all (\<lambda>(k, t). spelled A k t) kts" "tokens L' = tile 0 kts"
    by (auto simp: advanced_def)
  then show ?thesis
    unfolding lex_def Let_def L1_def [symmetric] by (intro exI [of _ "\<lparr>result_tokens = _, result_diagnostics = _\<rparr>"] exI [of _ kts]) simp
qed

lemma tokens_text_tile: "tokens_text (tile i kts) = lexemes kts"
  by (induction i kts rule: tile.induct) (simp_all add: tokens_text_def Token_new_def)

text \<open>
  C6: Lexing always returns, on every source, whatever the Unicode tables say: no slice of the source
  fails and the loop ends. The texts of the tokens, laid end to end, are the source.
\<close>

theorem lexing_is_lossless: "map_option (\<lambda>res. tokens_text (result_tokens res)) (lex A i s) = Some s"
proof -
  from lex_tiles [of A i s] obtain res kts where "lex A i s = Some res" "s = lexemes kts"
      "result_tokens res = tile 0 kts @ [Token_new Eof [] (TextRange_empty (min u32_max (str_len s)))]" by blast
  moreover have "tokens_text (ts @ [Token_new Eof [] r]) = tokens_text ts" for ts r by (simp add: tokens_text_def Token_new_def)
  ultimately show ?thesis by (simp add: tokens_text_tile)
qed

lemma tile_spelled:
  "list_all (\<lambda>(k, t). spelled A k t) kts \<Longrightarrow> list_all (\<lambda>t. spelled A (token_kind t) (token_text t)) (tile i kts)"
  by (induction i kts rule: tile.induct) (auto simp: Token_new_def)


lemma tile_slices:
  assumes "str_len (d @ lexemes kts) \<le> u32_max"
  shows "list_all (\<lambda>t. str_get (d @ lexemes kts) (range_start (token_range t)) (range_end (token_range t)) = Some (token_text t))
    (tile (str_len d) kts)"
  using assms
proof (induction kts arbitrary: d)
  case (Cons kt kts)
  obtain k t where kt: "kt = (k, t)" by (cases kt)
  have "lex_range (str_len d) (str_len d + str_len t) = \<lparr>range_start = str_len d, range_end = str_len d + str_len t\<rparr>"
    using Cons.prems by (simp add: lex_range_def TextRange_from_usize_cases kt)
  with Cons.IH [of "d @ t"] Cons.prems show ?case by (simp add: kt Token_new_def)
qed simp

text \<open>
  In a source within the 32-bit limit the range of every token, the end marker included, selects
  exactly the text of the token from the source.
\<close>

theorem token_ranges_select_texts:
  assumes "str_len s \<le> u32_max"
  shows "map_option (\<lambda>res. list_all (\<lambda>t. str_get s (range_start (token_range t)) (range_end (token_range t)) = Some (token_text t))
    (result_tokens res)) (lex A i s) = Some True"
proof -
  from lex_tiles [of A i s] obtain res kts where lexed: "lex A i s = Some res" "s = lexemes kts"
      "result_tokens res = tile 0 kts @ [Token_new Eof [] (TextRange_empty (min u32_max (str_len s)))]" by blast
  have "str_get s (str_len s) (str_len s) = Some []" using str_get_append [of s "[]" "[]"] by simp
  then show ?thesis
    using tile_slices [of "[]" kts] lexed assms by (simp add: Token_new_def TextRange_empty_def)
qed

text \<open>The transposed variable and the character literal of \<open>a' 'b'\<close> in a matrix.\<close>

lemma token_ranges_select_texts_witness:
  "str_len [91, 97, 39, 32, 39, 98, 39, 93] \<le> u32_max \<and>
   map_option (\<lambda>res. list_all (\<lambda>t. str_get [91, 97, 39, 32, 39, 98, 39, 93] (range_start (token_range t)) (range_end (token_range t)) =
     Some (token_text t)) (result_tokens res))
     (lex \<lparr>wide_alphabetic = \<lambda>_. True, wide_numeric = \<lambda>_. False\<rparr> 1 [91, 97, 39, 32, 39, 98, 39, 93]) = Some True"
proof -
  have "str_len [91, 97, 39, 32, 39, 98, 39, 93] \<le> u32_max" by code_simp
  from this token_ranges_select_texts [OF this] show ?thesis by blast
qed

subsection \<open>Transposes follow operands\<close>

text \<open>A token is behind an operand when nothing but trivia stands between them.\<close>

definition behind_operand :: "Token list \<Rightarrow> bool" where
  "behind_operand ts \<longleftrightarrow> (case dropWhile (\<lambda>t. is_trivia (token_kind t)) (rev ts) of
     [] \<Rightarrow> False | t # _ \<Rightarrow> can_end_expression (token_kind t))"

definition transposes_follow :: "Token list \<Rightarrow> bool" where
  "transposes_follow ts \<longleftrightarrow> (\<forall>n < length ts. token_kind (ts ! n) = ConjugateTranspose \<longrightarrow> behind_operand (take n ts))"

definition context_ok :: "Lexer \<Rightarrow> bool" where
  "context_ok L \<longleftrightarrow> transposes_follow (tokens L) \<and>
     (\<forall>k. previous_significant L = Some k \<longrightarrow> (\<exists>p r. dropWhile (\<lambda>t. is_trivia (token_kind t)) (rev (tokens L)) = p # r \<and> token_kind p = k))"

lemma transposes_follow_snoc:
  "transposes_follow (ts @ [t]) \<longleftrightarrow> transposes_follow ts \<and> (token_kind t = ConjugateTranspose \<longrightarrow> behind_operand ts)"
  by (auto simp: transposes_follow_def nth_append less_Suc_eq)

lemma push_token_context:
  assumes "context_ok L" and "k = ConjugateTranspose \<Longrightarrow> behind_operand (tokens L)"
  shows "context_ok (push_token k t r L)"
  using assms by (auto simp: context_ok_def push_token_def Let_def transposes_follow_snoc Token_new_def)

lemma push_context:
  assumes "push k s e L = Some L'" and "context_ok L" and "k \<noteq> ConjugateTranspose"
  shows "context_ok L'"
  using assms by (auto simp: push_def bind_eq_Some_conv intro: push_token_context)

lemma context_ok_update [simp]:
  "context_ok (L\<lparr>offset := i\<rparr>) \<longleftrightarrow> context_ok L"
  "context_ok (L\<lparr>horizontal_trivia_since_significant := b\<rparr>) \<longleftrightarrow> context_ok L"
  "context_ok (L\<lparr>line_continuation_pending := b\<rparr>) \<longleftrightarrow> context_ok L"
  "context_ok (lex_error s e m c L) \<longleftrightarrow> context_ok L"
  "context_ok L \<Longrightarrow> context_ok (L\<lparr>previous_significant := None\<rparr>)"
  by (simp_all add: context_ok_def lex_error_def)

lemma keyword_kind_no_transpose [simp]: "keyword_kind t \<noteq> ConjugateTranspose"
  by (simp add: keyword_kind_def)

lemma operator_token_no_transpose: "fst (operator_token r c) \<noteq> ConjugateTranspose"
  by (simp add: operator_token_def)

lemma consume_context:
  "consume_while p L = Some L' \<Longrightarrow> context_ok L \<Longrightarrow> context_ok L'"
  "consume_until_line_end L = Some L' \<Longrightarrow> context_ok L \<Longrightarrow> context_ok L'"
  by (auto simp: consume_while_def consume_until_line_end_def bind_eq_Some_conv)

lemma lex_quoted_context:
  assumes "lex_quoted start q k L = Some L'" and "context_ok L" and "k \<noteq> ConjugateTranspose"
  shows "context_ok L'"
proof -
  obtain r stop terminated where "quoted_end q r (offset L + len_utf8 q) = (stop, terminated)"
      "remaining (L\<lparr>offset := offset L + len_utf8 q\<rparr>) = Some r"
    using assms(1) by (auto simp: lex_quoted_def bind_eq_Some_conv) (metis surj_pair)
  with assms show ?thesis by (auto simp: lex_quoted_def bind_eq_Some_conv Let_def split: if_splits dest!: push_context)
qed

lemma lex_operator_context:
  assumes "lex_operator_or_error start c L = Some L'" and "context_ok L"
  shows "context_ok L'"
proof -
  obtain r k n where r: "remaining L = Some r" "operator_token r c = (k, n)"
    using assms(1) by (auto simp: lex_operator_or_error_def bind_eq_Some_conv) (metis surj_pair)
  then have "k \<noteq> ConjugateTranspose" using operator_token_no_transpose [of r c] by simp
  with r assms show ?thesis
    by (auto simp: lex_operator_or_error_def bind_eq_Some_conv Let_def split: if_splits dest!: push_context)
qed

lemma lex_ellipsis_context:
  assumes "lex_ellipsis start L = Some L'" and "context_ok L"
  shows "context_ok L'"
  using assms
  by (auto simp: lex_ellipsis_def bind_eq_Some_conv Let_def split: if_splits dest!: consume_context push_context)

lemma lex_apostrophe_context:
  assumes "lex_apostrophe start L = Some L'" and "context_ok L"
  shows "context_ok L'"
proof (cases "lex_apostrophe start L = lex_quoted start 39 CharLiteral L")
  case True
  with assms show ?thesis by (auto dest: lex_quoted_context)
next
  case False
  then have operand: "\<exists>k \<in> set_option (previous_significant L). can_end_expression k"
    and push: "push ConjugateTranspose start (offset L + 1) (L\<lparr>offset := offset L + 1\<rparr>) = Some L'"
    using assms(1) by (auto simp: lex_apostrophe_def Let_def split: if_splits)
  from operand assms(2) have "behind_operand (tokens L)" by (auto simp: context_ok_def behind_operand_def)
  with push assms(2) show ?thesis by (auto simp: push_def bind_eq_Some_conv intro: push_token_context)
qed

lemma lex_one_context:
  assumes "lex_one A L = Some L'" and "context_ok L"
  shows "context_ok L'"
proof -
  note pushes = bind_eq_Some_conv Let_def
  have "lex_newline i c r L = Some L' \<Longrightarrow> context_ok L'" for i c r
    using assms(2) by (auto simp: lex_newline_def pushes dest!: push_context)
  moreover have "lex_whitespace i L = Some L' \<Longrightarrow> context_ok L'" for i
    using assms(2) by (auto simp: lex_whitespace_def pushes dest!: push_context consume_context)
  moreover have "lex_block_comment i L = Some L' \<Longrightarrow> context_ok L'" for i
    using assms(2) by (auto simp: lex_block_comment_def pushes dest!: push_context split: option.splits)
  moreover have "lex_line_comment i L = Some L' \<Longrightarrow> context_ok L'" for i
    using assms(2) by (auto simp: lex_line_comment_def pushes dest!: push_context consume_context)
  moreover have "lex_number i L = Some L' \<Longrightarrow> context_ok L'" for i
    using assms(2) by (auto simp: lex_number_def pushes dest!: push_context)
  moreover have "lex_word A i L = Some L' \<Longrightarrow> context_ok L'" for i
    using assms(2) by (auto simp: lex_word_def pushes dest!: push_context consume_context)
  moreover note lex_operator_context [OF _ assms(2)] lex_ellipsis_context [OF _ assms(2)] lex_apostrophe_context [OF _ assms(2)]
    lex_quoted_context [OF _ assms(2), of _ 34 StringLiteral]
  ultimately have "context_ok L'" if "remaining L = Some (c # s)" for c s
    using that assms(1) unfolding lex_one_def Let_def by (simp split: if_split_asm)
  moreover have "context_ok L'" if "remaining L = Some []" using that assms by (simp add: lex_one_def)
  moreover obtain r where "remaining L = Some r" using assms(1) by (auto simp: lex_one_def bind_eq_Some_conv)
  ultimately show ?thesis by (cases r) auto
qed

lemma lex_loop_context: "lex_loop A L = Some L' \<Longrightarrow> context_ok L \<Longrightarrow> context_ok L'"
proof (induction rule: lex_loop.raw_induct [rotated, consumes 1, case_names step])
  case (step f A L L')
  then show ?case by (auto simp: bind_eq_Some_conv split: if_splits dest: lex_one_context)
qed

text \<open>
  C31: An apostrophe is lexed as a transpose only behind an operand: the last token in front of it that
  is no trivia ends an expression.
\<close>

theorem transposes_follow_operands:
  "map_option (\<lambda>res. transposes_follow (result_tokens res)) (lex A i s) = Some True"
proof -
  from lex_tiles [of A i s] obtain res where "lex A i s = Some res" by blast
  moreover from this have "transposes_follow (result_tokens res)"
    by (auto simp: lex_def bind_eq_Some_conv Let_def transposes_follow_snoc Token_new_def context_ok_def Lexer_new_def
        transposes_follow_def [of "[]"] dest!: lex_loop_context split: if_splits)
  ultimately show ?thesis by simp
qed

end
