(* ===== verification/Lsp_Identifier.thy ===== *)
theory Lsp_Identifier
  imports Lexer_Lossless
begin

section \<open>Names a rename may introduce (openmat-lsp/src/index.rs)\<close>

text \<open>
  The check of the language server on a new name, and that it agrees with the lexer: an accepted name is
  one identifier token.
\<close>

definition keyword_names :: "str list" where
  "keyword_names =
     map ascii [''break'', ''case'', ''catch'', ''classdef'', ''continue'', ''else'', ''elseif'', ''end'', ''enumeration'',
       ''events'', ''for'', ''function'', ''global'', ''if'', ''methods'', ''otherwise'', ''parfor'', ''persistent'',
       ''properties'', ''return'', ''spmd'', ''switch'', ''try'', ''while'']"

definition is_keyword_name :: "str \<Rightarrow> bool" where
  "is_keyword_name name \<longleftrightarrow> name \<in> set keyword_names"

fun is_valid_identifier :: "CharTable \<Rightarrow> str \<Rightarrow> bool" where
  "is_valid_identifier A [] \<longleftrightarrow> False"
| "is_valid_identifier A (c # s) \<longleftrightarrow>
     (c = 95 \<or> is_alphabetic A c) \<and> list_all (\<lambda>c. c = 95 \<or> is_alphanumeric A c) s \<and> \<not> is_keyword_name (c # s)"

lemma keyword_names_lexed: "is_keyword_name t \<longleftrightarrow> keyword_kind t \<noteq> Identifier \<or> t = ascii ''events''"
  by (simp add: is_keyword_name_def keyword_names_def keyword_kind_def)

text \<open>The Unicode tables have no white space among the letters.\<close>

definition letters_visible :: "CharTable \<Rightarrow> bool" where
  "letters_visible A \<longleftrightarrow> (\<forall>c. is_whitespace c \<longrightarrow> \<not> wide_alphabetic A c)"

lemma lex_word_whole:
  assumes "letters_visible A" and "at L d (c # s)" and "c = 95 \<or> is_alphabetic A c"
    and "list_all (\<lambda>c. c = 95 \<or> is_alphanumeric A c) s"
  shows "lex_one A L = lex_word A (offset L) L"
    and "\<exists>L'. lex_word A (offset L) L = Some L' \<and> advanced L [(keyword_kind (c # s), c # s)] L'"
proof -
  have letter: "c = 95 \<or> (if c < 128 then 65 \<le> c \<and> c \<le> 90 \<or> 97 \<le> c \<and> c \<le> 122 else wide_alphabetic A c)"
    using assms(3) by (simp add: is_alphabetic_def)
  have "\<not> is_whitespace c"
  proof (cases "c < 128")
    case True
    with letter have "95 \<le> c \<and> c \<le> 95 \<or> 65 \<le> c \<and> c \<le> 90 \<or> 97 \<le> c \<and> c \<le> 122" by auto
    then have "14 \<le> c" "c \<noteq> 32" by auto
    with True show ?thesis by (simp add: is_whitespace_def)
  next
    case False
    with letter assms(1) show ?thesis by (auto simp: letters_visible_def)
  qed
  moreover have "c \<noteq> 13" "c \<noteq> 10" "c \<noteq> 37" "c \<noteq> 46" "\<not> is_ascii_digit c" using letter by (auto simp: is_ascii_digit_def split: if_splits)
  moreover have "\<not> starts_with (ascii ''%{'') (c # s)" "\<not> starts_with (ascii ''...'') (c # s)"
    using calculation by (auto simp: starts_with_append ascii_def)
  ultimately show "lex_one A L = lex_word A (offset L) L" using assms(2,3) by (simp add: lex_one_def)
  let ?p = "\<lambda>c. c = 95 \<or> is_alphanumeric A c"
  have whole: "takeWhile ?p (c # s) = c # s"
    using assms(3,4) by (auto simp: is_alphanumeric_def list_all_iff takeWhile_eq_all_conv)
  have push: "push (keyword_kind (c # s)) (offset L) (offset L + str_len (c # s)) M =
      Some (push_token (keyword_kind (c # s)) (c # s) (lex_range (offset L) (offset L + str_len (c # s))) M)"
    if "source M = source L" for M
    using push_there [OF assms(2), of "c # s" "[]" M] that by simp
  have "str_get (source L) (offset L) (offset L + str_len (c # s)) = Some (c # s)"
    using assms(2) str_get_append [of d "c # s" "[]"] by (simp add: at_def)
  then show "\<exists>L'. lex_word A (offset L) L = Some L' \<and> advanced L [(keyword_kind (c # s), c # s)] L'"
    using consume_while_at [OF assms(2), of ?p] push whole
    by (simp add: lex_word_def advanced_def del: takeWhile.simps str_len_simps)
qed

text \<open>
  C32: A name the server accepts for a rename is one identifier to the lexer: lexing it yields a single
  identifier token with the whole name, and the end marker.
\<close>

theorem valid_identifier_is_token:
  assumes "letters_visible A" and "is_valid_identifier A name"
  shows "map_option (\<lambda>res. map (\<lambda>t. (token_kind t, token_text t)) (result_tokens res)) (lex A i name) = Some [(Identifier, name), (Eof, [])]"
proof -
  obtain c s where name: "name = c # s" using assms(2) by (cases name) auto
  have kind: "keyword_kind name = Identifier" using assms(2) name keyword_names_lexed by auto
  define L1 where "L1 =
    (if str_len name > u32_max
     then (Lexer_new i name)\<lparr>diagnostics := [with_code (Diagnostic_error i (TextRange_empty u32_max)
             (ascii ''source exceeds the 32-bit byte-range limit'')) (ascii ''OML0001'')]\<rparr>
     else Lexer_new i name)"
  have at: "at L1 [] (c # s)" and L1: "tokens L1 = []" "offset L1 = 0" by (simp_all add: L1_def at_def Lexer_new_def name)
  from assms(2) name have "c = 95 \<or> is_alphabetic A c" "list_all (\<lambda>c. c = 95 \<or> is_alphanumeric A c) s" by simp_all
  note word = lex_word_whole [OF assms(1) at this]
  from word obtain L' where L': "lex_one A L1 = Some L'" "advanced L1 [(Identifier, name)] L'" using kind name by auto
  have "source L1 = name" using at name by (simp add: at_def)
  then have "offset L1 < str_len (source L1)" "\<not> offset L' < str_len (source L')"
    using L'(2) L1(2) name by (simp_all add: advanced_def add_pos_nonneg)
  then have "lex_loop A L1 = Some L'" using L'(1) by (subst lex_loop.simps) (simp add: lex_loop.simps [of A L'])
  moreover have "tokens L' = tile 0 [(Identifier, name)]" using L'(2) L1 by (simp add: advanced_def)
  ultimately show ?thesis
    unfolding lex_def Let_def L1_def [symmetric] by (simp add: Token_new_def)
qed

lemma valid_identifier_is_token_witness:
  "map_option (\<lambda>res. map (\<lambda>t. (token_kind t, token_text t)) (result_tokens res))
     (lex \<lparr>wide_alphabetic = \<lambda>_. False, wide_numeric = \<lambda>_. False\<rparr> 1 (ascii ''ends'')) = Some [(Identifier, ascii ''ends''), (Eof, [])]"
proof (rule valid_identifier_is_token)
  show "letters_visible \<lparr>wide_alphabetic = \<lambda>_. False, wide_numeric = \<lambda>_. False\<rparr>" by (simp add: letters_visible_def)
  show "is_valid_identifier \<lparr>wide_alphabetic = \<lambda>_. False, wide_numeric = \<lambda>_. False\<rparr> (ascii ''ends'')" by code_simp
qed

end
