(* ===== verification/Lsp_Server.thy ===== *)
theory Lsp_Server
  imports Lsp_Protocol Lsp_Transport Lsp_Identifier
begin

section \<open>The language server (openmat-lsp/src/server.rs)\<close>

text \<open>
  The state machine of the server with every request handler, and the loop over a connection. The symbol
  index and the language features (index.rs, language.rs) are arguments: the handlers only pass documents
  and positions to them and turn what they return into JSON. So are \<open>serde_json\<close>'s parser and printer.
\<close>

datatype ServerState = Uninitialized | Running | Shutdown | Exited

datatype RunOutcome = CleanExit | ExitWithoutShutdown | EndOfStream

record ('p, 'h, 'i) Features =
  front_end :: "('p, 'h) FrontEnd"
  char_table :: CharTable
  build_index :: "('p, 'h) DocumentStore \<Rightarrow> 'i"
  empty_index :: 'i
  index_definition :: "'i \<Rightarrow> str \<Rightarrow> Position \<Rightarrow> Location option"
  index_references :: "'i \<Rightarrow> str \<Rightarrow> Position \<Rightarrow> bool \<Rightarrow> Location list option"
  index_prepare_rename :: "'i \<Rightarrow> str \<Rightarrow> Position \<Rightarrow> PrepareRename option"
  rename_block_reason :: "'i \<Rightarrow> str \<Rightarrow> Position \<Rightarrow> str option"
  rename_target_block_reason :: "'i \<Rightarrow> str \<Rightarrow> Position \<Rightarrow> str \<Rightarrow> str option"
  index_rename :: "'i \<Rightarrow> ('p, 'h) DocumentStore \<Rightarrow> str \<Rightarrow> Position \<Rightarrow> str \<Rightarrow> WorkspaceEdit option"
  lsp_diagnostics :: "('p, 'h) Document \<Rightarrow> LspDiagnostic list"
  document_symbols :: "('p, 'h) Document \<Rightarrow> DocumentSymbol list"
  language_hover :: "('p, 'h) Document \<Rightarrow> Position \<Rightarrow> Hover option"
  language_completion :: "('p, 'h) Document \<Rightarrow> Position \<Rightarrow> CompletionItem list"
  language_resolve_completion :: "('p, 'h) Document \<Rightarrow> str \<Rightarrow> Position \<Rightarrow> CompletionResolution option"
  language_semantic_tokens :: "('p, 'h) DocumentStore \<Rightarrow> ('p, 'h) Document \<Rightarrow> nat list"
  workspace_symbols :: "('p, 'h) DocumentStore \<Rightarrow> str \<Rightarrow> WorkspaceSymbol list"
  language_formatting :: "('p, 'h) Document \<Rightarrow> TextEdit list"
  code_actions :: "('p, 'h) Document \<Rightarrow> Range \<Rightarrow> LspDiagnostic list \<Rightarrow> CodeAction list"
  package_version :: str

record ('p, 'h, 'i) Server =
  documents :: "('p, 'h) DocumentStore"
  symbols :: 'i
  server_state :: ServerState
  clean_exit :: bool

definition Server_new :: "('p, 'h, 'i) Features \<Rightarrow> ('p, 'h, 'i) Server" where
  "Server_new X = \<lparr>documents = DocumentStore_new, symbols = empty_index X, server_state = Uninitialized, clean_exit = False\<rparr>"

definition should_exit :: "('p, 'h, 'i) Server \<Rightarrow> bool" where
  "should_exit s \<longleftrightarrow> server_state s = Exited"

definition exit_outcome :: "('p, 'h, 'i) Server \<Rightarrow> RunOutcome" where
  "exit_outcome s = (if clean_exit s then CleanExit else ExitWithoutShutdown)"

definition server_replace_workspace ::
  "('p, 'h, 'i) Features \<Rightarrow> WorkspaceSnapshot \<Rightarrow> ('p, 'h, 'i) Server \<Rightarrow> (DocumentError, bool) result \<times> ('p, 'h, 'i) Server" where
  "server_replace_workspace X n s =
     (case replace_workspace_documents (front_end X) n (documents s) of
        (Err e, d) \<Rightarrow> (Err e, s\<lparr>documents := d\<rparr>)
      | (Ok changed, d) \<Rightarrow> (Ok changed, s\<lparr>documents := d, symbols := (if changed then build_index X d else symbols s)\<rparr>))"

subsection \<open>Messages\<close>

definition jsonrpc :: "str \<times> JsonValue" where
  "jsonrpc = (ascii ''jsonrpc'', jstr ''2.0'')"

definition success_response :: "JsonValue \<Rightarrow> JsonValue \<Rightarrow> JsonValue" where
  "success_response i result = jobject [jsonrpc, (ascii ''id'', i), (ascii ''result'', result)]"

definition error_response :: "JsonValue \<Rightarrow> int \<Rightarrow> str \<Rightarrow> JsonValue" where
  "error_response i code message =
     jobject [jsonrpc, (ascii ''id'', i), (ascii ''error'', jobject [(ascii ''code'', jint code), (ascii ''message'', JString message)])]"

definition request_error :: "JsonValue option \<Rightarrow> int \<Rightarrow> str \<Rightarrow> JsonValue list" where
  "request_error i code message = (case i of None \<Rightarrow> [] | Some j \<Rightarrow> [error_response j code message])"

definition invalid_params :: "JsonValue \<Rightarrow> JsonValue list" where
  "invalid_params i = request_error (Some i) (- 32602) (ascii ''Invalid params'')"

definition publish_message :: "(str \<times> JsonValue) list \<Rightarrow> JsonValue" where
  "publish_message params = jobject [jsonrpc, (ascii ''method'', jstr ''textDocument/publishDiagnostics''), (ascii ''params'', jobject params)]"

definition publish_diagnostics :: "('p, 'h, 'i) Features \<Rightarrow> ('p, 'h) Document \<Rightarrow> JsonValue" where
  "publish_diagnostics X d =
     publish_message [(ascii ''uri'', JString (doc_uri d)), (ascii ''version'', jint (version d)),
       (ascii ''diagnostics'', JArray (map diagnostic_value (lsp_diagnostics X d)))]"

definition initialize_result :: "('p, 'h, 'i) Features \<Rightarrow> JsonValue" where
  "initialize_result X =
     jobject [(ascii ''capabilities'', jobject [
         (ascii ''positionEncoding'', jstr ''utf-16''),
         (ascii ''textDocumentSync'', jobject [(ascii ''openClose'', JBool True), (ascii ''change'', jnat 1)]),
         (ascii ''documentSymbolProvider'', JBool True), (ascii ''hoverProvider'', JBool True),
         (ascii ''completionProvider'', jobject [(ascii ''resolveProvider'', JBool True)]),
         (ascii ''definitionProvider'', JBool True), (ascii ''referencesProvider'', JBool True),
         (ascii ''renameProvider'', jobject [(ascii ''prepareProvider'', JBool True)]),
         (ascii ''semanticTokensProvider'', jobject [
           (ascii ''legend'', jobject [(ascii ''tokenTypes'', JArray (map JString SEMANTIC_TOKEN_TYPES)), (ascii ''tokenModifiers'', JArray [])]),
           (ascii ''range'', JBool False), (ascii ''full'', JBool True)]),
         (ascii ''workspaceSymbolProvider'', JBool True), (ascii ''documentFormattingProvider'', JBool True),
         (ascii ''codeActionProvider'', jobject [(ascii ''codeActionKinds'', JArray [jstr ''quickfix'']), (ascii ''resolveProvider'', JBool False)])]),
       (ascii ''serverInfo'', jobject [(ascii ''name'', jstr ''openmat-lsp''), (ascii ''version'', JString (package_version X))])]"

definition document_uri :: "JsonValue \<Rightarrow> str option" where
  "document_uri params = do { d \<leftarrow> field ''textDocument'' params; u \<leftarrow> field ''uri'' d; as_str u }"

definition request_position :: "JsonValue \<Rightarrow> Position option" where
  "request_position params = do { p \<leftarrow> field ''position'' params; position_from_value p }"

definition get_i32 :: "string \<Rightarrow> JsonValue \<Rightarrow> int option" where
  "get_i32 k v = do { n \<leftarrow> field k v; i \<leftarrow> as_i64 n; i32_from i }"

definition get_str :: "string \<Rightarrow> JsonValue \<Rightarrow> str option" where
  "get_str k v = Option.bind (field k v) as_str"

subsection \<open>Document synchronization\<close>

definition after_change ::
  "('p, 'h, 'i) Features \<Rightarrow> str \<Rightarrow> ('p, 'h) DocumentStore \<Rightarrow> ('p, 'h, 'i) Server \<Rightarrow> JsonValue list \<times> ('p, 'h, 'i) Server" where
  "after_change X uri d s =
     (let s1 = s\<lparr>documents := d, symbols := build_index X d\<rparr> in
      (case bt_get (open_documents (documents s1)) uri of None \<Rightarrow> [] | Some doc \<Rightarrow> [publish_diagnostics X doc], s1))"

definition handle_did_open ::
  "('p, 'h, 'i) Features \<Rightarrow> JsonValue \<Rightarrow> ('p, 'h, 'i) Server \<Rightarrow> JsonValue list \<times> ('p, 'h, 'i) Server" where
  "handle_did_open X params s =
     (case do { td \<leftarrow> field ''textDocument'' params; uri \<leftarrow> get_str ''uri'' td; v \<leftarrow> get_i32 ''version'' td;
                t \<leftarrow> get_str ''text'' td; Some (uri, v, t) } of
        None \<Rightarrow> ([], s)
      | Some (uri, v, t) \<Rightarrow>
          (case did_open (front_end X) uri v t (documents s) of
             (Err e, d) \<Rightarrow> ([], s\<lparr>documents := d\<rparr>)
           | (Ok _, d) \<Rightarrow> after_change X uri d s))"

text \<open>Only one change of the whole text is accepted.\<close>

definition full_change :: "JsonValue \<Rightarrow> str option" where
  "full_change params = do {
     c \<leftarrow> field ''contentChanges'' params;
     changes \<leftarrow> as_array c;
     change \<leftarrow> (case changes of [x] \<Rightarrow> Some x | _ \<Rightarrow> None);
     (if field ''range'' change \<noteq> None \<and> field ''range'' change \<noteq> Some JNull then None else get_str ''text'' change) }"

definition handle_did_change ::
  "('p, 'h, 'i) Features \<Rightarrow> JsonValue \<Rightarrow> ('p, 'h, 'i) Server \<Rightarrow> JsonValue list \<times> ('p, 'h, 'i) Server" where
  "handle_did_change X params s =
     (case do { td \<leftarrow> field ''textDocument'' params; uri \<leftarrow> get_str ''uri'' td; v \<leftarrow> get_i32 ''version'' td;
                t \<leftarrow> full_change params; Some (uri, v, t) } of
        None \<Rightarrow> ([], s)
      | Some (uri, v, t) \<Rightarrow>
          (case did_change (front_end X) uri v t (documents s) of
             (Err e, d) \<Rightarrow> ([], s\<lparr>documents := d\<rparr>)
           | (Ok _, d) \<Rightarrow> after_change X uri d s))"

definition handle_did_close ::
  "('p, 'h, 'i) Features \<Rightarrow> JsonValue \<Rightarrow> ('p, 'h, 'i) Server \<Rightarrow> JsonValue list \<times> ('p, 'h, 'i) Server" where
  "handle_did_close X params s =
     (case document_uri params of
        None \<Rightarrow> ([], s)
      | Some uri \<Rightarrow>
          (case did_close uri (documents s) of
             (Err e, d) \<Rightarrow> ([], s\<lparr>documents := d\<rparr>)
           | (Ok _, d) \<Rightarrow>
               ([publish_message [(ascii ''uri'', JString uri), (ascii ''diagnostics'', JArray [])]],
                s\<lparr>documents := d, symbols := build_index X d\<rparr>)))"

subsection \<open>Requests\<close>

text \<open>The document behind the parameters, where a missing one is the result null.\<close>

definition on_open_document ::
  "('p, 'h, 'i) Server \<Rightarrow> str \<Rightarrow> (('p, 'h) Document \<Rightarrow> JsonValue) \<Rightarrow> JsonValue" where
  "on_open_document s uri f = (case bt_get (open_documents (documents s)) uri of None \<Rightarrow> JNull | Some d \<Rightarrow> f d)"

definition or_null :: "('a \<Rightarrow> JsonValue) \<Rightarrow> 'a option \<Rightarrow> JsonValue" where
  "or_null f x = (case x of None \<Rightarrow> JNull | Some a \<Rightarrow> f a)"

definition request_document_symbol :: "('p, 'h, 'i) Features \<Rightarrow> JsonValue \<Rightarrow> JsonValue \<Rightarrow> ('p, 'h, 'i) Server \<Rightarrow> JsonValue list" where
  "request_document_symbol X i params s =
     (case document_uri params of
        None \<Rightarrow> invalid_params i
      | Some uri \<Rightarrow>
          [success_response i (on_open_document s uri (\<lambda>d. JArray (map document_symbol_value (document_symbols X d))))])"

definition request_hover :: "('p, 'h, 'i) Features \<Rightarrow> JsonValue \<Rightarrow> JsonValue \<Rightarrow> ('p, 'h, 'i) Server \<Rightarrow> JsonValue list" where
  "request_hover X i params s =
     (case (document_uri params, request_position params) of
        (Some uri, Some p) \<Rightarrow> [success_response i (on_open_document s uri (\<lambda>d. or_null hover_value (language_hover X d p)))]
      | _ \<Rightarrow> invalid_params i)"

definition request_completion :: "('p, 'h, 'i) Features \<Rightarrow> JsonValue \<Rightarrow> JsonValue \<Rightarrow> ('p, 'h, 'i) Server \<Rightarrow> JsonValue list" where
  "request_completion X i params s =
     (case (document_uri params, request_position params) of
        (Some uri, Some p) \<Rightarrow>
          [success_response i (on_open_document s uri (\<lambda>d. JArray (map completion_item_value (language_completion X d p))))]
      | _ \<Rightarrow> invalid_params i)"

definition request_definition :: "('p, 'h, 'i) Features \<Rightarrow> JsonValue \<Rightarrow> JsonValue \<Rightarrow> ('p, 'h, 'i) Server \<Rightarrow> JsonValue list" where
  "request_definition X i params s =
     (case (document_uri params, request_position params) of
        (Some uri, Some p) \<Rightarrow>
          if get_effective (documents s) uri = None then [success_response i JNull]
          else [success_response i (or_null location_value (index_definition X (symbols s) uri p))]
      | _ \<Rightarrow> invalid_params i)"

definition request_references :: "('p, 'h, 'i) Features \<Rightarrow> JsonValue \<Rightarrow> JsonValue \<Rightarrow> ('p, 'h, 'i) Server \<Rightarrow> JsonValue list" where
  "request_references X i params s =
     (case (document_uri params, request_position params,
            do { c \<leftarrow> field ''context'' params; b \<leftarrow> field ''includeDeclaration'' c; as_bool b }) of
        (Some uri, Some p, Some include) \<Rightarrow>
          if get_effective (documents s) uri = None then [success_response i JNull]
          else [success_response i (or_null (\<lambda>ls. JArray (map location_value ls)) (index_references X (symbols s) uri p include))]
      | _ \<Rightarrow> invalid_params i)"

definition index_incomplete :: "JsonValue \<Rightarrow> JsonValue list" where
  "index_incomplete i =
     request_error (Some i) (- 32803) (ascii ''Workspace index is incomplete; rename is temporarily unavailable'')"

definition request_prepare_rename :: "('p, 'h, 'i) Features \<Rightarrow> JsonValue \<Rightarrow> JsonValue \<Rightarrow> ('p, 'h, 'i) Server \<Rightarrow> JsonValue list" where
  "request_prepare_rename X i params s =
     (case (document_uri params, request_position params) of
        (Some uri, Some p) \<Rightarrow>
          if \<not> workspace_index_complete (documents s) then index_incomplete i
          else
            (case rename_block_reason X (symbols s) uri p of
               Some reason \<Rightarrow> request_error (Some i) (- 32803) reason
             | None \<Rightarrow>
                 if get_effective (documents s) uri = None then [success_response i JNull]
                 else [success_response i (or_null prepare_rename_value (index_prepare_rename X (symbols s) uri p))])
      | _ \<Rightarrow> invalid_params i)"

definition request_rename :: "('p, 'h, 'i) Features \<Rightarrow> JsonValue \<Rightarrow> JsonValue \<Rightarrow> ('p, 'h, 'i) Server \<Rightarrow> JsonValue list" where
  "request_rename X i params s =
     (case (document_uri params, request_position params, get_str ''newName'' params) of
        (Some uri, Some p, Some new_name) \<Rightarrow>
          if \<not> is_valid_identifier (char_table X) new_name
          then request_error (Some i) (- 32602) (ascii ''Invalid rename identifier'')
          else if \<not> workspace_index_complete (documents s) then index_incomplete i
          else
            (case rename_target_block_reason X (symbols s) uri p new_name of
               Some reason \<Rightarrow> request_error (Some i) (- 32803) reason
             | None \<Rightarrow>
                 if get_effective (documents s) uri = None then [success_response i JNull]
                 else [success_response i (or_null workspace_edit_value (index_rename X (symbols s) (documents s) uri p new_name))])
      | _ \<Rightarrow> invalid_params i)"

definition request_semantic_tokens :: "('p, 'h, 'i) Features \<Rightarrow> JsonValue \<Rightarrow> JsonValue \<Rightarrow> ('p, 'h, 'i) Server \<Rightarrow> JsonValue list" where
  "request_semantic_tokens X i params s =
     (case document_uri params of
        None \<Rightarrow> invalid_params i
      | Some uri \<Rightarrow>
          [success_response i (on_open_document s uri (\<lambda>d.
             jobject [(ascii ''data'', JArray (map jnat (language_semantic_tokens X (documents s) d)))]))])"

definition request_workspace_symbol :: "('p, 'h, 'i) Features \<Rightarrow> JsonValue \<Rightarrow> JsonValue \<Rightarrow> ('p, 'h, 'i) Server \<Rightarrow> JsonValue list" where
  "request_workspace_symbol X i params s =
     (case get_str ''query'' params of
        None \<Rightarrow> invalid_params i
      | Some query \<Rightarrow> [success_response i (JArray (map workspace_symbol_value (workspace_symbols X (documents s) query)))])"

definition request_formatting :: "('p, 'h, 'i) Features \<Rightarrow> JsonValue \<Rightarrow> JsonValue \<Rightarrow> ('p, 'h, 'i) Server \<Rightarrow> JsonValue list" where
  "request_formatting X i params s =
     (case document_uri params of
        None \<Rightarrow> invalid_params i
      | Some uri \<Rightarrow>
          if \<not> (case field ''options'' params of None \<Rightarrow> False | Some v \<Rightarrow> is_object v) then invalid_params i
          else [success_response i (on_open_document s uri (\<lambda>d. JArray (map text_edit_value (language_formatting X d))))])"

definition request_code_action :: "('p, 'h, 'i) Features \<Rightarrow> JsonValue \<Rightarrow> JsonValue \<Rightarrow> ('p, 'h, 'i) Server \<Rightarrow> JsonValue list" where
  "request_code_action X i params s =
     (case do { uri \<leftarrow> document_uri params; r \<leftarrow> field ''range'' params; whole \<leftarrow> range_from_value r;
                context \<leftarrow> field ''context'' params; d \<leftarrow> field ''diagnostics'' context; ds \<leftarrow> as_array d;
                Some (uri, whole, context, ds) } of
        None \<Rightarrow> invalid_params i
      | Some (uri, whole, context, ds) \<Rightarrow>
          let permits_quick_fix =
            (case Option.bind (field ''only'' context) as_array of
               None \<Rightarrow> True
             | Some only \<Rightarrow> list_ex (\<lambda>kind. as_str kind = Some (ascii ''quickfix'')) only)
          in [success_response i
               (if permits_quick_fix
                then on_open_document s uri (\<lambda>d.
                       JArray (map code_action_value (code_actions X d whole (List.map_filter diagnostic_from_value ds))))
                else JArray [])])"

definition position_le :: "Position \<Rightarrow> Position \<Rightarrow> bool" where
  "position_le p q \<longleftrightarrow> line p < line q \<or> line p = line q \<and> character p \<le> character q"

definition edit_range_in :: "('p, 'h) Document \<Rightarrow> JsonValue \<Rightarrow> Range option" where
  "edit_range_in d params = do {
     e \<leftarrow> field ''textEdit'' params;
     r \<leftarrow> field ''range'' e;
     whole \<leftarrow> range_from_value r;
     (if position_le (start_position whole) (end_position whole) \<and>
         document_position_to_byte d (start_position whole) \<noteq> None \<and> document_position_to_byte d (end_position whole) \<noteq> None
      then Some whole else None) }"

definition resolved_item :: "JsonValue \<Rightarrow> CompletionResolution option \<Rightarrow> JsonValue" where
  "resolved_item params r =
     (case r of
        None \<Rightarrow> params
      | Some x \<Rightarrow>
          json_set (ascii ''documentation'')
            (jobject [(ascii ''kind'', jstr ''markdown''), (ascii ''value'', JString (resolution_markdown x))])
            (json_set (ascii ''detail'') (JString (resolution_detail x)) params))"

definition request_resolve_completion :: "('p, 'h, 'i) Features \<Rightarrow> JsonValue \<Rightarrow> JsonValue \<Rightarrow> ('p, 'h, 'i) Server \<Rightarrow> JsonValue list" where
  "request_resolve_completion X i params s =
     (case (get_str ''label'' params, field ''data'' params) of
        (Some label, Some data) \<Rightarrow>
          (case (get_str ''uri'' data, get_i32 ''version'' data) of
             (Some uri, Some v) \<Rightarrow>
               (case bt_get (open_documents (documents s)) uri of
                  None \<Rightarrow> request_error (Some i) (- 32602) (ascii ''Completion document is not open'')
                | Some d \<Rightarrow>
                    if version d \<noteq> v then request_error (Some i) (- 32602) (ascii ''Stale completion item'')
                    else
                      (case edit_range_in d params of
                         None \<Rightarrow> request_error (Some i) (- 32602) (ascii ''Invalid completion edit range'')
                       | Some whole \<Rightarrow>
                           [success_response i (resolved_item params (language_resolve_completion X d label (end_position whole)))]))
           | _ \<Rightarrow> request_error (Some i) (- 32602) (ascii ''Invalid completion item data''))
      | _ \<Rightarrow> request_error (Some i) (- 32602) (ascii ''Invalid completion item''))"

subsection \<open>Dispatch\<close>

text \<open>A request handler answers requests only; a notification of its method is dropped.\<close>

definition for_request :: "JsonValue option \<Rightarrow> (JsonValue \<Rightarrow> JsonValue list) \<Rightarrow> JsonValue list" where
  "for_request i f = (case i of None \<Rightarrow> [] | Some j \<Rightarrow> f j)"

definition answer :: "('p, 'h, 'i) Server \<Rightarrow> JsonValue list \<Rightarrow> JsonValue list \<times> ('p, 'h, 'i) Server" where
  "answer s rs = (rs, s)"

definition handle_uninitialized ::
  "('p, 'h, 'i) Features \<Rightarrow> str \<Rightarrow> JsonValue option \<Rightarrow> ('p, 'h, 'i) Server \<Rightarrow> JsonValue list \<times> ('p, 'h, 'i) Server" where
  "handle_uninitialized X meth i s =
     (if meth = ascii ''initialize'' \<and> i \<noteq> None
      then (for_request i (\<lambda>j. [success_response j (initialize_result X)]), s\<lparr>server_state := Running\<rparr>)
      else if meth = ascii ''exit'' then ([], s\<lparr>server_state := Exited, clean_exit := False\<rparr>)
      else answer s (request_error i (- 32002) (ascii ''Server not initialized'')))"

definition handle_running ::
  "('p, 'h, 'i) Features \<Rightarrow> str \<Rightarrow> JsonValue option \<Rightarrow> JsonValue \<Rightarrow> ('p, 'h, 'i) Server \<Rightarrow> JsonValue list \<times> ('p, 'h, 'i) Server" where
  "handle_running X meth i params s =
     (if meth = ascii ''initialize'' then answer s (request_error i (- 32600) (ascii ''Initialize request already received''))
      else if meth = ascii ''shutdown'' \<and> i \<noteq> None
      then (for_request i (\<lambda>j. [success_response j JNull]), s\<lparr>server_state := Shutdown\<rparr>)
      else if meth = ascii ''exit'' then ([], s\<lparr>server_state := Exited, clean_exit := False\<rparr>)
      else if meth = ascii ''textDocument/didOpen'' then handle_did_open X params s
      else if meth = ascii ''textDocument/didChange'' then handle_did_change X params s
      else if meth = ascii ''textDocument/didClose'' then handle_did_close X params s
      else if meth = ascii ''textDocument/documentSymbol'' then answer s (for_request i (\<lambda>j. request_document_symbol X j params s))
      else if meth = ascii ''textDocument/hover'' then answer s (for_request i (\<lambda>j. request_hover X j params s))
      else if meth = ascii ''textDocument/completion'' then answer s (for_request i (\<lambda>j. request_completion X j params s))
      else if meth = ascii ''textDocument/definition'' then answer s (for_request i (\<lambda>j. request_definition X j params s))
      else if meth = ascii ''textDocument/references'' then answer s (for_request i (\<lambda>j. request_references X j params s))
      else if meth = ascii ''textDocument/prepareRename'' then answer s (for_request i (\<lambda>j. request_prepare_rename X j params s))
      else if meth = ascii ''textDocument/rename'' then answer s (for_request i (\<lambda>j. request_rename X j params s))
      else if meth = ascii ''textDocument/semanticTokens/full'' then answer s (for_request i (\<lambda>j. request_semantic_tokens X j params s))
      else if meth = ascii ''workspace/symbol'' then answer s (for_request i (\<lambda>j. request_workspace_symbol X j params s))
      else if meth = ascii ''textDocument/formatting'' then answer s (for_request i (\<lambda>j. request_formatting X j params s))
      else if meth = ascii ''textDocument/codeAction'' then answer s (for_request i (\<lambda>j. request_code_action X j params s))
      else if meth = ascii ''completionItem/resolve'' then answer s (for_request i (\<lambda>j. request_resolve_completion X j params s))
      else answer s (request_error i (- 32601) (ascii ''Method not found'')))"

definition handle_shutdown :: "str \<Rightarrow> JsonValue option \<Rightarrow> ('p, 'h, 'i) Server \<Rightarrow> JsonValue list \<times> ('p, 'h, 'i) Server" where
  "handle_shutdown meth i s =
     (if meth = ascii ''exit'' then ([], s\<lparr>server_state := Exited, clean_exit := True\<rparr>)
      else answer s (request_error i (- 32600) (ascii ''Server has shut down'')))"

definition or_json_null :: "JsonValue option \<Rightarrow> JsonValue" where
  "or_json_null v = (case v of None \<Rightarrow> JNull | Some x \<Rightarrow> x)"

definition handle_message ::
  "('p, 'h, 'i) Features \<Rightarrow> JsonValue \<Rightarrow> ('p, 'h, 'i) Server \<Rightarrow> JsonValue list \<times> ('p, 'h, 'i) Server" where
  "handle_message X message s =
     (if \<not> is_object message then ([error_response JNull (- 32600) (ascii ''Invalid Request'')], s)
      else if get_str ''jsonrpc'' message \<noteq> Some (ascii ''2.0'')
      then ([error_response (or_json_null (field ''id'' message)) (- 32600) (ascii ''Invalid Request'')], s)
      else
        (case get_str ''method'' message of
           None \<Rightarrow> ([error_response (or_json_null (field ''id'' message)) (- 32600) (ascii ''Invalid Request'')], s)
         | Some meth \<Rightarrow>
             let i = field ''id'' message; params = or_json_null (field ''params'' message) in
             (case server_state s of
                Uninitialized \<Rightarrow> handle_uninitialized X meth i s
              | Running \<Rightarrow> handle_running X meth i params s
              | Shutdown \<Rightarrow> handle_shutdown meth i s
              | Exited \<Rightarrow> ([], s))))"

definition handle_json ::
  "(bytes \<Rightarrow> JsonValue option) \<Rightarrow> ('p, 'h, 'i) Features \<Rightarrow> bytes \<Rightarrow> ('p, 'h, 'i) Server \<Rightarrow> JsonValue list \<times> ('p, 'h, 'i) Server" where
  "handle_json from_slice X body s =
     (case from_slice body of
        Some message \<Rightarrow> handle_message X message s
      | None \<Rightarrow> ([error_response JNull (- 32700) (ascii ''Parse error'')], s))"

subsection \<open>The connection\<close>

datatype ('e, 'j) ConnectionError = Framing "'e FramingError" | Json 'j

text \<open>Writing every response; printing one may fail.\<close>

fun write_responses :: "(JsonValue \<Rightarrow> ('j, bytes) result) \<Rightarrow> JsonValue list \<Rightarrow> bytes \<Rightarrow> ('j, unit) result \<times> bytes" where
  "write_responses to_vec [] written = (Ok (), written)"
| "write_responses to_vec (v # vs) written =
     (case to_vec v of
        Err e \<Rightarrow> (Err e, written)
      | Ok body \<Rightarrow> write_responses to_vec vs (write_message written body))"

function run_loop ::
  "(bytes \<Rightarrow> JsonValue option) \<Rightarrow> (JsonValue \<Rightarrow> ('j, bytes) result) \<Rightarrow> ('p, 'h, 'i) Features \<Rightarrow> 'e Reader \<Rightarrow> ('p, 'h, 'i) Server \<Rightarrow> bytes
     \<Rightarrow> (('e, 'j) ConnectionError, RunOutcome) result \<times> ('p, 'h, 'i) Server \<times> bytes" where
  "run_loop from_slice to_vec X r s written =
     (case read_message r of
        (Inl e, r') \<Rightarrow> (Err (Framing e), s, written)
      | (Inr None, r') \<Rightarrow> (Ok EndOfStream, s, written)
      | (Inr (Some body), r') \<Rightarrow>
          (case handle_json from_slice X body s of
             (responses, s') \<Rightarrow>
               (case write_responses to_vec responses written of
                  (Inl e, written') \<Rightarrow> (Err (Json e), s', written')
                | (Inr _, written') \<Rightarrow>
                    if should_exit s' then (Ok (exit_outcome s'), s', written')
                    else run_loop from_slice to_vec X r' s' written')))"
  by pat_completeness auto
termination
  by (relation "measure (\<lambda>(_, _, _, r, _). length (pending r))") (auto dest: read_message_shorter [OF sym])

declare run_loop.simps [simp del]

definition run_connection ::
  "(bytes \<Rightarrow> JsonValue option) \<Rightarrow> (JsonValue \<Rightarrow> ('j, bytes) result) \<Rightarrow> ('p, 'h, 'i) Features \<Rightarrow> 'e Reader \<Rightarrow> bytes
     \<Rightarrow> (('e, 'j) ConnectionError, RunOutcome) result \<times> ('p, 'h, 'i) Server \<times> bytes" where
  "run_connection from_slice to_vec X r written = run_loop from_slice to_vec X r (Server_new X) written"

subsection \<open>The life of a server\<close>

text \<open>What a message is to the life of a server, and the automaton of that life: the state, and whether
  the exit was clean.\<close>

datatype Event = InitializeRequest | ShutdownRequest | ExitMessage | OtherMessage

definition message_method :: "JsonValue \<Rightarrow> str option" where
  "message_method m =
     (if is_object m \<and> get_str ''jsonrpc'' m = Some (ascii ''2.0'') then get_str ''method'' m else None)"

definition event_of :: "JsonValue \<Rightarrow> Event" where
  "event_of m =
     (if message_method m = Some (ascii ''initialize'') \<and> field ''id'' m \<noteq> None then InitializeRequest
      else if message_method m = Some (ascii ''shutdown'') \<and> field ''id'' m \<noteq> None then ShutdownRequest
      else if message_method m = Some (ascii ''exit'') then ExitMessage
      else OtherMessage)"

fun life :: "ServerState \<times> bool \<Rightarrow> Event \<Rightarrow> ServerState \<times> bool" where
  "life (Uninitialized, clean) InitializeRequest = (Running, clean)"
| "life (Uninitialized, clean) ExitMessage = (Exited, False)"
| "life (Running, clean) ShutdownRequest = (Shutdown, clean)"
| "life (Running, clean) ExitMessage = (Exited, False)"
| "life (Shutdown, clean) ExitMessage = (Exited, True)"
| "life state _ = state"

definition life_of :: "('p, 'h, 'i) Server \<Rightarrow> ServerState \<times> bool" where
  "life_of s = (server_state s, clean_exit s)"

lemma handle_did_life:
  "life_of (snd (handle_did_open X params s)) = life_of s"
  "life_of (snd (handle_did_change X params s)) = life_of s"
  "life_of (snd (handle_did_close X params s)) = life_of s"
  by (auto simp: handle_did_open_def handle_did_change_def handle_did_close_def after_change_def life_of_def Let_def
      split: option.splits prod.splits sum.splits)

lemma handle_did_documents:
  "store_step (front_end X) (documents s) (documents (snd (handle_did_open X params s))) \<or>
     documents (snd (handle_did_open X params s)) = documents s"
  "store_step (front_end X) (documents s) (documents (snd (handle_did_change X params s))) \<or>
     documents (snd (handle_did_change X params s)) = documents s"
  "store_step (front_end X) (documents s) (documents (snd (handle_did_close X params s))) \<or>
     documents (snd (handle_did_close X params s)) = documents s"
  by (auto simp: handle_did_open_def handle_did_change_def handle_did_close_def after_change_def Let_def
      split: option.splits prod.splits sum.splits intro: store_step.intros)

lemma snd_answer [simp]: "snd (answer s rs) = s" "fst (answer s rs) = rs"
  by (simp_all add: answer_def)

lemma handle_running_documents:
  "store_step (front_end X) (documents s) (documents (snd (handle_running X meth i params s))) \<or>
     documents (snd (handle_running X meth i params s)) = documents s"
  using handle_did_documents [of X s params] by (simp add: handle_running_def)

lemma handle_message_documents:
  "store_step (front_end X) (documents s) (documents (snd (handle_message X m s))) \<or>
     documents (snd (handle_message X m s)) = documents s"
  using handle_running_documents [of X s]
  by (auto simp: handle_message_def handle_uninitialized_def handle_shutdown_def Let_def split: option.splits ServerState.splits)

lemma handle_message_life: "life_of (snd (handle_message X m s)) = life (life_of s) (event_of m)"
proof (cases "message_method m")
  case None
  then have "snd (handle_message X m s) = s"
    by (auto simp: handle_message_def message_method_def split: if_splits)
  moreover have "event_of m = OtherMessage" using None by (simp add: event_of_def)
  ultimately show ?thesis by (simp add: life_of_def)
next
  case (Some meth)
  then have "handle_message X m s =
      (case server_state s of
         Uninitialized \<Rightarrow> handle_uninitialized X meth (field ''id'' m) s
       | Running \<Rightarrow> handle_running X meth (field ''id'' m) (or_json_null (field ''params'' m)) s
       | Shutdown \<Rightarrow> handle_shutdown meth (field ''id'' m) s
       | Exited \<Rightarrow> ([], s))"
    by (auto simp: handle_message_def message_method_def Let_def split: if_splits)
  with Some show ?thesis
    by (cases "server_state s")
       (auto simp: event_of_def handle_uninitialized_def handle_running_def handle_shutdown_def handle_did_life,
        auto simp: life_of_def)
qed

lemma store_session_append: "store_session F S S' \<Longrightarrow> store_step F S' S'' \<or> S'' = S' \<Longrightarrow> store_session F S S''"
  by (auto intro: store_session.session_step)

lemma messages_life:
  "life_of (fold (\<lambda>m s. snd (handle_message X m s)) ms s) = foldl life (life_of s) (map event_of ms) \<and>
   (store_session (front_end X) S (documents s) \<longrightarrow>
     store_session (front_end X) S (documents (fold (\<lambda>m s. snd (handle_message X m s)) ms s)))"
proof (induction ms arbitrary: s)
  case (Cons m ms)
  then show ?case
    using handle_message_life [of X m s] handle_message_documents [of X s m] by (auto intro: store_session_append)
qed simp

text \<open>
  C10: Whatever messages arrive, the server lives by the four-state automaton of the protocol: it runs
  only after an initialize request, accepts shutdown only then, exits cleanly exactly on an exit message
  behind a shutdown, and stays exited; and its documents are those of a session of the document store,
  failing requests included.
\<close>

theorem server_follows_lifecycle:
  "life_of (fold (\<lambda>m s. snd (handle_message X m s)) ms (Server_new X)) =
     foldl life (Uninitialized, False) (map event_of ms) \<and>
   store_session (front_end X) DocumentStore_new (documents (fold (\<lambda>m s. snd (handle_message X m s)) ms (Server_new X)))"
  using messages_life [of X ms "Server_new X" DocumentStore_new] by (simp add: life_of_def Server_new_def session_here)

subsection \<open>Answers\<close>

text \<open>One response to a request: it carries the request's identifier and either a result or an error.\<close>

definition answers :: "JsonValue \<Rightarrow> JsonValue list \<Rightarrow> bool" where
  "answers i rs \<longleftrightarrow>
     (case rs of [r] \<Rightarrow> field ''id'' r = Some i \<and> (field ''result'' r = None) \<noteq> (field ''error'' r = None) | _ \<Rightarrow> False)"

definition notification_methods :: "str list" where
  "notification_methods =
     map ascii [''exit'', ''textDocument/didOpen'', ''textDocument/didChange'', ''textDocument/didClose'']"

lemma answers_success [simp]: "answers i [success_response i v]"
  by (simp add: answers_def success_response_def field_jobject jsonrpc_def)

lemma answers_error [simp]: "answers i [error_response i c m]"
  by (simp add: answers_def error_response_def field_jobject jsonrpc_def)

lemma answers_request_error [simp]: "answers i (request_error (Some i) c m)"
  by (simp add: request_error_def)

lemma answers_invalid_params [simp]: "answers i (invalid_params i)"
  by (simp add: invalid_params_def)

lemma request_handlers_answer [simp]:
  "answers i (request_document_symbol X i params s)" "answers i (request_hover X i params s)"
  "answers i (request_completion X i params s)" "answers i (request_definition X i params s)"
  "answers i (request_references X i params s)" "answers i (request_prepare_rename X i params s)"
  "answers i (request_rename X i params s)" "answers i (request_semantic_tokens X i params s)"
  "answers i (request_workspace_symbol X i params s)" "answers i (request_formatting X i params s)"
  "answers i (request_code_action X i params s)" "answers i (request_resolve_completion X i params s)"
  by (auto simp: request_document_symbol_def request_hover_def request_completion_def request_definition_def
      request_references_def request_prepare_rename_def request_rename_def request_semantic_tokens_def
      request_workspace_symbol_def request_formatting_def request_code_action_def request_resolve_completion_def
      index_incomplete_def Let_def split: option.splits prod.splits)

text \<open>
  C39: In every state but the exited one, a request of any method that is no notification of the protocol
  gets exactly one response, which carries the identifier of the request and either a result or an
  error, never both.
\<close>

theorem requests_answered_once:
  assumes "message_method m = Some meth" and "meth \<notin> set notification_methods" and "field ''id'' m = Some i"
    and "server_state s \<noteq> Exited"
  shows "answers i (fst (handle_message X m s))"
proof -
  have "handle_message X m s =
      (case server_state s of
         Uninitialized \<Rightarrow> handle_uninitialized X meth (Some i) s
       | Running \<Rightarrow> handle_running X meth (Some i) (or_json_null (field ''params'' m)) s
       | Shutdown \<Rightarrow> handle_shutdown meth (Some i) s
       | Exited \<Rightarrow> ([], s))"
    using assms(1,3) by (auto simp: handle_message_def message_method_def Let_def split: if_splits)
  with assms(2,4) show ?thesis
    by (cases "server_state s")
       (auto simp: handle_uninitialized_def handle_running_def handle_shutdown_def for_request_def notification_methods_def)
qed

definition plain_features :: "(unit, unit, unit) Features" where
  "plain_features =
     \<lparr>front_end = plain_front_end, char_table = \<lparr>wide_alphabetic = \<lambda>_. False, wide_numeric = \<lambda>_. False\<rparr>,
      build_index = \<lambda>_. (), empty_index = (), index_definition = \<lambda>_ _ _. None, index_references = \<lambda>_ _ _ _. None,
      index_prepare_rename = \<lambda>_ _ _. None, rename_block_reason = \<lambda>_ _ _. None, rename_target_block_reason = \<lambda>_ _ _ _. None,
      index_rename = \<lambda>_ _ _ _ _. None, lsp_diagnostics = \<lambda>_. [], document_symbols = \<lambda>_. [], language_hover = \<lambda>_ _. None,
      language_completion = \<lambda>_ _. [], language_resolve_completion = \<lambda>_ _ _. None, language_semantic_tokens = \<lambda>_ _. [],
      workspace_symbols = \<lambda>_ _. [], language_formatting = \<lambda>_. [], code_actions = \<lambda>_ _ _. [], package_version = [49]\<rparr>"

definition initialize_message :: JsonValue where
  "initialize_message = jobject [jsonrpc, (ascii ''id'', jnat 7), (ascii ''method'', jstr ''initialize'')]"

lemma requests_answered_once_witness:
  "answers (jnat 7) (fst (handle_message plain_features initialize_message (Server_new plain_features)))"
proof (rule requests_answered_once [where meth = "ascii ''initialize''"])
  show "message_method initialize_message = Some (ascii ''initialize'')" by code_simp
  show "ascii ''initialize'' \<notin> set notification_methods" by (simp add: notification_methods_def)
  show "field ''id'' initialize_message = Some (jnat 7)" by code_simp
  show "server_state (Server_new plain_features) \<noteq> Exited" by (simp add: Server_new_def)
qed

subsection \<open>A connection is its messages\<close>

text \<open>The reference: the bodies one after the other, until the server exits or they end.\<close>

fun serve_bodies ::
  "(bytes \<Rightarrow> JsonValue option) \<Rightarrow> (JsonValue \<Rightarrow> ('j, bytes) result) \<Rightarrow> ('p, 'h, 'i) Features \<Rightarrow> bytes list \<Rightarrow> ('p, 'h, 'i) Server \<Rightarrow> bytes
     \<Rightarrow> (('e, 'j) ConnectionError, RunOutcome) result \<times> ('p, 'h, 'i) Server \<times> bytes" where
  "serve_bodies from_slice to_vec X [] s written = (Ok EndOfStream, s, written)"
| "serve_bodies from_slice to_vec X (body # bodies) s written =
     (case handle_json from_slice X body s of
        (responses, s') \<Rightarrow>
          (case write_responses to_vec responses written of
             (Inl e, written') \<Rightarrow> (Err (Json e), s', written')
           | (Inr _, written') \<Rightarrow>
               if should_exit s' then (Ok (exit_outcome s'), s', written')
               else serve_bodies from_slice to_vec X bodies s' written'))"

lemma read_message_end:
  assumes "reliable r" and "pending r = []"
  shows "\<exists>r'. read_message r = (Ok None, r')"
proof -
  from reliable_next [OF assms(1)] obtain k where "next_outcome r = Deliver k" by blast
  with assms(2) have "read_until r = (Ok [], advance 0 r)" by (simp add: read_until_def line_length_def)
  then have "read_headers r None False = (Ok None, advance 0 r)" by (simp add: read_headers.simps [of r])
  then show ?thesis by (simp add: read_message_def)
qed

lemma run_loop_serves:
  assumes "\<forall>body \<in> set bodies. length body \<le> MAX_MESSAGE_BYTES" and "reliable r"
    and "pending r = fold (\<lambda>body written. write_message written body) bodies []"
  shows "run_loop from_slice to_vec X r s written = serve_bodies from_slice to_vec X bodies s written"
  using assms
proof (induction bodies arbitrary: r s written)
  case Nil
  then obtain r' where "read_message r = (Ok None, r')" using read_message_end [of r] by auto
  then show ?case by (simp add: run_loop.simps [of _ _ _ r])
next
  case (Cons body bodies)
  from Cons.prems(3) have "pending r = write_message [] body @ fold (\<lambda>body written. write_message written body) bodies []"
    by (simp add: fold_write [of bodies "write_message [] body"])
  from read_written [OF Cons.prems(2) this] Cons.prems(1) obtain r' where
      r': "read_message r = (Ok (Some body), r')" "reliable r'" "pending r' = fold (\<lambda>body written. write_message written body) bodies []"
    by auto
  have "run_loop from_slice to_vec X r' s' w' = serve_bodies from_slice to_vec X bodies s' w'" for s' w'
    using Cons.IH [OF _ r'(2,3)] Cons.prems(1) by simp
  with r'(1) show ?case by (simp add: run_loop.simps [of _ _ _ r] split: prod.splits sum.splits)
qed

text \<open>
  C40: A connection over a stream that does not fail is its messages: whatever bodies of admissible length
  were framed and however the stream cuts its bytes, the connection ends, with the outcome, the server
  and the output of handling the bodies one after the other up to the first exit.
\<close>

theorem connection_serves_messages:
  assumes "\<forall>body \<in> set bodies. length body \<le> MAX_MESSAGE_BYTES" and "reliable r"
    and "pending r = fold (\<lambda>body written. write_message written body) bodies []"
  shows "run_connection from_slice to_vec X r written = serve_bodies from_slice to_vec X bodies (Server_new X) written"
  unfolding run_connection_def by (rule run_loop_serves [OF assms])

text \<open>A printer that prints nothing, and a body the parser reads as an exit message.\<close>

definition exit_reader :: "unit Reader" where
  "exit_reader = \<lparr>pending = write_message (write_message [] [1]) [2], script = [Deliver 3, Deliver 1]\<rparr>"

definition exit_parser :: "bytes \<Rightarrow> JsonValue option" where
  "exit_parser body = (if body = [1] then Some (jobject [jsonrpc, (ascii ''method'', jstr ''exit'')]) else None)"

lemma connection_serves_messages_witness:
  "fst (run_connection exit_parser (\<lambda>v. Ok [] :: (unit, bytes) result) plain_features exit_reader []) = Ok ExitWithoutShutdown"
proof -
  have "run_connection exit_parser (\<lambda>v. Ok [] :: (unit, bytes) result) plain_features exit_reader [] =
      serve_bodies exit_parser (\<lambda>v. Ok []) plain_features [[1], [2]] (Server_new plain_features) []"
    by (rule connection_serves_messages) (simp_all add: reliable_def exit_reader_def MAX_MESSAGE_BYTES_def)
  moreover have "fst (serve_bodies exit_parser (\<lambda>v. Ok [] :: (unit, bytes) result) plain_features [[1], [2]] (Server_new plain_features) []
      :: ((unit, unit) ConnectionError, RunOutcome) result \<times> _) = Ok ExitWithoutShutdown" by code_simp
  ultimately show ?thesis by simp
qed

end
